(* ===== verification/Prelude.thy ===== *)
theory Prelude
  imports Complex_Main
begin

text \<open>
  Shared vocabulary of the development: the exceptions the Python code raises, the result
  type of a function that may raise, insertion-ordered dictionaries (Python's \<open>dict\<close>) as
  association lists, Python's \<open>%\<close>-style helpers on strings, and the lemma collections the
  component theories extend.

  A function of the source that can raise returns a value of \<open>'a res\<close>: \<open>Inl e\<close> is the raised
  exception, \<open>Inr x\<close> the returned value.  A dictionary is a list of key/value pairs in
  insertion order without duplicate keys: assigning to a present key keeps its position, a new
  key goes to the end, as the language specifies for \<open>dict\<close>.
\<close>

named_theorems outcome_simps \<open>what an operation returns on each of its branches\<close>
named_theorems frame_simps \<open>fields an operation leaves alone\<close>

section \<open>Exceptions and results\<close>

text \<open>
  The exception classes the modelled code raises or lets through.  Pydantic's
  \<open>ValidationError\<close> and \<open>LookaheadError\<close> derive from \<open>ValueError\<close>; \<open>caught\<close> is the handler
  \<open>except (ValueError, TypeError, KeyError)\<close> the code writes around data parsing.
\<close>

datatype exc =
    ValueError
  | TypeError
  | KeyError
  | IndexError
  | AttributeError
  | LookaheadError
  | ZeroDivisionError
  | OverflowError
  | RuntimeError
  | AssertionError
  | ValidationError
  | CostExhaustedError
  | ReplayAttemptError
  | ContractRevertError
  | UnknownMarketError
  | MissingEndDateError
  | DuplicateOrderError
  | ExternalError

definition caught :: "exc \<Rightarrow> bool" where
  "caught e = (e \<in> {ValueError, TypeError, KeyError, ValidationError, LookaheadError})"

type_synonym 'a res = "exc + 'a"

definition rbind :: "'a res \<Rightarrow> ('a \<Rightarrow> 'b res) \<Rightarrow> 'b res" where
  "rbind r f = (case r of Inl e \<Rightarrow> Inl e | Inr x \<Rightarrow> f x)"

lemma rbind_Inl [simp]: "rbind (Inl e) f = Inl e"
  by (simp add: rbind_def)

lemma rbind_Inr [simp]: "rbind (Inr x) f = f x"
  by (simp add: rbind_def)

lemma rbind_eq_Inr: "rbind r f = Inr y \<longleftrightarrow> (\<exists>x. r = Inr x \<and> f x = Inr y)"
  by (cases r) simp_all

lemma rbind_eq_InrE [elim!]:
  assumes "rbind r f = Inr y"
  obtains x where "r = Inr x" "f x = Inr y"
  using assms by (auto simp: rbind_eq_Inr)

definition guard_res :: "bool \<Rightarrow> exc \<Rightarrow> unit res" where
  "guard_res b e = (if b then Inr () else Inl e)"

lemma guard_res_eq_Inr [simp]: "guard_res b e = Inr u \<longleftrightarrow> b"
  by (simp add: guard_res_def)

lemma guard_res_eq_Inl [simp]: "guard_res b e = Inl e' \<longleftrightarrow> \<not> b \<and> e' = e"
  by (auto simp: guard_res_def)

text \<open>A comprehension whose element expression may raise: the first exception wins.\<close>

fun rmap :: "('a \<Rightarrow> 'b res) \<Rightarrow> 'a list \<Rightarrow> 'b list res" where
  "rmap f [] = Inr []"
| "rmap f (x # xs) = rbind (f x) (\<lambda>y. rbind (rmap f xs) (\<lambda>ys. Inr (y # ys)))"

lemma rmap_eq_Inr: "rmap f xs = Inr ys \<longleftrightarrow> list_all2 (\<lambda>x y. f x = Inr y) xs ys"
  by (induction xs arbitrary: ys) (auto simp: rbind_eq_Inr list_all2_Cons1)

section \<open>Insertion-ordered dictionaries\<close>

type_synonym ('k, 'v) dict = "('k \<times> 'v) list"

fun dset :: "'k \<Rightarrow> 'v \<Rightarrow> ('k, 'v) dict \<Rightarrow> ('k, 'v) dict" where
  "dset k v [] = [(k, v)]"
| "dset k v ((k', v') # d) = (if k' = k then (k, v) # d else (k', v') # dset k v d)"

abbreviation dget :: "('k, 'v) dict \<Rightarrow> 'k \<Rightarrow> 'v option" where
  "dget \<equiv> map_of"

definition dget_default :: "('k, 'v) dict \<Rightarrow> 'k \<Rightarrow> 'v \<Rightarrow> 'v" where
  "dget_default d k v = (case dget d k of None \<Rightarrow> v | Some x \<Rightarrow> x)"

lemma dget_dset: "dget (dset k v d) k' = (if k' = k then Some v else dget d k')"
  by (induction k v d rule: dset.induct) auto

lemma dget_dset_same [simp]: "dget (dset k v d) k = Some v"
  by (simp add: dget_dset)

lemma keys_dset: "fst ` set (dset k v d) = insert k (fst ` set d)"
  by (induction k v d rule: dset.induct) auto

lemma dset_keys_eq:
  "map fst (dset k v d) = (if k \<in> fst ` set d then map fst d else map fst d @ [k])"
  by (induction k v d rule: dset.induct) auto

lemma distinct_dset [simp]: "distinct (map fst d) \<Longrightarrow> distinct (map fst (dset k v d))"
  by (simp add: dset_keys_eq)

lemma dget_in_set: "distinct (map fst d) \<Longrightarrow> dget d k = Some v \<longleftrightarrow> (k, v) \<in> set d"
  by (rule map_of_eq_Some_iff)

text \<open>
  Folding a stream of keyed rows into a dictionary keeps the last value of each key: the
  left-to-right fold \<open>d[k] = v\<close> the code uses wherever an append-only file is read back.
\<close>

definition fold_dict :: "('k \<times> 'v) list \<Rightarrow> ('k, 'v) dict" where
  "fold_dict rows = foldl (\<lambda>d (k, v). dset k v d) [] rows"

lemma fold_dict_snoc: "fold_dict (rows @ [(k, v)]) = dset k v (fold_dict rows)"
  by (simp add: fold_dict_def)

lemma fold_dict_Nil [simp]: "fold_dict [] = []"
  by (simp add: fold_dict_def)

lemma distinct_fold_dict [simp]: "distinct (map fst (fold_dict rows))"
  by (induction rows rule: rev_induct) (auto simp: fold_dict_snoc)

lemma dget_fold_dict: "dget (fold_dict rows) k = map_of (rev rows) k"
proof (induction rows rule: rev_induct)
  case (snoc r rows)
  then show ?case by (cases r) (simp add: fold_dict_snoc dget_dset del: map_of_eq_Some_iff)
qed simp

lemma keys_fold_dict: "fst ` set (fold_dict rows) = fst ` set rows"
proof (induction rows rule: rev_induct)
  case (snoc r rows)
  then show ?case by (cases r) (simp add: fold_dict_snoc keys_dset)
qed simp

section \<open>Strings\<close>

definition lower_char :: "char \<Rightarrow> char" where
  "lower_char c = (let n = of_char c :: nat in if 65 \<le> n \<and> n \<le> 90 then char_of (n + 32) else c)"

definition py_lower :: "string \<Rightarrow> string" where
  "py_lower s = map lower_char s"

section \<open>Latches\<close>

text \<open>
  Several components carry a flag that is set once and never cleared: the exhausted cost guard, the
  desperate-mode latch, the terminal loop.  \<open>latch\<close> is that contract; \<open>frozen_latch\<close> adds that
  nothing moves any more once it is closed; \<open>once_emitter\<close> is a machine that emits only when it
  closes the latch, so a run emits at most once.
\<close>

locale latch =
  fixes step :: "'s \<Rightarrow> 'e \<Rightarrow> 's" and closed :: "'s \<Rightarrow> bool"
  assumes closed_step: "closed s \<Longrightarrow> closed (step s e)"
begin

lemma closed_run: "closed s \<Longrightarrow> closed (foldl step s es)"
  by (induction es arbitrary: s) (simp_all add: closed_step)

lemma open_prefix: "\<not> closed (foldl step s (es @ es')) \<Longrightarrow> \<not> closed (foldl step s es)"
  using closed_run by auto

end

locale frozen_latch = latch +
  assumes frozen_step: "closed s \<Longrightarrow> step s e = s"
begin

lemma frozen_run: "closed s \<Longrightarrow> foldl step s es = s"
  by (induction es) (simp_all add: frozen_step)

end

fun emissions :: "('s \<Rightarrow> 'e \<Rightarrow> 's \<times> 'o option) \<Rightarrow> 's \<Rightarrow> 'e list \<Rightarrow> 'o list" where
  "emissions f s [] = []"
| "emissions f s (e # es) =
     (case f s e of (s', out) \<Rightarrow> (case out of None \<Rightarrow> [] | Some x \<Rightarrow> [x]) @ emissions f s' es)"

locale once_emitter =
  fixes emit :: "'s \<Rightarrow> 'e \<Rightarrow> 's \<times> 'o option" and closed :: "'s \<Rightarrow> bool"
  assumes closes: "emit s e = (s', Some x) \<Longrightarrow> \<not> closed s \<and> closed s'"
    and stays_closed: "emit s e = (s', out) \<Longrightarrow> closed s \<Longrightarrow> closed s'"
begin

lemma no_emission_closed: "closed s \<Longrightarrow> emissions emit s es = []"
proof (induction es arbitrary: s)
  case (Cons e es)
  obtain s' out where e: "emit s e = (s', out)" by (cases "emit s e")
  then have "out = None" using closes [of s e s'] Cons.prems by (cases out) auto
  then show ?case using Cons.IH [OF stays_closed [OF e Cons.prems]] e by simp
qed simp

lemma at_most_one_emission: "length (emissions emit s es) \<le> 1"
proof (induction es arbitrary: s)
  case (Cons e es)
  obtain s' out where e: "emit s e = (s', out)" by (cases "emit s e")
  show ?case
  proof (cases out)
    case None
    then show ?thesis using Cons e by simp
  next
    case (Some x)
    then have "closed s'" using closes e by blast
    then show ?thesis using Some e no_emission_closed by simp
  qed
qed simp

end

sublocale once_emitter \<subseteq> emitter: latch "\<lambda>s e. fst (emit s e)" closed
  by unfold_locales (use stays_closed in \<open>metis prod.collapse\<close>)

end
