(* ===== verification/PyFloat.thy ===== *)
theory PyFloat
  imports Prelude
begin

text \<open>
  Python's \<open>float\<close>: IEEE 754 binary64 with round-to-nearest, ties to even, as executable
  definitions over the rationals.  A value is a finite rational, an infinity or NaN; \<open>rnd\<close>
  rounds an exact rational result to the nearest double (subnormals and overflow to infinity
  included), and every arithmetic operation is the exact operation followed by \<open>rnd\<close>.  The two
  zeros are one value, which the modelled code cannot tell apart (it never takes the sign of a
  zero).  \<open>f64 x\<close> says that \<open>x\<close> is a value a double can hold.

  The lemmas: rounding is monotone, odd, exact on representable values, and maps a nonzero
  multiple of the least subnormal to a nonzero value; from these follow the order facts the
  components use, none of which appeals to exact real arithmetic.
\<close>

section \<open>Powers of two and binary logarithm\<close>

datatype pyfloat = Fin rat | PInf | NInf | NaN

function blen :: "int \<Rightarrow> int" where
  "blen n = (if n \<le> 0 then 0 else 1 + blen (n div 2))"
  by pat_completeness auto
termination
  by (relation "measure nat") auto

declare blen.simps [simp del]

definition p2 :: "int \<Rightarrow> rat" where
  "p2 e = (if 0 \<le> e then of_int (2 ^ nat e) else 1 / of_int (2 ^ nat (- e)))"

definition ilog2 :: "rat \<Rightarrow> int" where
  "ilog2 q = (let (n, d) = quotient_of q; k = blen n - blen d
              in if p2 k \<le> q then k else k - 1)"

text \<open>Nearest integer, ties to even: Python's \<open>round\<close> on an exact value.\<close>

definition rhe :: "rat \<Rightarrow> int" where
  "rhe x = (let f = \<lfloor>x\<rfloor>; d = x - of_int f
            in if d < 1 / 2 then f else if 1 / 2 < d then f + 1
               else if even f then f else f + 1)"

text \<open>Exponent of the last place of a double near \<open>q\<close>, and \<open>q\<close> rounded to that place.\<close>

definition lastexp :: "rat \<Rightarrow> int" where
  "lastexp q = max (ilog2 \<bar>q\<bar> - 52) (- 1074)"

definition rr :: "rat \<Rightarrow> rat" where
  "rr q = (if q = 0 then 0 else of_int (rhe (q / p2 (lastexp q))) * p2 (lastexp q))"

definition rnd :: "rat \<Rightarrow> pyfloat" where
  "rnd q = (let r = rr q in if p2 1024 \<le> r then PInf else if r \<le> - p2 1024 then NInf else Fin r)"

lemma p2_powi: "p2 e = 2 powi e"
  unfolding p2_def power_int_def by (simp only: of_int_power of_int_numeral power_inverse inverse_eq_divide power_one_over)

lemma p2_pos [simp]: "0 < p2 e"
  by (simp add: p2_powi)

lemma p2_nonzero [simp]: "p2 e \<noteq> 0"
  using p2_pos [of e] by linarith

lemma p2_0 [simp]: "p2 0 = 1"
  by (simp add: p2_def)

lemma p2_add: "p2 (a + b) = p2 a * p2 b"
  by (simp add: p2_powi power_int_add)

lemma p2_diff: "p2 (a - b) = p2 a / p2 b"
  by (simp add: p2_powi power_int_diff)

lemma p2_mono: "a \<le> b \<Longrightarrow> p2 a \<le> p2 b"
  by (simp add: p2_powi power_int_increasing)

lemma p2_strict_mono: "a < b \<Longrightarrow> p2 a < p2 b"
  by (simp add: p2_powi power_int_strict_increasing)

lemma p2_less_iff: "p2 a < p2 b \<longleftrightarrow> a < b"
  by (meson not_less p2_mono p2_strict_mono)

lemma p2_int: "0 \<le> e \<Longrightarrow> p2 e = of_int (2 ^ nat e)"
  by (simp add: p2_def)

lemma blen_nonneg: "0 \<le> blen n"
proof (induction n rule: blen.induct)
  case (1 n)
  then show ?case by (subst blen.simps) auto
qed

lemma blen_bounds: "0 < n \<Longrightarrow> 2 ^ nat (blen n - 1) \<le> n \<and> n < 2 ^ nat (blen n) \<and> 0 < blen n"
proof (induction n rule: blen.induct)
  case (1 n)
  show ?case
  proof (cases "n = 1")
    case True
    then show ?thesis by (simp add: blen.simps)
  next
    case False
    with "1.prems" have pos: "0 < n div 2" by auto
    with "1.IH" "1.prems" have ih: "2 ^ nat (blen (n div 2) - 1) \<le> n div 2"
      "n div 2 < 2 ^ nat (blen (n div 2))" "0 < blen (n div 2)" by auto
    obtain k where k: "blen (n div 2) = int (Suc k)"
      using ih(3) by (metis gr0_implies_Suc pos_int_cases)
    have e: "blen n = int (Suc (Suc k))"
      using "1.prems" k by (subst blen.simps) simp
    have lo: "2 ^ k \<le> n div 2" and hi: "n div 2 < 2 ^ Suc k"
      using ih(1,2) by (simp_all only: k) (simp_all add: nat_add_distrib)
    have "nat (int (Suc (Suc k)) - 1) = Suc k" and "nat (int (Suc (Suc k))) = Suc (Suc k)"
      by simp_all
    then show ?thesis
      using lo hi by (simp only: e) auto
  qed
qed

lemma p2_blen:
  assumes "0 < n"
  shows "p2 (blen n - 1) \<le> of_int n" and "of_int n < p2 (blen n)"
proof -
  from blen_bounds [OF assms] have b: "2 ^ nat (blen n - 1) \<le> n" "n < 2 ^ nat (blen n)" "0 < blen n"
    by auto
  have "p2 (blen n - 1) = of_int (2 ^ nat (blen n - 1))" and "p2 (blen n) = of_int (2 ^ nat (blen n))"
    using b(3) by (simp_all add: p2_int)
  with b(1,2) show "p2 (blen n - 1) \<le> of_int n" and "of_int n < p2 (blen n)"
    by (simp_all only: of_int_le_iff of_int_less_iff)
qed

lemma ilog2_bounds:
  assumes "0 < q"
  shows "p2 (ilog2 q) \<le> q" and "q < p2 (ilog2 q + 1)"
proof -
  obtain n d where nd: "quotient_of q = (n, d)" by fastforce
  have d: "0 < d" and qeq: "q = of_int n / of_int d"
    using quotient_of_denom_pos [OF nd] quotient_of_div [OF nd] by auto
  with assms have n: "0 < n" by (simp add: zero_less_divide_iff)
  define k where "k = blen n - blen d"
  have "q < p2 (blen n) / p2 (blen d - 1)"
    unfolding qeq using n p2_blen [OF n] p2_blen [OF d]
    by (intro frac_less) auto
  also have "\<dots> = p2 (k + 1)"
    by (simp add: k_def p2_diff [symmetric] algebra_simps)
  finally have up: "q < p2 (k + 1)" .
  have "p2 (k - 1) = p2 (blen n - 1) / p2 (blen d)"
    by (simp add: k_def p2_diff [symmetric] algebra_simps)
  also have "\<dots> \<le> q"
    unfolding qeq using p2_blen [OF n] p2_blen [OF d] d n
    by (intro frac_le) auto
  finally have lo: "p2 (k - 1) \<le> q" .
  have "ilog2 q = (if p2 k \<le> q then k else k - 1)"
    by (simp add: ilog2_def nd k_def)
  with up lo show "p2 (ilog2 q) \<le> q" and "q < p2 (ilog2 q + 1)"
    by (auto split: if_splits)
qed

lemma ilog2_le: "0 < q \<Longrightarrow> q < p2 (k + 1) \<Longrightarrow> ilog2 q \<le> k"
  using ilog2_bounds(1) [of q] p2_less_iff [of "ilog2 q" "k + 1"] by linarith

lemma ilog2_ge: "0 < q \<Longrightarrow> p2 k \<le> q \<Longrightarrow> k \<le> ilog2 q"
  using ilog2_bounds(2) [of q] p2_less_iff [of k "ilog2 q + 1"] by linarith

lemma ilog2_mono: "0 < x \<Longrightarrow> x \<le> y \<Longrightarrow> ilog2 x \<le> ilog2 y"
  using ilog2_bounds(1) [of x] by (intro ilog2_ge) auto

section \<open>Rounding\<close>

lemma rhe_of_int [simp]: "rhe (of_int n) = n"
  by (simp add: rhe_def Let_def)

lemma rhe_cases: "rhe x = \<lfloor>x\<rfloor> \<or> rhe x = \<lfloor>x\<rfloor> + 1"
  by (simp add: rhe_def Let_def)

lemma rhe_bounds: "of_int (rhe x) - 1 / 2 \<le> x \<and> x \<le> of_int (rhe x) + 1 / 2"
proof -
  have "of_int \<lfloor>x\<rfloor> \<le> x" and "x < of_int \<lfloor>x\<rfloor> + 1"
    by linarith+
  then show ?thesis
    unfolding rhe_def Let_def by (auto simp del: of_int_floor_le)
qed

lemma rhe_mono: "x \<le> y \<Longrightarrow> rhe x \<le> rhe y"
proof -
  assume le: "x \<le> y"
  then have fl: "\<lfloor>x\<rfloor> \<le> \<lfloor>y\<rfloor>" by (rule floor_mono)
  show ?thesis
  proof (cases "\<lfloor>x\<rfloor> = \<lfloor>y\<rfloor>")
    case True
    with le show ?thesis by (auto simp: rhe_def Let_def)
  next
    case False
    with fl have "\<lfloor>x\<rfloor> + 1 \<le> \<lfloor>y\<rfloor>" by linarith
    with rhe_cases [of x] rhe_cases [of y] show ?thesis by linarith
  qed
qed

lemma rhe_minus: "rhe (- x) = - rhe x"
proof (cases "x \<in> \<int>")
  case True
  then obtain n where "x = of_int n" by (auto elim: Ints_cases)
  then show ?thesis
    by (metis of_int_minus rhe_of_int)
next
  case False
  have fl: "\<lfloor>- x\<rfloor> = - \<lfloor>x\<rfloor> - 1"
    using False by (simp add: floor_minus ceiling_altdef) (metis Ints_of_int)
  have "x \<noteq> of_int \<lfloor>x\<rfloor>" using False by (metis Ints_of_int)
  then show ?thesis
    unfolding rhe_def Let_def fl by (auto simp: even_minus)
qed

lemma p2_scale_int:
  assumes "e \<le> f" shows "of_int m * p2 f / p2 e = of_int (m * 2 ^ nat (f - e))"
proof -
  have "of_int m * p2 f / p2 e = of_int m * p2 (f - e)"
    by (simp add: p2_diff)
  with assms show ?thesis by (simp add: p2_int)
qed

lemma rr_0 [simp]: "rr 0 = 0"
  by (simp add: rr_def)

lemma rr_minus: "rr (- q) = - rr q"
  by (simp add: rr_def lastexp_def rhe_minus)

lemma rr_nonneg: "0 \<le> q \<Longrightarrow> 0 \<le> rr q"
proof -
  assume q: "0 \<le> q"
  have "0 \<le> q / p2 (lastexp q)" using q by (simp add: less_imp_le)
  then have "0 \<le> rhe (q / p2 (lastexp q))"
    using rhe_mono [of 0 "q / p2 (lastexp q)"] rhe_of_int [of 0] by simp
  then show ?thesis by (simp add: rr_def less_imp_le)
qed

text \<open>A power of two that is a multiple of the last place bounds the rounding.\<close>

lemma rr_le_p2:
  assumes "0 < q" "q \<le> p2 k" "lastexp q \<le> k"
  shows "rr q \<le> p2 k"
proof -
  let ?e = "lastexp q"
  have s: "p2 k / p2 ?e = of_int (2 ^ nat (k - ?e))"
    using p2_scale_int [OF assms(3), of 1] by simp
  have "q / p2 ?e \<le> p2 k / p2 ?e"
    using assms(2) by (simp add: divide_right_mono less_imp_le)
  then have "rhe (q / p2 ?e) \<le> 2 ^ nat (k - ?e)"
    unfolding s using rhe_mono rhe_of_int by metis
  then have "of_int (rhe (q / p2 ?e)) \<le> p2 k / p2 ?e"
    unfolding s by (simp only: of_int_le_iff)
  then show ?thesis
    using assms(1) by (simp add: rr_def pos_le_divide_eq)
qed

lemma p2_le_rr:
  assumes "p2 k \<le> q" "lastexp q \<le> k"
  shows "p2 k \<le> rr q"
proof -
  let ?e = "lastexp q"
  have q: "0 < q" using assms(1) p2_pos [of k] by linarith
  have s: "p2 k / p2 ?e = of_int (2 ^ nat (k - ?e))"
    using p2_scale_int [OF assms(2), of 1] by simp
  have "p2 k / p2 ?e \<le> q / p2 ?e"
    using assms(1) by (simp add: divide_right_mono less_imp_le)
  then have "2 ^ nat (k - ?e) \<le> rhe (q / p2 ?e)"
    unfolding s using rhe_mono rhe_of_int by metis
  then have "p2 k / p2 ?e \<le> of_int (rhe (q / p2 ?e))"
    unfolding s by (simp only: of_int_le_iff)
  then show ?thesis
    using q by (simp add: rr_def pos_divide_le_eq)
qed

lemma rr_mono_pos:
  assumes "0 < x" "x \<le> y" shows "rr x \<le> rr y"
proof -
  have y: "0 < y" using assms by linarith
  have il: "ilog2 x \<le> ilog2 y" by (rule ilog2_mono [OF assms])
  show ?thesis
  proof (cases "lastexp x = lastexp y")
    case True
    have "rhe (x / p2 (lastexp y)) \<le> rhe (y / p2 (lastexp y))"
      using assms(2) by (intro rhe_mono) (simp add: divide_right_mono less_imp_le)
    with True assms(1) y show ?thesis
      by (simp add: rr_def mult_right_mono less_imp_le)
  next
    case False
    let ?k = "ilog2 y"
    have ey: "lastexp y = ?k - 52" and lt: "ilog2 x < ?k" and ex: "lastexp x \<le> ?k"
      using False il assms(1) y by (auto simp: lastexp_def max_def split: if_splits)
    have "x < p2 (ilog2 x + 1)" by (rule ilog2_bounds(2) [OF assms(1)])
    also have "\<dots> \<le> p2 ?k" using lt by (intro p2_mono) simp
    finally have "rr x \<le> p2 ?k" using ex assms(1) by (intro rr_le_p2) auto
    also have "p2 ?k \<le> rr y"
      using ilog2_bounds(1) [OF y] ey by (intro p2_le_rr) auto
    finally show ?thesis .
  qed
qed

lemma rr_mono: "x \<le> y \<Longrightarrow> rr x \<le> rr y"
proof -
  assume le: "x \<le> y"
  consider "0 < x" | "x \<le> 0" "0 \<le> y" | "y < 0" using le by linarith
  then show ?thesis
  proof cases
    case 1
    with le show ?thesis by (intro rr_mono_pos)
  next
    case 2
    then have "0 \<le> rr y" and "0 \<le> rr (- x)" by (auto intro!: rr_nonneg)
    then show ?thesis by (simp add: rr_minus)
  next
    case 3
    with le have "rr (- y) \<le> rr (- x)" by (intro rr_mono_pos) auto
    then show ?thesis by (simp add: rr_minus)
  qed
qed

section \<open>Values a double holds\<close>

text \<open>
  \<open>dyadic\<close>: an integer of at most 53 bits times a power of two no smaller than the least
  subnormal.  Rounding is the identity on these and always produces one.
\<close>

definition dyadic :: "rat \<Rightarrow> bool" where
  "dyadic q \<longleftrightarrow> (\<exists>m e. q = of_int m * p2 e \<and> \<bar>m\<bar> \<le> 2 ^ 53 \<and> - 1074 \<le> e)"

lemma rr_exact:
  assumes "lastexp q \<le> e" "q = of_int m * p2 e" shows "rr q = q"
proof (cases "q = 0")
  case False
  have "q / p2 (lastexp q) = of_int (m * 2 ^ nat (e - lastexp q))"
    unfolding assms(2) using assms(1) by (subst p2_scale_int) (auto simp: assms(2))
  then have "rhe (q / p2 (lastexp q)) = m * 2 ^ nat (e - lastexp q)"
    by (simp only: rhe_of_int)
  with \<open>q / p2 (lastexp q) = _\<close> have "of_int (rhe (q / p2 (lastexp q))) = q / p2 (lastexp q)"
    by simp
  with False show ?thesis by (simp add: rr_def)
qed simp

lemma rr_dyadic:
  assumes "dyadic q" shows "rr q = q"
proof (cases "q = 0")
  case False
  from assms obtain m e where q: "q = of_int m * p2 e" and m: "\<bar>m\<bar> \<le> 2 ^ 53" and e: "- 1074 \<le> e"
    by (auto simp: dyadic_def)
  have aq: "\<bar>q\<bar> = of_int \<bar>m\<bar> * p2 e"
    by (simp add: q abs_mult less_imp_le)
  show ?thesis
  proof (cases "\<bar>m\<bar> = 2 ^ 53")
    case True
    then have a: "\<bar>q\<bar> = p2 (e + 53)" unfolding aq p2_add by (simp add: p2_int)
    have "ilog2 \<bar>q\<bar> \<le> e + 53"
      unfolding a using p2_strict_mono [of "e + 53" "e + 53 + 1"] by (intro ilog2_le) auto
    then have l: "lastexp q \<le> e + 1" using e by (auto simp: lastexp_def)
    have "q = of_int (sgn m * 2 ^ 52) * p2 (e + 1)"
    proof -
      have "m = sgn m * 2 ^ 52 * 2" using True by (simp add: sgn_if abs_if split: if_splits)
      then have "(of_int m :: rat) = of_int (sgn m * 2 ^ 52) * 2"
        by (metis of_int_mult of_int_numeral)
      then show ?thesis unfolding q p2_add by (simp add: p2_int)
    qed
    with l show ?thesis by (rule rr_exact)
  next
    case ne: False
    have "\<bar>q\<bar> < 2 ^ 53 * p2 e"
      unfolding aq using m ne by (intro mult_strict_right_mono) (auto simp: of_int_less_numeral_power_cancel_iff)
    also have "\<dots> = p2 (e + 52 + 1)" unfolding p2_add by (simp add: p2_int)
    finally have "ilog2 \<bar>q\<bar> \<le> e + 52"
      using False by (intro ilog2_le) auto
    then have "lastexp q \<le> e" using e by (auto simp: lastexp_def)
    with q show ?thesis by (intro rr_exact)
  qed
qed simp

lemma lastexp_ge: "- 1074 \<le> lastexp q"
  by (simp add: lastexp_def)

lemma dyadic_rr: "dyadic (rr q)"
proof (cases "q = 0")
  case True
  then show ?thesis by (auto simp: dyadic_def intro!: exI [of _ 0])
next
  case False
  let ?e = "lastexp q"
  have "\<bar>q\<bar> < p2 (ilog2 \<bar>q\<bar> + 1)" using False by (intro ilog2_bounds(2)) auto
  also have "\<dots> \<le> p2 (?e + 53)" by (intro p2_mono) (simp add: lastexp_def)
  finally have lt: "\<bar>q / p2 ?e\<bar> \<le> of_int (2 ^ 53)"
    unfolding p2_add by (simp add: p2_int abs_divide pos_divide_le_eq less_imp_le mult.commute)
  have "rhe (q / p2 ?e) \<le> 2 ^ 53"
    using lt rhe_mono [of "q / p2 ?e" "of_int (2 ^ 53)"] by (simp only: rhe_of_int abs_le_iff)
  moreover have "rhe (- (q / p2 ?e)) \<le> 2 ^ 53"
    using lt rhe_mono [of "- (q / p2 ?e)" "of_int (2 ^ 53)"] by (simp only: rhe_of_int abs_le_iff)
  ultimately have "\<bar>rhe (q / p2 ?e)\<bar> \<le> 2 ^ 53"
    by (simp only: rhe_minus abs_le_iff)
  with False show ?thesis
    unfolding dyadic_def rr_def by (auto intro!: exI lastexp_ge)
qed

lemma rr_idem [simp]: "rr (rr q) = rr q"
  by (intro rr_dyadic dyadic_rr)

lemma dyadic_of_int: "\<bar>n\<bar> \<le> 2 ^ 53 \<Longrightarrow> dyadic (of_int n)"
  unfolding dyadic_def by (intro exI [of _ n] exI [of _ 0]) simp

lemma rr_of_int: "\<bar>n\<bar> \<le> 2 ^ 53 \<Longrightarrow> rr (of_int n) = of_int n"
  by (intro rr_dyadic dyadic_of_int)

text \<open>Evaluation: a small fraction with a small power of two below it is its own rounding.\<close>

lemma rr_code [code]:
  "rr q = (let (n, d) = quotient_of q in
     if \<bar>n\<bar> < 9007199254740992 \<and> (d = 1 \<or> d = 2 \<or> d = 4 \<or> d = 8 \<or> d = 16) then q
     else if q = 0 then 0 else of_int (rhe (q / p2 (lastexp q))) * p2 (lastexp q))"
proof -
  obtain n d where nd: "quotient_of q = (n, d)" by fastforce
  then have q: "q = of_int n / of_int d" by (rule quotient_of_div)
  have "rr q = q" if "\<bar>n\<bar> < 9007199254740992" "d = 2 ^ k" "k \<le> 4" for k
  proof -
    have "q = of_int n * p2 (- int k)" using q that(2) by (auto simp: p2_def)
    then have "dyadic q" unfolding dyadic_def using that by (intro exI [of _ n] exI [of _ "- int k"]) simp
    then show ?thesis by (rule rr_dyadic)
  qed
  from this [of 0] this [of 1] this [of 2] this [of 3] this [of 4]
  show ?thesis using nd by (auto simp: Let_def rr_def)
qed

lemma rr_1 [simp]: "rr 1 = 1"
  using rr_of_int [of 1] by simp

lemma rr_numeral: "(numeral k :: int) \<le> 2 ^ 53 \<Longrightarrow> rr (numeral k) = numeral k"
  using rr_of_int [of "numeral k"] by simp

definition f64 :: "pyfloat \<Rightarrow> bool" where
  "f64 x = (case x of Fin q \<Rightarrow> rr q = q \<and> \<bar>q\<bar> < p2 1024 | _ \<Rightarrow> True)"

lemma rnd_in_range: "\<bar>rr q\<bar> < p2 1024 \<Longrightarrow> rnd q = Fin (rr q)"
  by (auto simp: rnd_def Let_def abs_if split: if_splits)

lemma f64_rnd [simp]: "f64 (rnd q)"
  by (auto simp: rnd_def Let_def f64_def abs_less_iff not_le)

lemma f64_simps [simp]: "f64 PInf" "f64 NInf" "f64 NaN"
  by (simp_all add: f64_def)

lemma rnd_f64: "f64 (Fin q) \<Longrightarrow> rnd q = Fin q"
  by (simp add: f64_def rnd_in_range)

lemma rnd_not_NaN [simp]: "rnd q \<noteq> NaN"
  by (simp add: rnd_def Let_def)

text \<open>
  Code equations for evaluation inside the kernel: a value of moderate size never overflows, so
  the comparison with two to the 1024 is skipped.
\<close>

lemma rr_moderate: "\<bar>q\<bar> \<le> 2 ^ 52 \<Longrightarrow> \<bar>rr q\<bar> < p2 1024"
proof -
  assume q: "\<bar>q\<bar> \<le> 2 ^ 52"
  have "rr (2 ^ 52) = 2 ^ 52" using rr_of_int [of "2 ^ 52"] by simp
  moreover have "rr q \<le> rr (2 ^ 52)" "rr (- (2 ^ 52)) \<le> rr q"
    using q by (auto intro!: rr_mono)
  ultimately have "\<bar>rr q\<bar> \<le> 2 ^ 52" by (simp add: rr_minus abs_le_iff)
  moreover have "(2 ^ 52 :: rat) < p2 1024"
    using p2_strict_mono [of 52 1024] by (simp add: p2_def)
  ultimately show ?thesis by linarith
qed

lemma rnd_code [code]:
  "rnd q = (if \<bar>q\<bar> \<le> 2 ^ 52 then Fin (rr q)
            else let r = rr q in if p2 1024 \<le> r then PInf else if r \<le> - p2 1024 then NInf else Fin r)"
  using rr_moderate [of q] by (auto simp: rnd_in_range) (auto simp: rnd_def Let_def)

lemma f64_code [code]:
  "f64 x = (case x of Fin q \<Rightarrow> rr q = q \<and> (\<bar>q\<bar> \<le> 2 ^ 52 \<or> \<bar>q\<bar> < p2 1024) | _ \<Rightarrow> True)"
proof (cases x)
  case (Fin q)
  then show ?thesis using rr_moderate [of q] by (auto simp: f64_def)
qed (simp_all add: f64_def)

section \<open>Comparisons\<close>

text \<open>Every comparison with NaN is false, as in Python.\<close>

fun flt :: "pyfloat \<Rightarrow> pyfloat \<Rightarrow> bool" where
  "flt (Fin x) (Fin y) = (x < y)"
| "flt (Fin x) PInf = True"
| "flt NInf (Fin y) = True"
| "flt NInf PInf = True"
| "flt _ _ = False"

fun feq :: "pyfloat \<Rightarrow> pyfloat \<Rightarrow> bool" where
  "feq (Fin x) (Fin y) = (x = y)"
| "feq PInf PInf = True"
| "feq NInf NInf = True"
| "feq _ _ = False"

definition fle :: "pyfloat \<Rightarrow> pyfloat \<Rightarrow> bool" where
  "fle x y = (flt x y \<or> feq x y)"

abbreviation fzero :: pyfloat where
  "fzero \<equiv> Fin 0"

abbreviation fone :: pyfloat where
  "fone \<equiv> Fin 1"

fun isfinite :: "pyfloat \<Rightarrow> bool" where
  "isfinite (Fin _) = True"
| "isfinite _ = False"

definition isnan :: "pyfloat \<Rightarrow> bool" where
  "isnan x = (x = NaN)"

definition isinf :: "pyfloat \<Rightarrow> bool" where
  "isinf x = (x = PInf \<or> x = NInf)"

lemma fle_simps [simp]:
  "fle (Fin x) (Fin y) = (x \<le> y)"
  "fle (Fin x) PInf" "fle NInf (Fin y)" "fle NInf PInf" "fle PInf PInf" "fle NInf NInf"
  "\<not> fle PInf (Fin y)" "\<not> fle (Fin x) NInf" "\<not> fle PInf NInf"
  "\<not> fle NaN z" "\<not> fle z NaN"
  by (auto simp: fle_def elim: flt.elims feq.elims)

lemma flt_NaN [simp]: "\<not> flt NaN y" "\<not> flt x NaN"
  by (cases y; simp) (cases x; simp)

lemma feq_NaN [simp]: "\<not> feq NaN y" "\<not> feq x NaN"
  by (cases y; simp) (cases x; simp)

lemma feq_iff: "feq x y \<longleftrightarrow> x = y \<and> x \<noteq> NaN"
  by (cases x; cases y) auto

lemma flt_irrefl [simp]: "\<not> flt x x"
  by (cases x) auto

lemma flt_trans: "flt x y \<Longrightarrow> flt y z \<Longrightarrow> flt x z"
  by (cases x; cases y; cases z) auto

lemma fle_trans: "fle x y \<Longrightarrow> fle y z \<Longrightarrow> fle x z"
  by (cases x; cases y; cases z) auto

lemma fle_antisym: "fle x y \<Longrightarrow> fle y x \<Longrightarrow> x = y"
  by (cases x; cases y) auto

lemma fle_refl: "x \<noteq> NaN \<Longrightarrow> fle x x"
  by (cases x) auto

lemma flt_imp_fle: "flt x y \<Longrightarrow> fle x y"
  by (simp add: fle_def)

lemma flt_fle_trans: "flt x y \<Longrightarrow> fle y z \<Longrightarrow> flt x z"
  by (cases x; cases y; cases z) auto

lemma fle_flt_trans: "fle x y \<Longrightarrow> flt y z \<Longrightarrow> flt x z"
  by (cases x; cases y; cases z) auto

lemma not_flt: "x \<noteq> NaN \<Longrightarrow> y \<noteq> NaN \<Longrightarrow> \<not> flt x y \<longleftrightarrow> fle y x"
  by (cases x; cases y) auto

lemma not_fle: "x \<noteq> NaN \<Longrightarrow> y \<noteq> NaN \<Longrightarrow> \<not> fle x y \<longleftrightarrow> flt y x"
  by (cases x; cases y) auto

lemma fle_not_NaN: "fle x y \<Longrightarrow> x \<noteq> NaN \<and> y \<noteq> NaN"
  by (cases x; cases y) auto

lemma rnd_mono: "x \<le> y \<Longrightarrow> fle (rnd x) (rnd y)"
  using rr_mono [of x y] p2_pos [of 1024]
  by (auto simp: rnd_def Let_def not_le)

lemma rnd_0 [simp]: "rnd 0 = fzero"
  by (simp add: rnd_def Let_def not_le)

lemma one_less_p2_1024 [simp]: "1 < p2 1024"
  using p2_strict_mono [of 0 1024] by simp

lemma rnd_1 [simp]: "rnd 1 = fone"
  by (simp add: rnd_in_range)

lemma rnd_nonneg: "0 \<le> x \<Longrightarrow> fle fzero (rnd x)"
  using rnd_mono [of 0 x] by simp

lemma rnd_nonpos: "x \<le> 0 \<Longrightarrow> fle (rnd x) fzero"
  using rnd_mono [of x 0] by simp

lemma rnd_le_f64: "f64 (Fin y) \<Longrightarrow> x \<le> y \<Longrightarrow> fle (rnd x) (Fin y)"
  using rnd_mono [of x y] by (simp add: rnd_f64)

lemma rnd_ge_f64: "f64 (Fin x) \<Longrightarrow> x \<le> y \<Longrightarrow> fle (Fin x) (rnd y)"
  using rnd_mono [of x y] by (simp add: rnd_f64)

lemma f64_0 [simp]: "f64 fzero"
  by (simp add: f64_def)

lemma f64_1 [simp]: "f64 fone"
  by (simp add: f64_def)

lemma f64_minus: "f64 (Fin (- x)) = f64 (Fin x)"
  by (simp add: f64_def rr_minus)

section \<open>Arithmetic\<close>

fun fneg :: "pyfloat \<Rightarrow> pyfloat" where
  "fneg (Fin x) = Fin (- x)"
| "fneg PInf = NInf"
| "fneg NInf = PInf"
| "fneg NaN = NaN"

lemma rnd_minus: "rnd (- q) = fneg (rnd q)"
proof -
  have "\<not> (p2 1024 \<le> rr q \<and> p2 1024 \<le> - rr q)" using p2_pos [of 1024] by linarith
  then show ?thesis by (auto simp: rnd_def rr_minus Let_def)
qed

fun fabs :: "pyfloat \<Rightarrow> pyfloat" where
  "fabs (Fin x) = Fin \<bar>x\<bar>"
| "fabs PInf = PInf"
| "fabs NInf = PInf"
| "fabs NaN = NaN"

fun fadd :: "pyfloat \<Rightarrow> pyfloat \<Rightarrow> pyfloat" where
  "fadd (Fin x) (Fin y) = rnd (x + y)"
| "fadd (Fin x) y = y"
| "fadd x (Fin y) = x"
| "fadd PInf PInf = PInf"
| "fadd NInf NInf = NInf"
| "fadd _ _ = NaN"

definition fsub :: "pyfloat \<Rightarrow> pyfloat \<Rightarrow> pyfloat" where
  "fsub x y = fadd x (fneg y)"

text \<open>Sign of a non-NaN value, and the infinity of a sign (NaN for no sign).\<close>

fun fsgn :: "pyfloat \<Rightarrow> rat" where
  "fsgn (Fin x) = sgn x"
| "fsgn PInf = 1"
| "fsgn NInf = - 1"
| "fsgn NaN = 0"

definition inf_of_sign :: "rat \<Rightarrow> pyfloat" where
  "inf_of_sign s = (if s > 0 then PInf else if s < 0 then NInf else NaN)"

fun fmul :: "pyfloat \<Rightarrow> pyfloat \<Rightarrow> pyfloat" where
  "fmul (Fin x) (Fin y) = rnd (x * y)"
| "fmul x y = (if x = NaN \<or> y = NaN then NaN else inf_of_sign (fsgn x * fsgn y))"

text \<open>
  Division by a nonzero divisor; Python raises \<open>ZeroDivisionError\<close> for a zero divisor, which
  \<open>py_div\<close> returns.
\<close>

fun fdiv :: "pyfloat \<Rightarrow> pyfloat \<Rightarrow> pyfloat" where
  "fdiv (Fin x) (Fin y) = rnd (x / y)"
| "fdiv (Fin x) y = (if y = NaN then NaN else fzero)"
| "fdiv x (Fin y) = (if x = NaN then NaN else if y < 0 then fneg x else x)"
| "fdiv _ _ = NaN"

definition py_div :: "pyfloat \<Rightarrow> pyfloat \<Rightarrow> pyfloat res" where
  "py_div x y = (if feq y fzero then Inl ZeroDivisionError else Inr (fdiv x y))"

text \<open>
  \<open>min(a, b)\<close> keeps \<open>a\<close> unless \<open>b < a\<close>, \<open>max(a, b)\<close> keeps \<open>a\<close> unless \<open>b > a\<close>: the order of
  the arguments decides what a NaN does.
\<close>

definition fmin :: "pyfloat \<Rightarrow> pyfloat \<Rightarrow> pyfloat" where
  "fmin a b = (if flt b a then b else a)"

definition fmax :: "pyfloat \<Rightarrow> pyfloat \<Rightarrow> pyfloat" where
  "fmax a b = (if flt a b then b else a)"

definition fmin_list :: "pyfloat \<Rightarrow> pyfloat list \<Rightarrow> pyfloat" where
  "fmin_list a xs = foldl fmin a xs"

definition fmax_list :: "pyfloat \<Rightarrow> pyfloat list \<Rightarrow> pyfloat" where
  "fmax_list a xs = foldl fmax a xs"

text \<open>\<open>max(lo, min(hi, x))\<close>, the clamp the code writes everywhere.\<close>

definition clampf :: "pyfloat \<Rightarrow> pyfloat \<Rightarrow> pyfloat \<Rightarrow> pyfloat" where
  "clampf lo hi x = fmax lo (fmin hi x)"

text \<open>Python 3.11's \<open>sum\<close> over floats: left to right, starting from zero.\<close>

definition fsum :: "pyfloat list \<Rightarrow> pyfloat" where
  "fsum xs = foldl fadd fzero xs"

text \<open>\<open>round(x)\<close> to an integer: NaN raises \<open>ValueError\<close>, an infinity \<open>OverflowError\<close>.\<close>

fun py_round :: "pyfloat \<Rightarrow> int res" where
  "py_round (Fin x) = Inr (rhe x)"
| "py_round NaN = Inl ValueError"
| "py_round _ = Inl OverflowError"

text \<open>\<open>float(n)\<close> of an integer: the nearest double, \<open>OverflowError\<close> beyond the range.\<close>

definition float_of_int :: "int \<Rightarrow> pyfloat res" where
  "float_of_int n = (case rnd (of_int n) of Fin q \<Rightarrow> Inr (Fin q) | _ \<Rightarrow> Inl OverflowError)"

section \<open>Order facts about the operations\<close>

lemma fneg_fneg [simp]: "fneg (fneg x) = x"
  by (cases x) auto

lemma f64_fneg [simp]: "f64 (fneg x) = f64 x"
  by (cases x) (auto simp: f64_minus)

lemma f64_fabs [simp]: "f64 x \<Longrightarrow> f64 (fabs x)"
  by (cases x) (auto simp: abs_if f64_minus)

lemma f64_fadd [simp]: "f64 x \<Longrightarrow> f64 y \<Longrightarrow> f64 (fadd x y)"
  by (cases x; cases y) auto

lemma f64_fsub [simp]: "f64 x \<Longrightarrow> f64 y \<Longrightarrow> f64 (fsub x y)"
  by (simp add: fsub_def)

lemma f64_inf_of_sign [simp]: "f64 (inf_of_sign s)"
  by (simp add: inf_of_sign_def)

lemma f64_fmul [simp]: "f64 x \<Longrightarrow> f64 y \<Longrightarrow> f64 (fmul x y)"
  by (cases x; cases y) auto

lemma f64_fdiv [simp]: "f64 x \<Longrightarrow> f64 y \<Longrightarrow> f64 (fdiv x y)"
  by (cases x; cases y) auto

lemma f64_fmin [simp]: "f64 a \<Longrightarrow> f64 b \<Longrightarrow> f64 (fmin a b)"
  by (simp add: fmin_def)

lemma f64_fmax [simp]: "f64 a \<Longrightarrow> f64 b \<Longrightarrow> f64 (fmax a b)"
  by (simp add: fmax_def)

lemma fadd_0_right [simp]: "f64 x \<Longrightarrow> fadd x fzero = x"
  by (cases x) (auto simp: rnd_f64)

lemma fadd_0_left [simp]: "f64 x \<Longrightarrow> fadd fzero x = x"
  by (cases x) (auto simp: rnd_f64)

lemma fsub_0_right [simp]: "f64 x \<Longrightarrow> fsub x fzero = x"
  by (simp add: fsub_def)

lemma fmul_1_right [simp]: "f64 x \<Longrightarrow> fmul x fone = x"
  by (cases x) (auto simp: rnd_f64 inf_of_sign_def)

lemma fmul_1_left [simp]: "f64 x \<Longrightarrow> fmul fone x = x"
  by (cases x) (auto simp: rnd_f64 inf_of_sign_def)

lemma fmul_0_left [simp]: "isfinite x \<Longrightarrow> fmul fzero x = fzero"
  by (cases x) auto

lemma fmul_0_right [simp]: "isfinite x \<Longrightarrow> fmul x fzero = fzero"
  by (cases x) auto

text \<open>
  Two doubles differ by a multiple of the least subnormal, so their difference is never
  rounded to zero: comparing a subtraction with zero is comparing the operands.
\<close>

lemma dyadic_multiple:
  assumes "dyadic q" shows "\<exists>k. q = of_int k * p2 (- 1074)"
proof -
  from assms obtain m e where q: "q = of_int m * p2 e" and e: "- 1074 \<le> e"
    by (auto simp: dyadic_def)
  have "p2 e = p2 (e + 1074) * p2 (- 1074)"
    by (simp add: p2_add [symmetric])
  moreover have "p2 (e + 1074) = of_int (2 ^ nat (e + 1074))"
    using e by (intro p2_int) simp
  ultimately have "q = of_int (m * 2 ^ nat (e + 1074)) * p2 (- 1074)"
    unfolding q by simp
  then show ?thesis by blast
qed

lemma f64_dyadic: "f64 (Fin q) \<Longrightarrow> dyadic q"
  using dyadic_rr [of q] by (simp add: f64_def)

lemma rr_pos_multiple:
  assumes "0 < k" shows "0 < rr (of_int k * p2 (- 1074))"
proof -
  have d: "dyadic (p2 (- 1074))"
    unfolding dyadic_def by (intro exI [of _ 1] exI [of _ "- 1074"]) simp
  have "p2 (- 1074) \<le> of_int k * p2 (- 1074)"
    using assms mult_right_mono [of 1 "of_int k :: rat" "p2 (- 1074)"] by (simp add: less_imp_le)
  then have "rr (p2 (- 1074)) \<le> rr (of_int k * p2 (- 1074))"
    by (rule rr_mono)
  then show ?thesis
    using p2_pos [of "- 1074"] by (simp only: rr_dyadic [OF d])
qed

lemma rr_diff_pos:
  assumes "f64 (Fin x)" "f64 (Fin y)" "y < x" shows "0 < rr (x - y)"
proof -
  obtain k l where k: "x = of_int k * p2 (- 1074)" and l: "y = of_int l * p2 (- 1074)"
    using dyadic_multiple f64_dyadic assms(1,2) by metis
  with assms(3) have "l < k"
    by (metis mult_less_cancel_right_pos of_int_less_iff p2_pos)
  moreover have "x - y = of_int (k - l) * p2 (- 1074)"
    by (simp add: k l left_diff_distrib)
  ultimately show ?thesis by (metis diff_gt_0_iff_gt rr_pos_multiple)
qed

lemma rnd_pos: "0 < rr q \<Longrightarrow> flt fzero (rnd q)"
proof -
  assume "0 < rr q"
  moreover from this have "\<not> rr q \<le> - p2 1024" using p2_pos [of 1024] by linarith
  ultimately show ?thesis by (simp add: rnd_def Let_def)
qed

lemma rnd_neg: "rr q < 0 \<Longrightarrow> flt (rnd q) fzero"
proof -
  assume "rr q < 0"
  moreover from this have "\<not> p2 1024 \<le> rr q" using p2_pos [of 1024] by linarith
  ultimately show ?thesis by (simp add: rnd_def Let_def)
qed

lemma fsub_pos_iff:
  assumes "f64 x" "f64 y" "isfinite x \<or> isfinite y"
  shows "flt fzero (fsub x y) \<longleftrightarrow> flt y x"
proof (cases x; cases y)
  fix p q assume xy: "x = Fin p" "y = Fin q"
  have "flt fzero (rnd (p - q)) \<longleftrightarrow> q < p"
    using assms xy rr_diff_pos [of p q] rnd_pos [of "p - q"] rnd_nonpos [of "p - q"]
    by (cases "q < p") (auto dest: fle_flt_trans flt_fle_trans simp: not_less)
  with xy show ?thesis by (simp add: fsub_def)
qed (use assms in \<open>auto simp: fsub_def\<close>)

lemma fsub_zero_iff:
  assumes "f64 x" "f64 y" "isfinite x \<or> isfinite y"
  shows "feq (fsub x y) fzero \<longleftrightarrow> feq x y"
proof (cases x; cases y)
  fix p q assume xy: "x = Fin p" "y = Fin q"
  have "rnd (p - q) = fzero \<longleftrightarrow> p = q"
  proof (cases p q rule: linorder_cases)
    case less
    then have "rr (p - q) < 0"
      using rr_diff_pos [of q p] rr_minus [of "q - p"] assms xy by simp
    with less show ?thesis using rnd_neg by force
  next
    case greater
    with rr_diff_pos [of p q] assms xy have "0 < rr (p - q)" by simp
    with greater show ?thesis using rnd_pos by force
  qed simp
  with xy show ?thesis by (simp add: fsub_def feq_iff)
qed (use assms in \<open>auto simp: fsub_def\<close>)

lemma fmin_le_left: "a \<noteq> NaN \<Longrightarrow> fle (fmin a b) a"
  by (cases a; cases b) (auto simp: fmin_def fle_def)

lemma fmin_le_right: "a \<noteq> NaN \<Longrightarrow> b \<noteq> NaN \<Longrightarrow> fle (fmin a b) b"
  by (cases a; cases b) (auto simp: fmin_def)

lemma fmax_ge_left: "a \<noteq> NaN \<Longrightarrow> fle a (fmax a b)"
  by (cases a; cases b) (auto simp: fmax_def fle_def)

lemma fmax_ge_right: "a \<noteq> NaN \<Longrightarrow> b \<noteq> NaN \<Longrightarrow> fle b (fmax a b)"
  by (cases a; cases b) (auto simp: fmax_def)

lemma fmin_not_NaN: "a \<noteq> NaN \<Longrightarrow> fmin a b \<noteq> NaN"
  by (cases a; cases b) (auto simp: fmin_def)

lemma fmax_not_NaN: "a \<noteq> NaN \<Longrightarrow> fmax a b \<noteq> NaN"
  by (cases a; cases b) (auto simp: fmax_def)

lemma clampf_bounds:
  assumes "fle lo hi"
  shows "fle lo (clampf lo hi x)" and "fle (clampf lo hi x) hi"
proof -
  from assms have n: "lo \<noteq> NaN" "hi \<noteq> NaN" by (auto dest: fle_not_NaN)
  then show "fle lo (clampf lo hi x)" by (simp add: clampf_def fmax_ge_left)
  have "fle (fmin hi x) hi" using n by (simp add: fmin_le_left)
  with assms show "fle (clampf lo hi x) hi" by (simp add: clampf_def fmax_def)
qed

lemma clampf_unit: "fle fzero (clampf fzero fone x)" "fle (clampf fzero fone x) fone"
  by (rule clampf_bounds; simp)+

lemma clampf_id: "fle lo x \<Longrightarrow> fle x hi \<Longrightarrow> clampf lo hi x = x"
  by (cases lo; cases x; cases hi) (auto simp: clampf_def fmin_def fmax_def)

lemma clampf_NaN: "fle lo hi \<Longrightarrow> clampf lo hi NaN = hi"
  by (cases lo; cases hi) (auto simp: clampf_def fmin_def fmax_def)

text \<open>A value in the unit interval is a finite rational in it.\<close>

lemma unit_Fin:
  assumes "fle fzero x" "fle x fone" obtains q where "x = Fin q" "0 \<le> q" "q \<le> 1"
  using assms by (cases x) auto

lemma fmul_unit_le:
  assumes "fle fzero a" "fle a fone" "fle fzero b" "f64 b" "isfinite b"
  shows "fle fzero (fmul a b)" and "fle (fmul a b) b"
proof -
  obtain p where p: "a = Fin p" "0 \<le> p" "p \<le> 1" using assms(1,2) by (rule unit_Fin)
  obtain q where q: "b = Fin q" "0 \<le> q" using assms(3,5) by (cases b) auto
  show "fle fzero (fmul a b)" using p q by (auto intro!: rnd_nonneg)
  show "fle (fmul a b) b" using p q assms(4) by (auto intro!: rnd_le_f64 mult_left_le_one_le)
qed

lemma fmul_nonneg:
  assumes "fle fzero a" "fle fzero b" "isfinite a" "isfinite b"
  shows "fle fzero (fmul a b)"
  using assms by (cases a; cases b) (auto intro: rnd_nonneg)

lemma fsub_le_self:
  assumes "f64 x" "isfinite x" "fle fzero y" shows "fle (fsub x y) x"
  using assms by (cases x; cases y) (auto simp: fsub_def intro: rnd_le_f64)

lemma fadd_ge_self:
  assumes "f64 x" "isfinite x" "fle fzero y" shows "fle x (fadd x y)"
  using assms by (cases x; cases y) (auto intro: rnd_ge_f64)

lemma fsub_nonneg:
  assumes "fle y x" "isfinite y" shows "fle fzero (fsub x y)"
  using assms by (cases x; cases y) (auto simp: fsub_def intro: rnd_nonneg)

section \<open>Standard-library predicates\<close>

text \<open>
  \<open>math.isclose(a, b, abs_tol=tol)\<close> with the default relative tolerance \<open>1e-09\<close>.
\<close>

definition py_isclose :: "pyfloat \<Rightarrow> pyfloat \<Rightarrow> pyfloat \<Rightarrow> bool" where
  "py_isclose a b tol =
     (if feq a b then True
      else if isinf a \<or> isinf b then False
      else let d = fabs (fsub b a); r = rnd (1 / 1000000000)
           in fle d (fabs (fmul r b)) \<or> fle d (fabs (fmul r a)) \<or> fle d tol)"

lemma py_isclose_refl: "feq a b \<Longrightarrow> py_isclose a b tol"
  by (simp add: py_isclose_def)

lemma py_isclose_NaN: "\<not> py_isclose NaN b tol"
  by (simp add: py_isclose_def isinf_def fsub_def) (cases b; simp)

lemma fsum_snoc: "fsum (xs @ [x]) = fadd (fsum xs) x"
  by (simp add: fsum_def)

section \<open>Ranges, sums and monotonicity\<close>

text \<open>An ordinary double: finite and representable.\<close>

definition num :: "pyfloat \<Rightarrow> bool" where
  "num x = (isfinite x \<and> f64 x)"

lemma fmin_one_unit: "x = NaN \<or> fle fzero x \<Longrightarrow> fle fzero (fmin fone x) \<and> fle (fmin fone x) fone"
  by (cases x) (auto simp: fmin_def)

lemma fdiv_nonneg: "x = NaN \<or> fle fzero x \<Longrightarrow> y = NaN \<or> flt fzero y \<Longrightarrow> fdiv x y = NaN \<or> fle fzero (fdiv x y)"
  by (cases x; cases y) (auto intro!: rnd_nonneg)

lemma fsum_unit:
  assumes "list_all (\<lambda>x. fle fzero x \<and> fle x fone) xs" "length xs \<le> 1000"
  shows "\<exists>q. fsum xs = Fin q \<and> 0 \<le> q \<and> q \<le> of_nat (length xs)"
  using assms
proof (induction xs rule: rev_induct)
  case (snoc x xs)
  then obtain q where q: "fsum xs = Fin q" "0 \<le> q" "q \<le> of_nat (length xs)"
    by auto
  from snoc obtain x' where x: "x = Fin x'" "0 \<le> x'" "x' \<le> 1"
    by (auto elim!: unit_Fin)
  let ?n = "int (length xs) + 1"
  have n: "\<bar>?n\<bar> \<le> 2 ^ 53" using snoc.prems by simp
  then have "f64 (Fin (of_int ?n))"
  proof -
    have "p2 1024 = of_int (2 ^ 1024)" by (simp add: p2_def)
    moreover have "?n < 2 ^ 1024" using n by (simp add: order.strict_trans1 [of _ "2 ^ 53"])
    ultimately have "of_int ?n < p2 1024" by (metis of_int_less_iff)
    moreover have "(0::rat) \<le> of_int ?n" by simp
    ultimately show ?thesis using rr_of_int [OF n] unfolding f64_def by (simp only: pyfloat.case abs_of_nonneg simp_thms)
  qed
  then have "fle (rnd (q + x')) (Fin (of_int ?n))"
    using q x by (intro rnd_le_f64) auto
  moreover have "fle fzero (rnd (q + x'))" using q x by (intro rnd_nonneg) auto
  ultimately show ?case using q x by (cases "rnd (q + x')") (auto simp: fsum_snoc)
qed (simp add: fsum_def)

lemma mean_unit:
  assumes "list_all (\<lambda>x. fle fzero x \<and> fle x fone) xs" "length xs \<le> 1000" "xs \<noteq> []"
  shows "\<exists>m. py_div (fsum xs) (Fin (of_nat (length xs))) = Inr m \<and> fle fzero m \<and> fle m fone"
proof -
  obtain q where q: "fsum xs = Fin q" "0 \<le> q" "q \<le> of_nat (length xs)"
    using fsum_unit [OF assms(1,2)] by blast
  moreover have "0 < (of_nat (length xs) :: rat)" using assms(3) by simp
  ultimately have "0 \<le> q / of_nat (length xs)" "q / of_nat (length xs) \<le> 1" by auto
  then have "fle fzero (rnd (q / of_nat (length xs)))" "fle (rnd (q / of_nat (length xs))) fone"
    by (auto intro: rnd_nonneg rnd_le_f64)
  then show ?thesis using q assms(3) by (simp add: py_div_def)
qed

lemma numE: assumes "num x" obtains q where "x = Fin q" "f64 (Fin q)"
  using assms by (cases x) (auto simp: num_def)

lemma f64_fsum [simp]: "list_all f64 xs \<Longrightarrow> f64 (fsum xs)"
  by (induction xs rule: rev_induct) (auto simp: fsum_snoc, simp add: fsum_def)

lemma f64_clamp_unit [simp]: "f64 x \<Longrightarrow> f64 (clampf fzero fone x)"
  by (simp add: clampf_def)

lemma unit_mult:
  assumes "fle fzero x" "fle x fone" "fle fzero y" "fle y fone" "f64 y"
  shows "fle fzero (fmul x y)" "fle (fmul x y) fone"
proof -
  have "isfinite y" using assms(3,4) by (cases y) auto
  note le = fmul_unit_le [OF assms(1-3) assms(5) this]
  show "fle fzero (fmul x y)" by (rule le(1))
  show "fle (fmul x y) fone" using le(2) assms(4) by (rule fle_trans)
qed

lemma unit_mult_finite:
  assumes "fle fzero x" "fle x fone" "num b"
  shows "fmul x b \<noteq> NaN"
  using assms by (auto elim!: unit_Fin numE)

lemma num_finite: "num x \<Longrightarrow> isfinite x \<and> f64 x \<and> x \<noteq> NaN"
  by (cases x) (auto simp: num_def)

lemma fmul_bounded_finite:
  assumes "num g" "fle (fabs g) fone" "fle fzero s" "fle s fone"
  shows "isfinite (fmul g s)"
proof -
  obtain x y where x: "g = Fin x" "s = Fin y" "0 \<le> y" "y \<le> 1" "\<bar>x\<bar> \<le> 1"
    using assms by (auto elim!: numE unit_Fin)
  have "\<bar>x * y\<bar> \<le> 1 * 1" unfolding abs_mult using x by (intro mult_mono) auto
  then have "- 1 \<le> x * y" "x * y \<le> 1" by auto
  then have "fle (Fin (- 1)) (rnd (x * y))" "fle (rnd (x * y)) fone"
    by (auto intro!: rnd_ge_f64 rnd_le_f64 simp: f64_minus)
  then show ?thesis using x by (cases "rnd (x * y)") auto
qed

lemma fadd_not_NaN: "isfinite y \<Longrightarrow> x \<noteq> NaN \<Longrightarrow> fadd x y \<noteq> NaN"
  by (cases x; cases y) auto

lemma fmul_mono:
  assumes "isfinite g" "fle fzero g" "isfinite x" "isfinite y" "fle x y"
  shows "fle (fmul g x) (fmul g y)"
  using assms by (cases g; cases x; cases y) (auto intro!: rnd_mono mult_left_mono)

lemma fmul_mono_left:
  assumes "isfinite g" "fle fzero g" "isfinite x" "isfinite y" "fle x y"
  shows "fle (fmul x g) (fmul y g)"
  using assms by (cases g; cases x; cases y) (auto intro!: rnd_mono mult_right_mono)

lemma rnd_inf_bounds [simp]: "fle (rnd x) PInf" "fle NInf (rnd x)"
  using rnd_not_NaN [of x] by (cases "rnd x"; simp)+

lemma fadd_mono:
  assumes "isfinite g" "fle x y" shows "fle (fadd g x) (fadd g y)"
  using assms by (cases g; cases x; cases y) (auto intro!: rnd_mono)

lemma fsub_antimono:
  assumes "isfinite g" "isfinite x" "isfinite y" "fle x y" shows "fle (fsub g y) (fsub g x)"
  using assms by (cases g; cases x; cases y) (auto intro!: rnd_mono simp: fsub_def)

lemma fmax_mono: "fle a b \<Longrightarrow> z \<noteq> NaN \<Longrightarrow> fle (fmax z a) (fmax z b)"
  by (cases a; cases b; cases z) (auto simp: fmax_def)

lemma fmin_mono: "fle a b \<Longrightarrow> z \<noteq> NaN \<Longrightarrow> fle (fmin a z) (fmin b z)"
  by (cases a; cases b; cases z) (auto simp: fmin_def)

lemma fmin_mono_right: "fle a b \<Longrightarrow> z \<noteq> NaN \<Longrightarrow> fle (fmin z a) (fmin z b)"
  by (cases a; cases b; cases z) (auto simp: fmin_def)

lemma clampf_mono: "fle a b \<Longrightarrow> lo \<noteq> NaN \<Longrightarrow> hi \<noteq> NaN \<Longrightarrow> fle (clampf lo hi a) (clampf lo hi b)"
  unfolding clampf_def by (intro fmax_mono fmin_mono_right)

lemma fsub_one_finite:
  assumes "num x" "fle (fabs x) fone" shows "isfinite (fsub fone x)"
proof -
  obtain q where q: "x = Fin q" "\<bar>q\<bar> \<le> 1" using assms by (auto elim: numE)
  then have "fle fzero (rnd (1 - q))" "fle (rnd (1 - q)) (Fin 2)"
    by (auto intro!: rnd_nonneg rnd_le_f64 simp: f64_def rr_numeral p2_def)
  then show ?thesis using q by (cases "rnd (1 - q)") (auto simp: fsub_def)
qed

lemma fmul_unit_abs:
  assumes "num g" "fle fzero g" "fle g fone" "fle fzero s" "fle s fone"
  shows "num (fmul g s)" "fle (fabs (fmul g s)) fone"
proof -
  obtain x y where x: "g = Fin x" "s = Fin y" "0 \<le> y" "y \<le> 1" "0 \<le> x" "x \<le> 1"
    using assms by (auto elim!: numE unit_Fin)
  have "x * y \<le> 1" using x by (simp add: mult_le_one)
  then have "fle fzero (rnd (x * y))" "fle (rnd (x * y)) fone"
    using x by (auto intro!: rnd_nonneg rnd_le_f64)
  then show "num (fmul g s)" "fle (fabs (fmul g s)) fone"
    using x f64_rnd [of "x * y"] by (cases "rnd (x * y)"; simp add: num_def)+
qed

lemma fdiv_mono_pos:
  assumes "fle x y" "0 < z" shows "fle (fdiv x (Fin z)) (fdiv y (Fin z))"
  using assms by (cases x; cases y) (auto intro!: rnd_mono divide_right_mono)

lemma fsub_mono_left: "fle x y \<Longrightarrow> fle (fsub x (Fin z)) (fsub y (Fin z))"
  by (cases x; cases y) (auto simp: fsub_def intro!: rnd_mono)

lemma fmul_pos_mono: "0 < z \<Longrightarrow> fle x y \<Longrightarrow> fle (fmul (Fin z) x) (fmul (Fin z) y)"
  by (cases x; cases y) (auto simp: inf_of_sign_def intro!: rnd_mono mult_left_mono)

lemma fdiv_mono_left:
  assumes "fle x y" "isfinite z" "flt fzero z" shows "fle (fdiv x z) (fdiv y z)"
  using assms by (cases z) (auto intro: fdiv_mono_pos)

lemma fsub_antimono_right: "fle x y \<Longrightarrow> fle (fsub (Fin z) y) (fsub (Fin z) x)"
  by (cases x; cases y) (auto simp: fsub_def intro!: rnd_mono)

section \<open>Rounding error\<close>

lemma rr_error: "\<bar>rr q - q\<bar> \<le> p2 (lastexp q) / 2"
proof (cases "q = 0")
  case False
  let ?e = "p2 (lastexp q)"
  have "\<bar>of_int (rhe (q / ?e)) - q / ?e\<bar> \<le> 1 / 2"
    using rhe_bounds [of "q / ?e"] by linarith
  then have "\<bar>of_int (rhe (q / ?e)) - q / ?e\<bar> * ?e \<le> 1 / 2 * ?e"
    by (intro mult_right_mono) (auto intro: less_imp_le)
  moreover have "\<bar>of_int (rhe (q / ?e)) - q / ?e\<bar> * ?e = \<bar>(of_int (rhe (q / ?e)) - q / ?e) * ?e\<bar>"
    by (simp add: abs_mult abs_of_pos)
  moreover have "(of_int (rhe (q / ?e)) - q / ?e) * ?e = rr q - q"
    using False by (simp add: rr_def left_diff_distrib)
  ultimately show ?thesis by simp
qed (auto intro: less_imp_le)

lemma rr_relative_error:
  assumes "p2 (- 1022) \<le> \<bar>q\<bar>" shows "\<bar>rr q - q\<bar> \<le> \<bar>q\<bar> * p2 (- 53)"
proof -
  have q: "0 < \<bar>q\<bar>" using assms p2_pos [of "- 1022"] by linarith
  have "- 1022 \<le> ilog2 \<bar>q\<bar>" using ilog2_ge [OF q assms] .
  then have "p2 (lastexp q) = p2 (ilog2 \<bar>q\<bar>) * p2 (- 52)" by (simp add: lastexp_def p2_add [symmetric])
  moreover have "p2 (- 52) / 2 = p2 (- 53)" using p2_add [of "- 53" 1] by (simp add: p2_def)
  ultimately have "p2 (lastexp q) / 2 = p2 (ilog2 \<bar>q\<bar>) * p2 (- 53)" by simp
  also have "\<dots> \<le> \<bar>q\<bar> * p2 (- 53)"
    using ilog2_bounds(1) [OF q] by (intro mult_right_mono) (auto intro: less_imp_le)
  finally show ?thesis using rr_error [of q] by linarith
qed

lemma rhe_near: "\<bar>c - of_int n\<bar> < 1 / 2 \<Longrightarrow> rhe c = n"
proof -
  assume a: "\<bar>c - of_int n\<bar> < 1 / 2"
  have "\<bar>of_int (rhe c) - of_int n\<bar> < (1::rat)" using rhe_bounds [of c] a by linarith
  then have "\<bar>of_int (rhe c - n)\<bar> < (1::rat)" by simp
  then show ?thesis by linarith
qed

lemma p2_m53: "p2 (- 53) = 1 / 9007199254740992"
  by (simp add: p2_def)

end
