(* ===== verification/CoreState.thy ===== *)
theory CoreState
  imports PyFloat
begin

text \<open>
  The typed payloads of \<open>agent/core/state.py\<close> and \<open>agent/engines/base.py\<close>: lifecycle phases,
  actions, fusion weights, engine signals, with the validators that run when one is built.

  The records are Pydantic models.  Pydantic itself is not part of the repository: its bound
  constraints (\<open>ge\<close>, \<open>gt\<close>, \<open>le\<close>) compare as documented on every ordinary number, and whether
  a NaN passes them is the parameter \<open>nv\<close> of every constructor, so no result depends on it.
\<close>

section \<open>Enumerations\<close>

datatype phase = PHASE_1_INFANCY | PHASE_2_APPRENTICE | PHASE_3_MASTER | PHASE_4_TERMINAL

datatype action_kind = BET | NO_BET

datatype side = YES | NO

section \<open>Bound constraints\<close>

definition pyd_ge :: "bool \<Rightarrow> pyfloat \<Rightarrow> pyfloat \<Rightarrow> bool" where
  "pyd_ge nv lo x = (if isnan x then nv else fle lo x)"

definition pyd_gt :: "bool \<Rightarrow> pyfloat \<Rightarrow> pyfloat \<Rightarrow> bool" where
  "pyd_gt nv lo x = (if isnan x then nv else flt lo x)"

definition pyd_le :: "bool \<Rightarrow> pyfloat \<Rightarrow> pyfloat \<Rightarrow> bool" where
  "pyd_le nv hi x = (if isnan x then nv else fle x hi)"

lemma pyd_ge_number [simp]: "x \<noteq> NaN \<Longrightarrow> pyd_ge nv lo x = fle lo x"
  by (simp add: pyd_ge_def isnan_def)

lemma pyd_gt_number [simp]: "x \<noteq> NaN \<Longrightarrow> pyd_gt nv lo x = flt lo x"
  by (simp add: pyd_gt_def isnan_def)

lemma pyd_le_number [simp]: "x \<noteq> NaN \<Longrightarrow> pyd_le nv hi x = fle x hi"
  by (simp add: pyd_le_def isnan_def)

section \<open>Vitals and weights\<close>

record vitals =
  v_breath :: pyfloat
  v_bankroll_usd :: pyfloat
  v_phase_age_days :: pyfloat

definition mk_vitals :: "bool \<Rightarrow> vitals \<Rightarrow> vitals res" where
  "mk_vitals nv v =
     (if pyd_ge nv fzero (v_breath v) \<and> pyd_ge nv fzero (v_phase_age_days v)
      then Inr v else Inl ValidationError)"

record weights =
  w_r :: pyfloat
  w_s :: pyfloat
  alpha :: "pyfloat list"
  beta :: "pyfloat list"
  rho :: pyfloat

text \<open>\<open>Weights.validate_normalised\<close>, in the order of its checks.\<close>

definition validate_normalised :: "weights \<Rightarrow> bool" where
  "validate_normalised w =
     (let tol = rnd (1 / 1000000) in
      if \<not> py_isclose (fadd (w_r w) (w_s w)) fone tol then False
      else if \<not> py_isclose (fsum (alpha w)) fone tol then False
      else if \<not> py_isclose (fsum (beta w)) fone tol then False
      else if list_ex (\<lambda>a. flt a fzero) (alpha w) then False
      else if list_ex (\<lambda>b. flt b fzero) (beta w) then False
      else True)"

definition weights_fields_ok :: "bool \<Rightarrow> weights \<Rightarrow> bool" where
  "weights_fields_ok nv w =
     (pyd_ge nv fzero (w_r w) \<and> pyd_le nv fone (w_r w) \<and>
      pyd_ge nv fzero (w_s w) \<and> pyd_le nv fone (w_s w) \<and>
      length (alpha w) = 3 \<and> length (beta w) = 2 \<and>
      pyd_ge nv (Fin (- 1)) (rho w) \<and> pyd_le nv fone (rho w))"

definition mk_weights :: "bool \<Rightarrow> weights \<Rightarrow> weights res" where
  "mk_weights nv w =
     (if weights_fields_ok nv w \<and> validate_normalised w then Inr w else Inl ValidationError)"

lemma mk_weights_Inr: "mk_weights nv w = Inr w' \<longleftrightarrow>
    w' = w \<and> weights_fields_ok nv w \<and> validate_normalised w"
  by (auto simp: mk_weights_def)

lemma mk_weights_Inl: "mk_weights nv w = Inl e \<Longrightarrow> e = ValidationError"
  by (simp add: mk_weights_def split: if_splits)

section \<open>Actions\<close>

text \<open>
  The reason strings of a NO_BET: the tag of \<open>decision.py\<close> or \<open>sandbox_phase2_loop.py\<close> with the
  number the code appends, kept as a number rather than as its four-decimal text.
\<close>

datatype no_bet_reason =
    MissingEngineSignal "string list"
  | SizeBelowMinBet pyfloat
  | MeanConfidenceBelowThreshold
  | ZeroKellyFraction
  | FusedScoreNeutral
  | EdgeBelowMin pyfloat
  | EffectivePriceBelowFloor pyfloat
  | NoEligibleMarket

record action =
  a_kind :: action_kind
  a_market_id :: "string option"
  a_side :: "side option"
  a_size_usd :: "pyfloat option"
  a_edge_pct :: "pyfloat option"
  a_no_bet_reason :: "no_bet_reason option"

definition validate_shape :: "action \<Rightarrow> bool" where
  "validate_shape a =
     (case a_kind a of
        BET \<Rightarrow>
          (if a_market_id a = None \<or> a_side a = None \<or> a_size_usd a = None then False
           else if fle (the (a_size_usd a)) fzero then False
           else a_no_bet_reason a = None)
      | NO_BET \<Rightarrow> (case a_size_usd a of None \<Rightarrow> True | Some s \<Rightarrow> feq s fzero))"

definition mk_action :: "bool \<Rightarrow> action \<Rightarrow> action res" where
  "mk_action nv a =
     (if (case a_size_usd a of None \<Rightarrow> True | Some s \<Rightarrow> pyd_ge nv fzero s) \<and> validate_shape a
      then Inr a else Inl ValidationError)"

definition no_bet :: "no_bet_reason \<Rightarrow> action" where
  "no_bet r = \<lparr>a_kind = NO_BET, a_market_id = None, a_side = None, a_size_usd = None,
               a_edge_pct = None, a_no_bet_reason = Some r\<rparr>"

definition bet :: "string \<Rightarrow> side \<Rightarrow> pyfloat \<Rightarrow> pyfloat \<Rightarrow> action" where
  "bet m s z e = \<lparr>a_kind = BET, a_market_id = Some m, a_side = Some s, a_size_usd = Some z,
               a_edge_pct = Some e, a_no_bet_reason = None\<rparr>"

lemma no_bet_simps [simp]:
  "a_kind (no_bet r) = NO_BET" "a_no_bet_reason (no_bet r) = Some r" "a_size_usd (no_bet r) = None"
  "a_market_id (no_bet r) = None" "a_side (no_bet r) = None" "a_edge_pct (no_bet r) = None"
  by (simp_all add: no_bet_def)

lemma bet_simps [simp]:
  "a_kind (bet m s z e) = BET" "a_no_bet_reason (bet m s z e) = None" "a_size_usd (bet m s z e) = Some z"
  "a_market_id (bet m s z e) = Some m" "a_side (bet m s z e) = Some s" "a_edge_pct (bet m s z e) = Some e"
  by (simp_all add: bet_def)

lemma no_bet_neq_bet [simp]: "no_bet r \<noteq> bet m s z e" "bet m s z e \<noteq> no_bet r"
  by (simp_all add: no_bet_def bet_def)

lemma no_bet_inject [simp]: "no_bet r = no_bet r' \<longleftrightarrow> r = r'"
  by (simp add: no_bet_def)

lemma bet_inject [simp]: "bet m s z e = bet m' s' z' e' \<longleftrightarrow> m = m' \<and> s = s' \<and> z = z' \<and> e = e'"
  by (auto simp: bet_def)

lemma mk_no_bet [simp]: "mk_action nv (no_bet r) = Inr (no_bet r)"
  by (simp add: mk_action_def validate_shape_def)

lemma mk_bet_pos [simp]: "flt fzero z \<Longrightarrow> mk_action nv (bet m s z e) = Inr (bet m s z e)"
  by (cases z) (auto simp: mk_action_def validate_shape_def)

lemma mk_bet_Inr: "mk_action nv (bet m s z e) = Inr a \<Longrightarrow> a = bet m s z e \<and> \<not> fle z fzero"
  by (auto simp: mk_action_def validate_shape_def split: if_splits)

text \<open>A shape-checked BET names a market, a side and a size that is not zero or negative.\<close>

lemma mk_action_BET:
  assumes "mk_action nv a = Inr a'" "a_kind a' = BET"
  obtains m s z where "a_market_id a' = Some m" "a_side a' = Some s" "a_size_usd a' = Some z"
    "\<not> fle z fzero" "a_no_bet_reason a' = None"
  using assms by (auto simp: mk_action_def validate_shape_def split: if_splits)

section \<open>Engine signals\<close>

record signal =
  score :: pyfloat
  confidence :: pyfloat
  available_at :: string
  rationale :: string
  raw_features :: "(string, pyfloat) dict"

definition mk_signal :: "bool \<Rightarrow> signal \<Rightarrow> signal res" where
  "mk_signal nv s =
     (if pyd_ge nv (Fin (- 1)) (score s) \<and> pyd_le nv fone (score s) \<and>
         pyd_ge nv fzero (confidence s) \<and> pyd_le nv fone (confidence s)
      then Inr s else Inl ValidationError)"

end
