(* ===== verification/Decision.thy ===== *)
theory Decision
  imports CoreState
begin

text \<open>
  The decision engine (\<open>agent/engines/decision.py\<close>): two-layer fusion of five engine signals,
  the legacy and the value-betting direction stage, the storm-conditional edge gate, Kelly
  sizing, the four-constraint clamp and the exploration floor.

  The state of a \<open>DecisionEngine\<close> is its last gate diagnostics and, when exploration is on,
  the position in the stream of its random generator.  \<open>decide\<close> takes that state and returns
  the new one with the action (or the exception).  The async keyword of the source carries no
  behaviour: the body performs no I/O.
\<close>

section \<open>Names and constants\<close>

definition TENNIS_TECHNICAL :: string where "TENNIS_TECHNICAL = ''tennis_technical''"
definition MARKET_MOMENTUM :: string where "MARKET_MOMENTUM = ''market_momentum''"
definition SURFACE_ADVANTAGE :: string where "SURFACE_ADVANTAGE = ''surface_advantage''"
definition HEAD_TO_HEAD :: string where "HEAD_TO_HEAD = ''head_to_head''"
definition REST_RECENCY :: string where "REST_RECENCY = ''rest_recency''"

definition RATIONAL_ENGINES :: "string list" where
  "RATIONAL_ENGINES = [TENNIS_TECHNICAL, MARKET_MOMENTUM, SURFACE_ADVANTAGE]"

definition SENTIENT_ENGINES :: "string list" where
  "SENTIENT_ENGINES = [HEAD_TO_HEAD, REST_RECENCY]"

definition NORMAL_BET_SIZE_CAP :: pyfloat where "NORMAL_BET_SIZE_CAP = rnd (30 / 100)"
definition DESPERATE_BET_SIZE_CAP :: pyfloat where "DESPERATE_BET_SIZE_CAP = rnd (50 / 100)"

section \<open>Configuration\<close>

record engine_config =
  max_breath_risk_pct :: pyfloat
  conversion_rate :: pyfloat
  min_bet_size_usd :: pyfloat
  min_confidence :: pyfloat
  min_edge :: pyfloat
  kappa :: pyfloat
  kappa_xm :: pyfloat
  entry_price_floor :: "pyfloat option"
  gate_storm_sensitivity :: pyfloat
  risk_storm_sensitivity :: pyfloat
  exploration_epsilon :: pyfloat
  exploration_rng :: "(nat \<Rightarrow> pyfloat) option"

text \<open>The defaults of \<open>DecisionEngine.__init__\<close>.\<close>

definition default_config :: engine_config where
  "default_config = \<lparr>
     max_breath_risk_pct = rnd (30 / 100), conversion_rate = fone,
     min_bet_size_usd = Fin 5, min_confidence = rnd (5 / 100), min_edge = fzero,
     kappa = rnd (25 / 100), kappa_xm = fzero, entry_price_floor = None,
     gate_storm_sensitivity = fzero, risk_storm_sensitivity = fzero,
     exploration_epsilon = fzero, exploration_rng = None\<rparr>"

text \<open>The checks of \<open>DecisionEngine.__init__\<close>, in order; each failure is a \<open>ValueError\<close>.\<close>

definition config_ok :: "engine_config \<Rightarrow> bool" where
  "config_ok c =
     (if fle (max_breath_risk_pct c) fzero \<or> flt fone (max_breath_risk_pct c) then False
      else if fle (conversion_rate c) fzero then False
      else if flt (min_bet_size_usd c) fzero then False
      else if \<not> (fle fzero (min_confidence c) \<and> fle (min_confidence c) fone) then False
      else if \<not> (fle fzero (min_edge c) \<and> fle (min_edge c) fone) then False
      else if fle (kappa c) fzero \<or> flt fone (kappa c) then False
      else if \<not> (fle fzero (kappa_xm c) \<and> fle (kappa_xm c) fone) then False
      else if (case entry_price_floor c of None \<Rightarrow> False
               | Some f \<Rightarrow> \<not> (fle fzero f \<and> flt f fone)) then False
      else if list_ex (\<lambda>g. \<not> isfinite g \<or> flt fone (fabs g))
                [gate_storm_sensitivity c, risk_storm_sensitivity c] then False
      else if \<not> (fle fzero (exploration_epsilon c) \<and> fle (exploration_epsilon c) fone) then False
      else True)"

record gate_diagnostics =
  g_storm :: pyfloat
  g_edge_abs :: pyfloat
  g_min_edge_base :: pyfloat
  g_gamma :: pyfloat
  g_eff_min_edge :: pyfloat

record engine_state =
  rng_pos :: nat
  last_gate_diagnostics :: "gate_diagnostics option"

definition mk_engine :: "engine_config \<Rightarrow> engine_state res" where
  "mk_engine c = (if config_ok c then Inr \<lparr>rng_pos = 0, last_gate_diagnostics = None\<rparr>
                  else Inl ValueError)"

section \<open>Fusion\<close>

record fusion_result =
  raw_rational :: pyfloat
  raw_sentient :: pyfloat
  fused :: pyfloat
  mean_confidence :: pyfloat

definition sig_get :: "(string, signal) dict \<Rightarrow> string \<Rightarrow> signal res" where
  "sig_get d n = (case dget d n of None \<Rightarrow> Inl KeyError | Some s \<Rightarrow> Inr s)"

definition weighted :: "pyfloat list \<Rightarrow> signal list \<Rightarrow> pyfloat" where
  "weighted ws ss = fsum (map2 (\<lambda>w s. fmul (fmul w (score s)) (confidence s)) ws ss)"

definition fuse_signals ::
  "(string, signal) dict \<Rightarrow> pyfloat \<times> pyfloat \<times> pyfloat \<Rightarrow> pyfloat \<times> pyfloat \<Rightarrow>
   pyfloat \<Rightarrow> pyfloat \<Rightarrow> fusion_result res" where
  "fuse_signals signals al be wr ws =
     (case (al, be) of ((a0, a1, a2), (b0, b1)) \<Rightarrow>
        rbind (rmap (sig_get signals) RATIONAL_ENGINES) (\<lambda>rs.
        rbind (rmap (sig_get signals) SENTIENT_ENGINES) (\<lambda>ss.
        let rational = weighted [a0, a1, a2] rs;
            sentient = weighted [b0, b1] ss;
            confs = map confidence (rs @ ss)
        in rbind (py_div (fsum confs) (Fin (of_nat (length confs)))) (\<lambda>mean_conf.
           Inr \<lparr>raw_rational = rational, raw_sentient = sentient,
                fused = fadd (fmul wr rational) (fmul ws sentient),
                mean_confidence = mean_conf\<rparr>))))"

section \<open>Kelly fractions and direction\<close>

definition kelly_fraction :: "pyfloat \<Rightarrow> pyfloat res" where
  "kelly_fraction edge_abs =
     (if fle edge_abs fzero then Inr fzero
      else if fle fone edge_abs then Inr fone
      else rbind (py_div edge_abs (fsub fone edge_abs)) (\<lambda>k. Inr (fmin fone k)))"

definition value_kelly_fraction :: "pyfloat \<Rightarrow> pyfloat \<Rightarrow> pyfloat res" where
  "value_kelly_fraction edge effective_price =
     (if fle edge fzero then Inr fzero
      else if fle fone effective_price then Inr fone
      else rbind (py_div edge (fsub fone effective_price)) (\<lambda>k. Inr (fmin fone k)))"

text \<open>\<open>p_model\<close>: the price tilted by the fused and the cross-market signal, clamped.\<close>

definition p_model :: "engine_config \<Rightarrow> pyfloat \<Rightarrow> pyfloat \<Rightarrow> pyfloat \<Rightarrow> pyfloat" where
  "p_model c d_price fs xm =
     clampf fzero fone (fadd (fadd d_price (fmul (kappa c) fs)) (fmul (kappa_xm c) xm))"

definition value_side ::
  "engine_config \<Rightarrow> pyfloat option \<Rightarrow> pyfloat \<Rightarrow> pyfloat \<Rightarrow> side option" where
  "value_side c d_price fs xm =
     (case d_price of
        None \<Rightarrow> None
      | Some p \<Rightarrow>
          let edge_yes = fsub (p_model c p fs xm) p
          in if feq edge_yes fzero then None
             else if flt fzero edge_yes then Some YES else Some NO)"

section \<open>Sizing and exploration\<close>

definition clamped_size ::
  "engine_config \<Rightarrow> pyfloat \<Rightarrow> pyfloat \<Rightarrow> pyfloat \<Rightarrow> pyfloat \<Rightarrow> pyfloat \<Rightarrow> pyfloat res" where
  "clamped_size c desired d_breath bankroll cap d_liquidity_cap_usd =
     rbind (py_div (fmul d_breath (max_breath_risk_pct c)) (conversion_rate c)) (\<lambda>breath_cap.
       let bankroll_cap = fmul bankroll cap;
           liquidity_cap = fmax fzero d_liquidity_cap_usd
       in Inr (fmin_list desired [breath_cap, bankroll_cap, liquidity_cap]))"

record decide_args =
  d_signals :: "(string, signal) dict"
  d_alpha :: "pyfloat \<times> pyfloat \<times> pyfloat"
  d_beta :: "pyfloat \<times> pyfloat"
  d_w_r :: pyfloat
  d_w_s :: pyfloat
  d_rho :: pyfloat
  d_bankroll_usd :: pyfloat
  d_breath :: pyfloat
  d_liquidity_cap_usd :: pyfloat
  d_market_id :: string
  d_desperate :: bool
  d_price :: "pyfloat option"
  d_storm :: pyfloat
  d_cross_market_signal :: pyfloat

type_synonym decided = "action res \<times> engine_state"

definition explore_or ::
  "bool \<Rightarrow> engine_config \<Rightarrow> decide_args \<Rightarrow> engine_state \<Rightarrow> no_bet_reason \<Rightarrow> side option \<Rightarrow> decided" where
  "explore_or nv c a st r sd =
     (case exploration_rng c of
        None \<Rightarrow> (mk_action nv (no_bet r), st)
      | Some rng \<Rightarrow>
          if fle (exploration_epsilon c) fzero then (mk_action nv (no_bet r), st)
          else (case sd of
            None \<Rightarrow> (mk_action nv (no_bet r), st)
          | Some s \<Rightarrow>
              let draw = rng (rng_pos st); st' = st\<lparr>rng_pos := Suc (rng_pos st)\<rparr>
              in if fle (exploration_epsilon c) draw then (mk_action nv (no_bet r), st')
                 else (case clamped_size c (min_bet_size_usd c) (d_breath a) (d_bankroll_usd a)
                              NORMAL_BET_SIZE_CAP (d_liquidity_cap_usd a) of
                         Inl e \<Rightarrow> (Inl e, st')
                       | Inr z \<Rightarrow>
                           if flt z (min_bet_size_usd c) \<or> fle z fzero
                           then (mk_action nv (no_bet r), st')
                           else (mk_action nv (bet (d_market_id a) s z fzero), st'))))"

section \<open>The decision\<close>

text \<open>
  What step 4 (direction and Kelly) hands on: a plain abstain, an explorable abstain with its
  resolved side, or a side with its edge and Kelly fraction.
\<close>

datatype direction =
    Abstain no_bet_reason
  | Explorable no_bet_reason side
  | Leg side pyfloat pyfloat

definition sanitize_storm :: "pyfloat \<Rightarrow> pyfloat" where
  "sanitize_storm s = clampf fzero fone (if isfinite s then s else fzero)"

definition sanitize_xm :: "pyfloat \<Rightarrow> pyfloat" where
  "sanitize_xm x = clampf (Fin (- 1)) fone (if isfinite x then x else fzero)"

definition missing_engines :: "(string, signal) dict \<Rightarrow> string list" where
  "missing_engines d = filter (\<lambda>n. dget d n = None) (RATIONAL_ENGINES @ SENTIENT_ENGINES)"

definition legacy_direction :: "pyfloat \<Rightarrow> direction res" where
  "legacy_direction fs =
     (if feq fs fzero then Inr (Abstain FusedScoreNeutral)
      else rbind (kelly_fraction (fabs fs)) (\<lambda>k.
           Inr (Leg (if flt fzero fs then YES else NO) (fabs fs) k)))"

definition eff_min_edge :: "engine_config \<Rightarrow> pyfloat \<Rightarrow> pyfloat" where
  "eff_min_edge c s = fmax fzero (fadd (min_edge c) (fmul (gate_storm_sensitivity c) s))"

text \<open>
  Value mode returns the direction and the gate diagnostics (\<open>None\<close> when the stage returns
  before the gate is evaluated).
\<close>

definition value_direction ::
  "engine_config \<Rightarrow> pyfloat \<Rightarrow> pyfloat \<Rightarrow> pyfloat \<Rightarrow> pyfloat \<Rightarrow> direction res \<times> gate_diagnostics option" where
  "value_direction c p fs xm s =
     (let edge_yes = fsub (p_model c p fs xm) p in
      if feq edge_yes fzero then (Inr (Abstain FusedScoreNeutral), None)
      else
        let sd = (if flt fzero edge_yes then YES else NO);
            edge_abs = fabs edge_yes;
            eff = (if sd = YES then p else fsub fone p)
        in if (case entry_price_floor c of None \<Rightarrow> False | Some f \<Rightarrow> flt eff f)
           then (Inr (Abstain (EffectivePriceBelowFloor eff)), None)
           else
             let me = eff_min_edge c s;
                 diag = \<lparr>g_storm = s, g_edge_abs = edge_abs, g_min_edge_base = min_edge c,
                         g_gamma = gate_storm_sensitivity c, g_eff_min_edge = me\<rparr>
             in if flt edge_abs me
                then (Inr (Explorable (EdgeBelowMin edge_abs) sd), Some diag)
                else (rbind (value_kelly_fraction edge_abs eff) (\<lambda>k. Inr (Leg sd edge_abs k)),
                      Some diag))"

definition rho_effective :: "engine_config \<Rightarrow> pyfloat \<Rightarrow> pyfloat \<Rightarrow> pyfloat" where
  "rho_effective c r s =
     clampf fzero fone (fmul r (fsub fone (fmul (risk_storm_sensitivity c) s)))"

text \<open>Steps 5 to 7: the four-constraint minimum, the minimum-bet floor, the BET.\<close>

definition size_and_bet ::
  "bool \<Rightarrow> engine_config \<Rightarrow> decide_args \<Rightarrow> engine_state \<Rightarrow> pyfloat \<Rightarrow> pyfloat \<Rightarrow> side \<Rightarrow> pyfloat \<Rightarrow> pyfloat \<Rightarrow> decided"
where
  "size_and_bet nv c a st s mc sd edge k =
     (let desired = fmul (fmul (fmul (rho_effective c (d_rho a) s) k) mc) (d_bankroll_usd a);
          cap = (if d_desperate a then DESPERATE_BET_SIZE_CAP else NORMAL_BET_SIZE_CAP)
      in case clamped_size c desired (d_breath a) (d_bankroll_usd a) cap (d_liquidity_cap_usd a) of
           Inl e \<Rightarrow> (Inl e, st)
         | Inr z \<Rightarrow>
             if fle z fzero \<or> flt z (min_bet_size_usd c)
             then explore_or nv c a st (SizeBelowMinBet z) (Some sd)
             else (mk_action nv (bet (d_market_id a) sd z edge), st))"

definition act_on ::
  "bool \<Rightarrow> engine_config \<Rightarrow> decide_args \<Rightarrow> engine_state \<Rightarrow> pyfloat \<Rightarrow> pyfloat \<Rightarrow> direction \<Rightarrow> decided" where
  "act_on nv c a st s mc d =
     (case d of
        Abstain r \<Rightarrow> (mk_action nv (no_bet r), st)
      | Explorable r sd \<Rightarrow> explore_or nv c a st r (Some sd)
      | Leg sd edge k \<Rightarrow>
          if feq k fzero then explore_or nv c a st ZeroKellyFraction (Some sd)
          else size_and_bet nv c a st s mc sd edge k)"

definition decide :: "bool \<Rightarrow> engine_config \<Rightarrow> decide_args \<Rightarrow> engine_state \<Rightarrow> decided" where
  "decide nv c a st0 =
     (let s = sanitize_storm (d_storm a);
          xm = sanitize_xm (d_cross_market_signal a);
          st = st0\<lparr>last_gate_diagnostics := None\<rparr>;
          missing = missing_engines (d_signals a)
      in if missing \<noteq> [] then (mk_action nv (no_bet (MissingEngineSignal missing)), st)
         else case fuse_signals (d_signals a) (d_alpha a) (d_beta a) (d_w_r a) (d_w_s a) of
           Inl e \<Rightarrow> (Inl e, st)
         | Inr fu \<Rightarrow>
             if flt (mean_confidence fu) (min_confidence c)
             then explore_or nv c a st MeanConfidenceBelowThreshold
                    (value_side c (d_price a) (fused fu) xm)
             else (case d_price a of
                 None \<Rightarrow>
                   (case legacy_direction (fused fu) of
                      Inl e \<Rightarrow> (Inl e, st)
                    | Inr d \<Rightarrow> act_on nv c a st s (mean_confidence fu) d)
               | Some p \<Rightarrow>
                   (let (dr, diag) = value_direction c p (fused fu) xm s;
                        st' = st\<lparr>last_gate_diagnostics := diag\<rparr>
                    in case dr of
                         Inl e \<Rightarrow> (Inl e, st')
                       | Inr d \<Rightarrow> act_on nv c a st' s (mean_confidence fu) d)))"

section \<open>Ranges of the pieces\<close>

lemma kelly_fraction_unit:
  assumes "f64 e"
  shows "\<exists>k. kelly_fraction e = Inr k \<and> fle fzero k \<and> fle k fone"
proof (cases "fle e fzero \<or> fle fone e")
  case False
  then have pos: "flt fzero (fsub fone e) \<or> e = NaN"
    using fsub_pos_iff [of fone e] assms by (cases e) auto
  then have "\<not> feq (fsub fone e) fzero"
    by (cases "fsub fone e") (auto simp: fsub_def)
  moreover have "fdiv e (fsub fone e) = NaN \<or> fle fzero (fdiv e (fsub fone e))"
    using False pos by (intro fdiv_nonneg) (cases e; auto simp: fsub_def)+
  ultimately show ?thesis
    using False fmin_one_unit by (simp add: kelly_fraction_def py_div_def)
qed (auto simp: kelly_fraction_def)

lemma value_kelly_fraction_unit:
  assumes "f64 q"
  shows "\<exists>k. value_kelly_fraction e q = Inr k \<and> fle fzero k \<and> fle k fone"
proof (cases "fle e fzero \<or> fle fone q")
  case False
  then have pos: "flt fzero (fsub fone q) \<or> q = NaN"
    using fsub_pos_iff [of fone q] assms by (cases q) auto
  then have "\<not> feq (fsub fone q) fzero"
    by (cases "fsub fone q") (auto simp: fsub_def)
  moreover have "fdiv e (fsub fone q) = NaN \<or> fle fzero (fdiv e (fsub fone q))"
    using False pos by (intro fdiv_nonneg) (cases e; cases q; auto simp: fsub_def)+
  ultimately show ?thesis
    using False fmin_one_unit by (simp add: value_kelly_fraction_def py_div_def)
qed (auto simp: value_kelly_fraction_def)

section \<open>Well-formed inputs\<close>

text \<open>
  The engine is called with doubles.  \<open>config_finite\<close> and \<open>args_ok\<close> say which of them are
  ordinary numbers: the configuration, the money amounts, and confidences in the unit interval
  (what \<open>EngineSignal\<close> declares).  Scores, weights, price, storm and cross-market input are
  arbitrary doubles, NaN and infinities included.
\<close>

definition config_finite :: "engine_config \<Rightarrow> bool" where
  "config_finite c =
     (list_all num [max_breath_risk_pct c, conversion_rate c, min_bet_size_usd c, min_confidence c,
        min_edge c, kappa c, kappa_xm c, gate_storm_sensitivity c, risk_storm_sensitivity c,
        exploration_epsilon c] \<and>
      (case entry_price_floor c of None \<Rightarrow> True | Some f \<Rightarrow> num f))"

definition signal_ok :: "signal \<Rightarrow> bool" where
  "signal_ok s = (f64 (score s) \<and> f64 (confidence s) \<and>
                  fle fzero (confidence s) \<and> fle (confidence s) fone)"

definition args_ok :: "decide_args \<Rightarrow> bool" where
  "args_ok a =
     (list_all (\<lambda>(n, s). signal_ok s) (d_signals a) \<and>
      (case d_alpha a of (x, y, z) \<Rightarrow> list_all f64 [x, y, z]) \<and>
      (case d_beta a of (x, y) \<Rightarrow> list_all f64 [x, y]) \<and>
      list_all f64 [d_w_r a, d_w_s a, d_rho a, d_storm a, d_cross_market_signal a] \<and>
      list_all num [d_bankroll_usd a, d_breath a, d_liquidity_cap_usd a] \<and>
      (case d_price a of None \<Rightarrow> True | Some p \<Rightarrow> f64 p))"

lemma rmap_sig_get:
  assumes "\<forall>n\<in>set ns. dget d n \<noteq> None"
  shows "rmap (sig_get d) ns = Inr (map (\<lambda>n. the (dget d n)) ns)"
  using assms by (induction ns) (auto simp: sig_get_def)

lemma fuse_signals_ok:
  assumes "missing_engines (d_signals a) = []" "args_ok a"
  shows "\<exists>fu. fuse_signals (d_signals a) (d_alpha a) (d_beta a) (d_w_r a) (d_w_s a) = Inr fu \<and>
              f64 (fused fu) \<and> f64 (mean_confidence fu) \<and>
              fle fzero (mean_confidence fu) \<and> fle (mean_confidence fu) fone"
proof -
  let ?g = "\<lambda>n. the (dget (d_signals a) n)"
  have pres: "\<forall>n\<in>set RATIONAL_ENGINES. dget (d_signals a) n \<noteq> None"
    "\<forall>n\<in>set SENTIENT_ENGINES. dget (d_signals a) n \<noteq> None"
    using assms(1) by (auto simp: missing_engines_def filter_empty_conv)
  have ok: "signal_ok (?g n)" if "n \<in> set RATIONAL_ENGINES \<union> set SENTIENT_ENGINES" for n
    using pres that assms(2) map_of_SomeD [of "d_signals a" n]
    by (fastforce simp: args_ok_def list_all_iff)
  obtain a0 a1 a2 where al: "d_alpha a = (a0, a1, a2)" by (cases "d_alpha a") auto
  obtain b0 b1 where be: "d_beta a = (b0, b1)" by (cases "d_beta a")
  let ?confs = "map confidence (map ?g RATIONAL_ENGINES @ map ?g SENTIENT_ENGINES)"
  have "list_all (\<lambda>x. fle fzero x \<and> fle x fone) ?confs"
    using ok by (auto simp: list_all_iff signal_ok_def)
  moreover have "length ?confs \<le> 1000" "?confs \<noteq> []"
    by (auto simp: RATIONAL_ENGINES_def SENTIENT_ENGINES_def)
  ultimately obtain m where m: "py_div (fsum ?confs) (Fin (of_nat (length ?confs))) = Inr m"
    "fle fzero m" "fle m fone"
    using mean_unit by blast
  have "f64 (Fin (of_nat (length ?confs)))" 
    by (simp add: RATIONAL_ENGINES_def SENTIENT_ENGINES_def f64_def rr_numeral p2_def)
  moreover have "list_all f64 ?confs" using ok by (auto simp: list_all_iff signal_ok_def)
  ultimately have "f64 m" using m(1) by (auto simp: py_div_def split: if_splits)
  moreover have "f64 (weighted [a0, a1, a2] (map ?g RATIONAL_ENGINES))"
    "f64 (weighted [b0, b1] (map ?g SENTIENT_ENGINES))"
    using assms(2) ok al be
    by (auto simp: weighted_def RATIONAL_ENGINES_def SENTIENT_ENGINES_def args_ok_def signal_ok_def)
  ultimately show ?thesis
    using m assms(2) al be rmap_sig_get [OF pres(1)] rmap_sig_get [OF pres(2)]
    by (simp add: fuse_signals_def args_ok_def Let_def)
qed

section \<open>What a BET satisfies\<close>

text \<open>The four constraints and the floor a staked amount satisfies.\<close>

definition within_caps :: "engine_config \<Rightarrow> decide_args \<Rightarrow> pyfloat \<Rightarrow> pyfloat \<Rightarrow> bool" where
  "within_caps c a cap z =
     (flt fzero z \<and> isfinite z \<and> fle (min_bet_size_usd c) z \<and>
      fle z (d_bankroll_usd a) \<and> fle z (fmul (d_bankroll_usd a) cap) \<and>
      fle z (fmax fzero (d_liquidity_cap_usd a)) \<and>
      (case py_div (fmul (d_breath a) (max_breath_risk_pct c)) (conversion_rate c) of
         Inl _ \<Rightarrow> False | Inr breath_cap \<Rightarrow> fle z breath_cap))"

definition size_cap :: "decide_args \<Rightarrow> pyfloat" where
  "size_cap a = (if d_desperate a then DESPERATE_BET_SIZE_CAP else NORMAL_BET_SIZE_CAP)"

lemma config_okD:
  assumes "config_ok c" "config_finite c"
  shows "flt fzero (max_breath_risk_pct c)" "fle (max_breath_risk_pct c) fone"
    "flt fzero (conversion_rate c)" "fle fzero (min_bet_size_usd c)"
    "flt fzero (kappa c)" "fle (kappa c) fone" "fle fzero (kappa_xm c)" "fle fzero (min_edge c)"
  using assms by (auto simp: config_ok_def config_finite_def elim!: numE split: if_splits)

lemma cap_values:
  "NORMAL_BET_SIZE_CAP = Fin (5404319552844595 / 18014398509481984)"
  "DESPERATE_BET_SIZE_CAP = Fin (1 / 2)"
  by code_simp+

lemma fmin_list_3: "fmin_list d [x, y, z] = fmin (fmin (fmin d x) y) z"
  by (simp add: fmin_list_def)

lemma clamped_size_ok:
  assumes c: "config_ok c" "config_finite c" and a: "args_ok a" and d: "d \<noteq> NaN"
  shows "\<exists>z bc. py_div (fmul (d_breath a) (max_breath_risk_pct c)) (conversion_rate c) = Inr bc \<and>
     clamped_size c d (d_breath a) (d_bankroll_usd a) cap (d_liquidity_cap_usd a) = Inr z \<and> z \<noteq> NaN \<and>
     fle z d \<and> fle z bc \<and> (fmul (d_bankroll_usd a) cap \<noteq> NaN \<longrightarrow> fle z (fmul (d_bankroll_usd a) cap)) \<and>
     fle z (fmax fzero (d_liquidity_cap_usd a))"
proof -
  obtain b m r l where n: "d_breath a = Fin b" "max_breath_risk_pct c = Fin m"
    "conversion_rate c = Fin r" "d_liquidity_cap_usd a = Fin l"
    using c(2) a by (auto simp: config_finite_def args_ok_def elim!: numE)
  have r: "0 < r" using config_okD(3) [OF c] n by simp
  let ?x = "fdiv (fmul (d_breath a) (max_breath_risk_pct c)) (conversion_rate c)"
  have x: "?x \<noteq> NaN" using n r by (cases "rnd (b * m)") auto
  let ?l = "fmax fzero (d_liquidity_cap_usd a)"
  have l: "?l \<noteq> NaN" by (intro fmax_not_NaN) simp
  let ?y = "fmul (d_bankroll_usd a) cap"
  let ?z = "fmin (fmin (fmin d ?x) ?y) ?l"
  have nn: "fmin d ?x \<noteq> NaN" "fmin (fmin d ?x) ?y \<noteq> NaN" "?z \<noteq> NaN"
    using d by (auto intro!: fmin_not_NaN)
  have "fle ?z (fmin (fmin d ?x) ?y)" "fle (fmin (fmin d ?x) ?y) (fmin d ?x)"
    "fle (fmin d ?x) d" "fle (fmin d ?x) ?x" "fle ?z ?l"
    using nn d x l by (simp_all add: fmin_le_left fmin_le_right)
  moreover have "?y \<noteq> NaN \<Longrightarrow> fle (fmin (fmin d ?x) ?y) ?y"
    using nn by (simp add: fmin_le_right)
  ultimately show ?thesis
    using n r nn by (auto simp: clamped_size_def py_div_def Let_def fmin_list_3 intro: fle_trans)
qed

lemma clamped_size_within:
  assumes c: "config_ok c" "config_finite c" and a: "args_ok a" and d: "d \<noteq> NaN"
    and cap: "cap = NORMAL_BET_SIZE_CAP \<or> cap = DESPERATE_BET_SIZE_CAP"
    and z: "clamped_size c d (d_breath a) (d_bankroll_usd a) cap (d_liquidity_cap_usd a) = Inr z"
    and pos: "\<not> fle z fzero" "\<not> flt z (min_bet_size_usd c)"
  shows "within_caps c a cap z"
proof -
  obtain bank mb where n: "d_bankroll_usd a = Fin bank" "f64 (Fin bank)" "min_bet_size_usd c = Fin mb"
    using c(2) a by (auto simp: config_finite_def args_ok_def elim!: numE)
  obtain q where q: "cap = Fin q" "0 \<le> q" "q \<le> 1"
    using cap by (cases cap) (auto simp: cap_values)
  obtain bc where b: "py_div (fmul (d_breath a) (max_breath_risk_pct c)) (conversion_rate c) = Inr bc"
    "z \<noteq> NaN" "fle z bc" "fle z (fmul (d_bankroll_usd a) cap)" "fle z (fmax fzero (d_liquidity_cap_usd a))"
    using clamped_size_ok [OF c a d, of cap] z n q by (auto simp: rnd_not_NaN)
  have z0: "flt fzero z" "fle (min_bet_size_usd c) z"
    using pos b(2) n by (auto simp: not_fle not_flt)
  have "0 \<le> bank"
  proof (rule ccontr)
    assume "\<not> 0 \<le> bank"
    then have "bank * q \<le> 0" using q by (simp add: mult_nonpos_nonneg)
    then have "fle (rnd (bank * q)) fzero" by (rule rnd_nonpos)
    then show False using b(4) n q z0(1) fle_trans fle_flt_trans by (metis flt_irrefl fmul.simps(1) flt_fle_trans)
  qed
  then have "fle (fmul (d_bankroll_usd a) cap) (d_bankroll_usd a)"
    using n q by (auto intro!: rnd_le_f64 simp: mult_left_le)
  then have "fle z (d_bankroll_usd a)" using b(4) fle_trans by blast
  moreover from this have "isfinite z" using z0(1) n by (cases z) auto
  ultimately show ?thesis using b z0 by (simp add: within_caps_def)
qed

lemma within_caps_normal: "within_caps c a NORMAL_BET_SIZE_CAP z \<Longrightarrow> within_caps c a (size_cap a) z"
proof (cases "d_desperate a")
  case True
  assume w: "within_caps c a NORMAL_BET_SIZE_CAP z"
  then obtain q where z: "z = Fin q" "0 < q" by (cases z) (auto simp: within_caps_def)
  then obtain b where b: "d_bankroll_usd a = PInf \<or> d_bankroll_usd a = Fin b \<and> q \<le> b"
    using w by (cases "d_bankroll_usd a") (auto simp: within_caps_def)
  have "fle (fmul (d_bankroll_usd a) NORMAL_BET_SIZE_CAP) (fmul (d_bankroll_usd a) DESPERATE_BET_SIZE_CAP)"
    using b z(2) by (auto simp: cap_values inf_of_sign_def intro!: rnd_mono mult_left_mono)
  then show ?thesis
    using w True fle_trans unfolding within_caps_def size_cap_def by auto
qed (simp add: size_cap_def)


text \<open>A finished decision: an abstention, or a BET inside the caps.  No exception.\<close>

definition sound_outcome :: "engine_config \<Rightarrow> decide_args \<Rightarrow> action res \<Rightarrow> bool" where
  "sound_outcome c a r \<longleftrightarrow>
     (\<exists>reason. r = Inr (no_bet reason)) \<or>
     (\<exists>sd z e. r = Inr (bet (d_market_id a) sd z e) \<and> within_caps c a (size_cap a) z)"

lemma sound_no_bet [simp]: "sound_outcome c a (Inr (no_bet r))"
  by (simp add: sound_outcome_def)

lemma sound_bet:
  "within_caps c a (size_cap a) z \<Longrightarrow> sound_outcome c a (mk_action nv (bet (d_market_id a) sd z e))"
  by (auto simp: sound_outcome_def within_caps_def)

lemma sound_explore_or:
  assumes "config_ok c" "config_finite c" "args_ok a"
  shows "sound_outcome c a (fst (explore_or nv c a st r sd))"
proof (cases "exploration_rng c")
  case (Some rng)
  have nn: "min_bet_size_usd c \<noteq> NaN" using assms(2) by (auto simp: config_finite_def num_def)
  obtain z bc where z: "clamped_size c (min_bet_size_usd c) (d_breath a) (d_bankroll_usd a)
      NORMAL_BET_SIZE_CAP (d_liquidity_cap_usd a) = Inr z"
    using clamped_size_ok [OF assms nn] by blast
  have "within_caps c a (size_cap a) z" if "\<not> fle z fzero" "\<not> flt z (min_bet_size_usd c)"
    using clamped_size_within [OF assms nn _ z that] within_caps_normal by blast
  then show ?thesis
    using Some z by (auto simp: explore_or_def Let_def sound_bet split: option.split)
qed (simp add: explore_or_def)

lemma sound_size_and_bet:
  assumes ok: "config_ok c" "config_finite c" "args_ok a"
    and u: "fle fzero mc" "fle mc fone" "f64 mc" "fle fzero k" "fle k fone" "f64 k"
  shows "sound_outcome c a (fst (size_and_bet nv c a st s mc sd e k))"
proof -
  let ?d = "fmul (fmul (fmul (rho_effective c (d_rho a) s) k) mc) (d_bankroll_usd a)"
  let ?r = "rho_effective c (d_rho a) s"
  have r: "fle fzero ?r" "fle ?r fone"
    by (simp_all add: rho_effective_def clampf_unit)
  have rk: "fle fzero (fmul ?r k)" "fle (fmul ?r k) fone"
    by (rule unit_mult [OF r u(4-6)])+
  have rkm: "fle fzero (fmul (fmul ?r k) mc)" "fle (fmul (fmul ?r k) mc) fone"
    by (rule unit_mult [OF rk u(1-3)])+
  have "num (d_bankroll_usd a)" using ok(3) by (simp add: args_ok_def)
  from unit_mult_finite [OF rkm this] have "?d \<noteq> NaN" .
  note d = this
  obtain z bc where z: "clamped_size c ?d (d_breath a) (d_bankroll_usd a) (size_cap a) (d_liquidity_cap_usd a) = Inr z"
    using clamped_size_ok [OF ok d] by blast
  have "size_cap a = NORMAL_BET_SIZE_CAP \<or> size_cap a = DESPERATE_BET_SIZE_CAP"
    by (simp add: size_cap_def)
  from clamped_size_within [OF ok d this z]
  have "within_caps c a (size_cap a) z" if "\<not> fle z fzero" "\<not> flt z (min_bet_size_usd c)"
    using that by blast
  then show ?thesis
    using z sound_explore_or [OF ok] by (auto simp: size_and_bet_def Let_def sound_bet size_cap_def [symmetric])
qed

lemma f64_fmin_one: "k = fmin fone x \<Longrightarrow> f64 x \<Longrightarrow> f64 k"
  by simp

lemma kelly_fraction_f64: "kelly_fraction e = Inr k \<Longrightarrow> f64 e \<Longrightarrow> f64 k"
  by (auto simp: kelly_fraction_def py_div_def split: if_splits)

lemma value_kelly_fraction_f64: "value_kelly_fraction e q = Inr k \<Longrightarrow> f64 e \<Longrightarrow> f64 q \<Longrightarrow> f64 k"
  by (auto simp: value_kelly_fraction_def py_div_def split: if_splits)

lemma f64_p_model:
  assumes "config_finite c" "f64 p" "f64 fs" "f64 xm" shows "f64 (p_model c p fs xm)"
  using assms by (auto simp: p_model_def config_finite_def num_def)

lemma f64_sanitize_xm: "f64 x \<Longrightarrow> f64 (sanitize_xm x)"
  by (simp add: sanitize_xm_def clampf_def f64_minus)

definition leg_ok :: "direction \<Rightarrow> bool" where
  "leg_ok d = (case d of Leg sd e k \<Rightarrow> fle fzero k \<and> fle k fone \<and> f64 k | _ \<Rightarrow> True)"

lemma legacy_direction_ok:
  assumes "f64 fs" shows "\<exists>d. legacy_direction fs = Inr d \<and> leg_ok d"
  using kelly_fraction_unit [of "fabs fs"] kelly_fraction_f64 [of "fabs fs"] assms
  by (auto simp: legacy_direction_def leg_ok_def)

lemma value_direction_ok:
  assumes "config_finite c" "f64 p" "f64 fs" "f64 xm"
  shows "\<exists>d. fst (value_direction c p fs xm s) = Inr d \<and> leg_ok d"
proof -
  let ?e = "fabs (fsub (p_model c p fs xm) p)"
  have e: "f64 ?e" using f64_p_model [OF assms] assms(2) by simp
  have "f64 p" "f64 (fsub fone p)" using assms(2) by simp_all
  then have "\<exists>k. value_kelly_fraction ?e q = Inr k \<and> fle fzero k \<and> fle k fone \<and> f64 k"
    if "q = p \<or> q = fsub fone p" for q
    using that value_kelly_fraction_unit [of q ?e] value_kelly_fraction_f64 [of ?e q] e by blast
  from this [of p] this [of "fsub fone p"] show ?thesis
    by (auto simp: value_direction_def Let_def leg_ok_def)
qed

lemma sound_act_on:
  assumes "config_ok c" "config_finite c" "args_ok a" "leg_ok d"
    and "fle fzero mc" "fle mc fone" "f64 mc"
  shows "sound_outcome c a (fst (act_on nv c a st s mc d))"
  using assms sound_explore_or [of c a] sound_size_and_bet [of c a mc]
  by (auto simp: act_on_def leg_ok_def split: direction.split)

section \<open>Properties of a decision\<close>

lemma decide_sound:
  assumes ok: "config_ok c" "config_finite c" "args_ok a"
  shows "sound_outcome c a (fst (decide nv c a st))"
proof (cases "missing_engines (d_signals a) = []")
  case True
  obtain fu where fu: "fuse_signals (d_signals a) (d_alpha a) (d_beta a) (d_w_r a) (d_w_s a) = Inr fu"
    and f: "f64 (fused fu)" and m: "f64 (mean_confidence fu)" "fle fzero (mean_confidence fu)"
      "fle (mean_confidence fu) fone"
    using fuse_signals_ok [OF True ok(3)] by blast
  let ?mc = "mean_confidence fu" and ?s = "sanitize_storm (d_storm a)"
  note act = sound_act_on [OF ok _ m(2,3,1)]
  show ?thesis
  proof (cases "d_price a")
    case None
    obtain d where "legacy_direction (fused fu) = Inr d" "leg_ok d"
      using legacy_direction_ok [OF f] by blast
    then show ?thesis
      using True fu None act by (simp add: decide_def Let_def sound_explore_or [OF ok])
  next
    case (Some p)
    define r where "r = value_direction c p (fused fu) (sanitize_xm (d_cross_market_signal a)) ?s"
    obtain d where "fst r = Inr d" "leg_ok d"
      using value_direction_ok [OF ok(2) _ f, of p "sanitize_xm (d_cross_market_signal a)" ?s] Some ok(3)
      by (auto simp: r_def args_ok_def f64_sanitize_xm)
    then show ?thesis
      using True fu Some act
      by (simp add: decide_def Let_def sound_explore_or [OF ok] r_def [symmetric] split_beta)
  qed
qed (simp add: decide_def Let_def)

text \<open>C4. A decision over a valid configuration and well-formed inputs never raises; when it is
  a BET, the stake is positive and finite, at least the minimum bet, at most the bankroll, the
  bankroll share of the current mode (30 percent, 50 when desperate), the breath-converted cap and
  the (non-negative) liquidity cap.\<close>

theorem decide_bet_bounds:
  assumes "config_ok c" "config_finite c" "args_ok a"
  shows "\<exists>act. fst (decide nv c a st) = Inr act \<and>
    (a_kind act = BET \<longrightarrow>
      (\<exists>z sd. a_size_usd act = Some z \<and> a_side act = Some sd \<and> a_market_id act = Some (d_market_id a) \<and>
        flt fzero z \<and> isfinite z \<and> fle (min_bet_size_usd c) z \<and> fle z (d_bankroll_usd a) \<and>
        fle z (fmul (d_bankroll_usd a) (if d_desperate a then DESPERATE_BET_SIZE_CAP else NORMAL_BET_SIZE_CAP)) \<and>
        fle z (fmax fzero (d_liquidity_cap_usd a)) \<and>
        (\<exists>bc. py_div (fmul (d_breath a) (max_breath_risk_pct c)) (conversion_rate c) = Inr bc \<and> fle z bc)))"
proof -
  from decide_sound [OF assms, of nv st]
  consider r where "fst (decide nv c a st) = Inr (no_bet r)"
    | sd z e where "fst (decide nv c a st) = Inr (bet (d_market_id a) sd z e)"
        "within_caps c a (size_cap a) z"
    unfolding sound_outcome_def by blast
  then show ?thesis
  proof cases
    case 2
    then show ?thesis
      by (auto simp: within_caps_def size_cap_def split: sum.splits)
  qed simp
qed

section \<open>Exploration\<close>

definition explore_off :: "engine_config \<Rightarrow> bool" where
  "explore_off c = (exploration_rng c = None \<or> fle (exploration_epsilon c) fzero)"

lemma explore_or_off: "explore_off c \<Longrightarrow> explore_or nv c a st r sd = (Inr (no_bet r), st)"
  by (auto simp: explore_off_def explore_or_def split: option.split)

lemma explore_or_draws:
  "rng_pos (snd (explore_or nv c a st r sd)) \<in> {rng_pos st, Suc (rng_pos st)} \<and>
   last_gate_diagnostics (snd (explore_or nv c a st r sd)) = last_gate_diagnostics st"
  by (auto simp: explore_or_def Let_def split: option.split sum.split)

lemma act_on_draws:
  "rng_pos (snd (act_on nv c a st s mc d)) \<in> {rng_pos st, Suc (rng_pos st)} \<and>
   last_gate_diagnostics (snd (act_on nv c a st s mc d)) = last_gate_diagnostics st"
  using explore_or_draws [of nv c a st]
  by (auto simp: act_on_def size_and_bet_def Let_def split: direction.split sum.split)

lemma explore_or_off_eq:
  "explore_off c \<Longrightarrow> explore_or nv c a st r sd = explore_or nv (c\<lparr>exploration_rng := None\<rparr>) a st r sd"
  using explore_or_off [of c] explore_or_off [of "c\<lparr>exploration_rng := None\<rparr>"]
  by (simp add: explore_off_def)

lemma norng_simps [simp]:
  "clamped_size (c\<lparr>exploration_rng := r\<rparr>) = clamped_size c"
  "p_model (c\<lparr>exploration_rng := r\<rparr>) = p_model c"
  "value_side (c\<lparr>exploration_rng := r\<rparr>) = value_side c"
  "value_direction (c\<lparr>exploration_rng := r\<rparr>) = value_direction c"
  "rho_effective (c\<lparr>exploration_rng := r\<rparr>) = rho_effective c"
  by (auto simp: fun_eq_iff clamped_size_def p_model_def value_side_def value_direction_def
      rho_effective_def eff_min_edge_def Let_def cong: if_cong option.case_cong)

lemma act_on_off:
  "explore_off c \<Longrightarrow> act_on nv c a st s mc d = act_on nv (c\<lparr>exploration_rng := None\<rparr>) a st s mc d"
  by (simp add: act_on_def size_and_bet_def explore_or_off_eq Let_def
      cong: if_cong sum.case_cong direction.case_cong)

text \<open>C17. With exploration off (no generator, or an epsilon of zero) the decision is the one of an
  engine without the feature and draws nothing from the generator; with exploration on, a decision
  draws at most once.\<close>

theorem decide_exploration_off:
  "(exploration_rng c = None \<or> fle (exploration_epsilon c) fzero \<longrightarrow>
      decide nv c a st = decide nv (c\<lparr>exploration_rng := None\<rparr>) a st \<and>
      rng_pos (snd (decide nv c a st)) = rng_pos st) \<and>
   rng_pos (snd (decide nv c a st)) \<in> {rng_pos st, Suc (rng_pos st)}"
proof (intro conjI impI)
  assume "exploration_rng c = None \<or> fle (exploration_epsilon c) fzero"
  then have off: "explore_off c" by (simp add: explore_off_def)
  show "decide nv c a st = decide nv (c\<lparr>exploration_rng := None\<rparr>) a st"
    using off
    by (simp add: decide_def Let_def act_on_off explore_or_off_eq split_beta
        cong: if_cong sum.case_cong option.case_cong)
  show "rng_pos (snd (decide nv c a st)) = rng_pos st"
    using off by (auto simp: decide_def Let_def act_on_def size_and_bet_def explore_or_off split_beta
        split: sum.split option.split direction.split)
next
  show "rng_pos (snd (decide nv c a st)) \<in> {rng_pos st, Suc (rng_pos st)}"
    using explore_or_draws [of nv c a "st\<lparr>last_gate_diagnostics := g\<rparr>" for g]
      act_on_draws [of nv c a "st\<lparr>last_gate_diagnostics := g\<rparr>" for g]
    by (auto simp: decide_def Let_def split_beta split: sum.split option.split)
qed

section \<open>Which bet is made\<close>

lemma size_and_bet_BetD:
  assumes "explore_off c" "fst (size_and_bet nv c a st s mc sd e k) = Inr (bet m sd' z e')"
  shows "m = d_market_id a \<and> sd' = sd \<and> e' = e \<and> \<not> fle z fzero \<and> \<not> flt z (min_bet_size_usd c) \<and>
    clamped_size c (fmul (fmul (fmul (rho_effective c (d_rho a) s) k) mc) (d_bankroll_usd a))
      (d_breath a) (d_bankroll_usd a) (size_cap a) (d_liquidity_cap_usd a) = Inr z"
  using assms
  by (auto simp: size_and_bet_def Let_def explore_or_off size_cap_def dest!: mk_bet_Inr
      split: sum.splits if_splits)

lemma act_on_BetD:
  assumes "explore_off c" "fst (act_on nv c a st s mc d) = Inr (bet m sd z e)"
  obtains k where "d = Leg sd e k" "\<not> feq k fzero"
    "fst (size_and_bet nv c a st s mc sd e k) = Inr (bet m sd z e)"
  using assms size_and_bet_BetD [OF assms(1)]
  by (auto simp: act_on_def explore_or_off split: direction.splits if_splits) blast+

lemma decide_BetD:
  assumes "explore_off c" "fst (decide nv c a st) = Inr (bet m sd z e)"
  obtains fu d st' where "missing_engines (d_signals a) = []"
    "fuse_signals (d_signals a) (d_alpha a) (d_beta a) (d_w_r a) (d_w_s a) = Inr fu"
    "\<not> flt (mean_confidence fu) (min_confidence c)"
    "(case d_price a of None \<Rightarrow> legacy_direction (fused fu)
      | Some p \<Rightarrow> fst (value_direction c p (fused fu) (sanitize_xm (d_cross_market_signal a))
                        (sanitize_storm (d_storm a)))) = Inr d"
    "fst (act_on nv c a st' (sanitize_storm (d_storm a)) (mean_confidence fu) d) = Inr (bet m sd z e)"
  using assms
  by (auto simp: decide_def Let_def explore_or_off split_beta split: if_splits sum.splits option.splits)

lemma sanitize_storm_unit: "fle fzero (sanitize_storm s)" "fle (sanitize_storm s) fone"
  by (simp_all add: sanitize_storm_def clampf_unit)

lemma config_sensitivities:
  assumes "config_ok c"
  shows "isfinite (gate_storm_sensitivity c)" "fle (fabs (gate_storm_sensitivity c)) fone"
    "isfinite (risk_storm_sensitivity c)" "fle (fabs (risk_storm_sensitivity c)) fone"
proof -
  have *: "isfinite g \<Longrightarrow> \<not> flt fone (fabs g) \<Longrightarrow> fle (fabs g) fone" for g by (cases g) auto
  show "isfinite (gate_storm_sensitivity c)" "fle (fabs (gate_storm_sensitivity c)) fone"
    "isfinite (risk_storm_sensitivity c)" "fle (fabs (risk_storm_sensitivity c)) fone"
    using assms * by (auto simp: config_ok_def split: if_splits)
qed

lemma value_direction_LegD:
  assumes "fst (value_direction c p fs xm s) = Inr (Leg sd e k)"
    "isfinite p" "f64 p" "f64 fs" "f64 xm" "config_finite c"
  shows "(sd = YES \<and> flt p (p_model c p fs xm) \<or> sd = NO \<and> flt (p_model c p fs xm) p) \<and>
    e = fabs (fsub (p_model c p fs xm) p) \<and> \<not> flt e (eff_min_edge c s) \<and>
    (let q = (if sd = YES then p else fsub fone p)
     in value_kelly_fraction e q = Inr k \<and>
        (\<forall>f. entry_price_floor c = Some f \<longrightarrow> \<not> flt q f))"
proof -
  let ?pm = "p_model c p fs xm"
  have pm: "f64 ?pm" "?pm \<noteq> NaN"
    using f64_p_model [OF assms(6,3-5)] clampf_unit fle_not_NaN by (auto simp: p_model_def)
  have pos: "flt fzero (fsub ?pm p) \<longleftrightarrow> flt p ?pm" and zero: "feq (fsub ?pm p) fzero \<longleftrightarrow> feq ?pm p"
    using pm assms(2,3) by (simp_all add: fsub_pos_iff fsub_zero_iff)
  have "p \<noteq> NaN" using assms(2) by (cases p) auto
  then have "\<not> feq ?pm p \<Longrightarrow> \<not> flt p ?pm \<Longrightarrow> flt ?pm p"
    using pm(2) by (cases ?pm; cases p) auto
  then show ?thesis
    using assms(1) pos zero
    by (auto simp: value_direction_def Let_def split: if_splits option.splits)
qed

text \<open>C18. With the exploration feature off and a finite market price, a value-mode BET is on the side the model favours
  (YES exactly when the model price is above the market price, NO when below), reports the distance of the two prices as
  its edge, that edge is not below the storm-adjusted minimum, the entry price of the chosen side is not below the
  configured floor, and the mean confidence reached its threshold.  (An exploration probe is a bet with edge zero that
  passes neither gate.)\<close>

theorem value_bet_side_and_edge:
  assumes "config_finite c" "args_ok a" "explore_off c" "d_price a = Some p" "isfinite p"
    and "fst (decide nv c a st) = Inr (bet m sd z e)"
  shows "\<exists>fu. fuse_signals (d_signals a) (d_alpha a) (d_beta a) (d_w_r a) (d_w_s a) = Inr fu \<and>
    \<not> flt (mean_confidence fu) (min_confidence c) \<and>
    (let pm = p_model c p (fused fu) (sanitize_xm (d_cross_market_signal a));
         q = (if sd = YES then p else fsub fone p)
     in (sd = YES \<and> flt p pm \<or> sd = NO \<and> flt pm p) \<and> e = fabs (fsub pm p) \<and>
        \<not> flt e (eff_min_edge c (sanitize_storm (d_storm a))) \<and>
        (\<forall>f. entry_price_floor c = Some f \<longrightarrow> \<not> flt q f))"
proof -
  from decide_BetD [OF assms(3,6)] obtain fu d st' where miss: "missing_engines (d_signals a) = []" and
    fu: "fuse_signals (d_signals a) (d_alpha a) (d_beta a) (d_w_r a) (d_w_s a) = Inr fu"
    "\<not> flt (mean_confidence fu) (min_confidence c)" and
    d: "fst (value_direction c p (fused fu) (sanitize_xm (d_cross_market_signal a))
          (sanitize_storm (d_storm a))) = Inr d"
    "fst (act_on nv c a st' (sanitize_storm (d_storm a)) (mean_confidence fu) d) = Inr (bet m sd z e)"
    unfolding assms(4) by auto
  obtain k where leg: "d = Leg sd e k" using act_on_BetD [OF assms(3) d(2)] by blast
  have f: "f64 (fused fu)" using fuse_signals_ok [OF miss assms(2)] fu(1) by auto
  have "f64 p" "f64 (sanitize_xm (d_cross_market_signal a))"
    using assms(2,4) by (auto simp: args_ok_def f64_sanitize_xm)
  from value_direction_LegD [OF d(1) [unfolded leg] assms(5) this(1) f this(2) assms(1)]
  show ?thesis using fu by (auto simp: Let_def)
qed

text \<open>A legacy-mode BET (no price) is on the side of the sign of the fused score and reports its
  absolute value as the edge; a fused score of exactly zero never bets.\<close>

theorem legacy_bet_follows_fused:
  assumes "explore_off c" "d_price a = None" "fst (decide nv c a st) = Inr (bet m sd z e)"
  shows "\<exists>fu. fuse_signals (d_signals a) (d_alpha a) (d_beta a) (d_w_r a) (d_w_s a) = Inr fu \<and>
    \<not> feq (fused fu) fzero \<and> e = fabs (fused fu) \<and> (sd = YES \<longleftrightarrow> flt fzero (fused fu)) \<and>
    \<not> flt (mean_confidence fu) (min_confidence c)"
proof -
  from decide_BetD [OF assms(1,3)] obtain fu d st' where
    fu: "fuse_signals (d_signals a) (d_alpha a) (d_beta a) (d_w_r a) (d_w_s a) = Inr fu"
    "\<not> flt (mean_confidence fu) (min_confidence c)" and
    d: "legacy_direction (fused fu) = Inr d"
    "fst (act_on nv c a st' (sanitize_storm (d_storm a)) (mean_confidence fu) d) = Inr (bet m sd z e)"
    unfolding assms(2) option.case by blast
  obtain k where "d = Leg sd e k" using act_on_BetD [OF assms(1) d(2)] by blast
  then show ?thesis using fu d(1) by (auto simp: legacy_direction_def split: if_splits)
qed

section \<open>Storms only tighten\<close>

lemma eff_min_edge_mono:
  assumes "config_ok c" "config_finite c" "fle fzero (gate_storm_sensitivity c)"
    and s: "fle fzero s" "fle s s'" "fle s' fone"
  shows "fle (eff_min_edge c s) (eff_min_edge c s')"
proof -
  have f: "isfinite s" "isfinite s'" using s by (cases s; cases s'; simp)+
  have "isfinite (gate_storm_sensitivity c)" "isfinite (min_edge c)"
    using assms(2) by (simp_all add: config_finite_def num_def)
  then show ?thesis
    unfolding eff_min_edge_def using assms(3) s f
    by (intro fmax_mono fadd_mono fmul_mono) auto
qed

lemma rho_effective_antimono:
  assumes "config_ok c" "config_finite c" "fle fzero (risk_storm_sensitivity c)" "num r" "fle fzero r"
    and s: "fle fzero s" "fle s s'" "fle s' fone"
  shows "fle (rho_effective c r s') (rho_effective c r s)"
proof -
  let ?g = "risk_storm_sensitivity c"
  have f: "isfinite s" "isfinite s'" using s by (cases s; cases s'; simp)+
  have s1: "fle s fone" "fle fzero s'"
    using fle_trans [OF s(2,3)] fle_trans [OF s(1,2)] by simp_all
  have g: "num ?g" "fle ?g fone" "isfinite ?g"
    using assms(1-3) config_sensitivities(4) [OF assms(1)] by (auto simp: config_finite_def elim!: numE)
  note u = fmul_unit_abs [OF g(1) assms(3) g(2)]
  have fin: "isfinite (fmul ?g s)" "isfinite (fmul ?g s')"
    using u(1) [OF s(1) s1(1)] u(1) [OF s1(2) s(3)] by (auto simp: num_def)
  have sub: "isfinite (fsub fone (fmul ?g s))" "isfinite (fsub fone (fmul ?g s'))"
    using u [OF s(1) s1(1)] u [OF s1(2) s(3)] by (auto intro: fsub_one_finite)
  have "fle (fmul ?g s) (fmul ?g s')" using g(3) assms(3) f s(2) by (rule fmul_mono)
  then have "fle (fsub fone (fmul ?g s')) (fsub fone (fmul ?g s))"
    using fin by (intro fsub_antimono) auto
  then have "fle (fmul r (fsub fone (fmul ?g s'))) (fmul r (fsub fone (fmul ?g s)))"
    using assms(4,5) sub by (intro fmul_mono) (auto simp: num_def)
  then show ?thesis unfolding rho_effective_def by (intro clampf_mono) auto
qed

lemma value_direction_storm:
  assumes "config_ok c" "config_finite c" "fle fzero (gate_storm_sensitivity c)"
    and s: "fle fzero s" "fle s s'" "fle s' fone"
    and "fst (value_direction c p fs xm s') = Inr (Leg sd e k)"
  shows "fst (value_direction c p fs xm s) = Inr (Leg sd e k)"
proof -
  have "\<not> flt e (eff_min_edge c s') \<Longrightarrow> \<not> flt e (eff_min_edge c s)"
    using eff_min_edge_mono [OF assms(1-3) s] flt_fle_trans by blast
  then show ?thesis
    using assms(7) by (auto simp: value_direction_def Let_def split: if_splits)
qed

lemma clamped_size_mono:
  assumes "config_ok c" "config_finite c" "args_ok a" "fle d' d"
    and "cap = NORMAL_BET_SIZE_CAP \<or> cap = DESPERATE_BET_SIZE_CAP"
    and "clamped_size c d' (d_breath a) (d_bankroll_usd a) cap (d_liquidity_cap_usd a) = Inr z'"
  shows "\<exists>z. clamped_size c d (d_breath a) (d_bankroll_usd a) cap (d_liquidity_cap_usd a) = Inr z \<and> fle z' z"
proof -
  have "d \<noteq> NaN" using assms(4) fle_not_NaN by blast
  then obtain z bc where z: "py_div (fmul (d_breath a) (max_breath_risk_pct c)) (conversion_rate c) = Inr bc"
    "clamped_size c d (d_breath a) (d_bankroll_usd a) cap (d_liquidity_cap_usd a) = Inr z" "fle z bc"
    using clamped_size_ok [OF assms(1-3), of d cap] by blast
  have bc: "bc \<noteq> NaN" using z(3) fle_not_NaN by blast
  have l: "fmax fzero (d_liquidity_cap_usd a) \<noteq> NaN" by (intro fmax_not_NaN) simp
  obtain bank where "d_bankroll_usd a = Fin bank"
    using assms(3) by (auto simp: args_ok_def elim!: numE)
  then have y: "fmul (d_bankroll_usd a) cap \<noteq> NaN" using assms(5) by (auto simp: cap_values)
  have "fle z' z"
    using z(1,2) assms(6) bc l y assms(4)
    by (auto simp: clamped_size_def Let_def fmin_list_3 intro!: fmin_mono)
  then show ?thesis using z(2) by blast
qed

lemma value_kelly_fraction_ok: "value_kelly_fraction e q = Inr k \<Longrightarrow> f64 e \<Longrightarrow> f64 q \<Longrightarrow>
    fle fzero k \<and> fle k fone \<and> f64 k"
  using value_kelly_fraction_unit [of q e] value_kelly_fraction_f64 [of e q k] by auto

lemma size_and_bet_storm:
  assumes ok: "config_ok c" "config_finite c" "args_ok a" "explore_off c"
    and rs: "fle fzero (risk_storm_sensitivity c)" and r: "num (d_rho a)" "fle fzero (d_rho a)"
    and bank: "fle fzero (d_bankroll_usd a)"
    and u: "fle fzero mc" "fle mc fone" "f64 mc" "fle fzero k" "fle k fone" "f64 k"
    and s: "fle fzero s" "fle s s'" "fle s' fone"
    and b: "fst (size_and_bet nv c a st' s' mc sd e k) = Inr (bet m sd' z' e')"
  shows "\<exists>z. fst (size_and_bet nv c a st s mc sd e k) = Inr (bet m sd' z e') \<and> fle z' z"
proof -
  let ?d = "\<lambda>s. fmul (fmul (fmul (rho_effective c (d_rho a) s) k) mc) (d_bankroll_usd a)"
  let ?cs = "\<lambda>d. clamped_size c d (d_breath a) (d_bankroll_usd a) (size_cap a) (d_liquidity_cap_usd a)"
  have fin: "isfinite x" if "fle fzero x" "fle x fone" for x using that by (cases x) auto
  have ru: "fle fzero (rho_effective c (d_rho a) t)" "fle (rho_effective c (d_rho a) t) fone" for t
    by (simp_all add: rho_effective_def clampf_unit)
  note rk = unit_mult [OF ru u(4-6)]
  note rkm = unit_mult [OF rk u(1-3)]
  have bk: "isfinite (d_bankroll_usd a)" using ok(3) by (simp add: args_ok_def num_def)
  note rho = rho_effective_antimono [OF ok(1,2) rs r s]
  have "fle (fmul (rho_effective c (d_rho a) s') k) (fmul (rho_effective c (d_rho a) s) k)"
    by (rule fmul_mono_left [OF fin [OF u(4,5)] u(4) fin [OF ru] fin [OF ru] rho])
  then have "fle (fmul (fmul (rho_effective c (d_rho a) s') k) mc) (fmul (fmul (rho_effective c (d_rho a) s) k) mc)"
    by (rule fmul_mono_left [OF fin [OF u(1,2)] u(1) fin [OF rk] fin [OF rk]])
  then have d: "fle (?d s') (?d s)"
    by (rule fmul_mono_left [OF bk bank fin [OF rkm] fin [OF rkm]])
  from size_and_bet_BetD [OF ok(4) b] have b': "m = d_market_id a" "sd' = sd" "e' = e"
    "\<not> fle z' fzero" "\<not> flt z' (min_bet_size_usd c)" "?cs (?d s') = Inr z'"
    by auto
  have cap: "size_cap a = NORMAL_BET_SIZE_CAP \<or> size_cap a = DESPERATE_BET_SIZE_CAP"
    by (simp add: size_cap_def)
  obtain z where z: "?cs (?d s) = Inr z" "fle z' z"
    using clamped_size_mono [OF ok(1-3) d cap b'(6)] by blast
  have "\<not> fle z fzero" using b'(4) fle_trans [OF z(2)] by blast
  moreover have "\<not> flt z (min_bet_size_usd c)" using b'(5) fle_flt_trans [OF z(2)] by blast
  moreover from calculation have "flt fzero z" using fle_not_NaN [OF z(2)] by (simp add: not_fle)
  ultimately show ?thesis
    using z b'(1-3) by (simp add: size_and_bet_def Let_def size_cap_def [symmetric])
qed

lemma act_on_storm:
  assumes "config_ok c" "config_finite c" "args_ok a" "explore_off c"
    "fle fzero (risk_storm_sensitivity c)" "num (d_rho a)" "fle fzero (d_rho a)"
    "fle fzero (d_bankroll_usd a)" "fle fzero mc" "fle mc fone" "f64 mc" "leg_ok d"
    "fle fzero s" "fle s s'" "fle s' fone"
    and "fst (act_on nv c a st' s' mc d) = Inr (bet m sd z' e)"
  shows "\<exists>z. fst (act_on nv c a st s mc d) = Inr (bet m sd z e) \<and> fle z' z"
proof -
  from act_on_BetD [OF assms(4,16)] obtain k where k: "d = Leg sd e k" "\<not> feq k fzero"
    "fst (size_and_bet nv c a st' s' mc sd e k) = Inr (bet m sd z' e)" by blast
  have u: "fle fzero k" "fle k fone" "f64 k" using assms(12) k(1) by (simp_all add: leg_ok_def)
  from size_and_bet_storm [OF assms(1-11) u assms(13-15) k(3), where st = st] show ?thesis using k
    by (simp add: act_on_def)
qed

text \<open>C16. With the exploration feature off, non-negative storm sensitivities, a finite non-negative risk appetite and a
  non-negative bankroll, a stronger storm only tightens: if the engine bets under the stronger storm, it bets under the
  weaker one on the same side with the same edge and a stake at least as large.  (With exploration on, a bet the
  stronger storm gates away can come back as a probe with edge zero.)\<close>

theorem storms_only_tighten:
  assumes ok: "config_ok c" "config_finite c" "args_ok a" "explore_off c"
    and sens: "fle fzero (gate_storm_sensitivity c)" "fle fzero (risk_storm_sensitivity c)"
    and a: "isfinite (d_rho a)" "fle fzero (d_rho a)" "fle fzero (d_bankroll_usd a)"
    and s: "fle (sanitize_storm s1) (sanitize_storm s2)"
    and bet2: "fst (decide nv c (a\<lparr>d_storm := s2\<rparr>) st) = Inr (bet m sd z2 e)"
  shows "\<exists>z1. fst (decide nv c (a\<lparr>d_storm := s1\<rparr>) st) = Inr (bet m sd z1 e) \<and> fle z2 z1"
proof -
  let ?s1 = "sanitize_storm s1" and ?s2 = "sanitize_storm s2"
  let ?xm = "sanitize_xm (d_cross_market_signal a)"
  have frame: "act_on nv c (a\<lparr>d_storm := x\<rparr>) = act_on nv c a" for x
    by (auto simp: fun_eq_iff act_on_def size_and_bet_def explore_or_off [OF ok(4)] Let_def
        split: direction.split cong: sum.case_cong if_cong)
  from decide_BetD [OF ok(4) bet2] obtain fu d st' where miss: "missing_engines (d_signals a) = []" and
    fu: "fuse_signals (d_signals a) (d_alpha a) (d_beta a) (d_w_r a) (d_w_s a) = Inr fu"
    "\<not> flt (mean_confidence fu) (min_confidence c)" and
    d: "(case d_price a of None \<Rightarrow> legacy_direction (fused fu)
         | Some p \<Rightarrow> fst (value_direction c p (fused fu) ?xm ?s2)) = Inr d" and
    b: "fst (act_on nv c a st' ?s2 (mean_confidence fu) d) = Inr (bet m sd z2 e)"
    by (simp add: frame cong: option.case_cong) blast
  have f: "f64 (fused fu)" and mc: "fle fzero (mean_confidence fu)" "fle (mean_confidence fu) fone"
    "f64 (mean_confidence fu)"
    using fuse_signals_ok [OF miss ok(3)] fu(1) by auto
  have rho: "num (d_rho a)" using ok(3) a(1) by (simp add: num_def args_ok_def)
  have xm: "f64 ?xm" and p64: "d_price a = Some p \<Longrightarrow> f64 p" for p
    using ok(3) by (auto simp: args_ok_def f64_sanitize_xm)
  note act = act_on_storm [OF ok sens(2) rho a(2,3) mc _ sanitize_storm_unit(1) s sanitize_storm_unit(2) b]
  show ?thesis
  proof (cases "d_price a")
    case None
    then have "leg_ok d" using legacy_direction_ok [OF f] d by auto
    from act [OF this] show ?thesis using None d miss fu
      by (simp add: decide_def Let_def frame)
  next
    case (Some p)
    obtain k where leg: "d = Leg sd e k" using act_on_BetD [OF ok(4) b] by blast
    have "leg_ok d" using value_direction_ok [OF ok(2) p64 [OF Some] f xm, of ?s2] d Some by auto
    moreover have "fst (value_direction c p (fused fu) ?xm ?s1) = Inr d"
      using value_direction_storm [OF ok(1,2) sens(1) sanitize_storm_unit(1) s sanitize_storm_unit(2)] d Some leg
      by auto
    ultimately show ?thesis using act Some miss fu
      by (simp add: decide_def Let_def frame split_beta)
  qed
qed

text \<open>A NaN price is not rejected: whatever the signals, value mode reads it as a model price of one
  and hands on a NO leg with the maximal Kelly fraction, past the price floor and the edge gate, and
  the Kelly helper maps a NaN edge to one, where its docstring promises zero.\<close>

theorem nan_price_maximal_leg:
  "p_model c NaN fs xm = fone \<and>
   (\<exists>g. value_direction c NaN fs xm s = (Inr (Leg NO NaN fone), Some g)) \<and>
   kelly_fraction NaN = Inr fone"
proof -
  have nan: "fsub fone NaN = NaN" "fabs NaN = NaN" by (simp_all add: fsub_def)
  have xm: "fadd (fadd NaN (fmul (kappa c) fs)) (fmul (kappa_xm c) xm) = NaN"
    by (cases "fmul (kappa c) fs"; cases "fmul (kappa_xm c) xm") auto
  have pm: "p_model c NaN fs xm = fone" unfolding p_model_def xm by (simp add: clampf_NaN)
  have k: "value_kelly_fraction NaN NaN = Inr fone"
    by (simp add: value_kelly_fraction_def nan py_div_def fmin_def)
  have k': "kelly_fraction NaN = Inr fone"
    by (simp add: kelly_fraction_def nan py_div_def fmin_def)
  show ?thesis
    using pm k k' by (auto simp: value_direction_def nan split: option.split)
qed

section \<open>A concrete decision\<close>

definition demo_signal :: signal where
  "demo_signal = \<lparr>score = Fin (1 / 2), confidence = fone, available_at = ''2026-01-01T00:00:00+00:00'',
                  rationale = ''demo'', raw_features = []\<rparr>"

definition demo_args :: decide_args where
  "demo_args = \<lparr>
     d_signals = map (\<lambda>n. (n, demo_signal)) (RATIONAL_ENGINES @ SENTIENT_ENGINES),
     d_alpha = (Fin (1 / 2), Fin (1 / 4), Fin (1 / 4)), d_beta = (Fin (1 / 2), Fin (1 / 2)),
     d_w_r = Fin (1 / 2), d_w_s = Fin (1 / 2), d_rho = fone, d_bankroll_usd = Fin 100,
     d_breath = Fin 100, d_liquidity_cap_usd = Fin 1000, d_market_id = ''m1'', d_desperate = False,
     d_price = Some (Fin (1 / 2)), d_storm = Fin (1 / 4), d_cross_market_signal = fzero\<rparr>"

definition demo_state :: engine_state where
  "demo_state = \<lparr>rng_pos = 0, last_gate_diagnostics = None\<rparr>"

definition demo_config :: engine_config where
  "demo_config = default_config\<lparr>gate_storm_sensitivity := Fin (1 / 2), risk_storm_sensitivity := Fin (1 / 4)\<rparr>"

lemma demo_ok: "config_ok demo_config" "config_finite demo_config" "explore_off demo_config"
  by code_simp+

lemma demo_args_ok: "args_ok demo_args"
  by code_simp

lemma demo_decision:
  "fst (decide False demo_config demo_args demo_state) =
     Inr (bet ''m1'' YES (Fin (375 / 16)) (Fin (1 / 8)))"
  by code_simp

lemma demo_legacy_decision:
  "fst (decide False demo_config (demo_args\<lparr>d_price := None\<rparr>) demo_state) =
     Inr (bet ''m1'' YES (Fin 30) (Fin (1 / 2)))"
  by code_simp

theorem decide_bet_bounds_witness:
  "\<exists>z. fst (decide False demo_config demo_args demo_state) = Inr (bet ''m1'' YES z (Fin (1 / 8))) \<and>
       fle (Fin 5) z \<and> fle z (Fin 100)"
  using decide_bet_bounds [OF demo_ok(1,2) demo_args_ok, of False demo_state] demo_decision
  by (auto simp: demo_args_def demo_config_def default_config_def)

theorem decide_exploration_off_witness:
  "rng_pos (snd (decide False demo_config demo_args demo_state)) = 0"
  using decide_exploration_off [of demo_config False demo_args demo_state] demo_ok(3)
  by (auto simp: explore_off_def demo_state_def)

theorem value_bet_side_and_edge_witness:
  "flt (Fin (1 / 2)) (p_model demo_config (Fin (1 / 2)) (Fin (1 / 2)) fzero) \<and>
   (\<exists>fu. fuse_signals (d_signals demo_args) (d_alpha demo_args) (d_beta demo_args)
            (d_w_r demo_args) (d_w_s demo_args) = Inr fu \<and> \<not> flt (mean_confidence fu) (min_confidence demo_config))"
proof
  have p: "d_price demo_args = Some (Fin (1 / 2))" by (simp add: demo_args_def)
  from value_bet_side_and_edge [OF demo_ok(2) demo_args_ok demo_ok(3) p _ demo_decision]
  show "\<exists>fu. fuse_signals (d_signals demo_args) (d_alpha demo_args) (d_beta demo_args)
            (d_w_r demo_args) (d_w_s demo_args) = Inr fu \<and> \<not> flt (mean_confidence fu) (min_confidence demo_config)"
    by auto
  show "flt (Fin (1 / 2)) (p_model demo_config (Fin (1 / 2)) (Fin (1 / 2)) fzero)" by code_simp
qed

theorem legacy_bet_follows_fused_witness:
  "\<exists>fu. fuse_signals (d_signals demo_args) (d_alpha demo_args) (d_beta demo_args)
            (d_w_r demo_args) (d_w_s demo_args) = Inr fu \<and> fabs (fused fu) = Fin (1 / 2)"
  using legacy_bet_follows_fused [OF demo_ok(3) _ demo_legacy_decision] by auto

theorem storms_only_tighten_witness:
  "\<exists>z1. fst (decide False demo_config (demo_args\<lparr>d_storm := fzero\<rparr>) demo_state) =
        Inr (bet ''m1'' YES z1 (Fin (1 / 8))) \<and> fle (Fin (375 / 16)) z1"
proof (rule storms_only_tighten [OF demo_ok(1,2) demo_args_ok demo_ok(3)])
  show "fle fzero (gate_storm_sensitivity demo_config)" "fle fzero (risk_storm_sensitivity demo_config)"
    by (simp_all add: demo_config_def)
  show "isfinite (d_rho demo_args)" "fle fzero (d_rho demo_args)" "fle fzero (d_bankroll_usd demo_args)"
    by (simp_all add: demo_args_def)
  show "fle (sanitize_storm fzero) (sanitize_storm (Fin (1 / 4)))"
    by (simp add: sanitize_storm_def clampf_def fmin_def fmax_def)
  have "demo_args\<lparr>d_storm := Fin (1 / 4)\<rparr> = demo_args" by (simp add: demo_args_def)
  then show "fst (decide False demo_config (demo_args\<lparr>d_storm := Fin (1 / 4)\<rparr>) demo_state) =
      Inr (bet ''m1'' YES (Fin (375 / 16)) (Fin (1 / 8)))" using demo_decision by simp
qed

end
