(* ===== verification/PyText.thy ===== *)
theory PyText
  imports PyFloat
begin

text \<open>
  The parts of Python's text handling the code relies on: \<open>str.strip\<close>, \<open>str.lower\<close> (in the
  prelude), splitting off prefixes and the decimal grammar of \<open>float(text)\<close>.  Characters are the
  first 256 code points.
\<close>

definition is_space :: "char \<Rightarrow> bool" where
  "is_space c = (let n = of_char c :: nat in
     9 \<le> n \<and> n \<le> 13 \<or> 28 \<le> n \<and> n \<le> 32 \<or> n = 133 \<or> n = 160)"

definition py_strip :: "string \<Rightarrow> string" where
  "py_strip s = rev (dropWhile is_space (rev (dropWhile is_space s)))"

definition is_digit :: "char \<Rightarrow> bool" where
  "is_digit c = (let n = of_char c :: nat in 48 \<le> n \<and> n \<le> 57)"

definition digit_val :: "char \<Rightarrow> int" where
  "digit_val c = of_char c - 48"

definition digits_val :: "string \<Rightarrow> int" where
  "digits_val s = foldl (\<lambda>n c. 10 * n + digit_val c) 0 (filter is_digit s)"

text \<open>A run of digits, with single underscores allowed between two digits.\<close>

fun digit_part :: "string \<Rightarrow> bool" where
  "digit_part [] = False"
| "digit_part [c] = is_digit c"
| "digit_part (c # d # s) =
     (is_digit c \<and> (if d = CHR ''_'' then digit_part s \<and> s \<noteq> [] else digit_part (d # s)))"

definition dig_us :: "char \<Rightarrow> bool" where
  "dig_us c = (is_digit c \<or> c = CHR ''_'')"

definition split_sign :: "string \<Rightarrow> bool \<times> string" where
  "split_sign s = (case s of [] \<Rightarrow> (False, [])
     | c # t \<Rightarrow> if c = CHR ''-'' then (True, t) else if c = CHR ''+'' then (False, t) else (False, s))"

text \<open>The exponent suffix: nothing, or \<open>e\<close>, an optional sign and digits; \<open>None\<close> is malformed.\<close>

definition parse_exponent :: "string \<Rightarrow> int option" where
  "parse_exponent s = (case s of [] \<Rightarrow> Some 0
     | c # t \<Rightarrow> if c = CHR ''e'' \<or> c = CHR ''E''
         then (let (neg, u) = split_sign t in
               if digit_part u then Some (if neg then - digits_val u else digits_val u) else None)
         else None)"

definition scale10 :: "rat \<Rightarrow> int \<Rightarrow> rat" where
  "scale10 q e = (if 0 \<le> e then q * 10 ^ nat e else q / 10 ^ nat (- e))"

definition parse_decimal :: "string \<Rightarrow> rat option" where
  "parse_decimal s =
     (let ip = takeWhile dig_us s; r1 = dropWhile dig_us s;
          (fp, r2) = (case r1 of [] \<Rightarrow> ([], [])
                      | c # t \<Rightarrow> if c = CHR ''.'' then (takeWhile dig_us t, dropWhile dig_us t)
                                else ([], r1))
      in if (ip = [] \<and> fp = []) \<or> (ip \<noteq> [] \<and> \<not> digit_part ip) \<or> (fp \<noteq> [] \<and> \<not> digit_part fp)
         then None
         else (case parse_exponent r2 of None \<Rightarrow> None
               | Some e \<Rightarrow> Some (scale10 (of_int (digits_val (ip @ fp)))
                                (e - int (length (filter is_digit fp))))))"

definition py_float :: "string \<Rightarrow> pyfloat res" where
  "py_float s =
     (let (neg, u) = split_sign (py_strip s); v = py_lower u
      in if v = ''nan'' then Inr NaN
         else if v = ''inf'' \<or> v = ''infinity'' then Inr (if neg then NInf else PInf)
         else (case parse_decimal u of
                 None \<Rightarrow> Inl ValueError
               | Some q \<Rightarrow> Inr (rnd (if neg then - q else q))))"

lemma py_float_f64: "py_float s = Inr x \<Longrightarrow> f64 x"
  by (auto simp: py_float_def Let_def split: prod.splits option.splits if_splits)

lemma py_float_error: "py_float s = Inl e \<Longrightarrow> e = ValueError"
  by (auto simp: py_float_def Let_def split: prod.splits option.splits if_splits)

lemma py_float_samples:
  "py_float '' 0.5 '' = Inr (Fin (1 / 2))"
  "py_float ''-1_0e-1'' = Inr (Fin (- 1))"
  "py_float ''NaN'' = Inr NaN"
  "py_float ''1__0'' = Inl ValueError"
  "py_float ''.'' = Inl ValueError"
  by code_simp+

end
