(* ===== verification/CostGuard.thy ===== *)
theory CostGuard
  imports PyText
begin

text \<open>
  The budget tracker of \<open>agent/llm/cost_guard.py\<close>: the running USD total, its warning and hard
  cap, and the L3 guard built from the environment.  A guard is a record with the fields of the
  dataclass; \<open>cg_record\<close> is \<open>CostGuard.record\<close>, returning the event and the new guard.
\<close>

section \<open>State and operations\<close>

record cost_event =
  ce_label :: string
  ce_usd :: pyfloat
  total_after :: pyfloat
  ce_kind :: string

record cost_guard =
  hard_cap_usd :: pyfloat
  warning_fraction :: pyfloat
  total_usd :: pyfloat
  cg_events :: "cost_event list"

definition DEFAULT_HARD_CAP_USD :: pyfloat where "DEFAULT_HARD_CAP_USD = Fin 25"
definition DEFAULT_WARNING_FRACTION :: pyfloat where "DEFAULT_WARNING_FRACTION = rnd (80 / 100)"
definition DEFAULT_L3_MONTHLY_BUDGET_USD :: pyfloat where "DEFAULT_L3_MONTHLY_BUDGET_USD = Fin 10"

text \<open>\<open>CostGuard.__post_init__\<close> on a guard with an empty history.\<close>

definition mk_cost_guard :: "pyfloat \<Rightarrow> pyfloat \<Rightarrow> cost_guard res" where
  "mk_cost_guard cap wfr =
     (if fle cap fzero then Inl ValueError
      else if \<not> (flt fzero wfr \<and> flt wfr fone) then Inl ValueError
      else Inr \<lparr>hard_cap_usd = cap, warning_fraction = wfr, total_usd = fzero, cg_events = []\<rparr>)"

definition is_warning :: "cost_guard \<Rightarrow> bool" where
  "is_warning g = fle (fmul (warning_fraction g) (hard_cap_usd g)) (total_usd g)"

definition is_exhausted :: "cost_guard \<Rightarrow> bool" where
  "is_exhausted g = fle (hard_cap_usd g) (total_usd g)"

definition remaining_usd :: "cost_guard \<Rightarrow> pyfloat" where
  "remaining_usd g = fmax fzero (fsub (hard_cap_usd g) (total_usd g))"

definition cg_record :: "string \<Rightarrow> pyfloat \<Rightarrow> cost_guard \<Rightarrow> (cost_event \<times> cost_guard) res" where
  "cg_record label usd g =
     (if flt usd fzero then Inl ValueError
      else if is_exhausted g then Inl CostExhaustedError
      else let g1 = g\<lparr>total_usd := fadd (total_usd g) usd\<rparr>;
               kind = (if is_exhausted g1 then ''exhausted'' else if is_warning g1 then ''warning'' else ''ok'');
               ev = \<lparr>ce_label = label, ce_usd = usd, total_after = total_usd g1, ce_kind = kind\<rparr>
           in Inr (ev, g1\<lparr>cg_events := cg_events g1 @ [ev]\<rparr>))"

text \<open>\<open>L3CostGuard.from_env\<close>; the argument is the value of the environment variable.\<close>

definition from_env :: "string option \<Rightarrow> cost_guard res" where
  "from_env raw =
     (let cap = (case raw of
          None \<Rightarrow> DEFAULT_L3_MONTHLY_BUDGET_USD
        | Some r \<Rightarrow>
            if py_strip r = [] then DEFAULT_L3_MONTHLY_BUDGET_USD
            else let c = (case py_float r of Inr x \<Rightarrow> x | Inl _ \<Rightarrow> DEFAULT_L3_MONTHLY_BUDGET_USD)
                 in if fle c fzero then DEFAULT_L3_MONTHLY_BUDGET_USD else c)
      in mk_cost_guard cap DEFAULT_WARNING_FRACTION)"

section \<open>Runs of a guard\<close>

text \<open>
  A caller that records costs one after the other and ignores refusals: the guard keeps its state
  when \<open>record\<close> raises.
\<close>

definition charge :: "cost_guard \<Rightarrow> string \<times> pyfloat \<Rightarrow> cost_guard" where
  "charge g c = (case cg_record (fst c) (snd c) g of Inl _ \<Rightarrow> g | Inr (_, g') \<Rightarrow> g')"

definition charges :: "cost_guard \<Rightarrow> (string \<times> pyfloat) list \<Rightarrow> cost_guard" where
  "charges g cs = foldl charge g cs"

lemma charge_cases:
  obtains (refused) "charge g c = g" "flt (snd c) fzero \<or> is_exhausted g"
  | (charged) ev where "\<not> flt (snd c) fzero" "\<not> is_exhausted g"
      "cg_record (fst c) (snd c) g = Inr (ev, charge g c)"
      "charge g c = g\<lparr>total_usd := fadd (total_usd g) (snd c), cg_events := cg_events g @ [ev]\<rparr>"
      "ce_usd ev = snd c" "total_after ev = fadd (total_usd g) (snd c)"
      "ce_kind ev = (if is_exhausted (charge g c) then ''exhausted''
                     else if is_warning (charge g c) then ''warning'' else ''ok'')"
  by (cases "flt (snd c) fzero \<or> is_exhausted g")
     (auto simp: charge_def cg_record_def Let_def is_exhausted_def is_warning_def)

lemma charge_frame [simp]:
  "hard_cap_usd (charge g c) = hard_cap_usd g" "warning_fraction (charge g c) = warning_fraction g"
  by (cases rule: charge_cases [of g c]; simp)+

lemma charges_snoc: "charges g (cs @ [c]) = charge (charges g cs) c"
  by (simp add: charges_def)

lemma charges_Nil [simp]: "charges g [] = g"
  by (simp add: charges_def)

lemma charges_frame [simp]:
  "hard_cap_usd (charges g cs) = hard_cap_usd g" "warning_fraction (charges g cs) = warning_fraction g"
  by (induction cs rule: rev_induct) (simp_all add: charges_snoc)

text \<open>The ledger invariant: the total is the sum of the event costs, in order.\<close>

definition ledger_ok :: "cost_guard \<Rightarrow> bool" where
  "ledger_ok g = (total_usd g = fsum (map ce_usd (cg_events g)))"

lemma ledger_charge: "ledger_ok g \<Longrightarrow> ledger_ok (charge g c)"
  by (cases rule: charge_cases [of g c]) (simp_all add: ledger_ok_def fsum_snoc)

text \<open>Every event but the last left the total below the cap.\<close>

definition below_cap_ok :: "cost_guard \<Rightarrow> bool" where
  "below_cap_ok g =
     (list_all (\<lambda>e. \<not> fle (hard_cap_usd g) (total_after e) \<and> ce_kind e \<noteq> ''exhausted'') (butlast (cg_events g)) \<and>
      (cg_events g \<noteq> [] \<longrightarrow> total_after (last (cg_events g)) = total_usd g \<and>
          (ce_kind (last (cg_events g)) = ''exhausted'' \<longleftrightarrow> is_exhausted g)))"

lemma below_cap_charge:
  assumes "below_cap_ok g" shows "below_cap_ok (charge g c)"
proof (cases rule: charge_cases [of g c])
  case (charged ev)
  have "list_all (\<lambda>e. \<not> fle (hard_cap_usd g) (total_after e) \<and> ce_kind e \<noteq> ''exhausted'') (cg_events g)"
  proof (cases "cg_events g" rule: rev_cases)
    case (snoc es e)
    then show ?thesis using assms charged(2) by (auto simp: below_cap_ok_def is_exhausted_def)
  qed simp
  then show ?thesis
    using charged unfolding below_cap_ok_def by (simp add: is_exhausted_def split: if_splits)
qed (use assms in simp)

section \<open>The contract as a latch\<close>

interpretation guard_latch: frozen_latch charge is_exhausted
proof
  fix g c
  assume ex: "is_exhausted g"
  then show "charge g c = g" by (cases rule: charge_cases [of g c]) simp_all
  then show "is_exhausted (charge g c)" using ex by simp
qed

lemma charges_exhausted: "is_exhausted g \<Longrightarrow> charges g cs = g"
  unfolding charges_def by (rule guard_latch.frozen_run)

section \<open>Bounds\<close>

text \<open>With a finite cap and finite costs the total is a number at every moment.\<close>

definition sane :: "cost_guard \<Rightarrow> bool" where
  "sane g = (isfinite (hard_cap_usd g) \<and> f64 (hard_cap_usd g) \<and> f64 (total_usd g) \<and> fle fzero (total_usd g) \<and>
     list_all (\<lambda>e. fle fzero (total_after e)) (cg_events g) \<and>
     (cg_events g \<noteq> [] \<longrightarrow>
        (\<exists>t. flt t (hard_cap_usd g) \<and> fle fzero t \<and> total_usd g = fadd t (ce_usd (last (cg_events g))))))"

lemma sane_charge:
  assumes "sane g" "isfinite (snd c)" "f64 (snd c)" shows "sane (charge g c)"
proof (cases rule: charge_cases [of g c])
  case (charged ev)
  have lt: "flt (total_usd g) (hard_cap_usd g)" and fin: "isfinite (total_usd g)"
    using charged(2) assms(1) by (cases "total_usd g"; cases "hard_cap_usd g"; auto simp: sane_def is_exhausted_def)+
  have "fle fzero (snd c)" using charged(1) assms(2) by (cases "snd c") auto
  then have "fle (total_usd g) (fadd (total_usd g) (snd c))"
    using assms(1) fin by (intro fadd_ge_self) (auto simp: sane_def)
  then have "fle fzero (fadd (total_usd g) (snd c))"
    using assms(1) fle_trans unfolding sane_def by blast
  then show ?thesis
    using assms charged lt by (auto simp: sane_def)
qed (use assms in simp)

definition costs_ok :: "(string \<times> pyfloat) list \<Rightarrow> bool" where
  "costs_ok cs = list_all (\<lambda>c. isfinite (snd c) \<and> f64 (snd c)) cs"

lemma sane_charges: "sane g \<Longrightarrow> costs_ok cs \<Longrightarrow> sane (charges g cs)"
  by (induction cs rule: rev_induct) (simp_all add: charges_snoc sane_charge costs_ok_def)

lemma charges_invariants:
  assumes "mk_cost_guard cap wfr = Inr g"
  shows "ledger_ok (charges g cs)" "below_cap_ok (charges g cs)"
proof -
  have g: "cg_events g = []" "total_usd g = fzero"
    using assms by (auto simp: mk_cost_guard_def split: if_splits)
  have "ledger_ok g" "below_cap_ok g" using g by (simp_all add: ledger_ok_def below_cap_ok_def fsum_def)
  then show "ledger_ok (charges g cs)" "below_cap_ok (charges g cs)"
    by (induction cs rule: rev_induct; simp add: charges_snoc ledger_charge below_cap_charge)+
qed

lemma mk_cost_guard_sane:
  "mk_cost_guard cap wfr = Inr g \<Longrightarrow> isfinite cap \<Longrightarrow> f64 cap \<Longrightarrow> sane g \<and> hard_cap_usd g = cap"
  by (auto simp: mk_cost_guard_def sane_def split: if_splits)

text \<open>C23. A fresh guard with a finite cap, charged any sequence of finite costs, keeps a faithful
  ledger and overshoots by at most one call: the total is the sum of the accepted costs in order,
  it was below the cap before the last of them, every earlier event left it below the cap, exactly
  the event that reaches the cap is tagged exhausted, and from then on the guard never changes.\<close>

theorem cost_guard_one_call_overshoot:
  assumes "mk_cost_guard cap wfr = Inr g0" "isfinite cap" "f64 cap" "costs_ok cs"
    and g: "g = charges g0 cs"
  shows "total_usd g = fsum (map ce_usd (cg_events g)) \<and>
    list_all (\<lambda>e. flt (total_after e) cap \<and> ce_kind e \<noteq> ''exhausted'') (butlast (cg_events g)) \<and>
    (cg_events g \<noteq> [] \<longrightarrow>
      (\<exists>t. flt t cap \<and> fle fzero t \<and> total_usd g = fadd t (ce_usd (last (cg_events g)))) \<and>
      (ce_kind (last (cg_events g)) = ''exhausted'' \<longleftrightarrow> fle cap (total_usd g))) \<and>
    (fle cap (total_usd g) \<longrightarrow> charges g cs' = g)"
proof (intro conjI impI)
  have s: "sane g" "hard_cap_usd g = cap"
    using mk_cost_guard_sane [OF assms(1-3)] sane_charges assms(4) g by auto
  note inv = charges_invariants [OF assms(1), of cs, folded g]
  show "total_usd g = fsum (map ce_usd (cg_events g))" using inv(1) by (simp add: ledger_ok_def)
  show "cg_events g \<noteq> [] \<Longrightarrow> \<exists>t. flt t cap \<and> fle fzero t \<and> total_usd g = fadd t (ce_usd (last (cg_events g)))"
    using s by (simp add: sane_def)
  have "cap \<noteq> NaN" using assms(2) by (cases cap) auto
  then have "flt x cap" if "\<not> fle cap x" "fle fzero x" for x
    using that by (cases x; cases cap) auto
  moreover have "list_all (\<lambda>e. fle fzero (total_after e)) (butlast (cg_events g))"
    using s(1) by (auto simp: sane_def list_all_iff dest: in_set_butlastD)
  ultimately show "list_all (\<lambda>e. flt (total_after e) cap \<and> ce_kind e \<noteq> ''exhausted'') (butlast (cg_events g))"
    using inv(2) s(2) by (auto simp: below_cap_ok_def list_all_iff)
  show "cg_events g \<noteq> [] \<Longrightarrow> ce_kind (last (cg_events g)) = ''exhausted'' \<longleftrightarrow> fle cap (total_usd g)"
    using inv(2) s(2) by (simp add: below_cap_ok_def is_exhausted_def)
  show "fle cap (total_usd g) \<Longrightarrow> charges g cs' = g"
    using charges_exhausted s(2) by (simp add: is_exhausted_def)
qed

theorem cost_guard_one_call_overshoot_witness:
  "\<exists>g0. mk_cost_guard (Fin 1) (Fin (1 / 2)) = Inr g0 \<and>
     charges (charges g0 [(''a'', Fin (3 / 4)), (''b'', Fin (3 / 4))]) [(''c'', Fin 1)] =
     charges g0 [(''a'', Fin (3 / 4)), (''b'', Fin (3 / 4))]"
proof -
  let ?cs = "[(''a'', Fin (3 / 4)), (''b'', Fin (3 / 4))]"
  define g0 where "g0 = \<lparr>hard_cap_usd = Fin 1, warning_fraction = Fin (1 / 2), total_usd = fzero, cg_events = []\<rparr>"
  have mk: "mk_cost_guard (Fin 1) (Fin (1 / 2)) = Inr g0" by (simp add: mk_cost_guard_def g0_def)
  have cs: "costs_ok ?cs" by code_simp
  have "total_usd (charges g0 ?cs) = Fin (3 / 2)" unfolding g0_def by code_simp
  then show ?thesis
    using cost_guard_one_call_overshoot [OF mk _ _ cs refl, of "[(''c'', Fin 1)]"] mk by auto
qed

text \<open>Not a number disables the budget: a guard built from the environment value \<open>nan\<close>, or one
  that has accepted a NaN cost, is never exhausted whatever is charged to it, so no later cost is
  ever refused for the cap.\<close>

theorem nan_disables_budget:
  "(\<exists>g. from_env (Some ''nan'') = Inr g \<and> (\<forall>cs. \<not> is_exhausted (charges g cs))) \<and>
   (is_exhausted g \<or> (\<forall>cs. \<not> is_exhausted (charges (charge g (l, NaN)) cs)))"
proof (intro conjI)
  have cap: "\<not> is_exhausted (charges h cs)" if "hard_cap_usd h = NaN" for h cs
    using that by (simp add: is_exhausted_def)
  have "from_env (Some ''nan'') = Inr \<lparr>hard_cap_usd = NaN, warning_fraction = DEFAULT_WARNING_FRACTION,
      total_usd = fzero, cg_events = []\<rparr>"
    by code_simp
  then have "\<exists>h. from_env (Some ''nan'') = Inr h \<and> hard_cap_usd h = NaN"
    by simp
  then show "\<exists>g. from_env (Some ''nan'') = Inr g \<and> (\<forall>cs. \<not> is_exhausted (charges g cs))"
    using cap by blast
  have nan: "fadd NaN x = NaN" "fadd x NaN = NaN" for x by (cases x; simp)+
  have tot: "total_usd (charges h cs) = NaN" if "total_usd h = NaN" for h cs
    using that
  proof (induction cs rule: rev_induct)
    case (snoc c cs)
    then show ?case
      by (cases rule: charge_cases [of "charges h cs" c]) (simp_all add: charges_snoc nan)
  qed simp
  have "total_usd (charge g (l, NaN)) = NaN" if "\<not> is_exhausted g"
    using that by (cases rule: charge_cases [of g "(l, NaN)"]) (simp_all add: nan)
  then show "is_exhausted g \<or> (\<forall>cs. \<not> is_exhausted (charges (charge g (l, NaN)) cs))"
    using tot by (auto simp: is_exhausted_def)
qed

end
