(* ===== verification/Pressure.thy ===== *)
theory Pressure
  imports CoreState
begin

text \<open>
  The survival-pressure monitor of \<open>agent/core/pressure_monitor.py\<close>: the pressure of a tick, the
  counter of consecutive phase-3 cycles under pressure and the desperate-mode latch.  The monitor
  is a record with the private fields of \<open>PressureMonitor\<close>; its two methods are \<open>observe\<close> and
  \<open>handle_phase_transition\<close>.
\<close>

section \<open>Model\<close>

definition MIN_PRESSURE :: pyfloat where "MIN_PRESSURE = Fin (1 / 2)"
definition MIN_PRESSURE_CYCLES :: int where "MIN_PRESSURE_CYCLES = 2"
definition TARGET_HORIZON_HOURS :: pyfloat where "TARGET_HORIZON_HOURS = Fin 36"
definition MIN_BURN_RATE_PER_HOUR :: pyfloat where "MIN_BURN_RATE_PER_HOUR = fone"

record pressure_sample =
  ps_breath :: pyfloat
  ps_rate :: pyfloat
  ps_projected_hours :: pyfloat
  ps_pressure :: pyfloat
  ps_phase :: phase

record desperate_intent =
  pressure_at_entry :: pyfloat
  di_cycles_held :: int
  di_phase :: phase

record monitor =
  pm_min_pressure :: pyfloat
  pm_min_cycles :: int
  cycles_held :: int
  latched :: bool

definition compute_pressure :: "pyfloat \<Rightarrow> pyfloat \<Rightarrow> (pyfloat \<times> pyfloat) res" where
  "compute_pressure breath rate =
     (let safe_breath = fmax fzero breath; safe_rate = fmax MIN_BURN_RATE_PER_HOUR rate in
      rbind (py_div safe_breath safe_rate) (\<lambda>projected_hours.
      rbind (py_div (fsub TARGET_HORIZON_HOURS projected_hours) TARGET_HORIZON_HOURS) (\<lambda>raw.
      Inr (projected_hours, clampf fzero fone raw))))"

definition mk_monitor :: "pyfloat \<Rightarrow> int \<Rightarrow> monitor res" where
  "mk_monitor mp mc =
     (if \<not> (flt fzero mp \<and> fle mp fone) then Inl ValueError
      else if mc < 1 then Inl ValueError
      else Inr \<lparr>pm_min_pressure = mp, pm_min_cycles = mc, cycles_held = 0, latched = False\<rparr>)"

definition observe :: "pyfloat \<Rightarrow> pyfloat \<Rightarrow> phase \<Rightarrow> monitor \<Rightarrow>
    ((pressure_sample \<times> desperate_intent option) \<times> monitor) res" where
  "observe breath rate ph m =
     rbind (compute_pressure breath rate) (\<lambda>(projected_hours, pressure).
       let sample = \<lparr>ps_breath = breath, ps_rate = rate, ps_projected_hours = projected_hours,
                     ps_pressure = pressure, ps_phase = ph\<rparr>
       in if ph \<noteq> PHASE_3_MASTER then Inr ((sample, None), m\<lparr>cycles_held := 0\<rparr>)
          else
            let held = (if fle (pm_min_pressure m) pressure
                        then min (cycles_held m + 1) (pm_min_cycles m) else 0);
                m1 = m\<lparr>cycles_held := held\<rparr>
            in if \<not> latched m1 \<and> pm_min_cycles m1 \<le> held
               then Inr ((sample, Some \<lparr>pressure_at_entry = pressure, di_cycles_held = held, di_phase = ph\<rparr>),
                         m1\<lparr>latched := True\<rparr>)
               else Inr ((sample, None), m1))"

definition handle_phase_transition :: "phase \<Rightarrow> phase \<Rightarrow> monitor \<Rightarrow> monitor" where
  "handle_phase_transition from_phase to_phase m =
     (if from_phase = PHASE_2_APPRENTICE \<and> to_phase = PHASE_3_MASTER
      then m\<lparr>cycles_held := 0\<rparr> else m)"

section \<open>The pressure of a tick\<close>

definition pressure_of :: "pyfloat \<Rightarrow> pyfloat \<Rightarrow> pyfloat" where
  "pressure_of breath rate =
     clampf fzero fone (fdiv (fsub (Fin 36) (fdiv (fmax fzero breath) (fmax fone rate))) (Fin 36))"

lemma compute_pressure_total:
  "compute_pressure breath rate =
     Inr (fdiv (fmax fzero breath) (fmax fone rate), pressure_of breath rate)"
proof -
  have "\<not> feq (fmax fone rate) fzero" by (cases rate) (auto simp: fmax_def)
  then show ?thesis
    by (simp add: compute_pressure_def py_div_def pressure_of_def Let_def TARGET_HORIZON_HOURS_def
        MIN_BURN_RATE_PER_HOUR_def)
qed

text \<open>The pressure is a number in the unit interval for every input, NaN and infinities included;
  a NaN or negative breath is maximal pressure; more breath never raises the pressure.\<close>

theorem pressure_bounded_and_antitone:
  "\<exists>h p. compute_pressure b r = Inr (h, p) \<and> fle fzero p \<and> fle p fone \<and>
     (b = NaN \<or> fle b fzero \<longrightarrow> p = fone) \<and>
     (\<forall>b' h' p'. isfinite r \<and> isfinite b \<and> fle b b' \<and> compute_pressure b' r = Inr (h', p') \<longrightarrow> fle p' p)"
proof -
  let ?rate = "fmax fone r"
  have u: "fle fzero (pressure_of b r)" "fle (pressure_of b r) fone"
    by (simp_all add: pressure_of_def clampf_unit)
  have one: "pressure_of b r = fone" if "b = NaN \<or> fle b fzero"
  proof -
    have "fmax fzero b = fzero" using that by (cases b) (auto simp: fmax_def)
    moreover have "fdiv fzero ?rate = fzero" by (cases r) (auto simp: fmax_def)
    moreover have "f64 (Fin 36)" by (simp add: f64_def rr_numeral p2_def)
    ultimately show ?thesis by (simp add: pressure_of_def clampf_def fmin_def fmax_def)
  qed
  have mono: "fle (pressure_of b' r) (pressure_of b r)" if "isfinite r" "isfinite b" "fle b b'" for b'
  proof -
    have r: "isfinite ?rate" "flt fzero ?rate" using that(1) by (cases r; auto simp: fmax_def)+
    have "fle (fmax fzero b) (fmax fzero b')" using that(3) by (cases b; cases b') (auto simp: fmax_def)
    then have h: "fle (fdiv (fmax fzero b) ?rate) (fdiv (fmax fzero b') ?rate)"
      using r by (rule fdiv_mono_left)
    from fsub_antimono_right [OF h] have "fle (fdiv (fsub (Fin 36) (fdiv (fmax fzero b') ?rate)) (Fin 36))
        (fdiv (fsub (Fin 36) (fdiv (fmax fzero b) ?rate)) (Fin 36))"
      by (rule fdiv_mono_left) simp_all
    then show ?thesis unfolding pressure_of_def clampf_def
      by (cases "fdiv (fsub (Fin 36) (fdiv (fmax fzero b') ?rate)) (Fin 36)";
          cases "fdiv (fsub (Fin 36) (fdiv (fmax fzero b) ?rate)) (Fin 36)") (auto simp: fmin_def fmax_def)
  qed
  show ?thesis using u one mono by (auto simp: compute_pressure_total)
qed

section \<open>Runs of the monitor\<close>

datatype pm_event = Observe pyfloat pyfloat phase | Transition phase phase

definition pm_step :: "monitor \<Rightarrow> pm_event \<Rightarrow> monitor \<times> desperate_intent option" where
  "pm_step m e =
     (case e of
        Observe b r ph \<Rightarrow> (case observe b r ph m of Inr ((_, i), m') \<Rightarrow> (m', i) | Inl _ \<Rightarrow> (m, None))
      | Transition f t \<Rightarrow> (handle_phase_transition f t m, None))"

abbreviation pm_run :: "monitor \<Rightarrow> pm_event list \<Rightarrow> monitor" where
  "pm_run \<equiv> foldl (\<lambda>m e. fst (pm_step m e))"

text \<open>The reference notion: how many phase-3 cycles under pressure in a row end the history (newest
  event first), a phase-2 to phase-3 transition or a cycle in another phase breaking the row.\<close>

fun streak :: "pyfloat \<Rightarrow> pm_event list \<Rightarrow> int" where
  "streak mp [] = 0"
| "streak mp (Observe b r ph # es) =
     (if ph = PHASE_3_MASTER \<and> fle mp (pressure_of b r) then streak mp es + 1 else 0)"
| "streak mp (Transition f t # es) =
     (if f = PHASE_2_APPRENTICE \<and> t = PHASE_3_MASTER then 0 else streak mp es)"

lemma streak_nonneg: "0 \<le> streak mp es"
  by (induction mp es rule: streak.induct) auto

definition held_after :: "pyfloat \<Rightarrow> int \<Rightarrow> pm_event list \<Rightarrow> int" where
  "held_after mp mc es = min mc (streak mp (rev es))"

lemma pm_step_frame [simp]:
  "pm_min_pressure (fst (pm_step m e)) = pm_min_pressure m"
  "pm_min_cycles (fst (pm_step m e)) = pm_min_cycles m"
  by (simp_all add: pm_step_def observe_def compute_pressure_total handle_phase_transition_def Let_def
      split: pm_event.split)

lemma pm_run_frame [simp]:
  "pm_min_pressure (pm_run m es) = pm_min_pressure m" "pm_min_cycles (pm_run m es) = pm_min_cycles m"
  by (induction es rule: rev_induct) simp_all

lemma pm_step_held:
  "cycles_held (fst (pm_step m e)) = (case e of
     Observe b r ph \<Rightarrow> if ph = PHASE_3_MASTER \<and> fle (pm_min_pressure m) (pressure_of b r)
       then min (cycles_held m + 1) (pm_min_cycles m) else 0
   | Transition f t \<Rightarrow> if f = PHASE_2_APPRENTICE \<and> t = PHASE_3_MASTER then 0 else cycles_held m)"
  by (simp add: pm_step_def observe_def compute_pressure_total handle_phase_transition_def Let_def
      split: pm_event.split)

lemma pm_step_latched:
  "1 \<le> pm_min_cycles m \<Longrightarrow> cycles_held m < pm_min_cycles m \<or> latched m \<Longrightarrow>
   latched (fst (pm_step m e)) \<longleftrightarrow> latched m \<or> pm_min_cycles m \<le> cycles_held (fst (pm_step m e))"
  by (auto simp: pm_step_def observe_def compute_pressure_total handle_phase_transition_def Let_def
      split: pm_event.split)

lemma pm_step_intent:
  "snd (pm_step m e) = Some i \<Longrightarrow>
     \<not> latched m \<and> latched (fst (pm_step m e)) \<and> di_phase i = PHASE_3_MASTER \<and>
     di_cycles_held i = cycles_held (fst (pm_step m e)) \<and> pm_min_cycles m \<le> di_cycles_held i"
  by (auto simp: pm_step_def observe_def compute_pressure_total Let_def split: pm_event.splits if_splits)

interpretation desperate: once_emitter pm_step latched
proof
  show "pm_step m e = (m', Some i) \<Longrightarrow> \<not> latched m \<and> latched m'" for m e m' i
    using pm_step_intent [of m e i] by simp
  show "pm_step m e = (m', out) \<Longrightarrow> latched m \<Longrightarrow> latched m'" for m e m' out
    by (auto simp: pm_step_def observe_def compute_pressure_total handle_phase_transition_def Let_def
        split: pm_event.splits if_splits)
qed

lemma ex_take_snoc:
  "(\<exists>n\<le>length (es @ [e]). P (take n (es @ [e]))) \<longleftrightarrow> (\<exists>n\<le>length es. P (take n es)) \<or> P (es @ [e])"
proof -
  have "(\<exists>n\<le>length (es @ [e]). R n) \<longleftrightarrow> (\<exists>n\<le>length es. R n) \<or> R (length (es @ [e]))" for R
    by (auto simp: le_Suc_eq)
  note split = this [of "\<lambda>n. P (take n (es @ [e]))"]
  have eq: "(n \<le> length es \<and> P (take n (es @ [e]))) = (n \<le> length es \<and> P (take n es))" for n
    by (auto simp: take_append)
  have "take (length (es @ [e])) (es @ [e]) = es @ [e]" by (rule take_all) simp
  then show ?thesis using split unfolding eq by simp
qed

lemma monitor_refines_streak:
  assumes "mk_monitor mp mc = Inr m0"
  shows "cycles_held (pm_run m0 es) = held_after mp mc es \<and>
    (latched (pm_run m0 es) \<longleftrightarrow> (\<exists>n\<le>length es. mc \<le> streak mp (rev (take n es))))"
proof (induction es rule: rev_induct)
  case Nil
  then show ?case using assms by (auto simp: mk_monitor_def held_after_def split: if_splits)
next
  case (snoc e es)
  have m0: "pm_min_pressure m0 = mp" "pm_min_cycles m0 = mc" "1 \<le> mc"
    using assms by (auto simp: mk_monitor_def split: if_splits)
  let ?m = "pm_run m0 es"
  have held: "cycles_held (fst (pm_step ?m e)) = held_after mp mc (es @ [e])"
    using snoc.IH m0 streak_nonneg [of mp "rev es"]
    by (auto simp: pm_step_held held_after_def split: pm_event.split)
  have pre: "cycles_held ?m < pm_min_cycles ?m \<or> latched ?m"
    using snoc.IH m0 by (auto simp: held_after_def intro!: exI [of _ "length es"])
  have "latched (fst (pm_step ?m e)) \<longleftrightarrow> latched ?m \<or> mc \<le> streak mp (rev (es @ [e]))"
    using pm_step_latched [OF _ pre, of e] m0 held by (simp add: held_after_def)
  moreover note ex_take_snoc [of es e "\<lambda>xs. mc \<le> streak mp (rev xs)"]
  ultimately show ?case using snoc.IH held by (simp only: foldl_append foldl.simps)
qed

text \<open>What a tick emits, in terms of the counter and the latch before it.\<close>

definition full_row :: "pyfloat \<Rightarrow> int \<Rightarrow> pm_event list \<Rightarrow> bool" where
  "full_row mp mc es = (\<exists>n\<le>length es. mc \<le> streak mp (rev (take n es)))"

lemma pm_step_out:
  "snd (pm_step m (Observe b r ph)) =
     (if ph = PHASE_3_MASTER \<and> \<not> latched m \<and>
         pm_min_cycles m \<le> (if fle (pm_min_pressure m) (pressure_of b r) then min (cycles_held m + 1) (pm_min_cycles m) else 0)
      then Some \<lparr>pressure_at_entry = pressure_of b r,
        di_cycles_held = (if fle (pm_min_pressure m) (pressure_of b r) then min (cycles_held m + 1) (pm_min_cycles m) else 0),
        di_phase = PHASE_3_MASTER\<rparr>
      else None)"
  "snd (pm_step m (Transition f t)) = None"
  by (simp_all add: pm_step_def observe_def compute_pressure_total Let_def)

lemma emitted_at:
  assumes "mk_monitor mp mc = Inr m0"
  shows "snd (pm_step (pm_run m0 es) (Observe b r ph)) =
    (if mc \<le> streak mp (Observe b r ph # rev es) \<and> \<not> full_row mp mc es
     then Some \<lparr>pressure_at_entry = pressure_of b r, di_cycles_held = mc, di_phase = PHASE_3_MASTER\<rparr> else None)"
proof -
  have m0: "pm_min_pressure m0 = mp" "pm_min_cycles m0 = mc" "1 \<le> mc"
    using assms by (auto simp: mk_monitor_def split: if_splits)
  note run = monitor_refines_streak [OF assms, of es, unfolded held_after_def, folded full_row_def]
  have "0 \<le> streak mp (rev es)" by (rule streak_nonneg)
  then show ?thesis using m0(3) by (simp only: pm_step_out pm_run_frame m0(1,2) run streak.simps) (auto simp: min_def)
qed

lemma emissions_snoc:
  "emissions pm_step m (es @ [e]) = emissions pm_step m es @ (case snd (pm_step (pm_run m es) e) of None \<Rightarrow> [] | Some i \<Rightarrow> [i])"
  by (induction es arbitrary: m) (simp_all add: case_prod_beta split: option.split)

lemma emissions_count:
  assumes "mk_monitor mp mc = Inr m0" shows "length (emissions pm_step m0 es) = (if full_row mp mc es then 1 else 0)"
proof (induction es rule: rev_induct)
  case Nil
  have "1 \<le> mc" using assms by (auto simp: mk_monitor_def split: if_splits)
  then show ?case by (simp add: full_row_def)
next
  case (snoc e es)
  have grow: "full_row mp mc (es @ [e]) \<longleftrightarrow> full_row mp mc es \<or> mc \<le> streak mp (e # rev es)"
    using ex_take_snoc [of es e "\<lambda>xs. mc \<le> streak mp (rev xs)"] by (simp add: full_row_def)
  show ?case
  proof (cases e)
    case (Observe b r ph)
    then show ?thesis using snoc.IH grow by (auto simp: emissions_snoc emitted_at [OF assms])
  next
    case (Transition f t)
    have "1 \<le> mc" using assms by (auto simp: mk_monitor_def split: if_splits)
    moreover have "mc \<le> streak mp (rev es) \<Longrightarrow> full_row mp mc es" by (auto simp: full_row_def intro: exI [of _ "length es"])
    ultimately show ?thesis using snoc.IH grow Transition by (auto simp: emissions_snoc pm_step_out)
  qed
qed

text \<open>C22. For every sequence of ticks and phase changes, the monitor of \<open>PressureMonitor\<close> computes the
  reference notion: its counter is the current row of phase-3 cycles under pressure, capped at the
  window, never negative; it is latched exactly when some moment of the history had a full row; a tick emits the
  desperate-mode intent, with its pressure and the window as the cycles held, exactly when its row is full and no
  row before was; so one intent is emitted when the history has a full row, and none otherwise.\<close>

theorem desperate_latch_correct:
  assumes "mk_monitor mp mc = Inr m0"
  shows "cycles_held (pm_run m0 es) = min mc (streak mp (rev es)) \<and> 0 \<le> cycles_held (pm_run m0 es) \<and>
    (latched (pm_run m0 es) \<longleftrightarrow> full_row mp mc es) \<and>
    (\<forall>b r ph. snd (pm_step (pm_run m0 es) (Observe b r ph)) =
       (if mc \<le> streak mp (Observe b r ph # rev es) \<and> \<not> full_row mp mc es
        then Some \<lparr>pressure_at_entry = pressure_of b r, di_cycles_held = mc, di_phase = PHASE_3_MASTER\<rparr> else None)) \<and>
    length (emissions pm_step m0 es) = (if full_row mp mc es then 1 else 0)"
proof -
  have "1 \<le> mc" using assms by (auto simp: mk_monitor_def split: if_splits)
  then show ?thesis
    using monitor_refines_streak [OF assms, of es] emissions_count [OF assms, of es] emitted_at [OF assms, of es]
      streak_nonneg [of mp "rev es"] by (simp add: held_after_def full_row_def)
qed

theorem desperate_latch_correct_witness:
  "\<exists>m0. mk_monitor MIN_PRESSURE MIN_PRESSURE_CYCLES = Inr m0 \<and>
     latched (pm_run m0 [Observe (Fin 1) (Fin 10) PHASE_3_MASTER, Observe fzero fone PHASE_3_MASTER]) \<and>
     length (emissions pm_step m0 [Observe (Fin 1) (Fin 10) PHASE_3_MASTER, Observe fzero fone PHASE_3_MASTER]) = 1"
proof -
  let ?es = "[Observe (Fin 1) (Fin 10) PHASE_3_MASTER, Observe fzero fone PHASE_3_MASTER]"
  define m0 where "m0 = \<lparr>pm_min_pressure = MIN_PRESSURE, pm_min_cycles = MIN_PRESSURE_CYCLES,
    cycles_held = 0, latched = False\<rparr>"
  have mk: "mk_monitor MIN_PRESSURE MIN_PRESSURE_CYCLES = Inr m0"
    by (simp add: mk_monitor_def m0_def MIN_PRESSURE_def MIN_PRESSURE_CYCLES_def)
  have "MIN_PRESSURE_CYCLES \<le> streak MIN_PRESSURE (rev (take 2 ?es))" by code_simp
  then have "full_row MIN_PRESSURE MIN_PRESSURE_CYCLES ?es" unfolding full_row_def
    by (intro exI [of _ 2]) simp
  then show ?thesis using desperate_latch_correct [OF mk, of ?es] mk by auto
qed

theorem pressure_bounded_and_antitone_witness:
  "\<exists>p p'. compute_pressure (Fin 10) fone = Inr (Fin 10, p) \<and> compute_pressure (Fin 20) fone = Inr (Fin 20, p') \<and>
     fle p' p"
proof -
  have h: "fdiv (fmax fzero (Fin 10)) (fmax fone fone) = Fin 10" "fdiv (fmax fzero (Fin 20)) (fmax fone fone) = Fin 20"
    by code_simp+
  show ?thesis
    using pressure_bounded_and_antitone [of "Fin 10" fone] h
    by (fastforce simp: compute_pressure_total)
qed

end
