(* ===== verification/Tribute.thy ===== *)
theory Tribute
  imports PyFloat
begin

text \<open>
  The tribute of \<open>agent/runtime/tribute.py\<close>: the price list of the gods and the scripted reflex
  policy that makes an offer at the moment of death.
\<close>

definition TRIBUTE_MIN_USD :: pyfloat where "TRIBUTE_MIN_USD = Fin 500"
definition TRIBUTE_FULL_USD :: pyfloat where "TRIBUTE_FULL_USD = Fin 2000"
definition P_FLOOR :: pyfloat where "P_FLOOR = rnd (30 / 100)"
definition P_CAP :: pyfloat where "P_CAP = rnd (99 / 100)"

definition tribute_success_probability :: "pyfloat \<Rightarrow> pyfloat res" where
  "tribute_success_probability amount_usd =
     (if flt amount_usd TRIBUTE_MIN_USD then Inl ValueError
      else rbind (py_div (fsub amount_usd TRIBUTE_MIN_USD) (fsub TRIBUTE_FULL_USD TRIBUTE_MIN_USD)) (\<lambda>frac.
        Inr (fmin P_CAP (fadd P_FLOOR (fmul (rnd (70 / 100)) (fmin fone frac))))))"

text \<open>\<open>ReflexTributePolicy.on_dying\<close>; the tick and the breath are not used by the code.\<close>

definition reflex_on_dying :: "int \<Rightarrow> pyfloat \<Rightarrow> pyfloat \<Rightarrow> pyfloat option" where
  "reflex_on_dying tick breath bankroll_usd =
     (if flt bankroll_usd TRIBUTE_MIN_USD then None else Some (fmin TRIBUTE_FULL_USD bankroll_usd))"

section \<open>The price list\<close>

lemma tribute_consts:
  "P_FLOOR = Fin (5404319552844595 / 18014398509481984)"
  "P_CAP = Fin (8917127262193582 / 9007199254740992)"
  "rnd (70 / 100) = Fin (6305039478318694 / 9007199254740992)"
  "fsub TRIBUTE_FULL_USD TRIBUTE_MIN_USD = Fin 1500"
  by code_simp+

definition tribute_price :: "pyfloat \<Rightarrow> pyfloat" where
  "tribute_price a = fmin P_CAP (fadd P_FLOOR (fmul (rnd (70 / 100))
     (fmin fone (fdiv (fsub a (Fin 500)) (Fin 1500)))))"

lemma tribute_success_eq:
  "tribute_success_probability a = (if flt a (Fin 500) then Inl ValueError else Inr (tribute_price a))"
  by (simp add: tribute_success_probability_def tribute_price_def py_div_def tribute_consts(4))
     (simp add: TRIBUTE_MIN_USD_def)

lemma tribute_price_number: "tribute_price a \<noteq> NaN \<and> fle (tribute_price a) P_CAP"
  unfolding tribute_price_def tribute_consts by (auto intro!: fmin_not_NaN fmin_le_left)

lemma tribute_price_mono:
  assumes "fle a b" shows "fle (tribute_price a) (tribute_price b)"
proof -
  have "fle (fsub a (Fin 500)) (fsub b (Fin 500))" using assms by (rule fsub_mono_left)
  then have "fle (fdiv (fsub a (Fin 500)) (Fin 1500)) (fdiv (fsub b (Fin 500)) (Fin 1500))"
    by (rule fdiv_mono_pos) simp
  then have "fle (fmin fone (fdiv (fsub a (Fin 500)) (Fin 1500))) (fmin fone (fdiv (fsub b (Fin 500)) (Fin 1500)))"
    by (rule fmin_mono_right) simp
  then have "fle (fmul (rnd (70 / 100)) (fmin fone (fdiv (fsub a (Fin 500)) (Fin 1500))))
      (fmul (rnd (70 / 100)) (fmin fone (fdiv (fsub b (Fin 500)) (Fin 1500))))"
    unfolding tribute_consts by (intro fmul_pos_mono) simp_all
  then show ?thesis
    unfolding tribute_price_def by (intro fmin_mono_right fadd_mono) (simp_all add: tribute_consts(1,2))
qed

lemma tribute_price_samples:
  "tribute_price (Fin 500) = P_FLOOR" "tribute_price (Fin 2000) = P_CAP"
  by code_simp+

text \<open>An offering below 500 dollars (and only that) is refused; every accepted one has a success
  probability between 0.30 and 0.99, the floor at 500 and the cap from 2000 on, and offering more
  never lowers it.\<close>

theorem tribute_probability_bounds:
  "(flt a (Fin 500) \<longleftrightarrow> tribute_success_probability a = Inl ValueError) \<and>
   (\<forall>p. tribute_success_probability a = Inr p \<and> a \<noteq> NaN \<longrightarrow> fle P_FLOOR p \<and> fle p P_CAP \<and>
      (fle (Fin 2000) a \<longrightarrow> p = P_CAP) \<and>
      (\<forall>b q. fle a b \<and> tribute_success_probability b = Inr q \<longrightarrow> fle p q))"
proof -
  have "fle P_FLOOR (tribute_price a)" if "\<not> flt a (Fin 500)" "a \<noteq> NaN"
    using tribute_price_mono [of "Fin 500" a] that tribute_price_samples(1) by (simp add: not_flt)
  moreover have "tribute_price a = P_CAP" if "fle (Fin 2000) a"
    using tribute_price_mono [OF that] tribute_price_number [of a] tribute_price_samples(2)
    by (auto intro: fle_antisym)
  ultimately show ?thesis
    using tribute_price_number [of a] tribute_price_mono [of a] by (auto simp: tribute_success_eq split: if_splits)
qed

theorem tribute_probability_bounds_witness:
  "\<exists>p. tribute_success_probability (Fin 2500) = Inr p \<and> p = P_CAP"
  using tribute_probability_bounds [of "Fin 2500"] by (auto simp: tribute_success_eq)

text \<open>The reflex policy offers exactly when the bankroll reaches the floor, never more than the
  bankroll nor more than the full price, and its offer is always accepted by the price list.\<close>

theorem reflex_offer_acceptable:
  assumes "bank \<noteq> NaN"
  shows "(reflex_on_dying t b bank = None \<longleftrightarrow> flt bank TRIBUTE_MIN_USD) \<and>
    (\<forall>x. reflex_on_dying t b bank = Some x \<longrightarrow>
       fle x bank \<and> fle x TRIBUTE_FULL_USD \<and> (\<exists>p. tribute_success_probability x = Inr p \<and> fle P_FLOOR p))"
proof -
  have "fle (fmin (Fin 2000) bank) bank" "fle (fmin (Fin 2000) bank) (Fin 2000)"
    using assms by (simp_all add: fmin_le_left fmin_le_right)
  moreover have "\<not> flt (fmin (Fin 2000) bank) (Fin 500) \<and> fle (Fin 500) (fmin (Fin 2000) bank)"
    if "\<not> flt bank (Fin 500)"
    using that assms by (cases bank) (auto simp: fmin_def)
  ultimately show ?thesis
    using tribute_price_mono [of "Fin 500" "fmin (Fin 2000) bank"] tribute_price_samples(1)
    by (auto simp: reflex_on_dying_def tribute_success_eq TRIBUTE_MIN_USD_def TRIBUTE_FULL_USD_def)
qed

theorem reflex_offer_acceptable_witness:
  "reflex_on_dying 7 fzero (Fin 800) = Some (Fin 800) \<and>
   (\<exists>p. tribute_success_probability (Fin 800) = Inr p \<and> fle P_FLOOR p)"
  using reflex_offer_acceptable [of "Fin 800" 7 fzero]
  by (auto simp: reflex_on_dying_def TRIBUTE_MIN_USD_def TRIBUTE_FULL_USD_def fmin_def)

end
