(* ===== verification/Ledger.thy ===== *)
theory Ledger
  imports CoreState
begin

text \<open>
  The sandbox ledger of \<open>agent/data/sandbox_state.py\<close>: bet and settlement records, their on-disk
  rows, the cost stamps, the append-only streams and their reader.

  A JSON value is a \<open>json\<close>; a line of a \<open>.jsonl\<close> file is modelled by what \<open>json.loads\<close> makes of
  it, \<open>None\<close> for a blank or malformed line.  Pydantic's \<open>BetRecord.model_validate\<close> is a
  parameter \<open>validate\<close> of the readers, with the law that re-reading a dumped record gives it back.
\<close>

section \<open>JSON\<close>

datatype json =
    JNull
  | JBool bool
  | JInt int
  | JFloat pyfloat
  | JStr string
  | JList "json list"
  | JDict "(string \<times> json) list"

type_synonym row = "(string, json) dict"

definition jget :: "row \<Rightarrow> string \<Rightarrow> json" where
  "jget d k = (case dget d k of None \<Rightarrow> JNull | Some v \<Rightarrow> v)"

text \<open>\<open>iter_jsonl\<close>: the objects of a file; blank, malformed and non-object lines are skipped.\<close>

definition iter_jsonl :: "json option list \<Rightarrow> row list" where
  "iter_jsonl ls = List.map_filter (\<lambda>l. case l of Some (JDict d) \<Rightarrow> Some d | _ \<Rightarrow> None) ls"

lemma iter_jsonl_append: "iter_jsonl (xs @ ys) = iter_jsonl xs @ iter_jsonl ys"
  by (simp add: iter_jsonl_def List.map_filter_def)

lemma iter_jsonl_dict [simp]: "iter_jsonl [Some (JDict d)] = [d]"
  by (simp add: iter_jsonl_def List.map_filter_def)

section \<open>Bet records\<close>

datatype bet_status = Open | Settled

record bet_record =
  bet_id :: string
  bet_ts :: string
  bet_market_id :: string
  bet_side :: side
  bet_price :: pyfloat
  bet_size_usd :: pyfloat
  expected_settle_ts :: string
  bet_status :: bet_status
  signal_scores :: "(string, pyfloat) dict"
  storm_at_bet :: "pyfloat option"
  edge_at_bet :: "pyfloat option"
  min_edge_at_bet :: "pyfloat option"
  gamma_at_bet :: "pyfloat option"
  eff_min_edge_at_bet :: "pyfloat option"
  fill_price :: "pyfloat option"
  fee_bps :: "pyfloat option"
  spread_paid_usd :: "pyfloat option"
  bet_liquidity_cap_usd :: "pyfloat option"

definition bet_fields_ok :: "bool \<Rightarrow> bet_record \<Rightarrow> bool" where
  "bet_fields_ok nv b =
     (pyd_ge nv fzero (bet_price b) \<and> pyd_le nv fone (bet_price b) \<and> pyd_gt nv fzero (bet_size_usd b))"

definition mk_bet_record :: "bool \<Rightarrow> bet_record \<Rightarrow> bet_record res" where
  "mk_bet_record nv b = (if bet_fields_ok nv b then Inr b else Inl ValidationError)"

definition opt_json :: "pyfloat option \<Rightarrow> json" where
  "opt_json x = (case x of None \<Rightarrow> JNull | Some v \<Rightarrow> JFloat v)"

text \<open>\<open>model_dump\<close> of a bet, in field order.\<close>

definition bet_dump :: "bet_record \<Rightarrow> row" where
  "bet_dump b = [
     (''bet_id'', JStr (bet_id b)), (''ts'', JStr (bet_ts b)), (''market_id'', JStr (bet_market_id b)),
     (''side'', JStr (case bet_side b of YES \<Rightarrow> ''YES'' | NO \<Rightarrow> ''NO'')),
     (''price'', JFloat (bet_price b)), (''size_usd'', JFloat (bet_size_usd b)),
     (''expected_settle_ts'', JStr (expected_settle_ts b)),
     (''status'', JStr (case bet_status b of Open \<Rightarrow> ''open'' | Settled \<Rightarrow> ''settled'')),
     (''signal_scores'', JDict (map (\<lambda>(k, v). (k, JFloat v)) (signal_scores b))),
     (''storm_at_bet'', opt_json (storm_at_bet b)), (''edge_at_bet'', opt_json (edge_at_bet b)),
     (''min_edge_at_bet'', opt_json (min_edge_at_bet b)), (''gamma_at_bet'', opt_json (gamma_at_bet b)),
     (''eff_min_edge_at_bet'', opt_json (eff_min_edge_at_bet b)),
     (''fill_price'', opt_json (fill_price b)), (''fee_bps'', opt_json (fee_bps b)),
     (''spread_paid_usd'', opt_json (spread_paid_usd b)),
     (''liquidity_cap_usd'', opt_json (bet_liquidity_cap_usd b))]"

definition STORM_STAMP_KEYS :: "string list" where
  "STORM_STAMP_KEYS = [''storm_at_bet'', ''edge_at_bet'', ''min_edge_at_bet'', ''gamma_at_bet'',
                       ''eff_min_edge_at_bet'']"

definition COST_STAMP_KEYS :: "string list" where
  "COST_STAMP_KEYS = [''fill_price'', ''fee_bps'', ''spread_paid_usd'', ''liquidity_cap_usd'']"

text \<open>The on-disk row: the dump without the stamps that are null.\<close>

definition bet_record_jsonl_dict :: "bet_record \<Rightarrow> row" where
  "bet_record_jsonl_dict b =
     filter (\<lambda>(k, v). \<not> (k \<in> set (STORM_STAMP_KEYS @ COST_STAMP_KEYS) \<and> v = JNull)) (bet_dump b)"

section \<open>Execution cost\<close>

definition execution_cost_usd :: "bet_record \<Rightarrow> pyfloat" where
  "execution_cost_usd b =
     (let fee = (case fee_bps b of None \<Rightarrow> fzero
                 | Some f \<Rightarrow> fmul (fdiv f (Fin 10000)) (bet_size_usd b));
          spread = (case spread_paid_usd b of None \<Rightarrow> fzero | Some s \<Rightarrow> s)
      in fadd fee spread)"

definition missing_cost_fields :: "bet_record \<Rightarrow> string list" where
  "missing_cost_fields b =
     map fst (filter (\<lambda>(k, v). v = None)
       (zip COST_STAMP_KEYS [fill_price b, fee_bps b, spread_paid_usd b, bet_liquidity_cap_usd b]))"

definition assert_cost_fields_present :: "bet_record \<Rightarrow> unit res" where
  "assert_cost_fields_present b = guard_res (missing_cost_fields b = []) ValueError"

lemma assert_cost_fields_present_iff:
  "assert_cost_fields_present b = Inr () \<longleftrightarrow>
     fill_price b \<noteq> None \<and> fee_bps b \<noteq> None \<and> spread_paid_usd b \<noteq> None \<and> bet_liquidity_cap_usd b \<noteq> None"
  by (auto simp: assert_cost_fields_present_def missing_cost_fields_def COST_STAMP_KEYS_def guard_res_def)

section \<open>Settled bets\<close>

datatype market_outcome = Yes | No | Void

record settled_bet_record =
  s_bet_id :: string
  s_market_id :: string
  settled_ts :: string
  s_outcome :: market_outcome
  s_winning_price :: pyfloat
  s_pnl_usd :: pyfloat
  s_reason :: "string option"

definition mk_settled_bet :: "bool \<Rightarrow> settled_bet_record \<Rightarrow> settled_bet_record res" where
  "mk_settled_bet nv s =
     (if pyd_ge nv fzero (s_winning_price s) \<and> pyd_le nv fone (s_winning_price s)
      then Inr s else Inl ValidationError)"

section \<open>The streams\<close>

text \<open>
  The two bet streams of the writer, as files that only grow: \<open>append_open_bet\<close> adds the row of a
  bet, \<open>append_settled_bet\<close> a settlement.
\<close>

record ledger =
  open_bets :: "json option list"
  settled_bets :: "settled_bet_record list"

definition append_open_bet :: "bet_record \<Rightarrow> ledger \<Rightarrow> ledger" where
  "append_open_bet b l = l\<lparr>open_bets := open_bets l @ [Some (JDict (bet_record_jsonl_dict b))]\<rparr>"

definition append_settled_bet :: "settled_bet_record \<Rightarrow> ledger \<Rightarrow> ledger" where
  "append_settled_bet s l = l\<lparr>settled_bets := settled_bets l @ [s]\<rparr>"

lemma append_simps [simp]:
  "open_bets (append_open_bet b l) = open_bets l @ [Some (JDict (bet_record_jsonl_dict b))]"
  "settled_bets (append_open_bet b l) = settled_bets l"
  "open_bets (append_settled_bet s l) = open_bets l"
  "settled_bets (append_settled_bet s l) = settled_bets l @ [s]"
  by (simp_all add: append_open_bet_def append_settled_bet_def)

section \<open>Reading a row back\<close>

text \<open>
  The reader's contract, over the verdict \<open>nv\<close> on NaN bounds: a row written from a valid bet
  validates to that bet, and a validated row carries the identifier of its bet and valid fields.
  \<open>bet_of_row\<close> is a validator with these laws, reading exactly the written shape.
\<close>

locale bet_reader =
  fixes nv :: bool and validate :: "row \<Rightarrow> bet_record option"
  assumes validate_written: "bet_fields_ok nv b \<Longrightarrow> validate (bet_record_jsonl_dict b) = Some b"
    and validate_id: "validate r = Some b \<Longrightarrow> jget r ''bet_id'' = JStr (bet_id b)"
    and validate_fields: "validate r = Some b \<Longrightarrow> bet_fields_ok nv b"
begin

lemma written_inject:
  "bet_fields_ok nv b \<Longrightarrow> bet_fields_ok nv b' \<Longrightarrow>
   bet_record_jsonl_dict b = bet_record_jsonl_dict b' \<Longrightarrow> b = b'"
  by (metis option.inject validate_written)

end

definition jstr :: "json \<Rightarrow> string option" where
  "jstr j = (case j of JStr s \<Rightarrow> Some s | _ \<Rightarrow> None)"

definition jfloat :: "json \<Rightarrow> pyfloat option" where
  "jfloat j = (case j of JFloat x \<Rightarrow> Some x | _ \<Rightarrow> None)"

definition jscores :: "json \<Rightarrow> (string, pyfloat) dict" where
  "jscores j = (case j of JDict d \<Rightarrow> List.map_filter (\<lambda>(k, v). map_option (Pair k) (jfloat v)) d | _ \<Rightarrow> [])"

definition read_bet :: "row \<Rightarrow> bet_record option" where
  "read_bet r =
     (case (jstr (jget r ''bet_id''), jstr (jget r ''ts''), jstr (jget r ''market_id''),
            jfloat (jget r ''price''), jfloat (jget r ''size_usd''), jstr (jget r ''expected_settle_ts'')) of
        (Some i, Some t, Some m, Some p, Some z, Some x) \<Rightarrow>
          Some \<lparr>bet_id = i, bet_ts = t, bet_market_id = m,
            bet_side = (if jget r ''side'' = JStr ''YES'' then YES else NO), bet_price = p, bet_size_usd = z,
            expected_settle_ts = x,
            bet_status = (if jget r ''status'' = JStr ''open'' then Open else Settled),
            signal_scores = jscores (jget r ''signal_scores''),
            storm_at_bet = jfloat (jget r ''storm_at_bet''), edge_at_bet = jfloat (jget r ''edge_at_bet''),
            min_edge_at_bet = jfloat (jget r ''min_edge_at_bet''), gamma_at_bet = jfloat (jget r ''gamma_at_bet''),
            eff_min_edge_at_bet = jfloat (jget r ''eff_min_edge_at_bet''),
            fill_price = jfloat (jget r ''fill_price''), fee_bps = jfloat (jget r ''fee_bps''),
            spread_paid_usd = jfloat (jget r ''spread_paid_usd''),
            bet_liquidity_cap_usd = jfloat (jget r ''liquidity_cap_usd'')\<rparr>
      | _ \<Rightarrow> None)"

definition bet_of_row :: "bool \<Rightarrow> row \<Rightarrow> bet_record option" where
  "bet_of_row nv r = (case read_bet r of None \<Rightarrow> None | Some b \<Rightarrow> if bet_fields_ok nv b then Some b else None)"

lemma jget_filter:
  "(\<And>v. dget d k = Some v \<Longrightarrow> \<not> P (k, v) \<Longrightarrow> v = JNull) \<Longrightarrow> distinct (map fst d) \<Longrightarrow>
   jget (filter P d) k = jget d k"
proof (induction d)
  case (Cons kv d)
  obtain k' v' where kv: "kv = (k', v')" by (cases kv)
  have absent: "dget (filter P d) k' = None" if "k' \<notin> fst ` set d" for k'
    using that by (auto simp: map_of_eq_None_iff)
  show ?case
  proof (cases "k = k'")
    case True
    then have "k \<notin> fst ` set d" using Cons.prems(2) kv by auto
    then show ?thesis using Cons.prems(1) [of v'] absent [of k] kv True by (auto simp: jget_def)
  next
    case False
    then have "jget (filter P d) k = jget d k"
      using Cons kv by auto
    then show ?thesis using kv False by (auto simp: jget_def)
  qed
qed (simp add: jget_def)

lemma bet_dump_distinct: "distinct (map fst (bet_dump b))"
  by (simp add: bet_dump_def)

lemma jget_jsonl [simp]: "jget (bet_record_jsonl_dict b) k = jget (bet_dump b) k"
  unfolding bet_record_jsonl_dict_def by (rule jget_filter) (auto simp: bet_dump_distinct)

lemma jscores_dump [simp]: "jscores (JDict (map (\<lambda>(k, v). (k, JFloat v)) d)) = d"
  by (induction d) (auto simp: jscores_def List.map_filter_simps jfloat_def)

lemma jfloat_opt_json [simp]: "jfloat (opt_json x) = x"
  by (cases x) (simp_all add: jfloat_def opt_json_def)

lemma bet_dump_get [simp]:
  "jget (bet_dump b) ''bet_id'' = JStr (bet_id b)"
  "jget (bet_dump b) ''status'' = JStr (case bet_status b of Open \<Rightarrow> ''open'' | Settled \<Rightarrow> ''settled'')"
  "jget (bet_dump b) ''expected_settle_ts'' = JStr (expected_settle_ts b)"
  by (simp_all add: jget_def bet_dump_def)

lemma read_bet_written: "read_bet (bet_record_jsonl_dict b) = Some b"
  unfolding read_bet_def jget_jsonl
  by (cases b; cases "bet_side b"; cases "bet_status b")
     (simp_all add: bet_dump_def jget_def jstr_def jfloat_def [of "JFloat _"])

lemma read_bet_id: "read_bet r = Some b \<Longrightarrow> jget r ''bet_id'' = JStr (bet_id b)"
  by (auto simp: read_bet_def jstr_def split: option.splits json.splits)

interpretation strict_reader: bet_reader nv "bet_of_row nv" for nv
proof
  fix b r
  show "bet_fields_ok nv b \<Longrightarrow> bet_of_row nv (bet_record_jsonl_dict b) = Some b"
    by (simp add: bet_of_row_def read_bet_written)
  show "bet_of_row nv r = Some b \<Longrightarrow> jget r ''bet_id'' = JStr (bet_id b)"
    using read_bet_id by (auto simp: bet_of_row_def split: option.splits if_splits)
  show "bet_of_row nv r = Some b \<Longrightarrow> bet_fields_ok nv b"
    by (auto simp: bet_of_row_def split: option.splits if_splits)
qed

definition base_dump :: "bet_record \<Rightarrow> row" where
  "base_dump b = take 9 (bet_dump b)"

lemma bet_dump_split:
  "bet_dump b = base_dump b @ zip (STORM_STAMP_KEYS @ COST_STAMP_KEYS) (map opt_json
       [storm_at_bet b, edge_at_bet b, min_edge_at_bet b, gamma_at_bet b, eff_min_edge_at_bet b,
        fill_price b, fee_bps b, spread_paid_usd b, bet_liquidity_cap_usd b])"
  by (simp add: base_dump_def bet_dump_def STORM_STAMP_KEYS_def COST_STAMP_KEYS_def)

lemma opt_json_null: "opt_json x = JNull \<longleftrightarrow> x = None"
  by (cases x) (simp_all add: opt_json_def)

lemma filter_stamps:
  "map fst (filter (\<lambda>(k, v). \<not> (k \<in> set ks \<and> v = JNull)) (zip ks (map opt_json xs))) =
   map fst (filter (\<lambda>(k, v). v \<noteq> None) (zip ks xs))"
proof -
  have "set ks' \<subseteq> set ks \<Longrightarrow>
      map fst (filter (\<lambda>(k, v). \<not> (k \<in> set ks \<and> v = JNull)) (zip ks' (map opt_json xs))) =
      map fst (filter (\<lambda>(k, v). v \<noteq> None) (zip ks' xs))" for ks'
    by (induction ks' xs rule: list_induct2') (auto simp: opt_json_null)
  then show ?thesis by blast
qed

text \<open>The on-disk row of a bet loses nothing: it holds the nine base keys in order followed by
  exactly the stamps that are set, reading any key of it gives the field that was dumped (null for an
  omitted stamp), and two bets with the same row are equal.\<close>

theorem bet_row_lossless:
  "map fst (bet_record_jsonl_dict b) =
     [''bet_id'', ''ts'', ''market_id'', ''side'', ''price'', ''size_usd'', ''expected_settle_ts'',
      ''status'', ''signal_scores''] @
     map fst (filter (\<lambda>(k, v). v \<noteq> None) (zip (STORM_STAMP_KEYS @ COST_STAMP_KEYS)
       [storm_at_bet b, edge_at_bet b, min_edge_at_bet b, gamma_at_bet b, eff_min_edge_at_bet b,
        fill_price b, fee_bps b, spread_paid_usd b, bet_liquidity_cap_usd b])) \<and>
   (\<forall>k. jget (bet_record_jsonl_dict b) k = jget (bet_dump b) k) \<and>
   (bet_record_jsonl_dict b = bet_record_jsonl_dict b' \<longrightarrow> b = b')"
proof (intro conjI allI impI)
  show "jget (bet_record_jsonl_dict b) k = jget (bet_dump b) k" for k by simp
  show "bet_record_jsonl_dict b = bet_record_jsonl_dict b' \<Longrightarrow> b = b'"
    by (metis option.inject read_bet_written)
  show "map fst (bet_record_jsonl_dict b) =
     [''bet_id'', ''ts'', ''market_id'', ''side'', ''price'', ''size_usd'', ''expected_settle_ts'',
      ''status'', ''signal_scores''] @
     map fst (filter (\<lambda>(k, v). v \<noteq> None) (zip (STORM_STAMP_KEYS @ COST_STAMP_KEYS)
       [storm_at_bet b, edge_at_bet b, min_edge_at_bet b, gamma_at_bet b, eff_min_edge_at_bet b,
        fill_price b, fee_bps b, spread_paid_usd b, bet_liquidity_cap_usd b]))"
    unfolding bet_record_jsonl_dict_def bet_dump_split filter_append map_append filter_stamps
    by (simp add: base_dump_def bet_dump_def STORM_STAMP_KEYS_def COST_STAMP_KEYS_def)
qed

definition demo_bet :: bet_record where
  "demo_bet = \<lparr>bet_id = ''b1'', bet_ts = ''t'', bet_market_id = ''m1'', bet_side = NO,
     bet_price = Fin (1 / 4), bet_size_usd = Fin 8, expected_settle_ts = ''x'', bet_status = Open,
     signal_scores = [(''head_to_head'', Fin (1 / 2))],
     storm_at_bet = None, edge_at_bet = None, min_edge_at_bet = None, gamma_at_bet = None,
     eff_min_edge_at_bet = None, fill_price = Some (Fin (1 / 4)), fee_bps = Some (Fin 100),
     spread_paid_usd = Some (Fin (1 / 8)), bet_liquidity_cap_usd = Some (Fin 500)\<rparr>"

theorem bet_row_lossless_witness:
  "bet_record_jsonl_dict demo_bet \<noteq> bet_record_jsonl_dict (demo_bet\<lparr>fee_bps := None\<rparr>)"
  using bet_row_lossless [of demo_bet "demo_bet\<lparr>fee_bps := None\<rparr>"] by (auto simp: demo_bet_def)

end
