(* ===== verification/Settlement.thy ===== *)
theory Settlement
  imports Ledger PyText
begin

text \<open>
  The projection of a gamma-api market record to a settlement (\<open>agent/data/polymarket_settlement.py\<close>)
  and its timestamp parser.

  An instant is an integer: microseconds since 0001-01-01T00:00:00 UTC; \<open>datetime\<close> covers the years
  1 to 9999.  \<open>datetime.fromisoformat\<close> is the parameter \<open>isop\<close>: \<open>None\<close> for a text it rejects,
  otherwise the local time and the UTC offset (\<open>None\<close> when naive).  \<open>json.loads\<close> is the parameter
  \<open>loads\<close>, \<open>str\<close> of a JSON value the parameter \<open>str_of\<close>, the HTTP client the parameter \<open>fetch\<close>.
\<close>

section \<open>Timestamps\<close>

type_synonym iso_parser = "string \<Rightarrow> (int \<times> int option) option"

definition DATETIME_LIMIT :: int where "DATETIME_LIMIT = 315537897600000000"

definition in_datetime_range :: "int \<Rightarrow> bool" where
  "in_datetime_range t = (0 \<le> t \<and> t < DATETIME_LIMIT)"

fun replace_Z :: "string \<Rightarrow> string" where
  "replace_Z [] = []"
| "replace_Z (c # s) = (if c = CHR ''Z'' then ''+00:00'' @ replace_Z s else c # replace_Z s)"

fun replace_first_space :: "string \<Rightarrow> string" where
  "replace_first_space [] = []"
| "replace_first_space (c # s) = (if c = CHR '' '' then CHR ''T'' # s else c # replace_first_space s)"

definition ends_with :: "string \<Rightarrow> string \<Rightarrow> bool" where
  "ends_with s suf = (length suf \<le> length s \<and> drop (length s - length suf) s = suf)"

definition normalise_ts :: "string \<Rightarrow> string" where
  "normalise_ts s0 =
     (let s1 = replace_Z s0;
          s2 = (if CHR ''T'' \<notin> set s1 \<and> CHR '' '' \<in> set s1 then replace_first_space s1 else s1)
      in if ends_with s2 ''+00'' then s2 @ '':00'' else s2)"

definition parse_polymarket_ts :: "iso_parser \<Rightarrow> json \<Rightarrow> int option res" where
  "parse_polymarket_ts isop raw =
     (case raw of
        JStr r \<Rightarrow>
          let s = py_strip r in
          if s = [] then Inr None
          else (case isop (normalise_ts s) of
                  None \<Rightarrow> Inr None
                | Some (t, None) \<Rightarrow> Inr (Some t)
                | Some (t, Some off) \<Rightarrow>
                    if in_datetime_range (t - off) then Inr (Some (t - off)) else Inl OverflowError)
      | _ \<Rightarrow> Inr None)"

section \<open>Outcome prices\<close>

definition json_float :: "json \<Rightarrow> pyfloat res" where
  "json_float j = (case j of
     JInt n \<Rightarrow> float_of_int n
   | JFloat x \<Rightarrow> Inr x
   | JBool b \<Rightarrow> Inr (if b then fone else fzero)
   | JStr s \<Rightarrow> py_float s
   | _ \<Rightarrow> Inl TypeError)"

text \<open>The decoding loop: \<open>TypeError\<close> and \<open>ValueError\<close> give the empty list, others propagate.\<close>

fun decode_items :: "json list \<Rightarrow> pyfloat list \<Rightarrow> pyfloat list res" where
  "decode_items [] out = Inr out"
| "decode_items (it # its) out =
     (case json_float it of
        Inr x \<Rightarrow> decode_items its (out @ [x])
      | Inl e \<Rightarrow> if e = TypeError \<or> e = ValueError then Inr [] else Inl e)"

definition decode_json_list :: "(string \<Rightarrow> json option) \<Rightarrow> json \<Rightarrow> pyfloat list res" where
  "decode_json_list loads raw =
     (case raw of
        JList items \<Rightarrow> decode_items items []
      | JStr s \<Rightarrow> (case loads s of Some (JList items) \<Rightarrow> decode_items items [] | _ \<Rightarrow> Inr [])
      | _ \<Rightarrow> Inr [])"

text \<open>
  \<open>_classify_outcome\<close>.  \<open>prices.index(winning_price)\<close> finds the first element identical or equal to
  the maximum; \<open>max\<close> returns the second of two prices exactly when it is greater.
\<close>

definition classify_outcome :: "pyfloat list \<Rightarrow> market_outcome \<times> pyfloat" where
  "classify_outcome prices =
     (case prices of
        [a, b] \<Rightarrow>
          let winning_price = fmax a b in
          if flt winning_price (rnd (99 / 100)) then (Void, winning_price)
          else if flt a b then (No, winning_price) else (Yes, winning_price)
      | [] \<Rightarrow> (Void, fzero)
      | p # ps \<Rightarrow> (Void, fmax_list p ps))"

section \<open>The projection\<close>

record settlement_result =
  sr_market_id :: string
  sr_resolved :: bool
  sr_outcome :: market_outcome
  sr_winning_price :: pyfloat
  sr_resolution_ts :: int
  sr_end_date :: int

definition project ::
  "iso_parser \<Rightarrow> (string \<Rightarrow> json option) \<Rightarrow> (json \<Rightarrow> string) \<Rightarrow> row \<Rightarrow> settlement_result option res" where
  "project isop loads str_of payload =
     (if jget payload ''umaResolutionStatus'' \<noteq> JStr ''resolved'' then Inr None
      else if jget payload ''id'' = JNull then Inl ValueError
      else
        rbind (decode_json_list loads (jget payload ''outcomePrices'')) (\<lambda>prices.
        let (outcome, winning_price) = classify_outcome prices in
        rbind (parse_polymarket_ts isop (jget payload ''closedTime'')) (\<lambda>rts.
        case rts of None \<Rightarrow> Inl ValueError
        | Some resolution_ts \<Rightarrow>
            rbind (parse_polymarket_ts isop (jget payload ''endDate'')) (\<lambda>eds.
            case eds of None \<Rightarrow> Inl ValueError
            | Some end_date \<Rightarrow>
                Inr (Some \<lparr>sr_market_id = str_of (jget payload ''id''), sr_resolved = True,
                  sr_outcome = outcome, sr_winning_price = winning_price,
                  sr_resolution_ts = resolution_ts, sr_end_date = end_date\<rparr>)))))"

definition resolve_market ::
  "iso_parser \<Rightarrow> (string \<Rightarrow> json option) \<Rightarrow> (json \<Rightarrow> string) \<Rightarrow> (string \<Rightarrow> json res) \<Rightarrow> string \<Rightarrow>
   settlement_result option res" where
  "resolve_market isop loads str_of fetch market_id =
     rbind (fetch market_id) (\<lambda>payload.
       case payload of JDict d \<Rightarrow> project isop loads str_of d | _ \<Rightarrow> Inl ValueError)"

section \<open>Properties\<close>

lemma decode_items_length:
  "decode_items its out = Inr xs \<Longrightarrow> xs = [] \<or> length xs = length out + length its"
  by (induction its arbitrary: out) (fastforce split: sum.splits if_splits)+

lemma decode_items_map:
  "list_all2 (\<lambda>j x. json_float j = Inr x) its ys \<Longrightarrow> decode_items its out = Inr (out @ ys)"
  by (induction its arbitrary: out ys) (auto simp: list_all2_Cons1)

lemma price_99: "rnd (99 / 100) = Fin (8917127262193582 / 9007199254740992)"
  by code_simp

text \<open>On numbers, a market is classified \<open>yes\<close> exactly when it has two prices, the first is the
  larger or equal one and reaches 0.99, \<open>no\<close> exactly when the second is strictly larger and reaches
  0.99, and \<open>void\<close> in every other case; the winning price is the largest price.\<close>

theorem classify_outcome_spec:
  assumes "NaN \<notin> set prices"
  shows "(fst (classify_outcome prices) = Yes \<longleftrightarrow>
      (\<exists>a b. prices = [a, b] \<and> fle b a \<and> fle (rnd (99 / 100)) a)) \<and>
    (fst (classify_outcome prices) = No \<longleftrightarrow>
      (\<exists>a b. prices = [a, b] \<and> flt a b \<and> fle (rnd (99 / 100)) b)) \<and>
    (prices \<noteq> [] \<longrightarrow> snd (classify_outcome prices) \<in> set prices \<and>
      (\<forall>p\<in>set prices. fle p (snd (classify_outcome prices))))"
proof -
  have big: "fmax_list p ps \<in> set (p # ps) \<and> (\<forall>q\<in>set (p # ps). fle q (fmax_list p ps))"
    if "NaN \<notin> set (p # ps)" for p ps
    using that
  proof (induction ps arbitrary: p)
    case (Cons q ps)
    have "fmax p q \<noteq> NaN" using Cons.prems by (auto simp: fmax_def)
    then have IH: "fmax_list (fmax p q) ps \<in> set (fmax p q # ps) \<and>
        (\<forall>r\<in>set (fmax p q # ps). fle r (fmax_list (fmax p q) ps))"
      using Cons.prems by (intro Cons.IH) auto
    have "fle p (fmax p q)" "fle q (fmax p q)" "fmax p q \<in> {p, q}"
      using Cons.prems fmax_ge_left [of p q] fmax_ge_right [of p q] by (auto simp: fmax_def)
    then show ?case using IH by (auto simp: fmax_list_def intro: fle_trans)
  qed (simp add: fmax_list_def fle_refl)
  consider a b where "prices = [a, b]" | "prices = []" | p ps where "prices = p # ps" "length ps \<noteq> 1"
    by (cases prices rule: remdups_adj.cases) auto
  then show ?thesis
  proof cases
    case 1
    then have n: "a \<noteq> NaN" "b \<noteq> NaN" using assms by auto
    let ?w = "fmax a b" and ?t = "rnd (99 / 100)"
    have w: "?w \<noteq> NaN" using n(1) by (rule fmax_not_NaN)
    have lt: "flt ?w ?t \<longleftrightarrow> \<not> fle ?t ?w" using w by (simp add: not_fle price_99)
    have ab: "flt a b \<longleftrightarrow> \<not> fle b a" using n by (simp add: not_fle)
    have "?w = (if flt a b then b else a)" by (simp add: fmax_def)
    moreover have "fle a ?w" "fle b ?w" using n by (simp_all add: fmax_ge_left fmax_ge_right)
    ultimately show ?thesis
      unfolding 1 classify_outcome_def Let_def using lt ab by auto
  next
    case 2
    then show ?thesis by (simp add: classify_outcome_def)
  next
    case 3
    then have "classify_outcome prices = (Void, fmax_list p ps)"
      by (cases ps rule: remdups_adj.cases) (auto simp: classify_outcome_def fmax_list_def)
    then show ?thesis using 3 big [of p ps] assms by auto
  qed
qed

theorem classify_outcome_spec_witness:
  "fst (classify_outcome [fzero, fone]) = No"
  using classify_outcome_spec [of "[fzero, fone]"] price_99 by simp

lemma json_float_errors: "json_float j = Inl e \<Longrightarrow> e \<in> {TypeError, ValueError, OverflowError}"
  by (auto simp: json_float_def float_of_int_def dest: py_float_error split: json.splits pyfloat.splits if_splits)

lemma decode_items_errors: "decode_items its out = Inl e \<Longrightarrow> e = OverflowError"
proof (induction its arbitrary: out)
  case (Cons it its)
  then show ?case using json_float_errors [of it] by (auto split: sum.splits if_splits)
qed simp

lemma decode_json_list_errors: "decode_json_list loads raw = Inl e \<Longrightarrow> e = OverflowError"
  by (auto simp: decode_json_list_def dest: decode_items_errors split: json.splits option.splits)

lemma parse_ts_errors: "parse_polymarket_ts isop raw = Inl e \<Longrightarrow> e = OverflowError"
  by (auto simp: parse_polymarket_ts_def Let_def split: json.splits option.splits if_splits prod.splits)

lemma decode_json_list_prices: "decode_json_list loads (JStr s) = Inr ps \<Longrightarrow> loads s = Some (JList its) \<Longrightarrow>
    ps = [] \<or> length ps = length its"
  by (auto simp: decode_json_list_def dest: decode_items_length)

text \<open>A record is projected to nothing exactly when it is not resolved, whatever else it contains; a
  resolved record that cannot be projected raises \<open>ValueError\<close>, or \<open>OverflowError\<close> out of an instant or a
  number beyond the range of its type, never anything else; and a projected one carries the
  classification of its decoded prices and its two parsed timestamps.\<close>

theorem project_spec:
  "(project isop loads str_of d = Inr None \<longleftrightarrow> jget d ''umaResolutionStatus'' \<noteq> JStr ''resolved'') \<and>
   (\<forall>e. project isop loads str_of d = Inl e \<longrightarrow> e \<in> {ValueError, OverflowError}) \<and>
   (\<forall>r. project isop loads str_of d = Inr (Some r) \<longrightarrow>
      sr_resolved r \<and> sr_market_id r = str_of (jget d ''id'') \<and> jget d ''id'' \<noteq> JNull \<and>
      (\<exists>ps. decode_json_list loads (jget d ''outcomePrices'') = Inr ps \<and>
            (sr_outcome r, sr_winning_price r) = classify_outcome ps) \<and>
      parse_polymarket_ts isop (jget d ''closedTime'') = Inr (Some (sr_resolution_ts r)) \<and>
      parse_polymarket_ts isop (jget d ''endDate'') = Inr (Some (sr_end_date r)))"
proof -
  let ?dl = "decode_json_list loads (jget d ''outcomePrices'')"
  let ?ct = "parse_polymarket_ts isop (jget d ''closedTime'')"
  let ?ed = "parse_polymarket_ts isop (jget d ''endDate'')"
  show ?thesis
    using decode_json_list_errors [of loads "jget d ''outcomePrices''"]
      parse_ts_errors [of isop "jget d ''closedTime''"] parse_ts_errors [of isop "jget d ''endDate''"]
    by (cases ?dl; cases ?ct; cases ?ed) (auto simp: project_def split_beta Let_def split: option.splits)
qed

theorem project_spec_witness:
  "project (\<lambda>_. Some (0, None)) (\<lambda>_. None) (\<lambda>_. ''7'')
     [(''umaResolutionStatus'', JStr ''proposed''), (''id'', JNull)] = Inr None"
  using project_spec [of "\<lambda>_. Some (0, None)" "\<lambda>_. None" "\<lambda>_. ''7''"
      "[(''umaResolutionStatus'', JStr ''proposed''), (''id'', JNull)]"]
  by (simp add: jget_def)

text \<open>A NaN first price makes the market resolve \<open>yes\<close> whatever the second price is: \<open>max\<close> keeps its
  first argument, the threshold comparison with NaN is false, and the index of the identical element
  is zero.  Such prices are reachable: the decoder accepts the text \<open>nan\<close>.\<close>

theorem nan_price_resolves_yes:
  "classify_outcome [NaN, p] = (Yes, NaN) \<and>
   decode_json_list loads (JList [JStr ''nan'', JStr ''1'']) = Inr [NaN, fone]"
proof
  show "classify_outcome [NaN, p] = (Yes, NaN)"
    by (simp add: classify_outcome_def fmax_def)
  have "py_float ''nan'' = Inr NaN" "py_float ''1'' = Inr fone" by code_simp+
  then show "decode_json_list loads (JList [JStr ''nan'', JStr ''1'']) = Inr [NaN, fone]"
    by (simp add: decode_json_list_def json_float_def)
qed

end
