(* ===== verification/Poller.thy ===== *)
theory Poller
  imports Settlement
begin

text \<open>
  The settlement poller (\<open>agent/runtime/sandbox_settlement_poller.py\<close>): selection of due and open
  bets from the append-only stream, the two retry loops, the PnL formulas, the four ordered effects
  of a settlement, the per-tick poll and the terminal close at death.

  What lies outside (the gamma client, the weight updater, the chain adapter, Pydantic's reader, ISO
  parsing and printing) is a record \<open>poll_env\<close> of functions.  The client and the updater may answer
  differently at each call: they get the number of the call.  The chain has a state of its own type.
  What the poller changes is the record \<open>poll_world\<close>: the ledger files, the hook events, the sleeps
  requested, the calls made and the chain state.  A method that can raise returns the result
  together with the world, since the effects before an exception remain.
\<close>

section \<open>State\<close>

datatype hook =
    LagCritical string string pyfloat string
  | LagWarning string string pyfloat string
  | QueryFailed string int exc
  | ChainFailed string string pyfloat int exc

record 'c poll_world =
  pw_ledger :: ledger
  pw_hooks :: "hook list"
  pw_sleeps :: "pyfloat list"
  pw_queries :: nat
  pw_weight_calls :: "((string, pyfloat) dict \<times> settlement_result) list"
  pw_chain_calls :: "pyfloat list"
  pw_chain :: 'c

record 'c poll_env =
  pe_nv :: bool
  pe_iso :: iso_parser
  pe_isoformat :: "int \<Rightarrow> string"
  pe_validate :: "row \<Rightarrow> bet_record option"
  pe_resolve :: "nat \<Rightarrow> string \<Rightarrow> settlement_result option res"
  pe_weight :: "nat \<Rightarrow> (string, pyfloat) dict \<Rightarrow> settlement_result \<Rightarrow> exc option"
  pe_chain :: "pyfloat \<Rightarrow> 'c \<Rightarrow> exc option \<times> 'c"

record poll_config =
  max_bet_pnl_usd :: "pyfloat option"
  side_correct_pricing :: bool
  require_cost_fields :: bool

record settlement_outcome =
  so_bet_id :: string
  so_market_id :: string
  so_outcome :: market_outcome
  so_pnl_usd :: pyfloat
  so_lag_hours :: pyfloat
  so_chain_breath_updated :: bool

record poll_tick_result =
  queried_count :: nat
  settled_count :: nat
  pending_count :: nat
  failed_count :: nat
  settlements :: "settlement_outcome list"

datatype disposition = PENDING | FAILED | Done settlement_outcome

section \<open>Constants\<close>

definition hours :: "int \<Rightarrow> int" where "hours n = n * 3600000000"
definition LAG_WARNING :: int where "LAG_WARNING = hours 6"
definition LAG_CRITICAL :: int where "LAG_CRITICAL = hours 24"
definition GAMMA_RETRY_DELAYS :: "pyfloat list" where
  "GAMMA_RETRY_DELAYS = [Fin 1, Fin 2, Fin 4, Fin 8]"
definition CHAIN_RETRY_DELAYS :: "pyfloat list" where
  "CHAIN_RETRY_DELAYS = [Fin 2, Fin 4, Fin 8]"

section \<open>Selection\<close>

definition fold_latest_rows :: "json option list \<Rightarrow> (string, row) dict" where
  "fold_latest_rows ls = fold_dict (List.map_filter
     (\<lambda>r. case jget r ''bet_id'' of JStr i \<Rightarrow> Some (i, r) | _ \<Rightarrow> None) (iter_jsonl ls))"

fun due_rows :: "'c poll_env \<Rightarrow> int \<Rightarrow> row list \<Rightarrow> bet_record list res" where
  "due_rows env now [] = Inr []"
| "due_rows env now (r # rs) =
     (if jget r ''status'' \<noteq> JStr ''open'' then due_rows env now rs
      else (case jget r ''expected_settle_ts'' of
          JStr x \<Rightarrow>
            rbind (parse_polymarket_ts (pe_iso env) (JStr x)) (\<lambda>t.
              case t of None \<Rightarrow> due_rows env now rs
              | Some expected_ts \<Rightarrow>
                  if now \<le> expected_ts then due_rows env now rs
                  else (case pe_validate env r of
                          None \<Rightarrow> due_rows env now rs
                        | Some b \<Rightarrow> rbind (due_rows env now rs) (\<lambda>bs. Inr (b # bs))))
        | _ \<Rightarrow> due_rows env now rs))"

definition select_due_bets :: "'c poll_env \<Rightarrow> int \<Rightarrow> ledger \<Rightarrow> bet_record list res" where
  "select_due_bets env now l = due_rows env now (map snd (fold_latest_rows (open_bets l)))"

definition select_open_bets :: "'c poll_env \<Rightarrow> ledger \<Rightarrow> bet_record list" where
  "select_open_bets env l =
     List.map_filter (\<lambda>(i, r). if jget r ''status'' \<noteq> JStr ''open'' then None else pe_validate env r)
       (fold_latest_rows (open_bets l))"

section \<open>Profit and loss\<close>

definition compute_pnl ::
  "bet_record \<Rightarrow> settlement_result \<Rightarrow> pyfloat option \<Rightarrow> bool \<Rightarrow> pyfloat res" where
  "compute_pnl b r max_pnl side_correct =
     (let cost = execution_cost_usd b;
          entry = (case fill_price b of Some f \<Rightarrow> f | None \<Rightarrow> bet_price b)
      in if sr_outcome r = Void then Inr (fneg cost)
         else
           let side_is_yes = (bet_side b = YES);
               is_winner = (side_is_yes = (sr_outcome r = Yes))
           in if \<not> is_winner then Inr (fsub (fneg (bet_size_usd b)) cost)
              else
                let eff = (if side_is_yes \<or> \<not> side_correct then entry else fsub fone entry)
                in rbind (if fle eff fzero then Inr (fmul (bet_size_usd b) (sr_winning_price r))
                          else rbind (py_div (sr_winning_price r) eff)
                                 (\<lambda>q. Inr (fmul (bet_size_usd b) (fsub q fone))))
                     (\<lambda>pnl. case max_pnl of
                        Some m \<Rightarrow> if flt m pnl then Inr (fsub m cost) else Inr (fsub pnl cost)
                      | None \<Rightarrow> Inr (fsub pnl cost)))"

section \<open>Lag alerts\<close>

definition lag_hours_of :: "int \<Rightarrow> pyfloat" where
  "lag_hours_of lag = fdiv (rnd (of_int lag / 1000000)) (Fin 3600)"

definition emit_lag_alert ::
  "'c poll_env \<Rightarrow> bet_record \<Rightarrow> int \<Rightarrow> 'c poll_world \<Rightarrow> unit res \<times> 'c poll_world" where
  "emit_lag_alert env b now w =
     (case parse_polymarket_ts (pe_iso env) (JStr (expected_settle_ts b)) of
        Inl e \<Rightarrow> (Inl e, w)
      | Inr None \<Rightarrow> (Inr (), w)
      | Inr (Some expected_ts) \<Rightarrow>
          let lag = now - expected_ts in
          if LAG_CRITICAL \<le> lag then
            (Inr (), w\<lparr>pw_hooks := pw_hooks w @
               [LagCritical (bet_id b) (bet_market_id b) (lag_hours_of lag) (expected_settle_ts b)]\<rparr>)
          else if LAG_WARNING \<le> lag then
            (Inr (), w\<lparr>pw_hooks := pw_hooks w @
               [LagWarning (bet_id b) (bet_market_id b) (lag_hours_of lag) (expected_settle_ts b)]\<rparr>)
          else (Inr (), w))"

section \<open>Retry loops\<close>

datatype fetched = Answer "settlement_result option" | Exhausted

text \<open>The list argument is the part of the delays not yet used; each call is one attempt.\<close>

definition query :: "'c poll_env \<Rightarrow> string \<Rightarrow> 'c poll_world \<Rightarrow> settlement_result option res \<times> 'c poll_world" where
  "query env m w = (pe_resolve env (pw_queries w) m, w\<lparr>pw_queries := Suc (pw_queries w)\<rparr>)"

fun fetch_with_retry ::
  "'c poll_env \<Rightarrow> pyfloat list \<Rightarrow> string \<Rightarrow> 'c poll_world \<Rightarrow> fetched \<times> 'c poll_world" where
  "fetch_with_retry env [] m w =
     (case query env m w of
        (Inr r, w1) \<Rightarrow> (Answer r, w1)
      | (Inl e, w1) \<Rightarrow>
          (Exhausted, w1\<lparr>pw_hooks := pw_hooks w1 @ [QueryFailed m (1 + int (length GAMMA_RETRY_DELAYS)) e]\<rparr>))"
| "fetch_with_retry env (d # ds) m w =
     (case query env m w of
        (Inr r, w1) \<Rightarrow> (Answer r, w1)
      | (Inl e, w1) \<Rightarrow> fetch_with_retry env ds m (w1\<lparr>pw_sleeps := pw_sleeps w1 @ [d]\<rparr>))"

definition push_pnl :: "'c poll_env \<Rightarrow> pyfloat \<Rightarrow> 'c poll_world \<Rightarrow> exc option \<times> 'c poll_world" where
  "push_pnl env pnl w =
     (case pe_chain env pnl (pw_chain w) of
        (x, c) \<Rightarrow> (x, w\<lparr>pw_chain := c, pw_chain_calls := pw_chain_calls w @ [pnl]\<rparr>))"

fun update_chain_with_retry ::
  "'c poll_env \<Rightarrow> pyfloat list \<Rightarrow> string \<Rightarrow> string \<Rightarrow> pyfloat \<Rightarrow> 'c poll_world \<Rightarrow> bool \<times> 'c poll_world" where
  "update_chain_with_retry env [] i m pnl w =
     (case push_pnl env pnl w of
        (None, w1) \<Rightarrow> (True, w1)
      | (Some e, w1) \<Rightarrow>
          (False, w1\<lparr>pw_hooks := pw_hooks w1 @ [ChainFailed i m pnl (1 + int (length CHAIN_RETRY_DELAYS)) e]\<rparr>))"
| "update_chain_with_retry env (d # ds) i m pnl w =
     (case push_pnl env pnl w of
        (None, w1) \<Rightarrow> (True, w1)
      | (Some e, w1) \<Rightarrow> update_chain_with_retry env ds i m pnl (w1\<lparr>pw_sleeps := pw_sleeps w1 @ [d]\<rparr>))"

section \<open>Settling one bet\<close>

definition settled_copy :: "string \<Rightarrow> bet_record \<Rightarrow> bet_record" where
  "settled_copy ts b = b\<lparr>bet_ts := ts, bet_status := Settled\<rparr>"

definition feedback_signals :: "pyfloat \<Rightarrow> bet_record \<Rightarrow> (string, pyfloat) dict" where
  "feedback_signals pnl b =
     (let d0 = [(''pnl_usd'', pnl), (''size_usd'', bet_size_usd b)];
          d1 = dset ''bet_direction'' (if bet_side b = YES then fone else Fin (- 1)) d0;
          d2 = foldl (\<lambda>d (e, s). dset (''score_'' @ e) s d) d1 (signal_scores b)
      in foldl (\<lambda>d (k, v). case v of None \<Rightarrow> d | Some x \<Rightarrow> dset k x d) d2
           (zip STORM_STAMP_KEYS [storm_at_bet b, edge_at_bet b, min_edge_at_bet b, gamma_at_bet b,
              eff_min_edge_at_bet b]))"

text \<open>Steps 1 and 2, shared with the terminal void: the settled row, then the status-flip row.\<close>

definition write_settled ::
  "'c poll_env \<Rightarrow> settled_bet_record \<Rightarrow> bet_record \<Rightarrow> 'c poll_world \<Rightarrow> unit res \<times> 'c poll_world" where
  "write_settled env s b w =
     (case mk_settled_bet (pe_nv env) s of
        Inl e \<Rightarrow> (Inl e, w)
      | Inr s' \<Rightarrow>
          let w1 = w\<lparr>pw_ledger := append_settled_bet s' (pw_ledger w)\<rparr> in
          (case mk_bet_record (pe_nv env) (settled_copy (settled_ts s) b) of
             Inl e \<Rightarrow> (Inl e, w1)
           | Inr b' \<Rightarrow> (Inr (), w1\<lparr>pw_ledger := append_open_bet b' (pw_ledger w1)\<rparr>)))"

text \<open>Steps 3 and 4: the weight updater, then the chain.\<close>

definition feed_back ::
  "'c poll_env \<Rightarrow> bet_record \<Rightarrow> settlement_result \<Rightarrow> pyfloat \<Rightarrow> pyfloat \<Rightarrow> 'c poll_world \<Rightarrow>
   disposition res \<times> 'c poll_world" where
  "feed_back env b r pnl lag w =
     (let sigs = feedback_signals pnl b;
          w1 = w\<lparr>pw_weight_calls := pw_weight_calls w @ [(sigs, r)]\<rparr>
      in case pe_weight env (length (pw_weight_calls w)) sigs r of
           Some e \<Rightarrow> (Inl e, w1)
         | None \<Rightarrow>
             (case update_chain_with_retry env CHAIN_RETRY_DELAYS (bet_id b) (bet_market_id b) pnl w1 of
                (ok, w2) \<Rightarrow>
                  (Inr (Done \<lparr>so_bet_id = bet_id b, so_market_id = bet_market_id b,
                     so_outcome = sr_outcome r, so_pnl_usd = pnl, so_lag_hours = lag,
                     so_chain_breath_updated = ok\<rparr>), w2)))"

definition book ::
  "'c poll_env \<Rightarrow> poll_config \<Rightarrow> bet_record \<Rightarrow> int \<Rightarrow> settlement_result \<Rightarrow> 'c poll_world \<Rightarrow>
   disposition res \<times> 'c poll_world" where
  "book env cfg b now r w =
     (case (if require_cost_fields cfg then assert_cost_fields_present b else Inr ()) of
        Inl e \<Rightarrow> (Inl e, w)
      | Inr _ \<Rightarrow>
        (case compute_pnl b r (max_bet_pnl_usd cfg) (side_correct_pricing cfg) of
           Inl e \<Rightarrow> (Inl e, w)
         | Inr pnl \<Rightarrow>
           (case parse_polymarket_ts (pe_iso env) (JStr (expected_settle_ts b)) of
              Inl e \<Rightarrow> (Inl e, w)
            | Inr expected_ts \<Rightarrow>
                let lag = (case expected_ts of None \<Rightarrow> fzero | Some t \<Rightarrow> lag_hours_of (now - t));
                    s = \<lparr>s_bet_id = bet_id b, s_market_id = bet_market_id b,
                         settled_ts = pe_isoformat env (sr_resolution_ts r), s_outcome = sr_outcome r,
                         s_winning_price = sr_winning_price r, s_pnl_usd = pnl, s_reason = None\<rparr>
                in (case write_settled env s b w of
                      (Inl e, w1) \<Rightarrow> (Inl e, w1)
                    | (Inr _, w1) \<Rightarrow> feed_back env b r pnl lag w1))))"

definition resolve_and_settle ::
  "'c poll_env \<Rightarrow> poll_config \<Rightarrow> bet_record \<Rightarrow> int \<Rightarrow> 'c poll_world \<Rightarrow> disposition res \<times> 'c poll_world" where
  "resolve_and_settle env cfg b now w =
     (case emit_lag_alert env b now w of
        (Inl e, w1) \<Rightarrow> (Inl e, w1)
      | (Inr _, w1) \<Rightarrow>
        (case fetch_with_retry env GAMMA_RETRY_DELAYS (bet_market_id b) w1 of
           (Exhausted, w2) \<Rightarrow> (Inr FAILED, w2)
         | (Answer None, w2) \<Rightarrow> (Inr PENDING, w2)
         | (Answer (Some r), w2) \<Rightarrow> book env cfg b now r w2))"

section \<open>The poll and the terminal close\<close>

definition void_terminal ::
  "'c poll_env \<Rightarrow> bet_record \<Rightarrow> int \<Rightarrow> string option \<Rightarrow> 'c poll_world \<Rightarrow> unit res \<times> 'c poll_world" where
  "void_terminal env b now reason w =
     write_settled env \<lparr>s_bet_id = bet_id b, s_market_id = bet_market_id b,
       settled_ts = pe_isoformat env now, s_outcome = Void, s_winning_price = fzero,
       s_pnl_usd = fzero, s_reason = reason\<rparr> b w"

definition count :: "disposition \<Rightarrow> poll_tick_result \<Rightarrow> poll_tick_result" where
  "count d p =
     (case d of
        PENDING \<Rightarrow> p\<lparr>pending_count := Suc (pending_count p)\<rparr>
      | FAILED \<Rightarrow> p\<lparr>failed_count := Suc (failed_count p)\<rparr>
      | Done s \<Rightarrow> p\<lparr>settlements := settlements p @ [s], settled_count := Suc (settled_count p)\<rparr>)"

fun tick_loop ::
  "'c poll_env \<Rightarrow> poll_config \<Rightarrow> int \<Rightarrow> bet_record list \<Rightarrow> poll_tick_result \<Rightarrow> 'c poll_world \<Rightarrow>
   poll_tick_result res \<times> 'c poll_world" where
  "tick_loop env cfg now [] p w = (Inr p, w)"
| "tick_loop env cfg now (b # bs) p w =
     (case resolve_and_settle env cfg b now w of
        (Inl e, w1) \<Rightarrow> (Inl e, w1)
      | (Inr d, w1) \<Rightarrow> tick_loop env cfg now bs (count d p) w1)"

definition no_polls :: "nat \<Rightarrow> poll_tick_result" where
  "no_polls n = \<lparr>queried_count = n, settled_count = 0, pending_count = 0, failed_count = 0, settlements = []\<rparr>"

definition poller_tick ::
  "'c poll_env \<Rightarrow> poll_config \<Rightarrow> int \<Rightarrow> 'c poll_world \<Rightarrow> poll_tick_result res \<times> 'c poll_world" where
  "poller_tick env cfg now w =
     (case select_due_bets env now (pw_ledger w) of
        Inl e \<Rightarrow> (Inl e, w)
      | Inr due \<Rightarrow> tick_loop env cfg now due (no_polls (length due)) w)"

fun close_loop ::
  "'c poll_env \<Rightarrow> poll_config \<Rightarrow> int \<Rightarrow> bet_record list \<Rightarrow> poll_tick_result \<Rightarrow> 'c poll_world \<Rightarrow>
   poll_tick_result res \<times> 'c poll_world" where
  "close_loop env cfg now [] p w = (Inr p, w)"
| "close_loop env cfg now (b # bs) p w =
     (case resolve_and_settle env cfg b now w of
        (Inl e, w1) \<Rightarrow> (Inl e, w1)
      | (Inr d, w1) \<Rightarrow>
          (case (case d of
                   PENDING \<Rightarrow> void_terminal env b now None w1
                 | FAILED \<Rightarrow> void_terminal env b now (Some ''terminal_query_failed'') w1
                 | Done _ \<Rightarrow> (Inr (), w1)) of
             (Inl e, w2) \<Rightarrow> (Inl e, w2)
           | (Inr _, w2) \<Rightarrow> close_loop env cfg now bs (count d p) w2))"

definition terminal_close ::
  "'c poll_env \<Rightarrow> poll_config \<Rightarrow> int \<Rightarrow> 'c poll_world \<Rightarrow> poll_tick_result res \<times> 'c poll_world" where
  "terminal_close env cfg now w =
     (let bs = select_open_bets env (pw_ledger w)
      in close_loop env cfg now bs (no_polls (length bs)) w)"

section \<open>Retries\<close>

lemma fetch_with_retry_spec:
  "fetch_with_retry env ds m w = (res, w') \<Longrightarrow>
   \<exists>k\<le>length ds. pw_queries w' = pw_queries w + Suc k \<and> pw_sleeps w' = pw_sleeps w @ take k ds \<and>
     (\<forall>j<k. \<exists>e. pe_resolve env (pw_queries w + j) m = Inl e) \<and>
     (case res of
        Answer r \<Rightarrow> pe_resolve env (pw_queries w + k) m = Inr r \<and> pw_hooks w' = pw_hooks w
      | Exhausted \<Rightarrow> k = length ds \<and> (\<exists>e. pe_resolve env (pw_queries w + k) m = Inl e \<and>
            pw_hooks w' = pw_hooks w @ [QueryFailed m 5 e]))"
proof (induction ds arbitrary: w)
  case Nil
  then show ?case
    by (auto simp: query_def GAMMA_RETRY_DELAYS_def split: sum.splits)
next
  case (Cons d ds)
  show ?case
  proof (cases "pe_resolve env (pw_queries w) m")
    case (Inr r)
    then show ?thesis using Cons.prems by (intro exI [of _ 0]) (auto simp: query_def)
  next
    case (Inl e)
    let ?w = "w\<lparr>pw_queries := Suc (pw_queries w), pw_sleeps := pw_sleeps w @ [d]\<rparr>"
    have "fetch_with_retry env ds m ?w = (res, w')" using Cons.prems Inl by (simp add: query_def)
    from Cons.IH [OF this] obtain k where k: "k \<le> length ds" "pw_queries w' = pw_queries w + Suc (Suc k)"
      "pw_sleeps w' = pw_sleeps w @ d # take k ds"
      "\<forall>j<k. \<exists>e. pe_resolve env (Suc (pw_queries w) + j) m = Inl e"
      "case res of Answer r \<Rightarrow> pe_resolve env (Suc (pw_queries w) + k) m = Inr r \<and> pw_hooks w' = pw_hooks w
       | Exhausted \<Rightarrow> k = length ds \<and> (\<exists>e. pe_resolve env (Suc (pw_queries w) + k) m = Inl e \<and>
            pw_hooks w' = pw_hooks w @ [QueryFailed m 5 e])"
      by (auto cong: fetched.case_cong)
    have "\<forall>j<Suc k. \<exists>e. pe_resolve env (pw_queries w + j) m = Inl e"
      using k(4) Inl by (auto simp: less_Suc_eq_0_disj)
    then show ?thesis using k by (intro exI [of _ "Suc k"]) (auto split: fetched.splits)
  qed
qed

lemma update_chain_with_retry_spec:
  "update_chain_with_retry env ds i m pnl w = (ok, w') \<Longrightarrow>
   \<exists>k\<le>length ds. pw_chain_calls w' = pw_chain_calls w @ replicate (Suc k) pnl \<and>
     pw_sleeps w' = pw_sleeps w @ take k ds \<and> (\<not> ok \<longrightarrow> k = length ds) \<and>
     (if ok then pw_hooks w' = pw_hooks w
      else \<exists>e. pw_hooks w' = pw_hooks w @ [ChainFailed i m pnl 4 e])"
proof (induction ds arbitrary: w)
  case Nil
  then show ?case
    by (auto simp: push_pnl_def CHAIN_RETRY_DELAYS_def split: prod.splits option.splits)
next
  case (Cons d ds)
  obtain x c where c: "pe_chain env pnl (pw_chain w) = (x, c)" by (cases "pe_chain env pnl (pw_chain w)")
  show ?case
  proof (cases x)
    case None
    then show ?thesis using Cons.prems c by (intro exI [of _ 0]) (auto simp: push_pnl_def)
  next
    case (Some e)
    let ?w = "w\<lparr>pw_chain := c, pw_chain_calls := pw_chain_calls w @ [pnl], pw_sleeps := pw_sleeps w @ [d]\<rparr>"
    have "update_chain_with_retry env ds i m pnl ?w = (ok, w')" using Cons.prems c Some by (simp add: push_pnl_def)
    from Cons.IH [OF this] obtain k where "k \<le> length ds"
      "pw_chain_calls w' = pw_chain_calls w @ pnl # replicate (Suc k) pnl"
      "pw_sleeps w' = pw_sleeps w @ d # take k ds" "\<not> ok \<longrightarrow> k = length ds"
      "if ok then pw_hooks w' = pw_hooks w else \<exists>e. pw_hooks w' = pw_hooks w @ [ChainFailed i m pnl 4 e]"
      by (auto cong: if_cong)
    then show ?thesis by (intro exI [of _ "Suc k"]) auto
  qed
qed

text \<open>What a retry loop leaves alone.\<close>

lemma fetch_frame [simp]:
  "pw_ledger (snd (fetch_with_retry env ds m w)) = pw_ledger w"
  "pw_chain (snd (fetch_with_retry env ds m w)) = pw_chain w"
  "pw_chain_calls (snd (fetch_with_retry env ds m w)) = pw_chain_calls w"
  "pw_weight_calls (snd (fetch_with_retry env ds m w)) = pw_weight_calls w"
  by (induction ds arbitrary: w; simp add: query_def split: sum.split)+

lemma update_chain_frame [simp]:
  "pw_ledger (snd (update_chain_with_retry env ds i m pnl w)) = pw_ledger w"
  "pw_queries (snd (update_chain_with_retry env ds i m pnl w)) = pw_queries w"
  "pw_weight_calls (snd (update_chain_with_retry env ds i m pnl w)) = pw_weight_calls w"
  by (induction ds arbitrary: w; simp add: push_pnl_def split: prod.split option.split)+

lemma emit_lag_frame [simp]:
  "pw_ledger (snd (emit_lag_alert env b now w)) = pw_ledger w"
  "pw_queries (snd (emit_lag_alert env b now w)) = pw_queries w"
  "pw_chain (snd (emit_lag_alert env b now w)) = pw_chain w"
  "pw_chain_calls (snd (emit_lag_alert env b now w)) = pw_chain_calls w"
  "pw_weight_calls (snd (emit_lag_alert env b now w)) = pw_weight_calls w"
  by (auto simp: emit_lag_alert_def Let_def split: sum.split option.split)

text \<open>A query makes at most five attempts, sleeping 1, 2, 4, 8 seconds in that order between them; it
  gives up only when all five raised, and then exactly one failure event is emitted; the first answer,
  pending or resolved, ends it.  A chain update makes at most four attempts, all with the same amount,
  sleeping 2, 4, 8 seconds, and reports failure only after the fourth.\<close>

theorem retries_bounded:
  "(\<forall>res w'. fetch_with_retry env GAMMA_RETRY_DELAYS m w = (res, w') \<longrightarrow>
      (\<exists>k\<le>4. pw_queries w' = pw_queries w + Suc k \<and>
        pw_sleeps w' = pw_sleeps w @ take k [Fin 1, Fin 2, Fin 4, Fin 8] \<and>
        (\<forall>j<k. \<exists>e. pe_resolve env (pw_queries w + j) m = Inl e) \<and>
        (case res of Answer r \<Rightarrow> pe_resolve env (pw_queries w + k) m = Inr r \<and> pw_hooks w' = pw_hooks w
         | Exhausted \<Rightarrow> k = 4 \<and> (\<exists>e. pe_resolve env (pw_queries w + k) m = Inl e \<and>
             pw_hooks w' = pw_hooks w @ [QueryFailed m 5 e])))) \<and>
   (\<forall>ok w'. update_chain_with_retry env CHAIN_RETRY_DELAYS i m pnl w = (ok, w') \<longrightarrow>
      (\<exists>k\<le>3. pw_chain_calls w' = pw_chain_calls w @ replicate (Suc k) pnl \<and>
        pw_sleeps w' = pw_sleeps w @ take k [Fin 2, Fin 4, Fin 8] \<and> (\<not> ok \<longrightarrow> k = 3)))"
proof (intro conjI allI impI)
  have len: "length GAMMA_RETRY_DELAYS = 4" by (simp add: GAMMA_RETRY_DELAYS_def)
  fix res w' assume "fetch_with_retry env GAMMA_RETRY_DELAYS m w = (res, w')"
  from fetch_with_retry_spec [OF this]
  show "\<exists>k\<le>4. pw_queries w' = pw_queries w + Suc k \<and>
        pw_sleeps w' = pw_sleeps w @ take k [Fin 1, Fin 2, Fin 4, Fin 8] \<and>
        (\<forall>j<k. \<exists>e. pe_resolve env (pw_queries w + j) m = Inl e) \<and>
        (case res of Answer r \<Rightarrow> pe_resolve env (pw_queries w + k) m = Inr r \<and> pw_hooks w' = pw_hooks w
         | Exhausted \<Rightarrow> k = 4 \<and> (\<exists>e. pe_resolve env (pw_queries w + k) m = Inl e \<and>
             pw_hooks w' = pw_hooks w @ [QueryFailed m 5 e]))"
    unfolding len unfolding GAMMA_RETRY_DELAYS_def .
next
  have len: "length CHAIN_RETRY_DELAYS = 3" by (simp add: CHAIN_RETRY_DELAYS_def)
  fix ok w' assume "update_chain_with_retry env CHAIN_RETRY_DELAYS i m pnl w = (ok, w')"
  from update_chain_with_retry_spec [OF this]
  show "\<exists>k\<le>3. pw_chain_calls w' = pw_chain_calls w @ replicate (Suc k) pnl \<and>
        pw_sleeps w' = pw_sleeps w @ take k [Fin 2, Fin 4, Fin 8] \<and> (\<not> ok \<longrightarrow> k = 3)"
    unfolding len unfolding CHAIN_RETRY_DELAYS_def by blast
qed

theorem retries_bounded_witness:
  "\<exists>k\<le>4. pw_queries (snd (fetch_with_retry \<lparr>pe_nv = False, pe_iso = (\<lambda>_. None), pe_isoformat = (\<lambda>_. []),
      pe_validate = bet_of_row False, pe_resolve = (\<lambda>n m. if n < 2 then Inl ExternalError else Inr None),
      pe_weight = (\<lambda>_ _ _. None), pe_chain = (\<lambda>_ c. (None, c))\<rparr> GAMMA_RETRY_DELAYS ''m''
     \<lparr>pw_ledger = \<lparr>open_bets = [], settled_bets = []\<rparr>, pw_hooks = [], pw_sleeps = [], pw_queries = 0,
       pw_weight_calls = [], pw_chain_calls = [], pw_chain = ()\<rparr>)) = Suc k"
proof -
  let ?env = "\<lparr>pe_nv = False, pe_iso = (\<lambda>_. None), pe_isoformat = (\<lambda>_. []),
      pe_validate = bet_of_row False, pe_resolve = (\<lambda>n m. if n < 2 then Inl ExternalError else Inr None),
      pe_weight = (\<lambda>_ _ _. None), pe_chain = (\<lambda>_ c. (None, c))\<rparr> :: unit poll_env"
  let ?w = "\<lparr>pw_ledger = \<lparr>open_bets = [], settled_bets = []\<rparr>, pw_hooks = [], pw_sleeps = [], pw_queries = 0,
       pw_weight_calls = [], pw_chain_calls = [], pw_chain = ()\<rparr> :: unit poll_world"
  obtain res w' where f: "fetch_with_retry ?env GAMMA_RETRY_DELAYS ''m'' ?w = (res, w')"
    by (metis prod.exhaust)
  from retries_bounded [THEN conjunct1, rule_format, OF f] f show ?thesis by (auto simp: numeral_eq_Suc)
qed

section \<open>Profit and loss\<close>

text \<open>The realised profit is defined for every bet and result: a void costs the execution cost, a loser
  the stake and the cost, a winner earns its gross win less the cost with the gross win clamped to the
  configured ceiling; and with side-correct pricing a winning NO bet entered at the YES price earns
  exactly what a YES bet entered at the complementary price earns.\<close>

theorem pnl_formulas:
  "\<exists>p. compute_pnl b r mx sc = Inr p \<and>
     (sr_outcome r = Void \<longrightarrow> p = fneg (execution_cost_usd b)) \<and>
     (sr_outcome r \<noteq> Void \<and> (bet_side b = YES) \<noteq> (sr_outcome r = Yes) \<longrightarrow>
        p = fsub (fneg (bet_size_usd b)) (execution_cost_usd b)) \<and>
     (sr_outcome r \<noteq> Void \<and> (bet_side b = YES) = (sr_outcome r = Yes) \<longrightarrow>
        (\<exists>g. p = fsub g (execution_cost_usd b) \<and> (\<forall>m. mx = Some m \<longrightarrow> \<not> flt m g))) \<and>
     (fill_price b = None \<longrightarrow>
        compute_pnl (b\<lparr>bet_side := NO\<rparr>) (r\<lparr>sr_outcome := No\<rparr>) mx True =
        compute_pnl (b\<lparr>bet_side := YES, bet_price := fsub fone (bet_price b)\<rparr>) (r\<lparr>sr_outcome := Yes\<rparr>) mx True)"
proof -
  have div: "\<not> fle e fzero \<Longrightarrow> py_div x e = Inr (fdiv x e)" for x e
    by (cases e) (auto simp: py_div_def)
  have "compute_pnl (b\<lparr>bet_side := NO\<rparr>) (r\<lparr>sr_outcome := No\<rparr>) mx True =
        compute_pnl (b\<lparr>bet_side := YES, bet_price := fsub fone (bet_price b)\<rparr>) (r\<lparr>sr_outcome := Yes\<rparr>) mx True"
    if "fill_price b = None"
    using that by (simp add: compute_pnl_def execution_cost_usd_def Let_def cong: option.case_cong)
  then show ?thesis
    by (auto simp: compute_pnl_def Let_def div split: option.split)
qed

theorem pnl_formulas_witness:
  "\<exists>g. compute_pnl demo_bet \<lparr>sr_market_id = ''m1'', sr_resolved = True, sr_outcome = No,
       sr_winning_price = fone, sr_resolution_ts = 0, sr_end_date = 0\<rparr> (Some (Fin 10)) True =
     Inr (fsub g (execution_cost_usd demo_bet)) \<and> \<not> flt (Fin 10) g"
  using pnl_formulas [of demo_bet "\<lparr>sr_market_id = ''m1'', sr_resolved = True, sr_outcome = No,
       sr_winning_price = fone, sr_resolution_ts = 0, sr_end_date = 0\<rparr>" "Some (Fin 10)" True]
  by (auto simp: demo_bet_def)

section \<open>The ledger under settlement\<close>

definition latest :: "ledger \<Rightarrow> string \<Rightarrow> row option" where
  "latest l i = dget (fold_latest_rows (open_bets l)) i"

definition is_open :: "ledger \<Rightarrow> string \<Rightarrow> bool" where
  "is_open l i = (case latest l i of None \<Rightarrow> False | Some r \<Rightarrow> jget r ''status'' = JStr ''open'')"

definition settled_once :: "ledger \<Rightarrow> bool" where
  "settled_once l =
     (distinct (map s_bet_id (settled_bets l)) \<and>
      (\<forall>s\<in>set (settled_bets l). latest l (s_bet_id s) \<noteq> None \<and> \<not> is_open l (s_bet_id s)))"

definition close_bet :: "settled_bet_record \<Rightarrow> bet_record \<Rightarrow> ledger \<Rightarrow> ledger" where
  "close_bet s b l = append_open_bet (settled_copy (settled_ts s) b) (append_settled_bet s l)"

lemma fold_latest_append:
  "fold_latest_rows (ls @ [Some (JDict (bet_record_jsonl_dict b))]) =
   dset (bet_id b) (bet_record_jsonl_dict b) (fold_latest_rows ls)"
  by (simp add: fold_latest_rows_def iter_jsonl_append List.map_filter_def fold_dict_snoc)

lemma latest_append_open [simp]:
  "latest (append_open_bet b l) i = (if i = bet_id b then Some (bet_record_jsonl_dict b) else latest l i)"
  by (simp add: latest_def fold_latest_append dget_dset)

lemma latest_append_settled [simp]: "latest (append_settled_bet s l) i = latest l i"
  by (simp add: latest_def)

lemma settled_copy_simps [simp]:
  "bet_id (settled_copy t b) = bet_id b" "bet_status (settled_copy t b) = Settled"
  "bet_fields_ok nv (settled_copy t b) = bet_fields_ok nv b"
  by (simp_all add: settled_copy_def bet_fields_ok_def)

lemma latest_close [simp]:
  "i \<noteq> bet_id b \<Longrightarrow> latest (close_bet s b l) i = latest l i"
  "\<not> is_open (close_bet s b l) (bet_id b)" "latest (close_bet s b l) (bet_id b) \<noteq> None"
  by (simp_all add: close_bet_def is_open_def)

lemma is_open_close: "i \<noteq> bet_id b \<Longrightarrow> is_open (close_bet s b l) i = is_open l i"
  by (simp add: is_open_def)

lemma settled_bets_close [simp]: "settled_bets (close_bet s b l) = settled_bets l @ [s]"
  by (simp add: close_bet_def)

lemma settled_once_close:
  assumes "settled_once l" "is_open l (bet_id b)" "s_bet_id s = bet_id b"
  shows "settled_once (close_bet s b l)"
proof -
  have new: "bet_id b \<notin> s_bet_id ` set (settled_bets l)"
    using assms(1,2) by (auto simp: settled_once_def)
  have "latest (close_bet s b l) (s_bet_id x) \<noteq> None \<and> \<not> is_open (close_bet s b l) (s_bet_id x)"
    if "x \<in> set (settled_bets l) \<or> x = s" for x
  proof (cases "s_bet_id x = bet_id b")
    case False
    then show ?thesis using that assms(1,3) by (auto simp: settled_once_def is_open_close)
  qed simp
  then show ?thesis using assms(1,3) new by (auto simp: settled_once_def)
qed

lemma settled_once_place:
  assumes "settled_once l" "latest l (bet_id b) = None"
  shows "settled_once (append_open_bet b l)"
  using assms by (auto simp: settled_once_def is_open_def)

section \<open>What the steps do to the ledger\<close>

lemma write_settled_ok:
  assumes "bet_fields_ok (pe_nv env) b"
  shows "write_settled env s b w =
    (case mk_settled_bet (pe_nv env) s of Inl e \<Rightarrow> (Inl e, w)
     | Inr _ \<Rightarrow> (Inr (), w\<lparr>pw_ledger := close_bet s b (pw_ledger w)\<rparr>))"
  using assms by (simp add: write_settled_def mk_bet_record_def mk_settled_bet_def close_bet_def Let_def)

lemma feed_back_ledger:
  assumes "feed_back env b r pnl lag w = (res, w')" shows "pw_ledger w' = pw_ledger w"
proof -
  let ?w = "w\<lparr>pw_weight_calls := pw_weight_calls w @ [(feedback_signals pnl b, r)]\<rparr>"
  obtain ok w2 where u: "update_chain_with_retry env CHAIN_RETRY_DELAYS (bet_id b) (bet_market_id b) pnl ?w = (ok, w2)"
    by (metis prod.exhaust)
  have "pw_ledger (snd (ok, w2)) = pw_ledger w" unfolding u [symmetric] by simp
  then show ?thesis using assms u by (auto simp: feed_back_def Let_def split: option.splits)
qed

lemma feed_back_done:
  "fst (feed_back env b r pnl lag w) = Inr d \<Longrightarrow>
   \<exists>so. d = Done so \<and> so_bet_id so = bet_id b \<and> so_pnl_usd so = pnl \<and> so_outcome so = sr_outcome r"
  by (auto simp: feed_back_def Let_def split: option.splits prod.splits)

definition settles :: "bet_record \<Rightarrow> settled_bet_record \<Rightarrow> disposition res \<Rightarrow> bool" where
  "settles b s res = (s_bet_id s = bet_id b \<and>
     (\<forall>d. res = Inr d \<longrightarrow> (\<exists>so. d = Done so \<and> so_bet_id so = s_bet_id s \<and> so_pnl_usd so = s_pnl_usd s \<and>
        so_outcome so = s_outcome s)))"

definition settled_row ::
  "'c poll_env \<Rightarrow> bet_record \<Rightarrow> settlement_result \<Rightarrow> pyfloat \<Rightarrow> settled_bet_record" where
  "settled_row env b r pnl = \<lparr>s_bet_id = bet_id b, s_market_id = bet_market_id b,
     settled_ts = pe_isoformat env (sr_resolution_ts r), s_outcome = sr_outcome r,
     s_winning_price = sr_winning_price r, s_pnl_usd = pnl, s_reason = None\<rparr>"

lemma book_cases:
  assumes "bet_fields_ok (pe_nv env) b" "book env cfg b now r w = (res, w')"
  obtains (refused) e where "res = Inl e" "w' = w"
  | (booked) pnl lag where "compute_pnl b r (max_bet_pnl_usd cfg) (side_correct_pricing cfg) = Inr pnl"
      "require_cost_fields cfg \<Longrightarrow> assert_cost_fields_present b = Inr ()"
      "feed_back env b r pnl lag (w\<lparr>pw_ledger := close_bet (settled_row env b r pnl) b (pw_ledger w)\<rparr>) = (res, w')"
proof (cases "if require_cost_fields cfg then assert_cost_fields_present b else Inr ()")
  case (Inl e)
  then show ?thesis using assms refused by (auto simp: book_def)
next
  case cost: (Inr u)
  show ?thesis
  proof (cases "compute_pnl b r (max_bet_pnl_usd cfg) (side_correct_pricing cfg)")
    case (Inl e)
    then show ?thesis using assms refused cost by (auto simp: book_def)
  next
    case pnl: (Inr pnl)
    show ?thesis
    proof (cases "parse_polymarket_ts (pe_iso env) (JStr (expected_settle_ts b))")
      case (Inl e)
      then show ?thesis using assms refused cost pnl by (auto simp: book_def)
    next
      case (Inr x)
      let ?lag = "case x of None \<Rightarrow> fzero | Some t \<Rightarrow> lag_hours_of (now - t)"
      have "book env cfg b now r w =
          (case write_settled env (settled_row env b r pnl) b w of
             (Inl e, w1) \<Rightarrow> (Inl e, w1) | (Inr _, w1) \<Rightarrow> feed_back env b r pnl ?lag w1)"
        using cost pnl Inr by (simp add: book_def Let_def settled_row_def)
      then show ?thesis
        using assms refused booked [of pnl ?lag] cost pnl
        by (auto simp: write_settled_ok mk_settled_bet_def split: if_splits)
    qed
  qed
qed

lemma book_ledger:
  assumes "bet_fields_ok (pe_nv env) b" "book env cfg b now r w = (res, w')"
  shows "(pw_ledger w' = pw_ledger w \<and> (\<exists>e. res = Inl e)) \<or>
    (\<exists>s. settles b s res \<and> pw_ledger w' = close_bet s b (pw_ledger w))"
  using assms
proof (cases rule: book_cases)
  case (booked pnl lag)
  have "pw_ledger w' = close_bet (settled_row env b r pnl) b (pw_ledger w)"
    using feed_back_ledger [OF booked(3)] by simp
  moreover have "settles b (settled_row env b r pnl) res"
    using feed_back_done [of env b r pnl lag] booked(3)
    by (auto simp: settles_def settled_row_def) (metis fst_conv)
  ultimately show ?thesis by blast
qed simp

lemma resolve_and_settle_ledger:
  assumes "bet_fields_ok (pe_nv env) b" "resolve_and_settle env cfg b now w = (res, w')"
  shows "(pw_ledger w' = pw_ledger w \<and> (\<forall>so. res \<noteq> Inr (Done so))) \<or>
    (\<exists>s. settles b s res \<and> pw_ledger w' = close_bet s b (pw_ledger w))"
proof -
  obtain r1 w1 where lag: "emit_lag_alert env b now w = (r1, w1)" by (metis prod.exhaust)
  then have l1: "pw_ledger w1 = pw_ledger w" using emit_lag_frame(1) [of env b now w] by simp
  obtain f w2 where fe: "fetch_with_retry env GAMMA_RETRY_DELAYS (bet_market_id b) w1 = (f, w2)" by (metis prod.exhaust)
  then have l2: "pw_ledger w2 = pw_ledger w"
    using fetch_frame(1) [of env GAMMA_RETRY_DELAYS "bet_market_id b" w1] l1 by simp
  show ?thesis
  proof (cases "\<exists>u r. r1 = Inr u \<and> f = Answer (Some r)")
    case True
    then obtain r where "book env cfg b now r w2 = (res, w')"
      using assms(2) lag fe by (auto simp: resolve_and_settle_def)
    from book_ledger [OF assms(1) this] show ?thesis using l2 by auto
  next
    case False
    then show ?thesis using assms(2) lag fe l1 l2
      by (auto simp: resolve_and_settle_def split: sum.splits fetched.splits option.splits)
  qed
qed

section \<open>The loops\<close>

text \<open>What a run over a list of open bets with distinct identifiers does to the ledger: it closes some of
  them, once each, and the settlements reported are the rows written for the resolved ones.\<close>

definition closes :: "ledger \<Rightarrow> ledger \<Rightarrow> settled_bet_record list \<Rightarrow> string set \<Rightarrow> bool" where
  "closes l l' ss ids =
     (settled_bets l' = settled_bets l @ ss \<and> set (map s_bet_id ss) \<subseteq> ids \<and>
      (\<forall>s\<in>set ss. \<not> is_open l' (s_bet_id s)) \<and>
      (\<forall>i. i \<notin> set (map s_bet_id ss) \<longrightarrow> latest l' i = latest l i))"

definition reported :: "settlement_outcome list \<Rightarrow> settled_bet_record list \<Rightarrow> bool" where
  "reported os ss = (map (\<lambda>so. (so_bet_id so, so_pnl_usd so, so_outcome so)) os =
                     map (\<lambda>s. (s_bet_id s, s_pnl_usd s, s_outcome s)) ss)"

definition processable :: "'c poll_env \<Rightarrow> ledger \<Rightarrow> bet_record list \<Rightarrow> bool" where
  "processable env l bs =
     (distinct (map bet_id bs) \<and> (\<forall>b\<in>set bs. is_open l (bet_id b) \<and> bet_fields_ok (pe_nv env) b))"

lemma processable_close:
  assumes "processable env l (b # bs)" shows "processable env (close_bet s b l) bs"
  using assms by (auto simp: processable_def is_open_close image_iff)

lemma closes_refl: "closes l l [] ids"
  by (simp add: closes_def)

lemma closes_step:
  assumes "closes (close_bet s b l) l' ss ids" "s_bet_id s = bet_id b" "bet_id b \<notin> ids"
  shows "closes l l' (s # ss) (insert (bet_id b) ids)"
proof -
  have "latest l' (bet_id b) = latest (close_bet s b l) (bet_id b)"
    using assms(1,3) unfolding closes_def set_map by blast
  then have "\<not> is_open l' (bet_id b)"
    using latest_close(2) [of s b l] by (simp add: is_open_def)
  then show ?thesis using assms by (auto simp: closes_def)
qed

lemma closes_mono: "closes l l' ss ids \<Longrightarrow> ids \<subseteq> ids' \<Longrightarrow> closes l l' ss ids'"
  by (auto simp: closes_def)

lemma settles_Done: "settles b s (Inr d) \<Longrightarrow> \<exists>so. d = Done so \<and> so_bet_id so = s_bet_id s \<and>
    so_pnl_usd so = s_pnl_usd s \<and> so_outcome so = s_outcome s"
  by (auto simp: settles_def)

lemma tick_loop_closes:
  assumes "processable env (pw_ledger w) bs" "settled_once (pw_ledger w)"
    and "tick_loop env cfg now bs p w = (res, w')"
  shows "settled_once (pw_ledger w') \<and>
    (\<exists>ss. closes (pw_ledger w) (pw_ledger w') ss (bet_id ` set bs) \<and>
      (\<forall>p'. res = Inr p' \<longrightarrow> (\<exists>os. settlements p' = settlements p @ os \<and> reported os ss \<and>
         settled_count p' = settled_count p + length os \<and> queried_count p' = queried_count p \<and>
         settled_count p' + pending_count p' + failed_count p' =
           settled_count p + pending_count p + failed_count p + length bs)))"
  using assms
proof (induction bs arbitrary: w p)
  case Nil
  then show ?case by (auto intro!: exI [of _ "[]"] simp: closes_refl reported_def)
next
  case (Cons b bs)
  obtain r w1 where rs: "resolve_and_settle env cfg b now w = (r, w1)" by (metis prod.exhaust)
  have ok: "bet_fields_ok (pe_nv env) b" "is_open (pw_ledger w) (bet_id b)" "bet_id b \<notin> bet_id ` set bs"
    using Cons.prems(1) by (auto simp: processable_def)
  consider (same) "pw_ledger w1 = pw_ledger w" "\<forall>so. r \<noteq> Inr (Done so)"
    | (closed) s where "settles b s r" "pw_ledger w1 = close_bet s b (pw_ledger w)"
    using resolve_and_settle_ledger [OF ok(1) rs] by blast
  then show ?case
  proof cases
    case same
    have pr: "processable env (pw_ledger w1) bs" using Cons.prems(1) same by (simp add: processable_def)
    show ?thesis
    proof (cases r)
      case (Inl e)
      then show ?thesis using Cons.prems same rs closes_refl by (auto intro!: exI [of _ "[]"])
    next
      case (Inr d)
      then have "tick_loop env cfg now bs (count d p) w1 = (res, w')" using Cons.prems rs by simp
      from Cons.IH [OF pr _ this] same Cons.prems(2) Inr show ?thesis
        by (cases d) (fastforce simp: count_def intro: closes_mono)+
    qed
  next
    case (closed s)
    have sid: "s_bet_id s = bet_id b" using closed(1) by (simp add: settles_def)
    have so: "settled_once (pw_ledger w1)"
      using settled_once_close [OF Cons.prems(2) ok(2) sid] closed(2) by simp
    have pr: "processable env (pw_ledger w1) bs" using processable_close [OF Cons.prems(1)] closed(2) by simp
    show ?thesis
    proof (cases r)
      case (Inl e)
      then show ?thesis
        using Cons.prems rs so closes_step [OF closes_refl sid ok(3)] closed(2)
        by (auto intro!: exI [of _ "[s]"])
    next
      case (Inr d)
      obtain o' where d: "d = Done o'" "so_bet_id o' = s_bet_id s" "so_pnl_usd o' = s_pnl_usd s"
        "so_outcome o' = s_outcome s"
        using settles_Done closed(1) Inr by blast
      have "tick_loop env cfg now bs (count d p) w1 = (res, w')" using Cons.prems rs Inr by simp
      from Cons.IH [OF pr so this] obtain ss where ss: "settled_once (pw_ledger w')"
        "closes (pw_ledger w1) (pw_ledger w') ss (bet_id ` set bs)"
        "\<forall>p'. res = Inr p' \<longrightarrow> (\<exists>os. settlements p' = settlements p @ o' # os \<and> reported os ss \<and>
           settled_count p' = Suc (settled_count p) + length os \<and> queried_count p' = queried_count p \<and>
           settled_count p' + pending_count p' + failed_count p' =
             Suc (settled_count p) + pending_count p + failed_count p + length bs)"
        by (auto simp: d(1) count_def)
      have "closes (pw_ledger w) (pw_ledger w') (s # ss) (insert (bet_id b) (bet_id ` set bs))"
        using closes_step [OF _ sid ok(3)] ss(2) closed(2) by simp
      moreover have "\<forall>p'. res = Inr p' \<longrightarrow> (\<exists>os. settlements p' = settlements p @ os \<and> reported os (s # ss) \<and>
           settled_count p' = settled_count p + length os \<and> queried_count p' = queried_count p \<and>
           settled_count p' + pending_count p' + failed_count p' =
             settled_count p + pending_count p + failed_count p + length (b # bs))"
      proof (intro allI impI)
        fix p' assume "res = Inr p'"
        with ss(3) obtain os where "settlements p' = settlements p @ o' # os" "reported os ss"
           "settled_count p' = Suc (settled_count p) + length os" "queried_count p' = queried_count p"
           "settled_count p' + pending_count p' + failed_count p' =
             Suc (settled_count p) + pending_count p + failed_count p + length bs" by blast
        then show "\<exists>os. settlements p' = settlements p @ os \<and> reported os (s # ss) \<and>
           settled_count p' = settled_count p + length os \<and> queried_count p' = queried_count p \<and>
           settled_count p' + pending_count p' + failed_count p' =
             settled_count p + pending_count p + failed_count p + length (b # bs)"
          using d(2-4) by (intro exI [of _ "o' # os"]) (simp add: reported_def)
      qed
      ultimately show ?thesis using ss(1) by auto
    qed
  qed
qed

lemma void_terminal_ok:
  assumes "bet_fields_ok (pe_nv env) b"
  obtains s where "void_terminal env b now reason w = (Inr (), w\<lparr>pw_ledger := close_bet s b (pw_ledger w)\<rparr>)"
    "s_bet_id s = bet_id b" "s_outcome s = Void" "s_pnl_usd s = fzero" "s_reason s = reason"
  using assms by (simp add: void_terminal_def write_settled_ok mk_settled_bet_def)

definition close_result ::
  "ledger \<Rightarrow> ledger \<Rightarrow> bet_record list \<Rightarrow> poll_tick_result \<Rightarrow> poll_tick_result \<Rightarrow> bool" where
  "close_result l l' bs p p' \<longleftrightarrow>
     (\<exists>ss os. closes l l' ss (bet_id ` set bs) \<and> map s_bet_id ss = map bet_id bs \<and>
        settlements p' = settlements p @ os \<and>
        (\<forall>s\<in>set ss. (\<exists>so\<in>set os. so_bet_id so = s_bet_id s \<and> so_pnl_usd so = s_pnl_usd s) \<or>
            s_outcome s = Void \<and> s_pnl_usd s = fzero) \<and>
        queried_count p' = queried_count p \<and>
        settled_count p' + pending_count p' + failed_count p' =
          settled_count p + pending_count p + failed_count p + length bs)"

lemma close_result_step:
  assumes "close_result (close_bet s b l) l' bs (count d p) p'" "s_bet_id s = bet_id b"
    "bet_id b \<notin> bet_id ` set bs"
    and "(\<exists>so. d = Done so \<and> so_bet_id so = s_bet_id s \<and> so_pnl_usd so = s_pnl_usd s) \<or>
         s_outcome s = Void \<and> s_pnl_usd s = fzero \<and> (d = PENDING \<or> d = FAILED)"
  shows "close_result l l' (b # bs) p p'"
proof -
  from assms(1) obtain ss os where a: "closes (close_bet s b l) l' ss (bet_id ` set bs)"
    "map s_bet_id ss = map bet_id bs" "settlements p' = settlements (count d p) @ os"
    "\<forall>s\<in>set ss. (\<exists>so\<in>set os. so_bet_id so = s_bet_id s \<and> so_pnl_usd so = s_pnl_usd s) \<or>
            s_outcome s = Void \<and> s_pnl_usd s = fzero"
    "queried_count p' = queried_count (count d p)"
    "settled_count p' + pending_count p' + failed_count p' =
      settled_count (count d p) + pending_count (count d p) + failed_count (count d p) + length bs"
    by (auto simp: close_result_def)
  have c: "closes l l' (s # ss) (bet_id ` set (b # bs))"
    using closes_step [OF a(1) assms(2,3)] by simp
  let ?os = "(case d of Done so \<Rightarrow> [so] | _ \<Rightarrow> []) @ os"
  show ?thesis
    unfolding close_result_def
    using c a assms(2,4) by (intro exI [of _ "s # ss"] exI [of _ ?os]) (auto simp: count_def)
qed

lemma close_loop_closes:
  assumes "processable env (pw_ledger w) bs" "settled_once (pw_ledger w)"
    and "close_loop env cfg now bs p w = (res, w')"
  shows "settled_once (pw_ledger w') \<and>
    (\<forall>p'. res = Inr p' \<longrightarrow> close_result (pw_ledger w) (pw_ledger w') bs p p')"
  using assms
proof (induction bs arbitrary: w p)
  case Nil
  then show ?case by (auto intro!: exI [of _ "[]"] simp: closes_refl close_result_def)
next
  case (Cons b bs)
  obtain r w1 where rs: "resolve_and_settle env cfg b now w = (r, w1)" by (metis prod.exhaust)
  have ok: "bet_fields_ok (pe_nv env) b" "is_open (pw_ledger w) (bet_id b)" "bet_id b \<notin> bet_id ` set bs"
    using Cons.prems(1) by (auto simp: processable_def)
  consider (same) "pw_ledger w1 = pw_ledger w" "\<forall>so. r \<noteq> Inr (Done so)"
    | (closed) s where "settles b s r" "pw_ledger w1 = close_bet s b (pw_ledger w)"
    using resolve_and_settle_ledger [OF ok(1) rs] by blast
  then show ?case
  proof cases
    case same
    show ?thesis
    proof (cases r)
      case (Inl e)
      then show ?thesis using Cons.prems same rs by auto
    next
      case (Inr d)
      then have d: "d = PENDING \<or> d = FAILED" using same(2) by (cases d) auto
      define reason where "reason = (if d = PENDING then None else Some ''terminal_query_failed'')"
      obtain s where s: "void_terminal env b now reason w1 =
          (Inr (), w1\<lparr>pw_ledger := close_bet s b (pw_ledger w1)\<rparr>)"
        "s_bet_id s = bet_id b" "s_outcome s = Void" "s_pnl_usd s = fzero"
        using void_terminal_ok [OF ok(1)] by blast
      let ?w2 = "w1\<lparr>pw_ledger := close_bet s b (pw_ledger w)\<rparr>"
      have run: "close_loop env cfg now bs (count d p) ?w2 = (res, w')"
        using Cons.prems(3) rs Inr d s(1) same(1) by (auto simp: reason_def)
      have pr: "processable env (pw_ledger ?w2) bs" using processable_close [OF Cons.prems(1)] by simp
      have so: "settled_once (pw_ledger ?w2)" using settled_once_close [OF Cons.prems(2) ok(2) s(2)] by simp
      show ?thesis
        using Cons.IH [OF pr so run] close_result_step [OF _ s(2) ok(3), of "pw_ledger w" "pw_ledger w'" d p] s(3,4) d
        by auto
    qed
  next
    case (closed s)
    have sid: "s_bet_id s = bet_id b" using closed(1) by (simp add: settles_def)
    have so: "settled_once (pw_ledger w1)"
      using settled_once_close [OF Cons.prems(2) ok(2) sid] closed(2) by simp
    have pr: "processable env (pw_ledger w1) bs" using processable_close [OF Cons.prems(1)] closed(2) by simp
    show ?thesis
    proof (cases r)
      case (Inl e)
      then show ?thesis using Cons.prems rs so by auto
    next
      case (Inr d)
      obtain o' where d: "d = Done o'" "so_bet_id o' = s_bet_id s" "so_pnl_usd o' = s_pnl_usd s"
        using settles_Done closed(1) Inr by blast
      have run: "close_loop env cfg now bs (count d p) w1 = (res, w')" using Cons.prems rs Inr d(1) by simp
      show ?thesis
        using Cons.IH [OF pr so run] closed(2) d
          close_result_step [OF _ sid ok(3), of "pw_ledger w" "pw_ledger w'" d p]
        by auto
    qed
  qed
qed

section \<open>Selection returns processable bets\<close>

lemma fold_latest_keys:
  "(i, r) \<in> set (fold_latest_rows ls) \<Longrightarrow> jget r ''bet_id'' = JStr i"
proof -
  define xs where "xs = List.map_filter (\<lambda>r. case jget r ''bet_id'' of JStr i \<Rightarrow> Some (i, r) | _ \<Rightarrow> None) (iter_jsonl ls)"
  have xs: "(i, r) \<in> set xs \<Longrightarrow> jget r ''bet_id'' = JStr i" for i r
    by (auto simp: xs_def List.map_filter_def split: json.splits)
  assume "(i, r) \<in> set (fold_latest_rows ls)"
  then have "dget (fold_dict xs) i = Some r"
    by (simp add: fold_latest_rows_def xs_def [symmetric])
  then show ?thesis using xs map_of_SomeD by (fastforce simp: dget_fold_dict simp del: map_of_eq_Some_iff)
qed

lemma latest_in_fold: "(i, r) \<in> set (fold_latest_rows (open_bets l)) \<longleftrightarrow> latest l i = Some r"
  by (simp add: latest_def fold_latest_rows_def)

definition selected_from :: "(row \<Rightarrow> bet_record option) \<Rightarrow> (string, row) dict \<Rightarrow> bet_record list \<Rightarrow> bool" where
  "selected_from v d bs \<longleftrightarrow>
     distinct (map bet_id bs) \<and>
     (\<forall>b\<in>set bs. \<exists>r. (bet_id b, r) \<in> set d \<and> jget r ''status'' = JStr ''open'' \<and> v r = Some b)"

lemma selected_from_skip: "selected_from v d bs \<Longrightarrow> selected_from v (x # d) bs"
  by (auto simp: selected_from_def)

lemma selected_from_take:
  "selected_from v d bs \<Longrightarrow> i \<notin> fst ` set d \<Longrightarrow> v r = Some b \<Longrightarrow> bet_id b = i \<Longrightarrow>
   jget r ''status'' = JStr ''open'' \<Longrightarrow> selected_from v ((i, r) # d) (b # bs)"
  unfolding selected_from_def by (auto simp: image_iff Bex_def)

lemma due_rows_selected:
  assumes "bet_reader (pe_nv env) (pe_validate env)" "distinct (map fst d)"
    "\<forall>(i, r)\<in>set d. jget r ''bet_id'' = JStr i" "due_rows env now (map snd d) = Inr bs"
  shows "selected_from (pe_validate env) d bs"
  using assms(2-)
proof (induction d arbitrary: bs)
  case (Cons x d)
  obtain i r where x: "x = (i, r)" by (cases x)
  note skip = selected_from_skip [of "pe_validate env" d _ x]
  have id: "pe_validate env r = Some b \<Longrightarrow> bet_id b = i" for b
    using bet_reader.validate_id [OF assms(1)] Cons.prems(2) x by force
  have IH: "due_rows env now (map snd d) = Inr bs' \<Longrightarrow> selected_from (pe_validate env) d bs'" for bs'
    using Cons by auto
  have "i \<notin> fst ` set d" using Cons.prems(1) x by auto
  then show ?case
    using Cons.prems(3) IH skip id x
    by (auto split: if_splits json.splits option.splits intro!: selected_from_take)
qed (simp add: selected_from_def)

lemma selected_processable:
  assumes "bet_reader (pe_nv env) (pe_validate env)"
    "selected_from (pe_validate env) (fold_latest_rows (open_bets l)) bs"
  shows "processable env l bs"
  using assms(2) bet_reader.validate_fields [OF assms(1)] latest_in_fold [of _ _ l]
  by (fastforce simp: selected_from_def processable_def is_open_def)

lemma select_due_processable:
  assumes "bet_reader (pe_nv env) (pe_validate env)" "select_due_bets env now l = Inr bs"
  shows "processable env l bs"
  using assms fold_latest_keys
  by (intro selected_processable due_rows_selected)
     (auto simp: select_due_bets_def fold_latest_rows_def)

lemma select_open_selected:
  assumes "bet_reader (pe_nv env) (pe_validate env)" "distinct (map fst d)"
    "\<forall>(i, r)\<in>set d. jget r ''bet_id'' = JStr i"
  shows "selected_from (pe_validate env) d
    (List.map_filter (\<lambda>(i, r). if jget r ''status'' \<noteq> JStr ''open'' then None else pe_validate env r) d)"
  using assms(2-)
proof (induction d)
  case (Cons x d)
  obtain i r where x: "x = (i, r)" by (cases x)
  have id: "pe_validate env r = Some b \<Longrightarrow> bet_id b = i" for b
    using bet_reader.validate_id [OF assms(1)] Cons.prems(2) x by force
  have "i \<notin> fst ` set d" using Cons.prems(1) x by auto
  then show ?case
    using Cons x id by (auto simp: List.map_filter_simps split: option.split intro: selected_from_skip selected_from_take)
qed (simp add: selected_from_def List.map_filter_simps)

lemma select_open_processable:
  assumes "bet_reader (pe_nv env) (pe_validate env)"
  shows "processable env l (select_open_bets env l)"
  unfolding select_open_bets_def using assms fold_latest_keys
  by (intro selected_processable select_open_selected) (auto simp: fold_latest_rows_def)

section \<open>Settlement properties\<close>

lemma set_map_filter_iff: "y \<in> set (List.map_filter f xs) \<longleftrightarrow> (\<exists>x\<in>set xs. f x = Some y)"
  by (induction xs) (auto simp: List.map_filter_simps split: option.split)

lemma poller_tick_closes:
  assumes "bet_reader (pe_nv env) (pe_validate env)" "settled_once (pw_ledger w)"
    and "poller_tick env cfg now w = (res, w')"
  shows "settled_once (pw_ledger w') \<and>
    (\<exists>ss. settled_bets (pw_ledger w') = settled_bets (pw_ledger w) @ ss \<and>
      (\<forall>p. res = Inr p \<longrightarrow> reported (settlements p) ss \<and> settled_count p = length ss \<and>
         queried_count p = settled_count p + pending_count p + failed_count p))"
proof (cases "select_due_bets env now (pw_ledger w)")
  case (Inl e)
  then show ?thesis using assms by (auto simp: poller_tick_def)
next
  case (Inr due)
  have run: "tick_loop env cfg now due (no_polls (length due)) w = (res, w')"
    using assms(3) Inr by (simp add: poller_tick_def)
  from tick_loop_closes [OF select_due_processable [OF assms(1) Inr] assms(2) run]
  obtain ss where so: "settled_once (pw_ledger w')" and c: "closes (pw_ledger w) (pw_ledger w') ss (bet_id ` set due)"
    and r: "\<forall>p. res = Inr p \<longrightarrow> reported (settlements p) ss \<and> settled_count p = length (settlements p) \<and>
         queried_count p = length due \<and> settled_count p + pending_count p + failed_count p = length due"
    by (auto simp: no_polls_def)
  have len: "length os = length ss" if "reported os ss" for os
    using arg_cong [OF that [unfolded reported_def], of length] by simp
  have "settled_bets (pw_ledger w') = settled_bets (pw_ledger w) @ ss"
    using c by (simp add: closes_def)
  moreover have "\<forall>p. res = Inr p \<longrightarrow> reported (settlements p) ss \<and> settled_count p = length ss \<and>
         queried_count p = settled_count p + pending_count p + failed_count p"
    using r len by metis
  ultimately show ?thesis using so by blast
qed

lemma terminal_close_closes:
  assumes "bet_reader (pe_nv env) (pe_validate env)" "settled_once (pw_ledger w)"
    and "terminal_close env cfg now w = (res, w')"
  shows "settled_once (pw_ledger w') \<and>
    (\<forall>p. res = Inr p \<longrightarrow> close_result (pw_ledger w) (pw_ledger w')
       (select_open_bets env (pw_ledger w)) (no_polls (length (select_open_bets env (pw_ledger w)))) p)"
  using close_loop_closes [OF select_open_processable [OF assms(1)] assms(2)] assms(3)
  by (simp add: terminal_close_def Let_def)

text \<open>
  The life of a ledger: orders with fresh identifiers, polls and terminal closes in any order, whatever
  the outside answers and wherever an exception cuts a poll short.
\<close>

inductive ledger_life :: "'c poll_env \<Rightarrow> poll_config \<Rightarrow> 'c poll_world \<Rightarrow> bool" for env cfg where
  start: "pw_ledger w = \<lparr>open_bets = [], settled_bets = []\<rparr> \<Longrightarrow> ledger_life env cfg w"
| place: "ledger_life env cfg w \<Longrightarrow> latest (pw_ledger w) (bet_id b) = None \<Longrightarrow>
    ledger_life env cfg (w\<lparr>pw_ledger := append_open_bet b (pw_ledger w)\<rparr>)"
| poll: "ledger_life env cfg w \<Longrightarrow> poller_tick env cfg now w = (res, w') \<Longrightarrow> ledger_life env cfg w'"
| shut: "ledger_life env cfg w \<Longrightarrow> terminal_close env cfg now w = (res, w') \<Longrightarrow> ledger_life env cfg w'"

inductive_cases ledger_life_pollE: "ledger_life env cfg w"

lemma ledger_life_settled_once:
  assumes "bet_reader (pe_nv env) (pe_validate env)" "ledger_life env cfg w"
  shows "settled_once (pw_ledger w)"
  using assms(2)
proof induction
  case (start w)
  then show ?case by (simp add: settled_once_def)
next
  case (place w b)
  then show ?case by (simp add: settled_once_place)
qed (use assms(1) poller_tick_closes terminal_close_closes in blast)+

text \<open>C2. No bet is ever settled twice: after any history of orders with fresh identifiers, polls and
  terminal closes, polls aborted by an exception included, the settled stream has at most one row
  per bet and no bet of that stream is selected again.\<close>

theorem settled_at_most_once:
  assumes "bet_reader (pe_nv env) (pe_validate env)" "ledger_life env cfg w"
  shows "distinct (map s_bet_id (settled_bets (pw_ledger w))) \<and>
    set (map s_bet_id (settled_bets (pw_ledger w))) \<inter> set (map bet_id (select_open_bets env (pw_ledger w))) = {} \<and>
    (\<forall>now bs. select_due_bets env now (pw_ledger w) = Inr bs \<longrightarrow>
      set (map s_bet_id (settled_bets (pw_ledger w))) \<inter> set (map bet_id bs) = {})"
proof -
  note so = ledger_life_settled_once [OF assms]
  have disj: "set (map s_bet_id (settled_bets (pw_ledger w))) \<inter> set (map bet_id bs) = {}"
    if "processable env (pw_ledger w) bs" for bs
    using so that by (auto simp: settled_once_def processable_def)
  show ?thesis
    using so disj select_open_processable [OF assms(1)] select_due_processable [OF assms(1)]
    by (simp add: settled_once_def)
qed

text \<open>C19. A poll books exactly what it reports: when it returns, the settled stream has grown by one row
  per reported settlement, in the same order with the same profit and outcome, and every queried bet
  is counted once as settled, pending or failed.\<close>

theorem poll_books_what_it_reports:
  assumes "bet_reader (pe_nv env) (pe_validate env)" "ledger_life env cfg w"
    and "poller_tick env cfg now w = (Inr p, w')"
  shows "\<exists>ss. settled_bets (pw_ledger w') = settled_bets (pw_ledger w) @ ss \<and>
    map (\<lambda>so. (so_bet_id so, so_pnl_usd so, so_outcome so)) (settlements p) =
    map (\<lambda>s. (s_bet_id s, s_pnl_usd s, s_outcome s)) ss \<and>
    settled_count p = length ss \<and> queried_count p = settled_count p + pending_count p + failed_count p"
  using poller_tick_closes [OF assms(1) ledger_life_settled_once [OF assms(1,2)] assms(3)]
  by (auto simp: reported_def)

text \<open>C20. The terminal close leaves no open bet behind: when it returns, nothing is selected as open any
  more, exactly one row was added for every bet that was open, and each of those rows is either a
  reported settlement with its profit or a void with none.\<close>

theorem terminal_close_complete:
  assumes "bet_reader (pe_nv env) (pe_validate env)" "ledger_life env cfg w"
    and "terminal_close env cfg now w = (Inr p, w')"
  shows "select_open_bets env (pw_ledger w') = [] \<and>
    (\<exists>ss. settled_bets (pw_ledger w') = settled_bets (pw_ledger w) @ ss \<and>
       map s_bet_id ss = map bet_id (select_open_bets env (pw_ledger w)) \<and>
       (\<forall>s\<in>set ss. (\<exists>so\<in>set (settlements p). so_bet_id so = s_bet_id s \<and> so_pnl_usd so = s_pnl_usd s) \<or>
          s_outcome s = Void \<and> s_pnl_usd s = fzero))"
proof -
  let ?bs = "select_open_bets env (pw_ledger w)"
  from terminal_close_closes [OF assms(1) ledger_life_settled_once [OF assms(1,2)] assms(3)]
  obtain ss where c: "closes (pw_ledger w) (pw_ledger w') ss (bet_id ` set ?bs)" "map s_bet_id ss = map bet_id ?bs"
    "\<forall>s\<in>set ss. (\<exists>so\<in>set (settlements p). so_bet_id so = s_bet_id s \<and> so_pnl_usd so = s_pnl_usd s) \<or>
            s_outcome s = Void \<and> s_pnl_usd s = fzero"
    by (auto simp: close_result_def no_polls_def)
  have ids: "s_bet_id ` set ss = bet_id ` set ?bs" using c(2) by (metis list.set_map)
  have "\<not> (\<exists>b. b \<in> set (select_open_bets env (pw_ledger w')))"
  proof
    assume "\<exists>b. b \<in> set (select_open_bets env (pw_ledger w'))"
    then obtain b i r where b: "(i, r) \<in> set (fold_latest_rows (open_bets (pw_ledger w')))"
      "jget r ''status'' = JStr ''open''" "pe_validate env r = Some b"
      by (auto simp: select_open_bets_def set_map_filter_iff split: if_splits)
    have i: "latest (pw_ledger w') i = Some r" using b(1) latest_in_fold by blast
    then have op: "is_open (pw_ledger w') i" using b(2) by (simp add: is_open_def)
    show False
    proof (cases "i \<in> s_bet_id ` set ss")
      case True
      then show ?thesis using c(1) op by (auto simp: closes_def)
    next
      case False
      then have "latest (pw_ledger w) i = Some r" using c(1) i by (auto simp: closes_def)
      then have row: "(i, r) \<in> set (fold_latest_rows (open_bets (pw_ledger w)))" using latest_in_fold by blast
      then have "b \<in> set ?bs" using b by (auto simp: select_open_bets_def set_map_filter_iff intro!: bexI [of _ "(i, r)"])
      moreover have "bet_id b = i"
        using bet_reader.validate_id [OF assms(1) b(3)] fold_latest_keys [OF row] by simp
      ultimately show ?thesis using False ids by blast
    qed
  qed
  then have "select_open_bets env (pw_ledger w') = []" by (metis last_in_set)
  then show ?thesis using c by (auto simp: closes_def)
qed

section \<open>A concrete ledger\<close>

definition demo_result :: settlement_result where
  "demo_result = \<lparr>sr_market_id = ''m1'', sr_resolved = True, sr_outcome = No,
     sr_winning_price = fone, sr_resolution_ts = 0, sr_end_date = 0\<rparr>"

definition demo_env :: "unit poll_env" where
  "demo_env = \<lparr>pe_nv = False, pe_iso = (\<lambda>_. Some (0, None)), pe_isoformat = (\<lambda>_. ''t''),
     pe_validate = bet_of_row False, pe_resolve = (\<lambda>n m. Inr (if n = 0 then None else Some demo_result)),
     pe_weight = (\<lambda>_ _ _. None), pe_chain = (\<lambda>_ c. (None, c))\<rparr>"

definition demo_poll_config :: poll_config where
  "demo_poll_config = \<lparr>max_bet_pnl_usd = None, side_correct_pricing = True, require_cost_fields = True\<rparr>"

definition demo_world :: "unit poll_world" where
  "demo_world = \<lparr>pw_ledger = append_open_bet demo_bet \<lparr>open_bets = [], settled_bets = []\<rparr>, pw_hooks = [],
     pw_sleeps = [], pw_queries = 1, pw_weight_calls = [], pw_chain_calls = [], pw_chain = ()\<rparr>"

lemma demo_reader: "bet_reader (pe_nv demo_env) (pe_validate demo_env)"
  using strict_reader.bet_reader_axioms [of False] by (simp add: demo_env_def)

lemma demo_life: "ledger_life demo_env demo_poll_config demo_world"
proof -
  let ?w = "demo_world\<lparr>pw_ledger := \<lparr>open_bets = [], settled_bets = []\<rparr>\<rparr>"
  have "ledger_life demo_env demo_poll_config ?w" by (rule ledger_life.start) simp
  moreover have "latest (pw_ledger ?w) (bet_id demo_bet) = None"
    by (simp add: latest_def fold_latest_rows_def iter_jsonl_def)
  ultimately have "ledger_life demo_env demo_poll_config (?w\<lparr>pw_ledger := append_open_bet demo_bet (pw_ledger ?w)\<rparr>)"
    by (rule ledger_life.place)
  then show ?thesis by (simp add: demo_world_def)
qed

lemma demo_poll:
  "\<exists>p w'. poller_tick demo_env demo_poll_config 1 demo_world = (Inr p, w') \<and> settled_count p = 1"
proof -
  have "(case fst (poller_tick demo_env demo_poll_config 1 demo_world) of
      Inl _ \<Rightarrow> False | Inr p \<Rightarrow> settled_count p = 1)" by code_simp
  then show ?thesis by (cases "poller_tick demo_env demo_poll_config 1 demo_world") (auto split: sum.splits)
qed

lemma demo_close:
  "\<exists>p w'. terminal_close demo_env demo_poll_config 1 demo_world = (Inr p, w')"
proof -
  have "(case fst (terminal_close demo_env demo_poll_config 1 demo_world) of
      Inl _ \<Rightarrow> False | Inr p \<Rightarrow> True)" by code_simp
  then show ?thesis by (cases "terminal_close demo_env demo_poll_config 1 demo_world") (auto split: sum.splits)
qed

lemma demo_open: "map bet_id (select_open_bets demo_env (pw_ledger demo_world)) = [''b1'']"
  by code_simp

theorem settled_at_most_once_witness:
  "\<exists>w. ledger_life demo_env demo_poll_config w \<and> length (settled_bets (pw_ledger w)) = 1 \<and>
     distinct (map s_bet_id (settled_bets (pw_ledger w)))"
proof -
  obtain p w' where p: "poller_tick demo_env demo_poll_config 1 demo_world = (Inr p, w')" "settled_count p = 1"
    using demo_poll by blast
  have life: "ledger_life demo_env demo_poll_config w'" using demo_life p(1) by (rule ledger_life.poll)
  have "length (settled_bets (pw_ledger w')) = 1"
    using poller_tick_closes [OF demo_reader ledger_life_settled_once [OF demo_reader demo_life] p(1)] p(2)
    by (auto simp: demo_world_def)
  then show ?thesis using settled_at_most_once [OF demo_reader life] life by blast
qed

theorem poll_books_what_it_reports_witness:
  "\<exists>p w'. poller_tick demo_env demo_poll_config 1 demo_world = (Inr p, w') \<and>
     length (settled_bets (pw_ledger w')) = 1"
proof -
  obtain p w' where p: "poller_tick demo_env demo_poll_config 1 demo_world = (Inr p, w')" "settled_count p = 1"
    using demo_poll by blast
  then show ?thesis
    using poll_books_what_it_reports [OF demo_reader demo_life p(1)] by (auto simp: demo_world_def)
qed

theorem terminal_close_complete_witness:
  "\<exists>p w'. terminal_close demo_env demo_poll_config 1 demo_world = (Inr p, w') \<and>
     select_open_bets demo_env (pw_ledger w') = [] \<and> length (settled_bets (pw_ledger w')) = 1"
proof -
  obtain p w' where p: "terminal_close demo_env demo_poll_config 1 demo_world = (Inr p, w')"
    using demo_close by blast
  from terminal_close_complete [OF demo_reader demo_life p] obtain ss where
    "select_open_bets demo_env (pw_ledger w') = []"
    "settled_bets (pw_ledger w') = settled_bets (pw_ledger demo_world) @ ss"
    "map s_bet_id ss = [''b1'']" unfolding demo_open by metis
  then show ?thesis using p by (auto simp: demo_world_def)
qed

end
