(* ===== verification/Chain.thy ===== *)
theory Chain
  imports PyText "HOL-Library.Word"
begin

text \<open>
  The chain side of the agent: the RH-Chain adapter (\<open>agent/runtime/rh_chain_adapter.py\<close>) with its
  nonce sequencing and unit conversion, its in-memory contract simulation, and the scalar adapter
  shared by the sandbox and the replay (\<open>agent/server/main.py\<close>, \<open>agent/backtest/replay_runner.py\<close>).

  The contract surface (\<open>_ChainCalls\<close>) is a record of functions over a state of its own; EIP-712
  signing and the wall clock are parameters.  A revert carries whether its text mentions the replay
  guard, which is all the adapter looks at.
\<close>

section \<open>Units\<close>

definition BREATH_DECIMALS :: nat where "BREATH_DECIMALS = 6"
definition USD_TO_BREATH_WEI :: int where "USD_TO_BREATH_WEI = 10 ^ BREATH_DECIMALS"

definition usd_to_wei :: "pyfloat \<Rightarrow> int res" where
  "usd_to_wei usd =
     (if flt usd fzero then Inl ValueError else py_round (fmul usd (rnd (of_int USD_TO_BREATH_WEI))))"

definition wei_to_usd :: "int \<Rightarrow> pyfloat res" where
  "wei_to_usd wei =
     rbind (float_of_int wei) (\<lambda>w. rbind (float_of_int USD_TO_BREATH_WEI) (\<lambda>u. py_div w u))"

section \<open>Payloads\<close>

record attestation =
  at_market_id :: int
  loss_amount :: int
  nonce :: int
  deadline :: int

record death_payload =
  cause :: int
  terminal_afterglow :: bool
  dp_last_words :: string
  dp_memory_bank_cid :: string
  dp_weights :: string
  decision_history_hash :: "8 word list"
  phase_stats :: "8 word list"

text \<open>A transaction hash is the number the in-memory chain formats; the token id likewise.\<close>

record death_receipt =
  kill_tx_hash :: int
  tombstone_token_id :: int
  tombstone_tx_hash :: int

definition DEATH_CAUSE_STARVATION :: int where "DEATH_CAUSE_STARVATION = 1"
definition DEFAULT_DEADLINE_OFFSET_SECONDS :: int where "DEFAULT_DEADLINE_OFFSET_SECONDS = 3600"

text \<open>\<open>bytes.fromhex\<close>: pairs of hexadecimal digits, ASCII white space allowed between pairs.\<close>

definition hex_val :: "char \<Rightarrow> int option" where
  "hex_val c = (let n = of_char c :: int in
     if 48 \<le> n \<and> n \<le> 57 then Some (n - 48)
     else if 97 \<le> n \<and> n \<le> 102 then Some (n - 87)
     else if 65 \<le> n \<and> n \<le> 70 then Some (n - 55) else None)"

definition ascii_space :: "char \<Rightarrow> bool" where
  "ascii_space c = (let n = of_char c :: nat in 9 \<le> n \<and> n \<le> 13 \<or> n = 32)"

fun fromhex :: "string \<Rightarrow> 8 word list res" where
  "fromhex [] = Inr []"
| "fromhex [c] = (if ascii_space c then Inr [] else Inl ValueError)"
| "fromhex (c # d # s) =
     (if ascii_space c then fromhex (d # s)
      else (case (hex_val c, hex_val d) of
              (Some x, Some y) \<Rightarrow> rbind (fromhex s) (\<lambda>bs. Inr (word_of_int (16 * x + y) # bs))
            | _ \<Rightarrow> Inl ValueError))"

definition hex_to_bytes32 :: "string \<Rightarrow> 8 word list res" where
  "hex_to_bytes32 hex_str =
     (let s0 = py_lower hex_str;
          s = (if take 2 s0 = ''0x'' then drop 2 s0 else s0)
      in if 64 < length s then Inl ValueError
         else fromhex (replicate (64 - length s) (CHR ''0'') @ s))"

text \<open>\<open>int.to_bytes(32, "big")\<close>.\<close>

definition to_bytes32 :: "int \<Rightarrow> 8 word list res" where
  "to_bytes32 n =
     (if n < 0 \<or> 2 ^ 256 \<le> n then Inl OverflowError
      else Inr (map (\<lambda>i. word_of_int (n div 256 ^ (31 - i))) [0..<32]))"

definition encode_phase_stats :: "pyfloat \<Rightarrow> int \<Rightarrow> 8 word list res" where
  "encode_phase_stats bankroll_usd last_tick =
     rbind (py_round (fmul bankroll_usd (rnd (of_int USD_TO_BREATH_WEI)))) (\<lambda>w.
     rbind (to_bytes32 (max 0 w)) (\<lambda>a.
     rbind (to_bytes32 (max 0 last_tick)) (\<lambda>b. Inr (a @ b))))"

section \<open>The contract surface\<close>

record 'k chain_calls =
  cc_breath :: "'k \<Rightarrow> int res"
  cc_used_nonces :: "string \<Rightarrow> int \<Rightarrow> 'k \<Rightarrow> bool res"
  cc_settle_market_loss :: "attestation \<Rightarrow> string \<Rightarrow> string \<Rightarrow> 'k \<Rightarrow> ((exc \<times> bool) + int) \<times> 'k"
  cc_top_up_breath :: "int \<Rightarrow> pyfloat \<Rightarrow> 'k \<Rightarrow> int res \<times> 'k"
  cc_die :: "death_payload \<Rightarrow> 'k \<Rightarrow> (int \<times> int) res \<times> 'k"

text \<open>\<open>_InMemoryChainCalls\<close>; a transaction hash is the number the code formats.\<close>

record memory_chain =
  current_breath_wei :: int
  used_nonce_set :: "(string \<times> int) set"
  captured_attestations :: "(attestation \<times> string \<times> string) list"
  captured_topups :: "(int \<times> pyfloat) list"
  captured_dies :: "death_payload list"
  next_tombstone_token_id :: int
  has_died :: bool

definition fresh_memory_chain :: memory_chain where
  "fresh_memory_chain = \<lparr>current_breath_wei = 100 * USD_TO_BREATH_WEI, used_nonce_set = {},
     captured_attestations = [], captured_topups = [], captured_dies = [],
     next_tombstone_token_id = 1, has_died = False\<rparr>"

definition mem_settle ::
  "attestation \<Rightarrow> string \<Rightarrow> string \<Rightarrow> memory_chain \<Rightarrow> ((exc \<times> bool) + int) \<times> memory_chain" where
  "mem_settle att sig signer k =
     (if (signer, nonce att) \<in> used_nonce_set k then (Inl (ContractRevertError, True), k)
      else (Inr (nonce att),
            k\<lparr>used_nonce_set := insert (signer, nonce att) (used_nonce_set k),
              captured_attestations := captured_attestations k @ [(att, sig, signer)],
              current_breath_wei := max 0 (current_breath_wei k - loss_amount att)\<rparr>))"

definition mem_top_up :: "int \<Rightarrow> pyfloat \<Rightarrow> memory_chain \<Rightarrow> int res \<times> memory_chain" where
  "mem_top_up amount_wei reason k =
     (let k1 = k\<lparr>captured_topups := captured_topups k @ [(amount_wei, reason)],
                 current_breath_wei := current_breath_wei k + amount_wei\<rparr>
      in (Inr (int (length (captured_topups k1))), k1))"

definition mem_die :: "death_payload \<Rightarrow> memory_chain \<Rightarrow> (int \<times> int) res \<times> memory_chain" where
  "mem_die payload k =
     (if has_died k then (Inl ContractRevertError, k)
      else let token_id = next_tombstone_token_id k in
           (Inr (token_id, token_id),
            k\<lparr>has_died := True, captured_dies := captured_dies k @ [payload],
              next_tombstone_token_id := token_id + 1\<rparr>))"

definition memory_calls :: "memory_chain chain_calls" where
  "memory_calls = \<lparr>cc_breath = (\<lambda>k. Inr (current_breath_wei k)),
     cc_used_nonces = (\<lambda>signer n k. Inr ((signer, n) \<in> used_nonce_set k)),
     cc_settle_market_loss = mem_settle, cc_top_up_breath = mem_top_up, cc_die = mem_die\<rparr>"

section \<open>The adapter\<close>

record 'k rh_adapter =
  signer_address :: string
  deadline_offset_seconds :: int
  used_nonces :: "int set"
  next_nonce :: int
  rh_calls :: 'k

text \<open>The constructor: an empty key or a missing domain is refused.\<close>

definition mk_rh_adapter :: "string \<Rightarrow> (string \<Rightarrow> string) \<Rightarrow> bool \<Rightarrow> int \<Rightarrow> 'k \<Rightarrow> 'k rh_adapter res" where
  "mk_rh_adapter key address_of has_domain offset k =
     (if key = [] then Inl ValueError
      else if \<not> has_domain then Inl ValueError
      else Inr \<lparr>signer_address = address_of key, deadline_offset_seconds = offset,
                used_nonces = {}, next_nonce = 0, rh_calls = k\<rparr>)"

definition consume_next_nonce :: "'k rh_adapter \<Rightarrow> int res \<times> 'k rh_adapter" where
  "consume_next_nonce a =
     (let n = next_nonce a in
      if n \<in> used_nonces a then (Inl ReplayAttemptError, a)
      else (Inr n, a\<lparr>used_nonces := insert n (used_nonces a), next_nonce := n + 1\<rparr>))"

definition settle_loss ::
  "'k chain_calls \<Rightarrow> (attestation \<Rightarrow> string) \<Rightarrow> int \<Rightarrow> pyfloat \<Rightarrow> 'k rh_adapter \<Rightarrow> exc option \<times> 'k rh_adapter" where
  "settle_loss ops sign now loss_usd a =
     (case usd_to_wei loss_usd of
        Inl e \<Rightarrow> (Some e, a)
      | Inr loss_wei \<Rightarrow>
        (case consume_next_nonce a of
           (Inl e, a1) \<Rightarrow> (Some e, a1)
         | (Inr n, a1) \<Rightarrow>
             let att = \<lparr>at_market_id = n, loss_amount = loss_wei, nonce = n,
                        deadline = now + deadline_offset_seconds a1\<rparr>
             in case cc_used_nonces ops (signer_address a1) n (rh_calls a1) of
                  Inl e \<Rightarrow> (Some e, a1)
                | Inr True \<Rightarrow> (Some ReplayAttemptError, a1)
                | Inr False \<Rightarrow>
                    (case cc_settle_market_loss ops att (sign att) (signer_address a1) (rh_calls a1) of
                       (Inl (e, mentions_replay), k) \<Rightarrow>
                         (Some (if e = ContractRevertError \<and> mentions_replay then ReplayAttemptError else e),
                          a1\<lparr>rh_calls := k\<rparr>)
                     | (Inr tx, k) \<Rightarrow> (None, a1\<lparr>rh_calls := k\<rparr>))))"

definition top_up :: "'k chain_calls \<Rightarrow> pyfloat \<Rightarrow> 'k rh_adapter \<Rightarrow> exc option \<times> 'k rh_adapter" where
  "top_up ops gain_usd a =
     (case usd_to_wei gain_usd of
        Inl e \<Rightarrow> (Some e, a)
      | Inr amount_wei \<Rightarrow>
        (case cc_top_up_breath ops amount_wei gain_usd (rh_calls a) of
           (Inl e, k) \<Rightarrow> (Some e, a\<lparr>rh_calls := k\<rparr>)
         | (Inr tx, k) \<Rightarrow> (None, a\<lparr>rh_calls := k\<rparr>)))"

definition update_breath_from_pnl ::
  "'k chain_calls \<Rightarrow> (attestation \<Rightarrow> string) \<Rightarrow> int \<Rightarrow> pyfloat \<Rightarrow> 'k rh_adapter \<Rightarrow> exc option \<times> 'k rh_adapter" where
  "update_breath_from_pnl ops sign now pnl_usd a =
     (if feq pnl_usd fzero then (None, a)
      else if flt pnl_usd fzero then settle_loss ops sign now (fneg pnl_usd) a
      else top_up ops pnl_usd a)"

definition read_breath :: "'k chain_calls \<Rightarrow> 'k rh_adapter \<Rightarrow> pyfloat res" where
  "read_breath ops a = rbind (cc_breath ops (rh_calls a)) wei_to_usd"

definition build_and_sign_settlement ::
  "(attestation \<Rightarrow> string) \<Rightarrow> int \<Rightarrow> int \<Rightarrow> int \<Rightarrow> int option \<Rightarrow> int option \<Rightarrow> 'k rh_adapter \<Rightarrow>
   (attestation \<times> string) res \<times> 'k rh_adapter" where
  "build_and_sign_settlement sign now market_id loss_wei n dl a =
     (case (case n of
              None \<Rightarrow> consume_next_nonce a
            | Some m \<Rightarrow>
                if m \<in> used_nonces a then (Inl ReplayAttemptError, a)
                else (Inr m, a\<lparr>used_nonces := insert m (used_nonces a),
                               next_nonce := max (next_nonce a) (m + 1)\<rparr>)) of
        (Inl e, a1) \<Rightarrow> (Inl e, a1)
      | (Inr m, a1) \<Rightarrow>
          let att = \<lparr>at_market_id = market_id, loss_amount = loss_wei, nonce = m,
                     deadline = (case dl of None \<Rightarrow> now + deadline_offset_seconds a1 | Some d \<Rightarrow> d)\<rparr>
          in (Inr (att, sign att), a1))"

definition kill_and_mint_tombstone ::
  "'k chain_calls \<Rightarrow> string \<Rightarrow> pyfloat \<Rightarrow> int \<Rightarrow> string \<Rightarrow> string \<Rightarrow> string \<Rightarrow> 'k rh_adapter \<Rightarrow>
   death_receipt res \<times> 'k rh_adapter" where
  "kill_and_mint_tombstone ops agent_id bankroll_usd last_tick final_weights_hash memory_bank_cid last_words a =
     (case hex_to_bytes32 final_weights_hash of
        Inl e \<Rightarrow> (Inl e, a)
      | Inr h \<Rightarrow>
        (case encode_phase_stats bankroll_usd last_tick of
           Inl e \<Rightarrow> (Inl e, a)
         | Inr st \<Rightarrow>
           (case cc_die ops \<lparr>cause = DEATH_CAUSE_STARVATION, terminal_afterglow = True,
                    dp_last_words = last_words, dp_memory_bank_cid = memory_bank_cid,
                    dp_weights = agent_id, decision_history_hash = h, phase_stats = st\<rparr> (rh_calls a) of
              (Inl e, k) \<Rightarrow> (Inl e, a\<lparr>rh_calls := k\<rparr>)
            | (Inr (tx, token), k) \<Rightarrow>
                (Inr \<lparr>kill_tx_hash = tx, tombstone_token_id = token, tombstone_tx_hash = tx\<rparr>,
                 a\<lparr>rh_calls := k\<rparr>))))"

section \<open>The scalar adapter\<close>

record scalar_chain =
  current_breath :: pyfloat

definition scalar_update :: "pyfloat \<Rightarrow> scalar_chain \<Rightarrow> exc option \<times> scalar_chain" where
  "scalar_update pnl_usd c = (None, c\<lparr>current_breath := fmax fzero (fadd (current_breath c) pnl_usd)\<rparr>)"

definition scalar_read :: "scalar_chain \<Rightarrow> pyfloat res" where
  "scalar_read c = Inr (current_breath c)"

lemma wei_units: "rnd (of_int USD_TO_BREATH_WEI) = Fin 1000000" "float_of_int USD_TO_BREATH_WEI = Inr (Fin 1000000)"
proof -
  have "rnd 1000000 = Fin 1000000"
    using rr_of_int [of 1000000] rr_moderate [of 1000000] by (simp add: rnd_in_range)
  then show "rnd (of_int USD_TO_BREATH_WEI) = Fin 1000000" "float_of_int USD_TO_BREATH_WEI = Inr (Fin 1000000)"
    by (simp_all add: USD_TO_BREATH_WEI_def BREATH_DECIMALS_def float_of_int_def)
qed

lemma wei_roundtrip_rat:
  assumes "1 \<le> w" "w \<le> 2 ^ 50"
  shows "rhe (rr (rr (of_int w / 1000000) * 1000000)) = w"
    and "\<bar>rr (of_int w / 1000000) * 1000000\<bar> \<le> 2 ^ 52" "0 \<le> rr (of_int w / 1000000)"
proof -
  let ?w = "of_int w :: rat" and ?u = "p2 (- 53)"
  let ?x = "?w / 1000000"
  let ?y = "rr ?x * 1000000"
  have "?w \<le> of_int (2 ^ 50)" using assms(2) by (simp only: of_int_le_iff)
  then have w: "1 \<le> ?w" "?w \<le> 2 ^ 50" using assms(1) by simp_all
  have "p2 (- 1022) \<le> p2 (- 20)" by (rule p2_mono) simp
  also have "\<dots> \<le> 1 / 1000000" by (simp add: p2_def)
  finally have small: "p2 (- 1022) \<le> 1 / 1000000" .
  have ex: "\<bar>rr ?x - ?x\<bar> \<le> ?x * ?u" using rr_relative_error [of ?x] small w by simp
  have "?y - ?w = (rr ?x - ?x) * 1000000" by (simp add: left_diff_distrib)
  then have "\<bar>?y - ?w\<bar> = \<bar>rr ?x - ?x\<bar> * 1000000" by (simp only: abs_mult)
  also have "\<dots> \<le> ?x * ?u * 1000000" using ex by (intro mult_right_mono) auto
  finally have y: "\<bar>?y - ?w\<bar> \<le> ?w * ?u" by simp
  have wu: "?w * ?u \<le> 1 / 8" using w by (simp add: p2_m53)
  have yb: "1 / 2 \<le> ?y" "?y \<le> ?w + 1 / 8" using y wu w(1) by linarith+
  show "\<bar>?y\<bar> \<le> 2 ^ 52" using yb w by simp
  show "0 \<le> rr ?x" using w by (intro rr_nonneg) simp
  have "p2 (- 1022) \<le> \<bar>?y\<bar>" using small yb by linarith
  then have "\<bar>rr ?y - ?y\<bar> \<le> ?y * ?u" using rr_relative_error [of ?y] yb by simp
  also have "\<dots> \<le> (?w + 1 / 8) * ?u" using yb(2) by (intro mult_right_mono) (auto intro: less_imp_le)
  also have "\<dots> \<le> 1 / 8 + 1 / 64" using w by (simp add: p2_m53)
  finally have "\<bar>rr ?y - ?w\<bar> < 1 / 2" using y wu by linarith
  then show "rhe (rr ?y) = w" by (rule rhe_near)
qed

lemma wei_to_usd_value:
  assumes "0 \<le> w" "w \<le> 2 ^ 50"
  shows "wei_to_usd w = Inr (Fin (rr (of_int w / 1000000)))"
proof -
  have w: "\<bar>of_int w :: rat\<bar> \<le> 2 ^ 52"
  proof -
    have "w \<le> 2 ^ 52" using assms by simp
    then have "(of_int w :: rat) \<le> of_int (2 ^ 52)" by (simp only: of_int_le_iff)
    then show ?thesis using assms by simp
  qed
  have "rnd (of_int w) = Fin (of_int w)"
    using rr_of_int [of w] rr_moderate [OF w] assms by (simp add: rnd_in_range)
  moreover have "\<bar>rr (of_int w / 1000000)\<bar> < p2 1024" using w by (intro rr_moderate) simp
  ultimately show ?thesis
    by (simp add: wei_to_usd_def wei_units float_of_int_def [of w] py_div_def rnd_in_range)
qed

text \<open>Reading a balance in dollars and converting it back loses nothing: for every balance up to
  2^50 wei (about a billion dollars) the dollar value converts back to exactly that number of wei, so
  burning what was read empties the balance.\<close>

theorem wei_roundtrip:
  assumes "0 \<le> w" "w \<le> 2 ^ 50"
  shows "rbind (wei_to_usd w) usd_to_wei = Inr w"
proof (cases "w = 0")
  case True
  have "rnd 1000000 = Fin 1000000" using wei_units(1) by (simp add: USD_TO_BREATH_WEI_def BREATH_DECIMALS_def)
  then show ?thesis using True wei_to_usd_value [of 0] rhe_of_int [of 0]
    by (simp add: usd_to_wei_def USD_TO_BREATH_WEI_def BREATH_DECIMALS_def)
next
  case False
  then have w: "1 \<le> w" "w \<le> 2 ^ 50" using assms by auto
  note rt = wei_roundtrip_rat [OF w]
  have "\<not> flt (Fin (rr (of_int w / 1000000))) fzero" using rt(3) by simp
  moreover have "fmul (Fin (rr (of_int w / 1000000))) (Fin 1000000) =
      Fin (rr (rr (of_int w / 1000000) * 1000000))"
    using rr_moderate [OF rt(2)] by (simp add: rnd_in_range)
  ultimately show ?thesis
    using rt(1) assms by (simp add: wei_to_usd_value usd_to_wei_def wei_units)
qed

theorem wei_roundtrip_witness: "rbind (wei_to_usd 123456789) usd_to_wei = Inr 123456789"
  by (rule wei_roundtrip) simp_all

section \<open>Nonces\<close>

definition nonces_ok :: "'k rh_adapter \<Rightarrow> bool" where
  "nonces_ok a = (\<forall>n\<in>used_nonces a. n < next_nonce a)"

lemma consume_ok:
  assumes "nonces_ok a"
  shows "consume_next_nonce a =
    (Inr (next_nonce a), a\<lparr>used_nonces := insert (next_nonce a) (used_nonces a), next_nonce := next_nonce a + 1\<rparr>)"
proof -
  have "next_nonce a \<notin> used_nonces a" using assms by (auto simp: nonces_ok_def)
  then show ?thesis by (simp add: consume_next_nonce_def Let_def)
qed

lemma consume_preserves: "nonces_ok a \<Longrightarrow> nonces_ok (snd (consume_next_nonce a))"
  by (auto simp: consume_ok nonces_ok_def)

text \<open>Any contract, with a record of the attestations it is sent and their signatures.\<close>

type_synonym 'k spied = "'k \<times> (attestation \<times> string) list"

definition spied :: "'k chain_calls \<Rightarrow> 'k spied chain_calls" where
  "spied ops =
     \<lparr>cc_breath = (\<lambda>(k, l). cc_breath ops k),
      cc_used_nonces = (\<lambda>signer n (k, l). cc_used_nonces ops signer n k),
      cc_settle_market_loss = (\<lambda>att sg signer (k, l). case cc_settle_market_loss ops att sg signer k of (r, k') \<Rightarrow> (r, k', l @ [(att, sg)])),
      cc_top_up_breath = (\<lambda>w g (k, l). case cc_top_up_breath ops w g k of (r, k') \<Rightarrow> (r, k', l)),
      cc_die = (\<lambda>p (k, l). case cc_die ops p k of (r, k') \<Rightarrow> (r, k', l))\<rparr>"

text \<open>What a caller can do: a breath update at an instant, or a settlement built and signed for the caller, with or
  without an explicit nonce and deadline.  The record also takes the attestations handed out.\<close>

datatype nonce_op = Update int pyfloat | Sign int int int "int option" "int option"

definition nonce_step :: "'k chain_calls \<Rightarrow> (attestation \<Rightarrow> string) \<Rightarrow> 'k spied rh_adapter \<Rightarrow> nonce_op \<Rightarrow> 'k spied rh_adapter" where
  "nonce_step ops sign a x =
     (case x of
        Update now p \<Rightarrow> snd (update_breath_from_pnl (spied ops) sign now p a)
      | Sign now market loss n dl \<Rightarrow>
          (case build_and_sign_settlement sign now market loss n dl a of
             (Inl e, a') \<Rightarrow> a'
           | (Inr issue, a') \<Rightarrow> a'\<lparr>rh_calls := (fst (rh_calls a'), snd (rh_calls a') @ [issue])\<rparr>))"

abbreviation issued :: "'k spied rh_adapter \<Rightarrow> (attestation \<times> string) list" where
  "issued a \<equiv> snd (rh_calls a)"

definition adapter_run ::
  "'k chain_calls \<Rightarrow> (attestation \<Rightarrow> string) \<Rightarrow> 'k spied rh_adapter \<Rightarrow> nonce_op list \<Rightarrow> 'k spied rh_adapter" where
  "adapter_run ops sign a xs = foldl (nonce_step ops sign) a xs"

definition issues_ok :: "(attestation \<Rightarrow> string) \<Rightarrow> 'k spied rh_adapter \<Rightarrow> bool" where
  "issues_ok sign a \<longleftrightarrow> nonces_ok a \<and> distinct (map (\<lambda>(att, sg). nonce att) (issued a)) \<and>
     (\<forall>(att, sg) \<in> set (issued a). nonce att \<in> used_nonces a \<and> sg = sign att)"

text \<open>A loss settlement sends the contract nothing, and then it raises or fails its checks, or exactly one signed
  attestation with a nonce that was free and the loss in the contract's unit.\<close>

lemma settle_loss_issues:
  assumes "nonces_ok a" "settle_loss (spied ops) sign now l a = (e, a')"
  shows "nonces_ok a' \<and> used_nonces a \<subseteq> used_nonces a' \<and>
    (issued a' = issued a \<and> e \<noteq> None \<or>
     (\<exists>att. issued a' = issued a @ [(att, sign att)] \<and> usd_to_wei l = Inr (loss_amount att) \<and>
        nonce att \<notin> used_nonces a \<and> nonce att \<in> used_nonces a'))"
proof (cases "usd_to_wei l")
  case (Inr x)
  have free: "next_nonce a \<notin> used_nonces a" using assms(1) by (auto simp: nonces_ok_def)
  obtain k log where k: "rh_calls a = (k, log)" by (cases "rh_calls a")
  define b where "b = a\<lparr>used_nonces := insert (next_nonce a) (used_nonces a), next_nonce := next_nonce a + 1\<rparr>"
  have b: "consume_next_nonce a = (Inr (next_nonce a), b)" "used_nonces b = insert (next_nonce a) (used_nonces a)"
    "rh_calls b = (k, log)" "next_nonce b = next_nonce a + 1" using consume_ok [OF assms(1)] by (simp_all add: b_def k)
  have nb: "nonces_ok b" using assms(1) by (auto simp: nonces_ok_def b_def)
  have nk: "nonces_ok (b\<lparr>rh_calls := c\<rparr>)" for c using nb by (simp add: nonces_ok_def)
  define att where "att = \<lparr>at_market_id = next_nonce a, loss_amount = x, nonce = next_nonce a, deadline = now + deadline_offset_seconds b\<rparr>"
  consider "a' = b" "e \<noteq> None" | k' where "a' = b\<lparr>rh_calls := (k', log @ [(att, sign att)])\<rparr>"
    using assms(2) by (auto simp: settle_loss_def Inr b(1,3) spied_def Let_def att_def split: sum.splits prod.splits bool.splits)
  then show ?thesis
  proof cases
    case 1
    then show ?thesis using nb b k by auto
  next
    case 2
    then have "nonces_ok a'" using nk by simp
    moreover have "issued a' = issued a @ [(att, sign att)]" "used_nonces a' = insert (nonce att) (used_nonces a)"
      using 2 b k by (simp_all add: att_def)
    moreover have "usd_to_wei l = Inr (loss_amount att)" "nonce att \<notin> used_nonces a" using Inr free by (simp_all add: att_def)
    ultimately show ?thesis by blast
  qed
qed (use assms in \<open>auto simp: settle_loss_def\<close>)

lemma update_cases:
  assumes "update_breath_from_pnl (spied ops) sign now p a = (e, a')"
  obtains (quiet) "used_nonces a' = used_nonces a" "next_nonce a' = next_nonce a" "issued a' = issued a" "\<not> flt p fzero"
    | (loss) "flt p fzero" "settle_loss (spied ops) sign now (fneg p) a = (e, a')"
proof (cases "flt p fzero")
  case True
  then have "\<not> feq p fzero" by (cases p) auto
  then show ?thesis using loss True assms by (simp add: update_breath_from_pnl_def)
next
  case False
  then show ?thesis using quiet assms
    by (auto simp: update_breath_from_pnl_def top_up_def spied_def split: if_splits sum.splits prod.splits)
qed

lemma issues_ok_grown:
  assumes "issues_ok sign a" "nonces_ok a'" "used_nonces a \<subseteq> used_nonces a'"
    and "issued a' = issued a \<or> (\<exists>att. issued a' = issued a @ [(att, sign att)] \<and> nonce att \<notin> used_nonces a \<and> nonce att \<in> used_nonces a')"
  shows "issues_ok sign a'"
  using assms by (force simp: issues_ok_def)

lemma nonce_step_ok:
  assumes "issues_ok sign a" shows "issues_ok sign (nonce_step ops sign a x)"
proof (cases x)
  case (Update now p)
  have ok: "nonces_ok a" using assms by (simp add: issues_ok_def)
  obtain e a' where u: "update_breath_from_pnl (spied ops) sign now p a = (e, a')" by fastforce
  have "issues_ok sign a'"
    using u
  proof (cases rule: update_cases)
    case quiet
    then show ?thesis using assms by (simp add: issues_ok_def nonces_ok_def)
  next
    case loss
    then show ?thesis using settle_loss_issues [OF ok loss(2)] issues_ok_grown [OF assms] by blast
  qed
  then show ?thesis by (simp add: nonce_step_def Update u)
next
  case (Sign now market loss n dl)
  define st where "st = (case n of None \<Rightarrow> consume_next_nonce a
    | Some m \<Rightarrow> if m \<in> used_nonces a then (Inl ReplayAttemptError, a)
                else (Inr m, a\<lparr>used_nonces := insert m (used_nonces a), next_nonce := max (next_nonce a) (m + 1)\<rparr>))"
  have ok: "nonces_ok a" using assms by (simp add: issues_ok_def)
  consider "fst st = Inl ReplayAttemptError" "snd st = a"
    | m c where "m \<notin> used_nonces a" "st = (Inr m, c)" "nonces_ok c" "used_nonces c = insert m (used_nonces a)" "rh_calls c = rh_calls a"
  proof (cases n)
    case None
    then show thesis using ok
      by (intro that(2) [of "next_nonce a" "snd st"]) (auto simp: st_def consume_ok nonces_ok_def less_Suc_eq)
  next
    case (Some m)
    then show thesis
      using that(1) that(2) [of m] ok by (cases "m \<in> used_nonces a") (auto simp: st_def nonces_ok_def less_max_iff_disj)
  qed
  then show ?thesis
  proof cases
    case 1
    then show ?thesis using assms
      by (cases st) (simp add: nonce_step_def Sign build_and_sign_settlement_def st_def [symmetric])
  next
    case 2
    let ?att = "\<lparr>at_market_id = market, loss_amount = loss, nonce = m,
        deadline = (case dl of None \<Rightarrow> now + deadline_offset_seconds c | Some d \<Rightarrow> d)\<rparr>"
    have step: "nonce_step ops sign a x = c\<lparr>rh_calls := (fst (rh_calls a), issued a @ [(?att, sign ?att)])\<rparr>"
      using 2(2,5) by (simp add: nonce_step_def Sign build_and_sign_settlement_def st_def [symmetric] Let_def)
    show ?thesis unfolding step
      by (rule issues_ok_grown [OF assms]) (use 2 in \<open>auto simp: nonces_ok_def\<close>)
  qed
qed

lemma adapter_run_ok:
  assumes "mk_rh_adapter key address_of has_domain offset (k, []) = Inr a" shows "issues_ok sign (adapter_run ops sign a xs)"
proof -
  have "issues_ok sign a" using assms by (auto simp: mk_rh_adapter_def issues_ok_def nonces_ok_def split: if_splits)
  moreover have "issues_ok sign b \<Longrightarrow> issues_ok sign (foldl (nonce_step ops sign) b xs)" for b
    by (induction xs arbitrary: b) (simp_all add: nonce_step_ok)
  ultimately show ?thesis by (simp add: adapter_run_def)
qed

text \<open>C13. The adapter never signs two attestations with the same nonce: over any sequence of breath updates and
  explicit signatures from a fresh adapter, whatever the contract answers, the attestations the contract was sent and
  those handed out carry pairwise different nonces and each its own signature; and an update with a loss that ends
  without an error has sent one more, for the loss in the contract's unit.\<close>

theorem nonces_never_reused:
  assumes "mk_rh_adapter key address_of has_domain offset (k, []) = Inr a"
  shows "distinct (map (\<lambda>(att, sg). nonce att) (issued (adapter_run ops sign a xs))) \<and>
    (\<forall>(att, sg) \<in> set (issued (adapter_run ops sign a xs)). sg = sign att) \<and>
    (\<forall>now p b. flt p fzero \<and> update_breath_from_pnl (spied ops) sign now p (adapter_run ops sign a xs) = (None, b) \<longrightarrow>
       (\<exists>att. issued b = issued (adapter_run ops sign a xs) @ [(att, sign att)] \<and> usd_to_wei (fneg p) = Inr (loss_amount att)))"
proof -
  note ok = adapter_run_ok [OF assms, of sign ops xs]
  have "\<exists>att. issued b = issued (adapter_run ops sign a xs) @ [(att, sign att)] \<and> usd_to_wei (fneg p) = Inr (loss_amount att)"
    if "flt p fzero" "update_breath_from_pnl (spied ops) sign now p (adapter_run ops sign a xs) = (None, b)" for now p b
    using that(2)
  proof (cases rule: update_cases)
    case loss
    then show ?thesis using settle_loss_issues [OF _ loss(2)] ok by (auto simp: issues_ok_def)
  qed (use that(1) in simp)
  then show ?thesis using ok by (auto simp: issues_ok_def)
qed

theorem nonces_never_reused_witness:
  "\<exists>a. mk_rh_adapter ''k'' id True 3600 (fresh_memory_chain, []) = Inr a \<and>
     (let log = issued (adapter_run memory_calls (\<lambda>_. []) a [Update 0 (Fin (- 1)), Sign 0 5 9 (Some 7) None, Sign 0 5 9 None None, Sign 0 5 9 (Some 0) None])
      in map (\<lambda>(att, sg). nonce att) log = [0, 7, 8] \<and> distinct (map (\<lambda>(att, sg). nonce att) log))"
proof -
  let ?xs = "[Update 0 (Fin (- 1)), Sign 0 5 9 (Some 7) None, Sign 0 5 9 None None, Sign 0 5 9 (Some 0) None]"
  define a where "a = \<lparr>signer_address = ''k'', deadline_offset_seconds = 3600, used_nonces = {}, next_nonce = 0,
    rh_calls = (fresh_memory_chain, [] :: (attestation \<times> string) list)\<rparr>"
  have mk: "mk_rh_adapter ''k'' id True 3600 (fresh_memory_chain, []) = Inr a"
    by (simp add: mk_rh_adapter_def a_def)
  have "map (\<lambda>(att, sg). nonce att) (issued (adapter_run memory_calls (\<lambda>_. []) a ?xs)) = [0, 7, 8]"
    unfolding a_def by code_simp
  then show ?thesis using nonces_never_reused [OF mk, of memory_calls "\<lambda>_. []" ?xs] mk by (simp add: Let_def)
qed

section \<open>A restarted adapter\<close>

text \<open>The first \<open>m\<close> nonces of a signer, used up by an earlier process.\<close>

definition burned :: "string \<Rightarrow> int \<Rightarrow> memory_chain \<Rightarrow> bool" where
  "burned signer m k = (\<forall>n. 0 \<le> n \<and> n < m \<longrightarrow> (signer, n) \<in> used_nonce_set k)"

lemma settle_loss_burned:
  assumes "nonces_ok a" "usd_to_wei l = Inr x" "(signer_address a, next_nonce a) \<in> used_nonce_set (rh_calls a)"
  shows "settle_loss memory_calls sign now l a =
    (Some ReplayAttemptError, a\<lparr>used_nonces := insert (next_nonce a) (used_nonces a), next_nonce := next_nonce a + 1\<rparr>)"
  using assms by (simp add: settle_loss_def consume_ok Let_def memory_calls_def)

fun losses :: "(attestation \<Rightarrow> string) \<Rightarrow> int \<Rightarrow> pyfloat list \<Rightarrow> memory_chain rh_adapter \<Rightarrow>
    exc option list \<times> memory_chain rh_adapter" where
  "losses sign now [] a = ([], a)"
| "losses sign now (p # ps) a =
     (case update_breath_from_pnl memory_calls sign now p a of
        (e, a1) \<Rightarrow> (case losses sign now ps a1 of (es, a2) \<Rightarrow> (e # es, a2)))"

text \<open>The nonce counter is not recovered after a restart: against a chain where the signer has used
  the nonces below \<open>m\<close>, a fresh adapter fails its first \<open>m\<close> loss settlements with
  \<open>ReplayAttemptError\<close> and none of them burns any breath.\<close>

theorem restart_loses_settlements:
  assumes "mk_rh_adapter key address_of True offset k = Inr a" "burned (address_of key) m k"
    and "int (length ps) \<le> m" "list_all (\<lambda>p. flt p fzero \<and> isfinite p \<and> fle (Fin (- 1000000)) p) ps"
  shows "losses sign now ps a =
     (replicate (length ps) (Some ReplayAttemptError), snd (losses sign now ps a)) \<and>
    rh_calls (snd (losses sign now ps a)) = k"
proof -
  have wei: "\<exists>x. usd_to_wei (fneg p) = Inr x" if "flt p fzero" "isfinite p" "fle (Fin (- 1000000)) p" for p
  proof -
    from that obtain q where "p = Fin q" by (cases p) simp_all
    with that have q: "p = Fin q" "q < 0" "- 1000000 \<le> q" by simp_all
    have "\<bar>rr (- q * 1000000)\<bar> < p2 1024" using q by (intro rr_moderate) (simp add: abs_if)
    then show ?thesis using q by (simp add: usd_to_wei_def wei_units rnd_in_range)
  qed
  have "\<exists>a'. losses sign now ps a = (replicate (length ps) (Some ReplayAttemptError), a') \<and> rh_calls a' = k"
    if "nonces_ok a" "0 \<le> next_nonce a" "rh_calls a = k" "burned (signer_address a) m k"
      "next_nonce a + int (length ps) \<le> m"
      "list_all (\<lambda>p. flt p fzero \<and> isfinite p \<and> fle (Fin (- 1000000)) p) ps" for a
    using that
  proof (induction ps arbitrary: a)
    case (Cons p ps)
    let ?a = "a\<lparr>used_nonces := insert (next_nonce a) (used_nonces a), next_nonce := next_nonce a + 1\<rparr>"
    obtain x where x: "usd_to_wei (fneg p) = Inr x" using wei Cons.prems(6) by auto
    have "(signer_address a, next_nonce a) \<in> used_nonce_set (rh_calls a)"
      using Cons.prems(2-5) by (simp add: burned_def)
    from settle_loss_burned [OF Cons.prems(1) x this, of sign now]
    have "update_breath_from_pnl memory_calls sign now p a = (Some ReplayAttemptError, ?a)"
      using Cons.prems(6) by (cases p) (auto simp: update_breath_from_pnl_def)
    moreover have "\<exists>a'. losses sign now ps ?a = (replicate (length ps) (Some ReplayAttemptError), a') \<and> rh_calls a' = k"
      using Cons.prems consume_preserves [OF Cons.prems(1)] by (intro Cons.IH) (auto simp: consume_ok)
    ultimately show ?case by auto
  qed simp
  moreover have "nonces_ok a" "next_nonce a = 0" "rh_calls a = k" "signer_address a = address_of key"
    using assms(1) by (auto simp: mk_rh_adapter_def nonces_ok_def split: if_splits)
  ultimately show ?thesis using assms(2-4) by fastforce
qed

theorem restart_loses_settlements_witness:
  "losses (\<lambda>_. []) 0 [Fin (- 5)]
     \<lparr>signer_address = ''k'', deadline_offset_seconds = 3600, used_nonces = {}, next_nonce = 0,
      rh_calls = fresh_memory_chain\<lparr>used_nonce_set := {(''k'', 0)}\<rparr>\<rparr> =
   ([Some ReplayAttemptError], snd (losses (\<lambda>_. []) 0 [Fin (- 5)]
     \<lparr>signer_address = ''k'', deadline_offset_seconds = 3600, used_nonces = {}, next_nonce = 0,
      rh_calls = fresh_memory_chain\<lparr>used_nonce_set := {(''k'', 0)}\<rparr>\<rparr>))"
proof -
  let ?k = "fresh_memory_chain\<lparr>used_nonce_set := {(''k'', 0)}\<rparr>"
  have "mk_rh_adapter ''k'' id True 3600 ?k = Inr \<lparr>signer_address = ''k'', deadline_offset_seconds = 3600,
      used_nonces = {}, next_nonce = 0, rh_calls = ?k\<rparr>"
    by (simp add: mk_rh_adapter_def)
  moreover have "burned (id ''k'') 1 ?k" by (simp add: burned_def)
  ultimately show ?thesis
    using restart_loses_settlements [of "''k''" id 3600 ?k _ 1 "[Fin (- 5)]" "\<lambda>_. []" 0] by simp
qed

section \<open>The breath account\<close>

text \<open>
  What the life loop relies on when it pushes a settled profit or loss to the chain: the account stays
  well formed, a gain never lowers the breath and a loss never raises it.  \<open>le\<close> compares the breath of
  two states.
\<close>

definition pay_all :: "(pyfloat \<Rightarrow> 'c \<Rightarrow> exc option \<times> 'c) \<Rightarrow> 'c \<Rightarrow> pyfloat list \<Rightarrow> 'c" where
  "pay_all pay c ps = foldl (\<lambda>c p. snd (pay p c)) c ps"

locale breath_account =
  fixes pay :: "pyfloat \<Rightarrow> 'c \<Rightarrow> exc option \<times> 'c" and ok :: "'c \<Rightarrow> bool" and le :: "'c \<Rightarrow> 'c \<Rightarrow> bool"
  assumes ok_pay: "ok c \<Longrightarrow> ok (snd (pay p c))"
    and le_refl: "ok c \<Longrightarrow> le c c"
    and le_trans: "le a b \<Longrightarrow> le b c \<Longrightarrow> le a c"
    and gain: "ok c \<Longrightarrow> fle fzero p \<Longrightarrow> le c (snd (pay p c))"
    and loss: "ok c \<Longrightarrow> fle p fzero \<Longrightarrow> le (snd (pay p c)) c"
begin

lemma ok_pay_all: "ok c \<Longrightarrow> ok (pay_all pay c ps)"
  by (induction ps arbitrary: c) (simp_all add: pay_all_def ok_pay)

lemma gains_only: "ok c \<Longrightarrow> list_all (fle fzero) ps \<Longrightarrow> le c (pay_all pay c ps)"
proof (induction ps arbitrary: c)
  case (Cons p ps)
  have "pay_all pay c (p # ps) = pay_all pay (snd (pay p c)) ps" by (simp add: pay_all_def)
  then show ?case using Cons.prems Cons.IH [of "snd (pay p c)"] le_trans [OF gain] ok_pay by auto
qed (simp add: pay_all_def le_refl)

lemma losses_only: "ok c \<Longrightarrow> list_all (\<lambda>p. fle p fzero) ps \<Longrightarrow> le (pay_all pay c ps) c"
proof (induction ps arbitrary: c)
  case (Cons p ps)
  have "pay_all pay c (p # ps) = pay_all pay (snd (pay p c)) ps" by (simp add: pay_all_def)
  then show ?case using Cons.prems Cons.IH [of "snd (pay p c)"] le_trans [OF _ loss] ok_pay by auto
qed (simp add: pay_all_def le_refl)

end

definition scalar_ok :: "scalar_chain \<Rightarrow> bool" where
  "scalar_ok c = (f64 (current_breath c) \<and> fle fzero (current_breath c))"

definition rh_ok :: "memory_chain rh_adapter \<Rightarrow> bool" where
  "rh_ok a = (0 \<le> current_breath_wei (rh_calls a))"

lemma scalar_pay_loss:
  assumes "f64 b" "fle fzero b" "fle p fzero"
  shows "fle (fmax fzero (fadd b p)) b"
  using assms by (cases b; cases p) (auto simp: fmax_def intro!: rnd_le_f64)

lemma scalar_pay_gain:
  assumes "f64 b" "fle fzero b" "fle fzero p"
  shows "fle b (fmax fzero (fadd b p))"
proof -
  have "fle b (fadd b p)" using assms by (cases b; cases p) (auto intro!: rnd_ge_f64)
  moreover have "fle (fadd b p) (fmax fzero (fadd b p))"
    using calculation by (cases "fadd b p") (auto simp: fmax_def)
  ultimately show ?thesis by (rule fle_trans)
qed

lemma f64_fadd_any: "f64 (fadd x y)"
  by (cases x; cases y) auto

interpretation scalar: breath_account scalar_update scalar_ok "\<lambda>c d. fle (current_breath c) (current_breath d)"
proof
  fix c :: scalar_chain and p
  show "scalar_ok (snd (scalar_update p c))"
    using fmax_ge_left [of fzero "fadd (current_breath c) p"] f64_fadd_any by (simp add: scalar_ok_def scalar_update_def)
  assume c: "scalar_ok c"
  show "fle (current_breath c) (current_breath c)"
    using c by (cases "current_breath c") (simp_all add: scalar_ok_def)
  show "fle (current_breath c) (current_breath (snd (scalar_update p c)))" if "fle fzero p"
    using scalar_pay_gain c that by (simp add: scalar_ok_def scalar_update_def)
  show "fle (current_breath (snd (scalar_update p c))) (current_breath c)" if "fle p fzero"
    using scalar_pay_loss c that by (simp add: scalar_ok_def scalar_update_def)
qed (rule fle_trans)

lemma usd_to_wei_nonneg: "usd_to_wei x = Inr w \<Longrightarrow> 0 \<le> w"
proof -
  assume w: "usd_to_wei x = Inr w"
  show ?thesis
  proof (cases x)
    case (Fin q)
    then have q: "0 \<le> q" "py_round (rnd (q * 1000000)) = Inr w"
      using w by (auto simp: usd_to_wei_def wei_units split: if_splits)
    have "fle fzero (rnd (q * 1000000))" using q(1) rnd_ge_f64 [OF f64_0, of "q * 1000000"] by simp
    then show ?thesis using q(2) rhe_mono [of 0] rhe_of_int [of 0] by (cases "rnd (q * 1000000)") auto
  qed (use w in \<open>auto simp: usd_to_wei_def wei_units inf_of_sign_def split: if_splits\<close>)
qed

lemma rh_pay_loss:
  assumes "rh_ok a"
  shows "rh_ok (snd (settle_loss memory_calls sign now l a)) \<and>
    current_breath_wei (rh_calls (snd (settle_loss memory_calls sign now l a))) \<le> current_breath_wei (rh_calls a)"
  using assms
  by (auto simp: rh_ok_def settle_loss_def consume_next_nonce_def memory_calls_def mem_settle_def Let_def
      split: sum.split bool.split if_split dest: usd_to_wei_nonneg)

lemma rh_pay_gain:
  assumes "rh_ok a"
  shows "rh_ok (snd (top_up memory_calls g a)) \<and>
    current_breath_wei (rh_calls a) \<le> current_breath_wei (rh_calls (snd (top_up memory_calls g a)))"
  using assms
  by (auto simp: rh_ok_def top_up_def memory_calls_def mem_top_up_def Let_def
      split: sum.split dest: usd_to_wei_nonneg)

interpretation rh: breath_account "update_breath_from_pnl memory_calls sign now" rh_ok
    "\<lambda>c d. current_breath_wei (rh_calls c) \<le> current_breath_wei (rh_calls d)" for sign now
proof
  fix a :: "memory_chain rh_adapter" and p
  assume a: "rh_ok a"
  show "rh_ok (snd (update_breath_from_pnl memory_calls sign now p a))"
    using a rh_pay_loss [OF a] rh_pay_gain [OF a] by (simp add: update_breath_from_pnl_def)
  show "current_breath_wei (rh_calls a) \<le> current_breath_wei (rh_calls (snd (update_breath_from_pnl memory_calls sign now p a)))"
    if "fle fzero p"
    using that rh_pay_gain [OF a] by (cases p) (auto simp: update_breath_from_pnl_def)
  show "current_breath_wei (rh_calls (snd (update_breath_from_pnl memory_calls sign now p a))) \<le> current_breath_wei (rh_calls a)"
    if "fle p fzero"
    using that rh_pay_loss [OF a] by (cases p) (auto simp: update_breath_from_pnl_def)
qed auto

text \<open>C21. Breath follows the profits and losses on both chain adapters: whatever amounts are pushed, and
  whether or not a settlement reverts, the breath stays non-negative (and an honest float on the scalar
  adapter); a sequence of gains never lowers it and a sequence of losses never raises it.\<close>

theorem breath_follows_pnl:
  assumes "scalar_ok c" "rh_ok a"
  shows "scalar_ok (pay_all scalar_update c ps) \<and>
    rh_ok (pay_all (update_breath_from_pnl memory_calls sign now) a ps) \<and>
    (list_all (fle fzero) ps \<longrightarrow>
       fle (current_breath c) (current_breath (pay_all scalar_update c ps)) \<and>
       current_breath_wei (rh_calls a) \<le>
         current_breath_wei (rh_calls (pay_all (update_breath_from_pnl memory_calls sign now) a ps))) \<and>
    (list_all (\<lambda>p. fle p fzero) ps \<longrightarrow>
       fle (current_breath (pay_all scalar_update c ps)) (current_breath c) \<and>
       current_breath_wei (rh_calls (pay_all (update_breath_from_pnl memory_calls sign now) a ps)) \<le>
         current_breath_wei (rh_calls a))"
  using scalar.ok_pay_all rh.ok_pay_all scalar.gains_only scalar.losses_only rh.gains_only rh.losses_only assms
  by blast

definition demo_adapter :: "memory_chain rh_adapter" where
  "demo_adapter = \<lparr>signer_address = ''k'', deadline_offset_seconds = 3600, used_nonces = {}, next_nonce = 0,
     rh_calls = fresh_memory_chain\<rparr>"

theorem breath_follows_pnl_witness:
  "scalar_ok \<lparr>current_breath = Fin 100\<rparr> \<and> rh_ok demo_adapter \<and>
   fle (current_breath (pay_all scalar_update \<lparr>current_breath = Fin 100\<rparr> [Fin (- 30), Fin (- 90)])) (Fin 100) \<and>
   current_breath_wei (rh_calls (pay_all (update_breath_from_pnl memory_calls (\<lambda>_. []) 0) demo_adapter
      [Fin (- 30), Fin (- 90)])) \<le> 100000000"
proof -
  have ok: "scalar_ok \<lparr>current_breath = Fin 100\<rparr>" "rh_ok demo_adapter"
    unfolding demo_adapter_def by code_simp+
  have "list_all (\<lambda>p. fle p fzero) [Fin (- 30), Fin (- 90)]" by simp
  moreover have "current_breath_wei (rh_calls demo_adapter) = 100000000"
    by (simp add: demo_adapter_def fresh_memory_chain_def USD_TO_BREATH_WEI_def BREATH_DECIMALS_def)
  ultimately show ?thesis
    using breath_follows_pnl [OF ok, of "[Fin (- 30), Fin (- 90)]" "\<lambda>_. []" 0] ok by simp
qed

end
