(* ===== verification/Executor.thy ===== *)
theory Executor
  imports Settlement
begin

text \<open>
  The records-only executor of \<open>agent/data/polymarket_sandbox_executor.py\<close>: an order becomes a bet row
  in the open-bets file and nothing else.

  The market resolver, the ISO parser and printer and the fresh order id (\<open>uuid4\<close>) are parameters.
\<close>

section \<open>State\<close>

text \<open>\<open>MarketInfo\<close>: the \<open>endDate\<close> string, when the market has one.\<close>

record market_info =
  end_date_iso :: "string option"

record executor =
  seen_bet_ids :: "string set"
  broadcast_count :: int

record exec_env =
  market_resolver :: "string \<Rightarrow> market_info option"
  x_settle_lag :: int
  x_parse_iso :: iso_parser
  x_to_iso :: "int \<Rightarrow> string"
  x_nv :: bool

text \<open>The keyword arguments of \<open>place_order\<close>.\<close>

record order =
  o_market_id :: string
  o_side :: side
  o_price :: pyfloat
  o_size_usd :: pyfloat
  o_signal_scores :: "(string, pyfloat) dict option"
  o_storm_at_bet :: "pyfloat option"
  o_edge_at_bet :: "pyfloat option"
  o_min_edge_at_bet :: "pyfloat option"
  o_gamma_at_bet :: "pyfloat option"
  o_eff_min_edge_at_bet :: "pyfloat option"
  o_fill_price :: "pyfloat option"
  o_fee_bps :: "pyfloat option"
  o_spread_paid_usd :: "pyfloat option"
  o_liquidity_cap_usd :: "pyfloat option"

record order_result =
  order_id :: string
  accepted :: bool
  broadcast :: bool
  placed_bet :: bet_record

definition DEFAULT_SETTLE_LAG :: int where "DEFAULT_SETTLE_LAG = 2 * 3600000000"

definition fresh_executor :: executor where
  "fresh_executor = \<lparr>seen_bet_ids = {}, broadcast_count = 0\<rparr>"

section \<open>Operations\<close>

text \<open>\<open>dt + lag\<close> outside the range of \<open>datetime\<close> raises.\<close>

definition derive_expected_settle_ts :: "exec_env \<Rightarrow> string \<Rightarrow> string res" where
  "derive_expected_settle_ts env end_date =
     rbind (parse_polymarket_ts (x_parse_iso env) (JStr end_date)) (\<lambda>dt.
       case dt of
         None \<Rightarrow> Inl ValueError
       | Some t \<Rightarrow>
           if in_datetime_range (t + x_settle_lag env) then Inr (x_to_iso env (t + x_settle_lag env))
           else Inl OverflowError)"

definition bet_of_order :: "exec_env \<Rightarrow> int \<Rightarrow> string \<Rightarrow> string \<Rightarrow> order \<Rightarrow> bet_record" where
  "bet_of_order env now oid expected x =
     \<lparr>bet_id = oid, bet_ts = x_to_iso env now, bet_market_id = o_market_id x, bet_side = o_side x,
      bet_price = o_price x, bet_size_usd = o_size_usd x, expected_settle_ts = expected,
      bet_status = Open,
      signal_scores = (case o_signal_scores x of None \<Rightarrow> [] | Some d \<Rightarrow> d),
      storm_at_bet = o_storm_at_bet x, edge_at_bet = o_edge_at_bet x,
      min_edge_at_bet = o_min_edge_at_bet x, gamma_at_bet = o_gamma_at_bet x,
      eff_min_edge_at_bet = o_eff_min_edge_at_bet x, fill_price = o_fill_price x,
      fee_bps = o_fee_bps x, spread_paid_usd = o_spread_paid_usd x,
      bet_liquidity_cap_usd = o_liquidity_cap_usd x\<rparr>"

text \<open>\<open>place_order\<close>: the order id is remembered before the end date is parsed and the record
  validated, so a failed order keeps its id in the set.\<close>

definition place_order ::
  "exec_env \<Rightarrow> int \<Rightarrow> string \<Rightarrow> order \<Rightarrow> executor \<times> ledger \<Rightarrow> order_result res \<times> executor \<times> ledger" where
  "place_order env now oid x w =
     (case w of (ex, l) \<Rightarrow>
      case market_resolver env (o_market_id x) of
        None \<Rightarrow> (Inl UnknownMarketError, ex, l)
      | Some info \<Rightarrow>
        (case end_date_iso info of
           None \<Rightarrow> (Inl MissingEndDateError, ex, l)
         | Some end_date \<Rightarrow>
           if oid \<in> seen_bet_ids ex then (Inl DuplicateOrderError, ex, l)
           else let ex1 = ex\<lparr>seen_bet_ids := insert oid (seen_bet_ids ex)\<rparr> in
             (case rbind (derive_expected_settle_ts env end_date)
                     (\<lambda>ts. mk_bet_record (x_nv env) (bet_of_order env now oid ts x)) of
                Inl e \<Rightarrow> (Inl e, ex1, l)
              | Inr b \<Rightarrow>
                  (Inr \<lparr>order_id = oid, accepted = True, broadcast = False, placed_bet = b\<rparr>,
                   ex1, append_open_bet b l))))"

section \<open>What an order writes\<close>

lemma place_order_ok [outcome_simps]:
  assumes "place_order env now oid x (ex, l) = (Inr r, ex', l')"
  obtains info e ts where
    "market_resolver env (o_market_id x) = Some info" "end_date_iso info = Some e"
    "oid \<notin> seen_bet_ids ex" "derive_expected_settle_ts env e = Inr ts"
    "placed_bet r = bet_of_order env now oid ts x" "bet_fields_ok (x_nv env) (placed_bet r)"
    "r = \<lparr>order_id = oid, accepted = True, broadcast = False, placed_bet = placed_bet r\<rparr>"
    "ex' = ex\<lparr>seen_bet_ids := insert oid (seen_bet_ids ex)\<rparr>" "l' = append_open_bet (placed_bet r) l"
  using assms
  by (auto simp: place_order_def mk_bet_record_def Let_def split: option.splits if_splits sum.splits)

lemma place_order_failed:
  assumes "place_order env now oid x (ex, l) = (Inl e, ex', l')"
  shows "l' = l \<and> broadcast_count ex' = broadcast_count ex \<and>
    seen_bet_ids ex' \<subseteq> insert oid (seen_bet_ids ex) \<and> seen_bet_ids ex \<subseteq> seen_bet_ids ex'"
  using assms
  by (auto simp: place_order_def Let_def split: option.splits if_splits sum.splits)

section \<open>A run of orders\<close>

fun place_all ::
  "exec_env \<Rightarrow> (int \<times> string \<times> order) list \<Rightarrow> executor \<times> ledger \<Rightarrow> order_result res list \<times> executor \<times> ledger" where
  "place_all env [] w = ([], w)"
| "place_all env ((now, oid, x) # xs) w =
     (case place_order env now oid x w of
        (r, w1) \<Rightarrow> (case place_all env xs w1 of (rs, w2) \<Rightarrow> (r # rs, w2)))"

definition recorded :: "order_result res list \<Rightarrow> bet_record list" where
  "recorded rs = List.map_filter (\<lambda>r. case r of Inl e \<Rightarrow> None | Inr x \<Rightarrow> Some (placed_bet x)) rs"

lemma recorded_simps [simp]:
  "recorded [] = []" "recorded (Inl e # rs) = recorded rs" "recorded (Inr x # rs) = placed_bet x # recorded rs"
  by (simp_all add: recorded_def)

definition rows_of :: "bet_record list \<Rightarrow> json option list" where
  "rows_of bs = map (\<lambda>b. Some (JDict (bet_record_jsonl_dict b))) bs"

definition fresh_bet :: "exec_env \<Rightarrow> executor \<Rightarrow> bet_record \<Rightarrow> bool" where
  "fresh_bet env ex b = (bet_status b = Open \<and> bet_fields_ok (x_nv env) b \<and> bet_id b \<notin> seen_bet_ids ex)"

lemma place_all_recorded:
  assumes "place_all env xs (ex, l) = (rs, ex', l')"
  shows "open_bets l' = open_bets l @ rows_of (recorded rs) \<and> settled_bets l' = settled_bets l \<and>
    broadcast_count ex' = broadcast_count ex \<and> distinct (map bet_id (recorded rs)) \<and>
    list_all (fresh_bet env ex) (recorded rs)"
  using assms
proof (induction xs arbitrary: ex l rs)
  case (Cons o1 xs)
  obtain now oid x where o: "o1 = (now, oid, x)" by (metis prod.exhaust)
  obtain r ex1 l1 where st: "place_order env now oid x (ex, l) = (r, ex1, l1)" by (metis prod.exhaust)
  obtain rs' where rs: "place_all env xs (ex1, l1) = (rs', ex', l')" "rs = r # rs'"
    using Cons.prems st o by (auto split: prod.splits)
  note IH = Cons.IH [OF rs(1)]
  show ?case
  proof (cases r)
    case (Inl e)
    note f = place_order_failed [OF st [unfolded Inl]]
    have "fresh_bet env ex b" if "fresh_bet env ex1 b" for b using that f by (auto simp: fresh_bet_def)
    then show ?thesis using IH f Inl rs(2) by (auto simp: list_all_iff)
  next
    case (Inr y)
    from st [unfolded Inr] obtain ts where p: "oid \<notin> seen_bet_ids ex"
      "placed_bet y = bet_of_order env now oid ts x" "bet_fields_ok (x_nv env) (placed_bet y)"
      "ex1 = ex\<lparr>seen_bet_ids := insert oid (seen_bet_ids ex)\<rparr>" "l1 = append_open_bet (placed_bet y) l"
      by (rule place_order_ok)
    have id: "bet_id (placed_bet y) = oid" "bet_status (placed_bet y) = Open" by (simp_all add: p(2) bet_of_order_def)
    have "fresh_bet env ex b \<and> bet_id b \<noteq> oid" if "fresh_bet env ex1 b" for b
      using that p(4) by (auto simp: fresh_bet_def)
    then show ?thesis using IH p id Inr rs(2) by (auto simp: list_all_iff rows_of_def fresh_bet_def)
  qed
qed (auto simp: rows_of_def)

text \<open>The executor records and never broadcasts: over any sequence of orders, rejected ones
  included, the open-bets file grows by exactly one row per accepted order, in order, each row being an
  open bet that passed validation; the accepted order ids are pairwise different, the settled file is
  untouched and the broadcast counter stays zero.\<close>

theorem orders_recorded_once:
  assumes "place_all env xs (fresh_executor, l) = (rs, ex', l')"
  shows "open_bets l' = open_bets l @ map (\<lambda>b. Some (JDict (bet_record_jsonl_dict b))) (recorded rs) \<and>
    settled_bets l' = settled_bets l \<and> broadcast_count ex' = 0 \<and>
    distinct (map bet_id (recorded rs)) \<and>
    list_all (\<lambda>b. bet_status b = Open \<and> bet_fields_ok (x_nv env) b) (recorded rs) \<and>
    list_all (\<lambda>r. case r of Inl e \<Rightarrow> True | Inr x \<Rightarrow> accepted x \<and> \<not> broadcast x) rs"
proof -
  have "list_all (\<lambda>r. case r of Inl e \<Rightarrow> True | Inr x \<Rightarrow> accepted x \<and> \<not> broadcast x) rs"
    if "place_all env xs (ex, l) = (rs, w')" for env xs ex l rs w'
    using that
  proof (induction xs arbitrary: ex l rs)
    case (Cons o1 xs)
    obtain now oid x where o: "o1 = (now, oid, x)" by (metis prod.exhaust)
    obtain r ex1 l1 where st: "place_order env now oid x (ex, l) = (r, ex1, l1)" by (metis prod.exhaust)
    obtain rs' where rs: "place_all env xs (ex1, l1) = (rs', w')" "rs = r # rs'"
      using Cons.prems st o by (auto split: prod.splits)
    have "case r of Inl e \<Rightarrow> True | Inr x \<Rightarrow> accepted x \<and> \<not> broadcast x"
    proof (cases r)
      case (Inr y)
      from st [unfolded Inr] show ?thesis
        by (rule place_order_ok) (metis Inr order_result.select_convs(2,3) sum.case(2))
    qed simp
    then show ?case using Cons.IH [OF rs(1)] rs(2) by simp
  qed simp
  then show ?thesis using place_all_recorded [OF assms] assms
    by (auto simp: rows_of_def fresh_executor_def list_all_iff fresh_bet_def)
qed

definition demo_exec_env :: exec_env where
  "demo_exec_env = \<lparr>market_resolver = (\<lambda>m. if m = ''m'' then Some \<lparr>end_date_iso = Some ''d''\<rparr> else None),
     x_settle_lag = DEFAULT_SETTLE_LAG, x_parse_iso = (\<lambda>s. Some (10, None)), x_to_iso = (\<lambda>t. ''t''), x_nv = False\<rparr>"

definition demo_order :: "string \<Rightarrow> order" where
  "demo_order m = \<lparr>o_market_id = m, o_side = YES, o_price = Fin (1 / 2), o_size_usd = Fin 10,
     o_signal_scores = None, o_storm_at_bet = None, o_edge_at_bet = None, o_min_edge_at_bet = None,
     o_gamma_at_bet = None, o_eff_min_edge_at_bet = None, o_fill_price = None, o_fee_bps = None,
     o_spread_paid_usd = None, o_liquidity_cap_usd = None\<rparr>"

theorem orders_recorded_once_witness:
  "case place_all demo_exec_env [(5, ''a'', demo_order ''m''), (6, ''b'', demo_order ''x''), (7, ''a'', demo_order ''m'')]
      (fresh_executor, \<lparr>open_bets = [], settled_bets = []\<rparr>) of (rs, ex', l') \<Rightarrow>
     map (\<lambda>r. case r of Inl e \<Rightarrow> Some e | Inr x \<Rightarrow> None) rs = [None, Some UnknownMarketError, Some DuplicateOrderError] \<and>
     length (open_bets l') = 1 \<and> broadcast_count ex' = 0"
proof -
  let ?xs = "[(5, ''a'', demo_order ''m''), (6, ''b'', demo_order ''x''), (7, ''a'', demo_order ''m'')]"
  obtain rs ex' l' where run: "place_all demo_exec_env ?xs
      (fresh_executor, \<lparr>open_bets = [], settled_bets = []\<rparr>) = (rs, ex', l')" by (metis prod.exhaust)
  have "fst (place_all demo_exec_env ?xs (fresh_executor, \<lparr>open_bets = [], settled_bets = []\<rparr>)) = rs"
    by (simp only: run fst_conv)
  moreover have "map (\<lambda>r. case r of Inl e \<Rightarrow> Some e | Inr x \<Rightarrow> None)
      (fst (place_all demo_exec_env ?xs (fresh_executor, \<lparr>open_bets = [], settled_bets = []\<rparr>))) =
     [None, Some UnknownMarketError, Some DuplicateOrderError]"
    by code_simp
  ultimately have m: "map (\<lambda>r. case r of Inl e \<Rightarrow> Some e | Inr x \<Rightarrow> None) rs =
     [None, Some UnknownMarketError, Some DuplicateOrderError]" by simp
  then have "length (recorded rs) = 1" by (auto simp: Cons_eq_map_conv split: sum.splits)
  then show ?thesis using orders_recorded_once [OF run] m run by simp
qed

end
