(* ===== verification/StateErr.thy ===== *)
theory StateErr
  imports Prelude
begin

text \<open>
  Programs that change a state and may raise: a function from the state to a result and the state
  left behind.  A Python exception does not undo the assignments made before it, so the state of a
  failed program is kept.  \<open>wp\<close> is the weakest precondition of such a program for a postcondition on
  normal return and one on exceptions; the \<open>wp_simps\<close> compute it.
\<close>

named_theorems wp_simps \<open>weakest preconditions of programs\<close>

type_synonym ('s, 'a) prog = "'s \<Rightarrow> 'a res \<times> 's"

section \<open>Programs\<close>

definition ret :: "'a \<Rightarrow> ('s, 'a) prog" where
  "ret x s = (Inr x, s)"

definition raise_exc :: "exc \<Rightarrow> ('s, 'a) prog" where
  "raise_exc e s = (Inl e, s)"

definition reads :: "('s \<Rightarrow> 'a) \<Rightarrow> ('s, 'a) prog" where
  "reads f s = (Inr (f s), s)"

definition update :: "('s \<Rightarrow> 's) \<Rightarrow> ('s, unit) prog" where
  "update f s = (Inr (), f s)"

definition lift_res :: "'a res \<Rightarrow> ('s, 'a) prog" where
  "lift_res r s = (r, s)"

definition sbind :: "('s, 'a) prog \<Rightarrow> ('a \<Rightarrow> ('s, 'b) prog) \<Rightarrow> ('s, 'b) prog" where
  "sbind m f s = (case m s of (Inl e, s1) \<Rightarrow> (Inl e, s1) | (Inr x, s1) \<Rightarrow> f x s1)"

definition sthen :: "('s, unit) prog \<Rightarrow> ('s, 'b) prog \<Rightarrow> ('s, 'b) prog" where
  "sthen m n = sbind m (\<lambda>_. n)"

text \<open>\<open>try: m except Exception: h\<close>.\<close>

definition handle :: "('s, 'a) prog \<Rightarrow> (exc \<Rightarrow> ('s, 'a) prog) \<Rightarrow> ('s, 'a) prog" where
  "handle m h s = (case m s of (Inl e, s1) \<Rightarrow> h e s1 | (Inr x, s1) \<Rightarrow> (Inr x, s1))"

definition whenever :: "bool \<Rightarrow> ('s, unit) prog \<Rightarrow> ('s, unit) prog" where
  "whenever b m = (if b then m else ret ())"

text \<open>\<open>for x in xs: f(x)\<close>.\<close>

fun for_each :: "('a \<Rightarrow> ('s, unit) prog) \<Rightarrow> 'a list \<Rightarrow> ('s, unit) prog" where
  "for_each f [] = ret ()"
| "for_each f (x # xs) = sthen (f x) (for_each f xs)"

section \<open>Weakest preconditions\<close>

definition wp :: "('s, 'a) prog \<Rightarrow> ('a \<Rightarrow> 's \<Rightarrow> bool) \<Rightarrow> (exc \<Rightarrow> 's \<Rightarrow> bool) \<Rightarrow> 's \<Rightarrow> bool" where
  "wp m Q E s = (case m s of (Inl e, s1) \<Rightarrow> E e s1 | (Inr x, s1) \<Rightarrow> Q x s1)"

lemma wp_ret [wp_simps]: "wp (ret x) Q E s = Q x s"
  by (simp add: wp_def ret_def)

lemma wp_raise [wp_simps]: "wp (raise_exc e) Q E s = E e s"
  by (simp add: wp_def raise_exc_def)

lemma wp_reads [wp_simps]: "wp (reads f) Q E s = Q (f s) s"
  by (simp add: wp_def reads_def)

lemma wp_update [wp_simps]: "wp (update f) Q E s = Q () (f s)"
  by (simp add: wp_def update_def)

lemma wp_lift [wp_simps]:
  "wp (lift_res r) Q E s = (case r of Inl e \<Rightarrow> E e s | Inr x \<Rightarrow> Q x s)"
  by (cases r) (simp_all add: wp_def lift_res_def)

lemma wp_bind [wp_simps]: "wp (sbind m f) Q E s = wp m (\<lambda>x. wp (f x) Q E) E s"
  by (auto simp: wp_def sbind_def split: sum.splits prod.splits)

lemma wp_then [wp_simps]: "wp (sthen m n) Q E s = wp m (\<lambda>_. wp n Q E) E s"
  by (simp add: sthen_def wp_bind)

lemma wp_handle [wp_simps]: "wp (handle m h) Q E s = wp m Q (\<lambda>e. wp (h e) Q E) s"
  by (auto simp: wp_def handle_def split: sum.splits prod.splits)

lemma wp_when [wp_simps]: "wp (whenever b m) Q E s = (if b then wp m Q E s else Q () s)"
  by (simp add: whenever_def wp_ret)

lemma wp_if [wp_simps]: "wp (if b then m else n) Q E s = (if b then wp m Q E s else wp n Q E s)"
  by simp

lemma wp_mono:
  assumes "wp m Q E s" "\<And>x s1. Q x s1 \<Longrightarrow> Q' x s1" "\<And>e s1. E e s1 \<Longrightarrow> E' e s1"
  shows "wp m Q' E' s"
  using assms by (auto simp: wp_def split: sum.splits prod.splits)

lemma wp_conj:
  "wp m (\<lambda>x s1. Q x s1 \<and> Q' x s1) (\<lambda>e s1. E e s1 \<and> E' e s1) s \<longleftrightarrow> wp m Q E s \<and> wp m Q' E' s"
  by (auto simp: wp_def split: sum.splits prod.splits)

lemma wp_okD: "wp m Q E s \<Longrightarrow> m s = (Inr x, s1) \<Longrightarrow> Q x s1"
  by (simp add: wp_def)

lemma wp_excD: "wp m Q E s \<Longrightarrow> m s = (Inl e, s1) \<Longrightarrow> E e s1"
  by (simp add: wp_def)

lemma wpI: "(\<And>x s1. m s = (Inr x, s1) \<Longrightarrow> Q x s1) \<Longrightarrow> (\<And>e s1. m s = (Inl e, s1) \<Longrightarrow> E e s1) \<Longrightarrow> wp m Q E s"
  by (auto simp: wp_def split: sum.splits prod.splits)

text \<open>A program that keeps an invariant whatever happens, exceptions included.\<close>

definition keeps :: "('s \<Rightarrow> bool) \<Rightarrow> ('s, 'a) prog \<Rightarrow> bool" where
  "keeps I m = (\<forall>s. I s \<longrightarrow> wp m (\<lambda>_. I) (\<lambda>_. I) s)"

lemma keeps_wp: "keeps I m \<Longrightarrow> I s \<Longrightarrow> wp m (\<lambda>_. I) (\<lambda>_. I) s"
  by (simp add: keeps_def)

lemma keepsI: "(\<And>s. I s \<Longrightarrow> wp m (\<lambda>_. I) (\<lambda>_. I) s) \<Longrightarrow> keeps I m"
  by (simp add: keeps_def)

lemma keeps_ret [intro]: "keeps I (ret x)"
  by (simp add: keeps_def wp_simps)

lemma keeps_raise [intro]: "keeps I (raise_exc e)"
  by (simp add: keeps_def wp_simps)

lemma keeps_reads [intro]: "keeps I (reads f)"
  by (simp add: keeps_def wp_simps)

lemma keeps_lift [intro]: "keeps I (lift_res r)"
  by (cases r) (simp_all add: keeps_def wp_simps)

lemma keeps_update: "(\<And>s. I s \<Longrightarrow> I (f s)) \<Longrightarrow> keeps I (update f)"
  by (simp add: keeps_def wp_simps)

lemma keeps_bind [intro]: "keeps I m \<Longrightarrow> (\<And>x. keeps I (f x)) \<Longrightarrow> keeps I (sbind m f)"
  by (auto simp: keeps_def wp_simps intro: wp_mono)

lemma keeps_then [intro]: "keeps I m \<Longrightarrow> keeps I n \<Longrightarrow> keeps I (sthen m n)"
  by (auto simp: sthen_def)

lemma keeps_handle [intro]: "keeps I m \<Longrightarrow> (\<And>e. keeps I (h e)) \<Longrightarrow> keeps I (handle m h)"
  by (auto simp: keeps_def wp_simps intro: wp_mono)

lemma keeps_when [intro]: "(b \<Longrightarrow> keeps I m) \<Longrightarrow> keeps I (whenever b m)"
  by (auto simp: whenever_def)

lemma keeps_if [intro]: "(b \<Longrightarrow> keeps I m) \<Longrightarrow> (\<not> b \<Longrightarrow> keeps I n) \<Longrightarrow> keeps I (if b then m else n)"
  by auto

lemma keeps_for_each [intro]: "(\<And>x. keeps I (f x)) \<Longrightarrow> keeps I (for_each f xs)"
  by (induction xs) auto

section \<open>Running programs\<close>

lemma run_simps:
  "ret x s = (Inr x, s)" "raise_exc e s = (Inl e, s)" "reads f s = (Inr (f s), s)" "update g s = (Inr (), g s)"
  "lift_res r s = (r, s)"
  by (simp_all add: ret_def raise_exc_def reads_def update_def lift_res_def)

lemma sbind_ok:
  "sbind m f s = (Inr y, s') \<longleftrightarrow> (\<exists>x s1. m s = (Inr x, s1) \<and> f x s1 = (Inr y, s'))"
  by (auto simp: sbind_def split: prod.splits sum.splits)

lemma sbind_raises:
  "sbind m f s = (Inl e, s') \<longleftrightarrow> m s = (Inl e, s') \<or> (\<exists>x s1. m s = (Inr x, s1) \<and> f x s1 = (Inl e, s'))"
  by (auto simp: sbind_def split: prod.splits sum.splits)

lemma sthen_ok: "sthen m n s = (Inr y, s') \<longleftrightarrow> (\<exists>s1. m s = (Inr (), s1) \<and> n s1 = (Inr y, s'))"
  by (auto simp: sthen_def sbind_ok)

lemma sbind_assoc_run: "m s = (Inr x, s1) \<Longrightarrow> sbind m f s = f x s1"
  by (simp add: sbind_def)

lemma sthen_run: "m s = (Inr (), s1) \<Longrightarrow> sthen m n s = n s1"
  by (simp add: sthen_def sbind_def)

lemma sbind_fails: "m s = (Inl e, s1) \<Longrightarrow> sbind m f s = (Inl e, s1)"
  by (simp add: sbind_def)

lemma whenever_ok: "whenever b m s = (Inr y, s') \<longleftrightarrow> (if b then m s = (Inr y, s') else s' = s)"
  by (auto simp: whenever_def ret_def)

lemma for_each_update: "for_each (\<lambda>x. update (g x)) xs s = (Inr (), fold g xs s)"
  by (induction xs arbitrary: s) (simp_all add: run_simps sthen_run)

lemmas ok_simps = sbind_ok sthen_ok whenever_ok run_simps

section \<open>Frames\<close>

text \<open>A program that never touches the part of the state \<open>f\<close> reads, not even when it raises.\<close>

definition leaves :: "('s \<Rightarrow> 'b) \<Rightarrow> ('s, 'a) prog \<Rightarrow> bool" where
  "leaves f m = (\<forall>s. f (snd (m s)) = f s)"

named_theorems leaves_intros \<open>introduction rules for programs that leave a part of the state alone\<close>

lemma leavesD: "leaves f m \<Longrightarrow> m s = (r, s1) \<Longrightarrow> f s1 = f s"
  by (metis leaves_def snd_conv)

lemma leaves_ret [leaves_intros]: "leaves f (ret x)"
  by (simp add: leaves_def ret_def)

lemma leaves_raise [leaves_intros]: "leaves f (raise_exc e)"
  by (simp add: leaves_def raise_exc_def)

lemma leaves_reads [leaves_intros]: "leaves f (reads g)"
  by (simp add: leaves_def reads_def)

lemma leaves_lift [leaves_intros]: "leaves f (lift_res r)"
  by (simp add: leaves_def lift_res_def)

lemma leaves_update [leaves_intros]: "(\<And>s. f (g s) = f s) \<Longrightarrow> leaves f (update g)"
  by (simp add: leaves_def update_def)

lemma leaves_bind [leaves_intros]: "leaves f m \<Longrightarrow> (\<And>x. leaves f (k x)) \<Longrightarrow> leaves f (sbind m k)"
  by (auto simp: leaves_def sbind_def split: prod.splits sum.splits) (metis snd_conv)+

lemma leaves_then [leaves_intros]: "leaves f m \<Longrightarrow> leaves f n \<Longrightarrow> leaves f (sthen m n)"
  by (simp add: sthen_def leaves_bind)

lemma leaves_handle [leaves_intros]: "leaves f m \<Longrightarrow> (\<And>e. leaves f (h e)) \<Longrightarrow> leaves f (handle m h)"
  by (auto simp: leaves_def handle_def split: prod.splits sum.splits) (metis snd_conv)+

lemma leaves_whenever [leaves_intros]: "leaves f m \<Longrightarrow> leaves f (whenever b m)"
  by (simp add: whenever_def leaves_ret)

lemma leaves_if [leaves_intros]: "leaves f m \<Longrightarrow> leaves f n \<Longrightarrow> leaves f (if b then m else n)"
  by simp

lemma leaves_for_each [leaves_intros]: "(\<And>x. leaves f (g x)) \<Longrightarrow> leaves f (for_each g xs)"
  by (induction xs) (auto intro: leaves_intros)

lemma leaves_case_option [leaves_intros]:
  "leaves f m \<Longrightarrow> (\<And>x. leaves f (k x)) \<Longrightarrow> leaves f (case v of None \<Rightarrow> m | Some x \<Rightarrow> k x)"
  by (cases v) simp_all

lemma leaves_case_prod [leaves_intros]: "(\<And>x y. leaves f (k x y)) \<Longrightarrow> leaves f (case v of (x, y) \<Rightarrow> k x y)"
  by (cases v) simp

lemma leaves_pair: "leaves f m \<Longrightarrow> leaves g m \<Longrightarrow> leaves (\<lambda>s. (f s, g s)) m"
  by (simp add: leaves_def)

lemma leaves_comp: "leaves f m \<Longrightarrow> leaves (\<lambda>s. h (f s)) m"
  by (simp add: leaves_def)

end
