(* ===== verification/WeightDelta.thy ===== *)
theory WeightDelta
  imports Ledger StateErr
begin

text \<open>
  Operator-approved weight changes: the queue of \<open>agent/runtime/agent_runner.py\<close> and the part of
  \<open>agent/runtime/sandbox_phase2_loop.py\<close> that applies a queued payload to the fusion weights
  (\<open>_apply_weight_delta\<close>), with the projections of the weights the triggers look at.

  A payload is the JSON object the approval route received.  The lock of the queue makes each
  operation atomic, so the operations are functions on its contents.
\<close>

section \<open>The queue\<close>

type_synonym weight_delta = row

record agent_runner =
  rn_pending :: "weight_delta list"

definition enqueue_weight_delta :: "weight_delta \<Rightarrow> agent_runner \<Rightarrow> agent_runner" where
  "enqueue_weight_delta d q = q\<lparr>rn_pending := rn_pending q @ [d]\<rparr>"

definition drain_pending_deltas :: "agent_runner \<Rightarrow> weight_delta list \<times> agent_runner" where
  "drain_pending_deltas q = (rn_pending q, q\<lparr>rn_pending := []\<rparr>)"

definition pending_delta_count :: "agent_runner \<Rightarrow> nat" where
  "pending_delta_count q = length (rn_pending q)"

section \<open>Projections of the weights\<close>

definition REFLECTION_WEIGHT_KEYS :: "string list" where
  "REFLECTION_WEIGHT_KEYS = [''w_r'', ''alpha_0'', ''alpha_1'', ''alpha_2'', ''beta_0'', ''rho'']"

definition weight_snapshot_dict :: "weights \<Rightarrow> (string, pyfloat) dict" where
  "weight_snapshot_dict w =
     [(''w_r'', w_r w), (''alpha_0'', alpha w ! 0), (''alpha_1'', alpha w ! 1), (''alpha_2'', alpha w ! 2),
      (''beta_0'', beta w ! 0), (''rho'', rho w)]"

definition snap :: "weights \<Rightarrow> string \<Rightarrow> pyfloat" where
  "snap w k = dget_default (weight_snapshot_dict w) k fzero"

text \<open>\<open>max(...)\<close> of a generator: the first of the largest values.\<close>

definition max_abs_weight_delta_against :: "weights \<Rightarrow> weights \<Rightarrow> pyfloat" where
  "max_abs_weight_delta_against current base =
     (let ds = map (\<lambda>k. fabs (fsub (snap current k) (snap base k))) REFLECTION_WEIGHT_KEYS
      in fmax_list (hd ds) (tl ds))"

definition max_abs_weight_delta_in_buffer :: "weights list \<Rightarrow> pyfloat" where
  "max_abs_weight_delta_in_buffer buf =
     (if buf = [] then fzero
      else foldl (\<lambda>m k.
             let vs = map (\<lambda>w. snap w k) buf;
                 spread = fsub (fmax_list (hd vs) (tl vs)) (fmin_list (hd vs) (tl vs))
             in if flt m spread then spread else m) fzero REFLECTION_WEIGHT_KEYS)"

section \<open>Applying a payload\<close>

text \<open>The checks on the payload; a JSON integer too large for a float raises \<open>OverflowError\<close>.\<close>

definition delta_key :: "weight_delta \<Rightarrow> string res" where
  "delta_key d =
     (case jget d ''key'' of
        JStr k \<Rightarrow> (if k \<in> set REFLECTION_WEIGHT_KEYS then Inr k else Inl ValueError)
      | _ \<Rightarrow> Inl ValueError)"

definition delta_amount :: "weight_delta \<Rightarrow> pyfloat res" where
  "delta_amount d =
     rbind (case jget d ''delta'' of
              JInt n \<Rightarrow> float_of_int n
            | JFloat x \<Rightarrow> Inr x
            | _ \<Rightarrow> Inl ValueError)
       (\<lambda>x. if isfinite x then Inr x else Inl ValueError)"

definition bump_alpha :: "pyfloat list \<Rightarrow> nat \<Rightarrow> pyfloat \<Rightarrow> pyfloat list res" where
  "bump_alpha as i amount =
     (let new = as[i := fmax fzero (fadd (as ! i) amount)];
          total = fsum new
      in if fle total fzero then Inr (replicate 3 (fdiv fone (Fin 3)))
         else rmap (\<lambda>a. py_div a total) new)"

definition bumped :: "weights \<Rightarrow> string \<Rightarrow> pyfloat \<Rightarrow> weights res" where
  "bumped w key amount =
     (if key = ''w_r'' then
        let x = clampf fzero fone (fadd (w_r w) amount) in Inr (w\<lparr>w_r := x, w_s := fsub fone x\<rparr>)
      else if key \<in> {''alpha_0'', ''alpha_1'', ''alpha_2''} then
        rbind (bump_alpha (alpha w) (if key = ''alpha_0'' then 0 else if key = ''alpha_1'' then 1 else 2) amount)
          (\<lambda>as. Inr (w\<lparr>alpha := as\<rparr>))
      else if key = ''beta_0'' then
        let x = clampf fzero fone (fadd (beta w ! 0) amount) in Inr (w\<lparr>beta := [x, fsub fone x]\<rparr>)
      else Inr (w\<lparr>rho := clampf (Fin (- 1)) fone (fadd (rho w) amount)\<rparr>))"

definition apply_weight_delta :: "bool \<Rightarrow> weights \<Rightarrow> weight_delta \<Rightarrow> weights res" where
  "apply_weight_delta nv w d =
     rbind (delta_key d) (\<lambda>key. rbind (delta_amount d) (\<lambda>amount. rbind (bumped w key amount) (mk_weights nv)))"

section \<open>Draining\<close>

datatype delta_hook =
    WeightDeltaApplied int string pyfloat nat
  | WeightDeltaApplyFailed int weight_delta

text \<open>
  \<open>_drain_and_apply_weight_deltas\<close>: each payload in turn.  A \<open>ValueError\<close>, \<open>TypeError\<close> or
  \<open>KeyError\<close> skips the payload; any other exception leaves the method with the payloads drained.
  \<open>n\<close> is the queue depth reported by the hook, zero after the drain.
\<close>

fun apply_deltas ::
  "bool \<Rightarrow> int \<Rightarrow> nat \<Rightarrow> weight_delta list \<Rightarrow> (weights \<times> delta_hook list, unit) prog" where
  "apply_deltas nv tick n [] s = (Inr (), s)"
| "apply_deltas nv tick n (d # ds) (w, hs) =
     (case apply_weight_delta nv w d of
        Inl e \<Rightarrow>
          if caught e then apply_deltas nv tick n ds (w, hs @ [WeightDeltaApplyFailed tick d]) else (Inl e, (w, hs))
      | Inr w' \<Rightarrow>
          apply_deltas nv tick n ds
            (w', hs @ [WeightDeltaApplied tick
                (case jget d ''key'' of JStr k \<Rightarrow> k | _ \<Rightarrow> [])
                (case delta_amount d of Inr x \<Rightarrow> x | Inl _ \<Rightarrow> fzero) n]))"

section \<open>Rounding of normalised weights\<close>

lemma rr_error_2: "\<bar>q\<bar> \<le> 2 \<Longrightarrow> \<bar>rr q - q\<bar> \<le> p2 (- 52)"
proof -
  assume q: "\<bar>q\<bar> \<le> 2"
  have "lastexp q \<le> - 51"
  proof (cases "q = 0")
    case False
    then have "ilog2 \<bar>q\<bar> \<le> 1" using q ilog2_le [of "\<bar>q\<bar>" 1] by (simp add: p2_def)
    then show ?thesis by (simp add: lastexp_def)
  next
    case True
    have "lastexp 0 \<le> - 51" by code_simp
    then show ?thesis using True by simp
  qed
  then have "p2 (lastexp q) / 2 \<le> p2 (- 51) / 2" by (simp add: p2_mono)
  also have "\<dots> = p2 (- 52)" using p2_add [of "- 52" 1] by (simp add: p2_def)
  finally show ?thesis using rr_error [of q] by linarith
qed

lemma p2_m52: "p2 (- 52) = 1 / 4503599627370496"
  by (simp add: p2_def)

lemma rr_add_relative:
  assumes "dyadic x" "dyadic y" shows "\<bar>rr (x + y) - (x + y)\<bar> \<le> \<bar>x + y\<bar> * p2 (- 53)"
proof (cases "p2 (- 1022) \<le> \<bar>x + y\<bar>")
  case False
  obtain k l where "x = of_int k * p2 (- 1074)" "y = of_int l * p2 (- 1074)"
    using dyadic_multiple assms by metis
  then have xy: "x + y = of_int (k + l) * p2 (- 1074)" by (simp add: distrib_right)
  have "\<bar>of_int (k + l)\<bar> * p2 (- 1074) < p2 52 * p2 (- 1074)"
    using False p2_add [of 52 "- 1074"] unfolding xy by (simp add: abs_mult abs_of_pos)
  then have "\<bar>of_int (k + l) :: rat\<bar> < p2 52" using mult_less_cancel_right_pos [OF p2_pos] by blast
  then have "\<bar>of_int (k + l) :: rat\<bar> < of_int (2 ^ 52)" by (simp add: p2_def)
  then have "\<bar>k + l\<bar> < 2 ^ 52" by (simp only: of_int_abs [symmetric] of_int_less_iff)
  then have "\<bar>k + l\<bar> \<le> 2 ^ 53" by simp
  then have "dyadic (x + y)" unfolding dyadic_def using xy by (intro exI [of _ "k + l"] exI [of _ "- 1074"]) simp
  then show ?thesis using p2_pos [of "- 53"] by (simp add: rr_dyadic del: p2_pos)
qed (rule rr_relative_error)

lemma isclose_one: "\<bar>q - 1\<bar> \<le> 1 / 1000000 \<Longrightarrow> py_isclose (Fin q) fone (rnd (1 / 1000000))"
proof -
  assume q: "\<bar>q - 1\<bar> \<le> 1 / 1000000"
  have "fle (rnd (1 - q)) (rnd (1 / 1000000))" "fle (rnd (- (1 / 1000000))) (rnd (1 - q))"
    using q by (intro rnd_mono; linarith)+
  moreover have "rnd (1 / 1000000) = Fin (rr (1 / 1000000))" "rnd (- (1 / 1000000)) = Fin (- rr (1 / 1000000))"
    using rr_moderate [of "1 / 1000000"] rr_moderate [of "- (1 / 1000000)"] rr_minus [of "1 / 1000000"]
    by (simp_all add: rnd_in_range)
  ultimately have "fle (fabs (rnd (1 - q))) (rnd (1 / 1000000))"
    by (cases "rnd (1 - q)") auto
  then show ?thesis by (simp add: py_isclose_def Let_def fsub_def isinf_def)
qed

lemma rr_2_bounds:
  assumes "0 \<le> q" "q \<le> 2"
  shows "0 \<le> rr q" "rr q \<le> q + 1 / 4503599627370496" "q - 1 / 4503599627370496 \<le> rr q"
    "rnd q = Fin (rr q)"
proof -
  have "\<bar>rr q - q\<bar> \<le> 1 / 4503599627370496" using rr_error_2 [of q] assms unfolding p2_m52 by simp
  then show "rr q \<le> q + 1 / 4503599627370496" "q - 1 / 4503599627370496 \<le> rr q" by linarith+
qed (use rr_nonneg [of q] rr_moderate [of q] assms in \<open>simp_all add: rnd_in_range\<close>)

lemma fsum_three:
  assumes "0 \<le> x" "0 \<le> y" "0 \<le> z" "x \<le> p2 1001" "y \<le> p2 1001" "z \<le> p2 1001" "dyadic x"
  shows "fsum [Fin x, Fin y, Fin z] = Fin (rr (rr (x + y) + z))"
proof -
  have p: "p2 1001 + p2 1001 = p2 1002" "p2 1002 + p2 1002 = p2 1003"
    using p2_add [of 1001 1] p2_add [of 1002 1] by (simp_all add: p2_def)
  have le: "rr q \<le> p2 e" if "q \<le> p2 e" "1000 \<le> e" for q e
  proof -
    have "dyadic (p2 e)" unfolding dyadic_def using that(2) by (intro exI [of _ 1] exI [of _ e]) simp
    then show ?thesis using rr_mono [OF that(1)] by (simp add: rr_dyadic)
  qed
  have a: "0 \<le> rr (x + y)" "rr (x + y) \<le> p2 1002"
    using assms p by (auto intro!: rr_nonneg le)
  then have b: "0 \<le> rr (rr (x + y) + z)" "rr (rr (x + y) + z) \<le> p2 1003"
    using assms p p2_mono [of 1001 1002] by (auto intro!: rr_nonneg le)
  have lt: "p2 1002 < p2 1024" "p2 1003 < p2 1024" by (simp_all add: p2_less_iff)
  have x: "rr x = x" "x < p2 1024" using assms(4,7) p2_mono [of 1001 1002] lt(1) by (simp_all add: rr_dyadic)
  then have "rnd x = Fin x" using assms(1) by (simp add: rnd_in_range)
  moreover have "rnd (x + y) = Fin (rr (x + y))" using a lt(1) by (simp add: rnd_in_range)
  moreover have "rnd (rr (x + y) + z) = Fin (rr (rr (x + y) + z))" using b lt(2) by (simp add: rnd_in_range)
  ultimately show ?thesis by (simp add: fsum_def)
qed

lemma three_sum_close:
  fixes x y z s t :: rat
  assumes "t - (x + y) \<le> (x + y) / 9007199254740992" "x + y - t \<le> (x + y) / 9007199254740992"
    "s - (t + z) \<le> (t + z) / 9007199254740992" "t + z - s \<le> (t + z) / 9007199254740992"
    "0 \<le> t" "0 \<le> x" "0 \<le> y" "0 \<le> z"
  shows "x + y + z \<le> s + s / 100000000" "s - s / 100000000 \<le> x + y + z"
  using assms by (simp_all add: field_simps)

text \<open>Dividing three non-negative floats by their float sum gives weights that sum to one within the
  tolerance of the validator.\<close>

lemma normalise_three_unit:
  fixes x y z :: rat
  defines "s \<equiv> rr (rr (x + y) + z)"
  assumes nonneg: "0 \<le> x" "0 \<le> y" "0 \<le> z" and dy: "dyadic x" "dyadic y" "dyadic z" and s: "0 < s"
  shows "\<exists>p q r. 0 \<le> p \<and> 0 \<le> q \<and> 0 \<le> r \<and>
    rmap (\<lambda>a. py_div a (Fin s)) [Fin x, Fin y, Fin z] = Inr [Fin p, Fin q, Fin r] \<and>
    py_isclose (fsum [Fin p, Fin q, Fin r]) fone (rnd (1 / 1000000)) \<and>
    dyadic p \<and> dyadic q \<and> dyadic r \<and> p \<le> 1 \<and> q \<le> 1 \<and> r \<le> 1 \<and> 1 / 2 \<le> rr (rr (p + q) + r)"
proof -
  define t where "t = rr (x + y)"
  have t: "0 \<le> t" "dyadic t" using nonneg by (simp_all add: t_def rr_nonneg dyadic_rr)
  have "\<bar>t - (x + y)\<bar> \<le> \<bar>x + y\<bar> * (1 / 9007199254740992)"
    using rr_add_relative [OF dy(1,2)] unfolding t_def p2_m53 .
  then have et: "t - (x + y) \<le> (x + y) * (1 / 9007199254740992)" "(x + y) - t \<le> (x + y) * (1 / 9007199254740992)"
    using nonneg(1,2) by (simp_all only: abs_of_nonneg add_nonneg_nonneg abs_le_iff minus_diff_eq)
  have "\<bar>s - (t + z)\<bar> \<le> \<bar>t + z\<bar> * (1 / 9007199254740992)"
    using rr_add_relative [OF t(2) dy(3)] unfolding s_def t_def p2_m53 .
  then have es: "s - (t + z) \<le> (t + z) * (1 / 9007199254740992)" "(t + z) - s \<le> (t + z) * (1 / 9007199254740992)"
    using t(1) nonneg(3) by (simp_all only: abs_of_nonneg add_nonneg_nonneg abs_le_iff minus_diff_eq)
  have sum: "x + y + z \<le> s * (1 + 1 / 100000000)" "s * (1 - 1 / 100000000) \<le> x + y + z"
    using three_sum_close [of t x y s z] et es t(1) nonneg by (simp_all add: distrib_left right_diff_distrib)
  define a b c where "a = x / s" and "b = y / s" and "c = z / s"
  have abc: "0 \<le> a" "0 \<le> b" "0 \<le> c" "a + b + c \<le> 1 + 1 / 100000000" "1 - 1 / 100000000 \<le> a + b + c"
  proof -
    have q: "a + b + c = (x + y + z) / s" by (simp add: a_def b_def c_def add_divide_distrib)
    have "(x + y + z) / s \<le> 1 + 1 / 100000000" using s sum(1) by (subst pos_divide_le_eq) (simp_all only: mult.commute)
    then show "a + b + c \<le> 1 + 1 / 100000000" unfolding q .
    have "1 - 1 / 100000000 \<le> (x + y + z) / s" using s sum(2) by (subst pos_le_divide_eq) (simp_all only: mult.commute)
    then show "1 - 1 / 100000000 \<le> a + b + c" unfolding q .
  qed (use nonneg s in \<open>simp_all add: a_def b_def c_def\<close>)
  have "a \<le> 2" "b \<le> 2" "c \<le> 2" using abc by linarith+
  note ra = rr_2_bounds [OF abc(1) this(1)] and rb = rr_2_bounds [OF abc(2) this(2)]
    and rc = rr_2_bounds [OF abc(3) this(3)]
  have ab: "0 \<le> rr a + rr b" "rr a + rr b \<le> 2" using ra(1-3) rb(1-3) abc by linarith+
  note D = rr_2_bounds [OF ab]
  have abc': "0 \<le> rr (rr a + rr b) + rr c" "rr (rr a + rr b) + rr c \<le> 2"
    using D(1-3) ra(1-3) rb(1-3) rc(1-3) abc by linarith+
  note F = rr_2_bounds [OF abc']
  have near: "\<bar>rr (rr (rr a + rr b) + rr c) - 1\<bar> \<le> 1 / 1000000"
    unfolding abs_le_iff using F(1-3) D(1-3) ra(1-3) rb(1-3) rc(1-3) abc(4,5) by linarith
  moreover have "fsum [Fin (rr a), Fin (rr b), Fin (rr c)] = Fin (rr (rr (rr a + rr b) + rr c))"
    using rr_moderate [of a] abc(1) \<open>a \<le> 2\<close> D(4) F(4) by (simp add: fsum_def rnd_in_range)
  moreover have "rmap (\<lambda>a. py_div a (Fin s)) [Fin x, Fin y, Fin z] = Inr [Fin (rr a), Fin (rr b), Fin (rr c)]"
    using s ra(4) rb(4) rc(4) by (simp add: py_div_def a_def b_def c_def)
  ultimately have close: "py_isclose (fsum [Fin (rr a), Fin (rr b), Fin (rr c)]) fone (rnd (1 / 1000000))"
    and div: "rmap (\<lambda>a. py_div a (Fin s)) [Fin x, Fin y, Fin z] = Inr [Fin (rr a), Fin (rr b), Fin (rr c)]"
    using isclose_one by simp_all
  have "x \<le> t" "y \<le> t" using rr_mono [of x "x + y"] rr_mono [of y "x + y"] nonneg dy by (simp_all add: t_def rr_dyadic)
  moreover have "t \<le> s" "z \<le> s"
    using rr_mono [of t "t + z"] rr_mono [of z "t + z"] nonneg t dy(3) by (simp_all add: s_def t_def [symmetric] rr_dyadic)
  ultimately have "a \<le> 1" "b \<le> 1" "c \<le> 1" using s by (simp_all add: a_def b_def c_def)
  then have "rr a \<le> 1" "rr b \<le> 1" "rr c \<le> 1" using rr_mono [of _ 1] by fastforce+
  moreover have "1 / 2 \<le> rr (rr (rr a + rr b) + rr c)" using near unfolding abs_le_iff by linarith
  ultimately show ?thesis using close div ra(1) rb(1) rc(1)
    by (intro exI [of _ "rr a"] exI [of _ "rr b"] exI [of _ "rr c"]) (simp add: dyadic_rr)
qed

section \<open>An approved change always applies\<close>

lemma not_negative: "fle fzero x \<Longrightarrow> \<not> flt x fzero"
  by (cases x) auto

lemma clampf_f64: "f64 x \<Longrightarrow> f64 lo \<Longrightarrow> f64 hi \<Longrightarrow> f64 (clampf lo hi x)"
  by (simp add: clampf_def)

lemma complement_ok:
  assumes "f64 x" "fle fzero x" "fle x fone"
  shows "fle fzero (fsub fone x)" "fle (fsub fone x) fone" "py_isclose (fadd x (fsub fone x)) fone (rnd (1 / 1000000))"
    "f64 (fsub fone x)"
proof -
  obtain q where q: "x = Fin q" "0 \<le> q" "q \<le> 1" using assms by (cases x) auto
  then have c: "0 \<le> 1 - q" "1 - q \<le> 2" by auto
  note r = rr_2_bounds [OF c]
  have s: "fsub fone x = Fin (rr (1 - q))" using r(4) q by (simp add: fsub_def)
  show "f64 (fsub fone x)" using assms by simp
  show "fle fzero (fsub fone x)" using r(1) s by simp
  show "fle (fsub fone x) fone" using rr_mono [of "1 - q" 1] s q by simp
  have sum: "0 \<le> q + rr (1 - q)" "q + rr (1 - q) \<le> 2" using r(1-3) q by linarith+
  note t = rr_2_bounds [OF sum]
  have "\<bar>rr (q + rr (1 - q)) - 1\<bar> \<le> 1 / 1000000" unfolding abs_le_iff using t(1-3) r(1-3) q by linarith
  then show "py_isclose (fadd x (fsub fone x)) fone (rnd (1 / 1000000))"
    using isclose_one s t(4) q by simp
qed

text \<open>The float weights the loop carries: validated, every component a double, no alpha beyond 2.\<close>

definition live_weights :: "bool \<Rightarrow> weights \<Rightarrow> bool" where
  "live_weights nv w =
     (mk_weights nv w = Inr w \<and> list_all f64 ([w_r w, w_s w, rho w] @ alpha w @ beta w) \<and>
      list_all (\<lambda>a. fle a (Fin 2)) (alpha w))"

lemma live_alpha:
  assumes "live_weights nv w"
  obtains x y z where "alpha w = [Fin x, Fin y, Fin z]" "list_all (\<lambda>q. 0 \<le> q \<and> q \<le> 2 \<and> dyadic q) [x, y, z]"
proof -
  have ok: "length (alpha w) = 3" "list_all f64 (alpha w)" "list_all (\<lambda>a. fle a (Fin 2)) (alpha w)"
    "\<not> list_ex (\<lambda>a. flt a fzero) (alpha w)"
    using assms by (auto simp: live_weights_def mk_weights_Inr weights_fields_ok_def validate_normalised_def Let_def
        split: if_splits)
  then obtain a b c where abc: "alpha w = [a, b, c]"
    by (auto simp: numeral_3_eq_3 length_Suc_conv)
  have "\<exists>q. v = Fin q \<and> 0 \<le> q \<and> q \<le> 2 \<and> dyadic q" if "v \<in> {a, b, c}" for v
    using that ok(2-4) abc by (cases v) (auto simp: f64_dyadic)
  then obtain x y z where q: "a = Fin x" "b = Fin y" "c = Fin z" "0 \<le> x \<and> x \<le> 2 \<and> dyadic x"
    "0 \<le> y \<and> y \<le> 2 \<and> dyadic y" "0 \<le> z \<and> z \<le> 2 \<and> dyadic z"
    by (metis insertCI)
  show ?thesis by (rule that [of x y z]) (use q abc in auto)
qed

lemma bump_component:
  assumes "0 \<le> x" "x \<le> 2" "num a" "fle (fabs a) (Fin (2 ^ 1000))"
  shows "\<exists>q. fmax fzero (fadd (Fin x) a) = Fin q \<and> 0 \<le> q \<and> q \<le> p2 1001 \<and> dyadic q"
proof -
  obtain m where m: "a = Fin m" using assms(3) by (auto elim: numE)
  have p: "p2 1000 = 2 ^ 1000" "p2 1000 + 2 \<le> p2 1001" by (simp_all add: p2_def)
  have "\<bar>m\<bar> \<le> p2 1000" using assms(4) m by (simp add: p)
  then have b: "x + m \<le> p2 1001" "- p2 1001 \<le> x + m" using assms(1,2) p(2) p2_pos [of 1000] by (auto simp: abs_le_iff)
  have dy: "dyadic (p2 1001)" unfolding dyadic_def by (intro exI [of _ 1] exI [of _ 1001]) simp
  have "rr (x + m) \<le> p2 1001" "- p2 1001 \<le> rr (x + m)"
    using rr_mono [OF b(1)] rr_mono [OF b(2)] rr_dyadic [OF dy] rr_minus [of "p2 1001"] by auto
  moreover have "p2 1001 < p2 1024" by (simp add: p2_less_iff)
  ultimately have "fadd (Fin x) a = Fin (rr (x + m))" using m by (simp add: rnd_in_range abs_less_iff)
  then show ?thesis
    using \<open>rr (x + m) \<le> p2 1001\<close> dyadic_rr [of "x + m"] dyadic_of_int [of 0] p2_pos [of 1001]
    by (cases "0 < rr (x + m)") (auto simp: fmax_def intro: less_imp_le)
qed

lemma dyadic_f64: "dyadic q \<Longrightarrow> 0 \<le> q \<Longrightarrow> q \<le> 1 \<Longrightarrow> f64 (Fin q)"
  using rr_moderate [of q] by (simp add: f64_def rnd_in_range rr_dyadic)

lemma bump_alpha_ok:
  assumes "live_weights nv w" "i < 3" "num a" "fle (fabs a) (Fin (2 ^ 1000))"
  shows "\<exists>p q r. bump_alpha (alpha w) i a = Inr [Fin p, Fin q, Fin r] \<and> 0 \<le> p \<and> 0 \<le> q \<and> 0 \<le> r \<and>
    py_isclose (fsum [Fin p, Fin q, Fin r]) fone (rnd (1 / 1000000)) \<and>
    list_all (\<lambda>q. f64 (Fin q) \<and> q \<le> 1) [p, q, r]"
proof -
  obtain x y z where al: "alpha w = [Fin x, Fin y, Fin z]" and ok: "list_all (\<lambda>q. 0 \<le> q \<and> q \<le> 2 \<and> dyadic q) [x, y, z]"
    by (rule live_alpha [OF assms(1)])
  have up: "q \<le> p2 1001" if "q \<le> 2" for q using that p2_mono [of 1 1001] by (simp add: p2_def)
  have "\<exists>x y z. (alpha w)[i := fmax fzero (fadd (alpha w ! i) a)] = [Fin x, Fin y, Fin z] \<and>
      list_all (\<lambda>q. 0 \<le> q \<and> q \<le> p2 1001 \<and> dyadic q) [x, y, z]"
  proof -
    have "i = 0 \<or> i = 1 \<or> i = 2" using assms(2) by auto
    then show ?thesis
      using bump_component [OF _ _ assms(3,4)] ok up al
      by (elim disjE) (force simp: numeral_2_eq_2)+
  qed
  then obtain x y z where new: "(alpha w)[i := fmax fzero (fadd (alpha w ! i) a)] = [Fin x, Fin y, Fin z]"
    and b: "0 \<le> x" "0 \<le> y" "0 \<le> z" "x \<le> p2 1001" "y \<le> p2 1001" "z \<le> p2 1001" "dyadic x" "dyadic y" "dyadic z"
    by auto
  let ?s = "rr (rr (x + y) + z)"
  have total: "fsum [Fin x, Fin y, Fin z] = Fin ?s" using fsum_three [OF b(1-7)] .
  show ?thesis
  proof (cases "0 < ?s")
    case True
    then show ?thesis
      using normalise_three_unit [OF b(1-3) b(7-9) True] new total
      by (fastforce simp: bump_alpha_def Let_def intro: dyadic_f64)
  next
    case False
    have "\<exists>q. fdiv fone (Fin 3) = Fin q \<and> 0 \<le> q \<and> py_isclose (fsum [Fin q, Fin q, Fin q]) fone (rnd (1 / 1000000)) \<and>
        f64 (Fin q) \<and> q \<le> 1"
    proof (intro exI conjI)
      show "fdiv fone (Fin 3) = Fin (6004799503160661 / 18014398509481984)" by code_simp
      show "py_isclose (fsum [Fin (6004799503160661 / 18014398509481984), Fin (6004799503160661 / 18014398509481984),
          Fin (6004799503160661 / 18014398509481984)]) fone (rnd (1 / 1000000))" by code_simp
      show "f64 (Fin (6004799503160661 / 18014398509481984))" by code_simp
    qed simp_all
    then show ?thesis using False new total by (auto simp: bump_alpha_def Let_def numeral_3_eq_3)
  qed
qed

definition only_axis :: "string \<Rightarrow> weights \<Rightarrow> weights \<Rightarrow> bool" where
  "only_axis k w w' =
     ((k \<noteq> ''w_r'' \<longrightarrow> w_r w' = w_r w \<and> w_s w' = w_s w) \<and>
      (k \<notin> {''alpha_0'', ''alpha_1'', ''alpha_2''} \<longrightarrow> alpha w' = alpha w) \<and>
      (k \<noteq> ''beta_0'' \<longrightarrow> beta w' = beta w) \<and> (k \<noteq> ''rho'' \<longrightarrow> rho w' = rho w))"

lemma live_weights_iff:
  "live_weights nv w \<longleftrightarrow> weights_fields_ok nv w \<and> validate_normalised w \<and>
     list_all f64 ([w_r w, w_s w, rho w] @ alpha w @ beta w) \<and> list_all (\<lambda>a. fle a (Fin 2)) (alpha w)"
  by (auto simp: live_weights_def mk_weights_Inr)

lemma bumped_live:
  assumes "live_weights nv w" "k \<in> set REFLECTION_WEIGHT_KEYS" "num a" "fle (fabs a) (Fin (2 ^ 1000))"
  shows "\<exists>w'. bumped w k a = Inr w' \<and> live_weights nv w' \<and> only_axis k w w'"
proof -
  have valid: "weights_fields_ok nv w" "validate_normalised w"
    using assms(1) by (simp_all add: live_weights_iff)
  have f: "f64 (w_r w)" "f64 (rho w)" "list_all f64 (alpha w)" "list_all f64 (beta w)" "length (beta w) = 2"
    "list_all (\<lambda>a. fle a (Fin 2)) (alpha w)" "f64 (w_s w)"
    using assms(1) valid by (auto simp: live_weights_iff weights_fields_ok_def)
  have unit: "f64 (clampf fzero fone (fadd v a)) \<and> fle fzero (clampf fzero fone (fadd v a)) \<and>
      fle (clampf fzero fone (fadd v a)) fone" if "f64 v" for v
  proof -
    have "f64 (fadd v a)" using that assms(3) num_finite by simp
    then show ?thesis using clampf_bounds [of fzero fone "fadd v a"] clampf_f64 by simp
  qed
  consider "k = ''w_r''" | "k \<in> {''alpha_0'', ''alpha_1'', ''alpha_2''}" | "k = ''beta_0''" | "k = ''rho''"
    using assms(2) unfolding REFLECTION_WEIGHT_KEYS_def list.set insert_iff empty_iff by metis
  then show ?thesis
  proof cases
    case 1
    note u = unit [OF f(1)] and c = complement_ok [of "clampf fzero fone (fadd (w_r w) a)"]
    have "live_weights nv (w\<lparr>w_r := clampf fzero fone (fadd (w_r w) a),
        w_s := fsub fone (clampf fzero fone (fadd (w_r w) a))\<rparr>)"
      using u c valid f by (auto simp: live_weights_iff weights_fields_ok_def validate_normalised_def Let_def
          dest: fle_not_NaN split: if_splits)
    then show ?thesis using 1 by (simp add: bumped_def Let_def only_axis_def)
  next
    case 2
    define i :: nat where "i = (if k = ''alpha_0'' then 0 else if k = ''alpha_1'' then 1 else 2)"
    have i: "i < 3" "bumped w k a = rbind (bump_alpha (alpha w) i a) (\<lambda>as. Inr (w\<lparr>alpha := as\<rparr>))"
      using 2 by (auto simp: bumped_def i_def)
    obtain p q r where p: "bump_alpha (alpha w) i a = Inr [Fin p, Fin q, Fin r]" "0 \<le> p" "0 \<le> q" "0 \<le> r"
      "py_isclose (fsum [Fin p, Fin q, Fin r]) fone (rnd (1 / 1000000))" "list_all (\<lambda>q. f64 (Fin q) \<and> q \<le> 1) [p, q, r]"
      using bump_alpha_ok [OF assms(1) i(1) assms(3,4)] by blast
    then have "live_weights nv (w\<lparr>alpha := [Fin p, Fin q, Fin r]\<rparr>)"
      using valid f by (auto simp: live_weights_iff weights_fields_ok_def validate_normalised_def Let_def split: if_splits)
    then show ?thesis using 2 i(2) p(1) by (auto simp: only_axis_def)
  next
    case 3
    obtain b0 b1 where b: "beta w = [b0, b1]" using f(5) by (auto simp: numeral_2_eq_2 length_Suc_conv)
    then have u: "f64 (clampf fzero fone (fadd b0 a)) \<and> fle fzero (clampf fzero fone (fadd b0 a)) \<and>
      fle (clampf fzero fone (fadd b0 a)) fone" using unit f(4) by simp
    note c = complement_ok [of "clampf fzero fone (fadd b0 a)"]
    have "live_weights nv (w\<lparr>beta := [clampf fzero fone (fadd b0 a), fsub fone (clampf fzero fone (fadd b0 a))]\<rparr>)"
      using u c valid f
      by (auto simp: live_weights_iff weights_fields_ok_def validate_normalised_def Let_def fsum_def
          dest: fle_not_NaN not_negative split: if_splits)
    then show ?thesis using 3 b by (simp add: bumped_def Let_def only_axis_def)
  next
    case 4
    have "fle (Fin (- 1)) (clampf (Fin (- 1)) fone (fadd (rho w) a))" "fle (clampf (Fin (- 1)) fone (fadd (rho w) a)) fone"
      using clampf_bounds [of "Fin (- 1)" fone] by auto
    moreover have "f64 (clampf (Fin (- 1)) fone (fadd (rho w) a))"
      using f(2) assms(3) num_finite f64_1 f64_minus [of 1] by (intro clampf_f64) simp_all
    ultimately have "live_weights nv (w\<lparr>rho := clampf (Fin (- 1)) fone (fadd (rho w) a)\<rparr>)"
      using valid f by (auto simp: live_weights_iff weights_fields_ok_def validate_normalised_def Let_def
          dest: fle_not_NaN split: if_splits)
    then show ?thesis using 4 by (simp add: bumped_def only_axis_def)
  qed
qed

text \<open>C28. An approved weight change applies: for a known key and an amount that converts to a finite float of magnitude up
  to 2^1000, a validated set of weights accepts the change without an exception, the result can take the next change, and
  only the axis named by the key moves.  (An integer too large for a float does not convert: it raises.)\<close>

theorem approved_delta_applies:
  assumes "live_weights nv w" "delta_key d = Inr k" "delta_amount d = Inr a" "num a" "fle (fabs a) (Fin (2 ^ 1000))"
  shows "\<exists>w'. apply_weight_delta nv w d = Inr w' \<and> live_weights nv w' \<and> only_axis k w w'"
proof -
  have "k \<in> set REFLECTION_WEIGHT_KEYS" using assms(2) by (auto simp: delta_key_def split: json.splits if_splits)
  from bumped_live [OF assms(1) this assms(4,5)] show ?thesis
    using assms(2,3) by (auto simp: apply_weight_delta_def live_weights_def)
qed

definition demo_weights :: weights where
  "demo_weights = \<lparr>w_r = Fin (1 / 2), w_s = Fin (1 / 2), alpha = [Fin (1 / 2), Fin (1 / 4), Fin (1 / 4)],
     beta = [fone, fzero], rho = fzero\<rparr>"

definition demo_delta :: "string \<Rightarrow> json \<Rightarrow> weight_delta" where
  "demo_delta k v = [(''key'', JStr k), (''delta'', v)]"

theorem approved_delta_applies_witness:
  "live_weights False demo_weights \<and>
   (\<exists>w'. apply_weight_delta False demo_weights (demo_delta ''alpha_1'' (JFloat (Fin (- 1)))) = Inr w' \<and>
     w_r w' = Fin (1 / 2) \<and> beta w' = [fone, fzero])"
proof -
  have l: "live_weights False demo_weights" by code_simp
  have "delta_key (demo_delta ''alpha_1'' (JFloat (Fin (- 1)))) = Inr ''alpha_1''"
    "delta_amount (demo_delta ''alpha_1'' (JFloat (Fin (- 1)))) = Inr (Fin (- 1))"
    by code_simp+
  moreover have "num (Fin (- 1))" unfolding num_def by code_simp
  moreover have "fle (fabs (Fin (- 1))) (Fin (2 ^ 1000))" by simp
  ultimately show ?thesis
    using approved_delta_applies [OF l, of "demo_delta ''alpha_1'' (JFloat (Fin (- 1)))" "''alpha_1''" "Fin (- 1)"] l
    by (auto simp: demo_weights_def only_axis_def)
qed

section \<open>A payload that aborts the drain\<close>

lemma float_of_int_overflow: "float_of_int (2 ^ 1024) = Inl OverflowError"
proof -
  have "dyadic (p2 1024)" unfolding dyadic_def by (intro exI [of _ 1] exI [of _ 1024]) simp
  then have "rr (p2 1024) = p2 1024" by (rule rr_dyadic)
  moreover have "of_int (2 ^ 1024) = p2 1024" by (simp add: p2_def)
  ultimately have "rnd (of_int (2 ^ 1024)) = PInf" by (simp add: rnd_def Let_def abs_of_pos del: of_int_power)
  then show ?thesis by (simp add: float_of_int_def del: of_int_power)
qed

text \<open>An integer amount beyond the range of a double is not skipped like every other malformed
  payload: converting it raises \<open>OverflowError\<close>, which the handler does not catch, so the drain stops,
  the payloads behind it are lost with it and the exception leaves the tick.\<close>

theorem oversized_delta_aborts_drain:
  "apply_deltas nv t n (demo_delta ''rho'' (JInt (2 ^ 1024)) # ds) (w, hs) = (Inl OverflowError, (w, hs)) \<and>
   apply_deltas nv t n (demo_delta ''rho'' (JStr ''x'') # ds) (w, hs) =
     apply_deltas nv t n ds (w, hs @ [WeightDeltaApplyFailed t (demo_delta ''rho'' (JStr ''x''))])"
proof
  have "apply_weight_delta nv w (demo_delta ''rho'' (JInt (2 ^ 1024))) = Inl OverflowError"
  proof -
    have "delta_key (demo_delta ''rho'' (JInt (2 ^ 1024))) = Inr ''rho''"
      by (simp add: delta_key_def demo_delta_def jget_def REFLECTION_WEIGHT_KEYS_def)
    moreover have "delta_amount (demo_delta ''rho'' (JInt (2 ^ 1024))) = Inl OverflowError"
      using float_of_int_overflow by (simp add: delta_amount_def demo_delta_def jget_def)
    ultimately show ?thesis by (simp add: apply_weight_delta_def)
  qed
  then show "apply_deltas nv t n (demo_delta ''rho'' (JInt (2 ^ 1024)) # ds) (w, hs) = (Inl OverflowError, (w, hs))"
    by (simp add: caught_def)
  have "apply_weight_delta nv w (demo_delta ''rho'' (JStr ''x'')) = Inl ValueError"
  proof -
    have "delta_key (demo_delta ''rho'' (JStr ''x'')) = Inr ''rho''" by code_simp
    moreover have "delta_amount (demo_delta ''rho'' (JStr ''x'')) = Inl ValueError" by code_simp
    ultimately show ?thesis by (simp add: apply_weight_delta_def)
  qed
  then show "apply_deltas nv t n (demo_delta ''rho'' (JStr ''x'') # ds) (w, hs) =
     apply_deltas nv t n ds (w, hs @ [WeightDeltaApplyFailed t (demo_delta ''rho'' (JStr ''x''))])"
    by (simp add: caught_def)
qed

end
