(* ===== verification/LoopState.thy ===== *)
theory LoopState
  imports Decision CostGuard Tribute Poller Executor Chain WeightDelta "HOL-Library.Char_ord"
    "HOL-Library.List_Lexorder"
begin

text \<open>
  The state of the sandbox life loop (\<open>agent/runtime/sandbox_phase2_loop.py\<close>), what it keeps on disk
  (\<open>agent/data/sandbox_state.py\<close>) and its collaborators.

  One \<open>'c loop\<close> is the object with the files it owns; \<open>'c\<close> is the state of the chain adapter.  The
  poller, the executor, the decision engine, the cost guard and the weight queue are the models of the
  other theories; the clock, the market inputs, the tribute policy and the gods' dice, the reflection
  engine, the advisor, hashing, formatting and the power function are parameters (\<open>loop_env\<close>).  A run
  of a collaborator is a function of how often it was asked (\<open>lp_clocks\<close>, \<open>lp_rolls\<close>, \<open>lp_uuids\<close>).
  The weight updater of the poller may hold the loop and reassign its weights
  (\<open>agent/backtest/settlement_learner.py\<close>): \<open>le_learn\<close> is that assignment, the identity otherwise.
\<close>

section \<open>Inputs and results\<close>

record tick_inputs =
  ti_market_id :: string
  ti_signals :: "(string, signal) dict"
  ti_price :: pyfloat
  ti_liquidity_cap_usd :: pyfloat
  ti_cross_market_signal :: pyfloat
  ti_fill_price :: "pyfloat option"
  ti_fee_bps :: "pyfloat option"
  ti_half_spread_frac :: "pyfloat option"

record tick_result =
  tr_tick :: int
  tr_action :: action
  tr_breath_after :: pyfloat
  tr_bankroll_after :: pyfloat
  tr_poll_settled :: nat
  tr_poll_pending :: nat
  tr_died :: bool

record run_summary =
  ticks_completed :: nat
  bets_placed :: nat
  no_bets_emitted :: nat
  settlements_processed :: nat
  rs_died :: bool
  rs_receipt :: "death_receipt option"
  final_breath :: pyfloat
  final_bankroll_usd :: pyfloat

record reconstructed =
  rc_last_tick :: int
  rc_disk_breath :: pyfloat
  rc_chain_breath :: pyfloat
  rc_cold_start :: bool

section \<open>Files\<close>

record snapshot =
  sn_ts :: string
  sn_phase :: phase
  sn_breath :: pyfloat
  sn_bankroll_usd :: pyfloat
  sn_phase_age_days :: pyfloat
  sn_open_bet_ids :: "string list"
  sn_last_tick :: int
  sn_incarnation_number :: int
  sn_weights :: "weights option"
  sn_desperate :: bool
  sn_pending_proposals :: "string list"

definition mk_snapshot :: "bool \<Rightarrow> snapshot \<Rightarrow> snapshot res" where
  "mk_snapshot nv s =
     (if pyd_ge nv fzero (sn_breath s) \<and> pyd_ge nv fzero (sn_phase_age_days s) \<and>
         - 1 \<le> sn_last_tick s \<and> 0 \<le> sn_incarnation_number s
      then Inr s else Inl ValidationError)"

record decision_record =
  dr_tick :: int
  dr_ts :: string
  dr_market_id :: "string option"
  dr_kind :: action_kind
  dr_size_usd :: pyfloat
  dr_side :: "side option"
  dr_edge_pct :: "pyfloat option"
  dr_no_bet_reason :: "no_bet_reason option"
  dr_breath_after :: pyfloat
  dr_bankroll_usd_after :: pyfloat
  dr_odds_yes :: "pyfloat option"
  dr_odds_no :: "pyfloat option"
  dr_fee_floor_pct :: "pyfloat option"
  dr_signal_scores :: "(string, pyfloat) dict"

definition unit_opt :: "bool \<Rightarrow> pyfloat option \<Rightarrow> bool" where
  "unit_opt nv x = (case x of None \<Rightarrow> True | Some v \<Rightarrow> pyd_ge nv fzero v \<and> pyd_le nv fone v)"

definition mk_decision_record :: "bool \<Rightarrow> decision_record \<Rightarrow> decision_record res" where
  "mk_decision_record nv d =
     (if 0 \<le> dr_tick d \<and> pyd_ge nv fzero (dr_breath_after d) \<and>
         unit_opt nv (dr_odds_yes d) \<and> unit_opt nv (dr_odds_no d)
      then Inr d else Inl ValidationError)"

text \<open>
  \<open>append_decision\<close>: the row without the living-stage fields that are unset.  The text of a reason is
  the parameter \<open>text_of\<close>.
\<close>

definition opt_str :: "string option \<Rightarrow> json" where
  "opt_str x = (case x of None \<Rightarrow> JNull | Some s \<Rightarrow> JStr s)"

definition DECISION_LIVING_KEYS :: "string list" where
  "DECISION_LIVING_KEYS = [''odds_yes'', ''odds_no'', ''fee_floor_pct'']"

definition decision_row :: "(no_bet_reason \<Rightarrow> string) \<Rightarrow> decision_record \<Rightarrow> row" where
  "decision_row text_of d =
     filter (\<lambda>(k, v). \<not> (k \<in> set DECISION_LIVING_KEYS \<and> v = JNull) \<and> \<not> (k = ''signal_scores'' \<and> v = JDict []))
      [(''tick'', JInt (dr_tick d)), (''ts'', JStr (dr_ts d)), (''market_id'', opt_str (dr_market_id d)),
       (''kind'', JStr (case dr_kind d of BET \<Rightarrow> ''BET'' | NO_BET \<Rightarrow> ''NO_BET'')),
       (''size_usd'', JFloat (dr_size_usd d)),
       (''side'', opt_str (map_option (\<lambda>s. case s of YES \<Rightarrow> ''YES'' | NO \<Rightarrow> ''NO'') (dr_side d))),
       (''edge_pct'', opt_json (dr_edge_pct d)),
       (''no_bet_reason'', opt_str (map_option text_of (dr_no_bet_reason d))),
       (''breath_after'', JFloat (dr_breath_after d)),
       (''bankroll_usd_after'', JFloat (dr_bankroll_usd_after d)),
       (''odds_yes'', opt_json (dr_odds_yes d)), (''odds_no'', opt_json (dr_odds_no d)),
       (''fee_floor_pct'', opt_json (dr_fee_floor_pct d)),
       (''signal_scores'', JDict (map (\<lambda>(k, v). (k, JFloat v)) (dr_signal_scores d)))]"

text \<open>A proposal: its id, its status and its other fields.\<close>

datatype proposal_status = Pending | Approved | Rejected

record proposal =
  p_id :: string
  p_status :: proposal_status
  p_fields :: row

definition status_text :: "proposal_status \<Rightarrow> string" where
  "status_text s = (case s of Pending \<Rightarrow> ''pending'' | Approved \<Rightarrow> ''approved'' | Rejected \<Rightarrow> ''rejected'')"

definition proposal_row :: "proposal \<Rightarrow> row" where
  "proposal_row p =
     (''proposal_id'', JStr (p_id p)) # (''status'', JStr (status_text (p_status p))) #
       filter (\<lambda>(k, v). k \<notin> {''proposal_id'', ''status''}) (p_fields p)"

datatype reflection_trigger = TickInterval | WeightDeltaTrigger
datatype advisor_trigger = AdvisorTickInterval | WeightStability

record reflection_row =
  rf_id :: string
  rf_ts :: string
  rf_trigger :: reflection_trigger
  rf_narrative :: string
  rf_weight_snapshot :: "(string, pyfloat) dict"
  rf_recent_pnl_window :: pyfloat
  rf_llm_cost_usd :: pyfloat

record disk =
  dk_snapshot :: "snapshot option"
  dk_decisions :: "json option list"
  dk_proposals :: "json option list"
  dk_reflections :: "reflection_row list"

section \<open>Collaborators and configuration\<close>

text \<open>What a tribute policy may return: an integer, a float or something that is no number.\<close>

datatype offer = NotANumber | OfferInt int | OfferFloat pyfloat

record death_args =
  da_agent_id :: string
  da_bankroll_usd :: pyfloat
  da_last_tick :: int
  da_final_weights_hash :: string
  da_memory_bank_cid :: string
  da_last_words :: string

text \<open>What the reflection engine is asked: the tick, the trigger, the market and the vitals.\<close>

record reflection_payload =
  rp_tick :: int
  rp_ts :: string
  rp_trigger :: reflection_trigger
  rp_phase :: phase
  rp_vitals :: vitals
  rp_weights :: weights
  rp_action :: action
  rp_market_id :: "string option"

record performance_window =
  pf_tick :: int
  pf_ts :: int
  pf_agent_id :: string
  pf_phase :: phase
  pf_current_weights :: weights
  pf_baseline_weights :: weights
  pf_recent_pnl_window_usd :: pyfloat
  pf_trigger :: advisor_trigger
  pf_recent_pnl :: "pyfloat list"
  pf_weight_trajectory :: "weights list"
  pf_recent_reflections :: "string list"
  pf_tick_count :: int

record 'c loop_env =
  le_nv :: bool
  le_clock :: "nat \<Rightarrow> int"
  le_iso :: "int \<Rightarrow> string"
  le_poll :: "'c poll_env"
  le_learn :: "(string, pyfloat) dict \<Rightarrow> settlement_result \<Rightarrow> weights \<Rightarrow> weights"
  le_exec :: exec_env
  le_uuid :: "nat \<Rightarrow> string"
  le_engine :: engine_config
  le_read_breath :: "'c \<Rightarrow> pyfloat res"
  le_kill :: "death_args \<Rightarrow> 'c \<Rightarrow> death_receipt res \<times> 'c"
  le_inputs :: "int \<Rightarrow> int \<Rightarrow> tick_inputs option"
  le_tribute_policy :: "(int \<Rightarrow> pyfloat \<Rightarrow> pyfloat \<Rightarrow> offer res) option"
  le_dice :: "nat \<Rightarrow> pyfloat"
  le_reflect :: "(reflection_payload \<Rightarrow> bool \<Rightarrow> string res) option"
  le_advisor :: "performance_window \<Rightarrow> proposal list res"
  le_half_pow :: "pyfloat \<Rightarrow> pyfloat"
  le_weights_hash :: "weights \<Rightarrow> string"
  le_last_words :: "string option"
  le_last_words_template :: "int \<Rightarrow> pyfloat \<Rightarrow> string"
  le_reason_text :: "no_bet_reason \<Rightarrow> string"
  le_load_snapshot :: "snapshot \<Rightarrow> snapshot res"

record loop_config =
  lc_agent_id :: string
  lc_memory_bank_cid :: string
  lc_poll :: poll_config
  lc_value_betting :: bool
  lc_price_floor :: "pyfloat option"
  lc_tribute_breath :: pyfloat
  lc_storm_enabled :: bool
  lc_storm_tau :: pyfloat
  lc_storm_scale :: pyfloat
  lc_divine_tithe :: bool
  lc_tithe_every :: int
  lc_tithe_amount_usd :: pyfloat
  lc_tithe_breath_cost :: pyfloat
  lc_record_living :: bool
  lc_incarnation :: int
  lc_initial_breath :: pyfloat
  lc_initial_bankroll_usd :: pyfloat
  lc_initial_weights :: weights
  lc_initial_phase :: phase
  lc_reflection_interval :: int
  lc_reflection_threshold :: pyfloat
  lc_advisor_interval :: int
  lc_advisor_window :: nat
  lc_advisor_threshold :: pyfloat
  lc_force_terminal :: bool
  lc_populate_window :: bool

section \<open>The constructor\<close>

text \<open>
  The checks of \<open>__init__\<close> in their order.  \<open>scale\<close> is the \<open>storm_scale\<close> argument; the value kept is
  a tenth of the initial breath when it is absent.  \<open>interval\<close> and \<open>threshold\<close> are the resolved
  reflection settings (argument, else environment, else default).
\<close>

definition STORM_HALF_LIFE_HOURS :: pyfloat where "STORM_HALF_LIFE_HOURS = Fin 48"
definition DEFAULT_REFLECTION_TICK_INTERVAL :: int where "DEFAULT_REFLECTION_TICK_INTERVAL = 10"
definition DEFAULT_REFLECTION_WEIGHT_DELTA_THRESHOLD :: pyfloat where
  "DEFAULT_REFLECTION_WEIGHT_DELTA_THRESHOLD = rnd (5 / 100)"
definition REFLECTION_PER_CALL_USD_EST :: pyfloat where "REFLECTION_PER_CALL_USD_EST = rnd (15 / 10000)"
definition REFLECTION_PNL_WINDOW :: nat where "REFLECTION_PNL_WINDOW = 50"

definition resolve_tick_interval :: "(string \<Rightarrow> int res) \<Rightarrow> int option \<Rightarrow> string option \<Rightarrow> int res" where
  "resolve_tick_interval py_int explicit raw =
     rbind (case explicit of
              Some v \<Rightarrow> Inr v
            | None \<Rightarrow> (case raw of None \<Rightarrow> Inr DEFAULT_REFLECTION_TICK_INTERVAL | Some s \<Rightarrow> py_int s))
       (\<lambda>v. if v \<le> 0 then Inl ValueError else Inr v)"

definition resolve_weight_delta_threshold :: "pyfloat option \<Rightarrow> string option \<Rightarrow> pyfloat res" where
  "resolve_weight_delta_threshold explicit raw =
     rbind (case explicit of
              Some v \<Rightarrow> Inr v
            | None \<Rightarrow> (case raw of None \<Rightarrow> Inr DEFAULT_REFLECTION_WEIGHT_DELTA_THRESHOLD | Some s \<Rightarrow> py_float s))
       (\<lambda>v. if fle v fzero then Inl ValueError else Inr v)"

definition storm_scale_of :: "pyfloat option \<Rightarrow> pyfloat \<Rightarrow> pyfloat" where
  "storm_scale_of scale initial_breath =
     (case scale of None \<Rightarrow> fmul initial_breath (rnd (10 / 100)) | Some v \<Rightarrow> v)"

definition check_loop_config :: "bool \<Rightarrow> bool \<Rightarrow> pyfloat option \<Rightarrow> loop_config \<Rightarrow> unit res" where
  "check_loop_config has_policy has_rng scale c =
     rbind (guard_res (\<not> (has_policy \<and> \<not> has_rng)) RuntimeError) (\<lambda>_.
     rbind (guard_res (\<not> fle (lc_tribute_breath c) fzero) RuntimeError) (\<lambda>_.
     rbind (guard_res (\<not> (lc_divine_tithe c \<and>
        (lc_tithe_every c < 1 \<or>
         \<not> isfinite (lc_tithe_amount_usd c) \<or> flt (lc_tithe_amount_usd c) fzero \<or>
         \<not> isfinite (lc_tithe_breath_cost c) \<or> flt (lc_tithe_breath_cost c) fzero))) RuntimeError) (\<lambda>_.
     rbind (guard_res (\<not> (lc_storm_enabled c \<and> \<not> lc_value_betting c)) RuntimeError) (\<lambda>_.
     rbind (guard_res (\<not> (lc_storm_enabled c \<and> fle (lc_initial_breath c) fzero)) RuntimeError) (\<lambda>_.
     rbind (guard_res (isfinite (lc_storm_tau c) \<and> flt fzero (lc_storm_tau c) \<and> fle (lc_storm_tau c) fone)
        RuntimeError) (\<lambda>_.
     rbind (guard_res (case scale of None \<Rightarrow> True | Some v \<Rightarrow> isfinite v \<and> \<not> fle v fzero) RuntimeError) (\<lambda>_.
     rbind (guard_res (0 < lc_advisor_interval c) ValueError) (\<lambda>_.
     rbind (guard_res (0 < lc_advisor_window c) ValueError) (\<lambda>_.
     guard_res (\<not> fle (lc_advisor_threshold c) fzero) ValueError)))))))))"

section \<open>State\<close>

record storm_state =
  st_state :: pyfloat
  st_storm :: pyfloat
  st_last_breath :: "pyfloat option"
  st_last_ts :: "int option"
  st_skip_next :: bool

datatype loop_hook =
    ForceTerminalArmed pyfloat
  | BreathDivergence pyfloat pyfloat int
  | DeltaHook delta_hook
  | DecisionTelemetry int action_kind "string option" "string option" "(string, pyfloat) dict option"
  | TributeHook int pyfloat bool pyfloat pyfloat pyfloat
  | TitheHook int pyfloat pyfloat pyfloat pyfloat
  | AgentDied int death_receipt pyfloat string string
  | ReflectionSkipped reflection_trigger int pyfloat
  | ReflectionEmitted string reflection_trigger int pyfloat pyfloat
  | AdvisorFailed advisor_trigger int exc
  | AdvisorFired advisor_trigger int nat nat

record 'c loop =
  lp_world :: "'c poll_world"
  lp_exec :: executor
  lp_engine :: engine_state
  lp_disk :: disk
  lp_tick_counter :: int
  lp_weights :: weights
  lp_breath :: pyfloat
  lp_bankroll_usd :: pyfloat
  lp_phase :: phase
  lp_desperate :: bool
  lp_open_bet_ids :: "string list"
  lp_alive :: bool
  lp_receipt :: "death_receipt option"
  lp_force_pending :: bool
  lp_storm :: storm_state
  lp_markets :: int
  lp_guard :: cost_guard
  lp_last_reflection_tick :: int
  lp_last_reflection_weights :: weights
  lp_ring :: "weights list"
  lp_last_advisor_tick :: int
  lp_pending :: "string list"
  lp_queue :: agent_runner
  lp_hooks :: "loop_hook list"
  lp_clocks :: nat
  lp_rolls :: nat
  lp_uuids :: nat

definition calm :: storm_state where
  "calm = \<lparr>st_state = fzero, st_storm = fzero, st_last_breath = None, st_last_ts = None, st_skip_next = False\<rparr>"

text \<open>A constructed loop over the files, chain and ledger it is given.\<close>

definition mk_loop ::
  "loop_config \<Rightarrow> cost_guard \<Rightarrow> engine_state \<Rightarrow> agent_runner \<Rightarrow> disk \<Rightarrow> 'c poll_world \<Rightarrow> 'c loop" where
  "mk_loop c g en q d w =
     \<lparr>lp_world = w, lp_exec = fresh_executor, lp_engine = en, lp_disk = d, lp_tick_counter = 0,
      lp_weights = lc_initial_weights c, lp_breath = lc_initial_breath c,
      lp_bankroll_usd = lc_initial_bankroll_usd c, lp_phase = lc_initial_phase c, lp_desperate = False,
      lp_open_bet_ids = [], lp_alive = True, lp_receipt = None, lp_force_pending = False, lp_storm = calm,
      lp_markets = 0, lp_guard = g, lp_last_reflection_tick = - 1,
      lp_last_reflection_weights = lc_initial_weights c, lp_ring = [], lp_last_advisor_tick = - 1,
      lp_pending = [], lp_queue = q, lp_hooks = [], lp_clocks = 0, lp_rolls = 0, lp_uuids = 0\<rparr>"

end
