(* ===== verification/Loop.thy ===== *)
theory Loop
  imports LoopState
begin

text \<open>
  The operations of the sandbox life loop (\<open>agent/runtime/sandbox_phase2_loop.py\<close>): reconstruction,
  the tick with its steps, the altar, the rent, death, reflection and advice, and the driver.  Each is a
  program over the loop state, so an exception leaves behind exactly the assignments made before it.
\<close>

section \<open>Primitive steps\<close>

definition read_clock :: "'c loop_env \<Rightarrow> ('c loop, int) prog" where
  "read_clock env s = (Inr (le_clock env (lp_clocks s)), s\<lparr>lp_clocks := Suc (lp_clocks s)\<rparr>)"

definition emit_hook :: "loop_hook \<Rightarrow> ('c loop, unit) prog" where
  "emit_hook h = update (\<lambda>s. s\<lparr>lp_hooks := lp_hooks s @ [h]\<rparr>)"

definition chain_breath :: "'c loop_env \<Rightarrow> ('c loop, pyfloat) prog" where
  "chain_breath env = sbind (reads (\<lambda>s. le_read_breath env (pw_chain (lp_world s)))) lift_res"

definition chain_push :: "'c loop_env \<Rightarrow> pyfloat \<Rightarrow> ('c loop, unit) prog" where
  "chain_push env pnl s =
     (case pe_chain (le_poll env) pnl (pw_chain (lp_world s)) of
        (x, c) \<Rightarrow>
          (case x of None \<Rightarrow> Inr () | Some e \<Rightarrow> Inl e, s\<lparr>lp_world := (lp_world s)\<lparr>pw_chain := c\<rparr>\<rparr>))"

definition refresh_breath :: "'c loop_env \<Rightarrow> ('c loop, unit) prog" where
  "refresh_breath env = sbind (chain_breath env) (\<lambda>b. update (\<lambda>s. s\<lparr>lp_breath := b\<rparr>))"

definition append_decision :: "'c loop_env \<Rightarrow> decision_record \<Rightarrow> ('c loop, unit) prog" where
  "append_decision env d = update (\<lambda>s. s\<lparr>lp_disk := (lp_disk s)\<lparr>dk_decisions :=
     dk_decisions (lp_disk s) @ [Some (JDict (decision_row (le_reason_text env) d))]\<rparr>\<rparr>)"

definition append_proposal :: "proposal \<Rightarrow> ('c loop, unit) prog" where
  "append_proposal p = update (\<lambda>s. s\<lparr>lp_disk := (lp_disk s)\<lparr>dk_proposals :=
     dk_proposals (lp_disk s) @ [Some (JDict (proposal_row p))]\<rparr>\<rparr>)"

definition append_reflection :: "reflection_row \<Rightarrow> ('c loop, unit) prog" where
  "append_reflection r = update (\<lambda>s. s\<lparr>lp_disk := (lp_disk s)\<lparr>dk_reflections := dk_reflections (lp_disk s) @ [r]\<rparr>\<rparr>)"

text \<open>The snapshot of the current state; only its breath differs between its writers.\<close>

definition snapshot_of :: "'c loop_env \<Rightarrow> loop_config \<Rightarrow> int \<Rightarrow> int \<Rightarrow> pyfloat \<Rightarrow> 'c loop \<Rightarrow> snapshot" where
  "snapshot_of env c now tick breath s =
     \<lparr>sn_ts = le_iso env now, sn_phase = lp_phase s, sn_breath = breath, sn_bankroll_usd = lp_bankroll_usd s,
      sn_phase_age_days = fzero, sn_open_bet_ids = sort (lp_open_bet_ids s), sn_last_tick = tick,
      sn_incarnation_number = lc_incarnation c, sn_weights = Some (lp_weights s),
      sn_desperate = lp_desperate s, sn_pending_proposals = lp_pending s\<rparr>"

definition put_snapshot :: "snapshot \<Rightarrow> ('c loop, unit) prog" where
  "put_snapshot sn = update (\<lambda>s. s\<lparr>lp_disk := (lp_disk s)\<lparr>dk_snapshot := Some sn\<rparr>\<rparr>)"

definition write_snapshot :: "'c loop_env \<Rightarrow> loop_config \<Rightarrow> int \<Rightarrow> int \<Rightarrow> ('c loop, unit) prog" where
  "write_snapshot env c now tick =
     sbind (reads (\<lambda>s. mk_snapshot (le_nv env) (snapshot_of env c now tick (lp_breath s) s))) (\<lambda>r.
     sbind (lift_res r) put_snapshot)"

section \<open>Steps 0 to 2: approvals, settlements, breath\<close>

definition drain_and_apply_weight_deltas :: "'c loop_env \<Rightarrow> int \<Rightarrow> ('c loop, unit) prog" where
  "drain_and_apply_weight_deltas env tick s =
     (case drain_pending_deltas (lp_queue s) of
        (ds, q) \<Rightarrow>
          (case apply_deltas (le_nv env) tick (pending_delta_count q) ds (lp_weights s, []) of
             (r, (w, hs)) \<Rightarrow>
               (r, s\<lparr>lp_queue := q, lp_weights := w, lp_hooks := lp_hooks s @ map DeltaHook hs\<rparr>)))"

text \<open>The poller runs on the shared ledger and chain; the weights follow the updater's assignments.\<close>

definition learned :: "'c loop_env \<Rightarrow> 'c poll_world \<Rightarrow> 'c poll_world \<Rightarrow> weights \<Rightarrow> weights" where
  "learned env w w' ws =
     foldl (\<lambda>ws (sigs, r). le_learn env sigs r ws) ws (drop (length (pw_weight_calls w)) (pw_weight_calls w'))"

definition run_poller ::
  "'c loop_env \<Rightarrow> ('c poll_world \<Rightarrow> poll_tick_result res \<times> 'c poll_world) \<Rightarrow> ('c loop, poll_tick_result) prog" where
  "run_poller env f s =
     (case f (lp_world s) of
        (r, w) \<Rightarrow> (r, s\<lparr>lp_world := w, lp_weights := learned env (lp_world s) w (lp_weights s)\<rparr>))"

definition credit :: "settlement_outcome \<Rightarrow> 'c loop \<Rightarrow> 'c loop" where
  "credit so s = s\<lparr>lp_open_bet_ids := removeAll (so_bet_id so) (lp_open_bet_ids s),
                   lp_bankroll_usd := fadd (lp_bankroll_usd s) (so_pnl_usd so)\<rparr>"

definition poll_step :: "'c loop_env \<Rightarrow> loop_config \<Rightarrow> ('c loop, poll_tick_result) prog" where
  "poll_step env c =
     sbind (read_clock env) (\<lambda>now.
     sbind (run_poller env (poller_tick (le_poll env) (lc_poll c) now)) (\<lambda>p.
     sthen (for_each (\<lambda>so. update (credit so)) (settlements p)) (ret p)))"

definition force_step :: "'c loop_env \<Rightarrow> ('c loop, unit) prog" where
  "force_step env =
     sbind (reads lp_force_pending) (\<lambda>pending. whenever pending
       (sbind (chain_breath env) (\<lambda>b.
        sthen (whenever (flt fzero b) (chain_push env (fneg b)))
          (update (\<lambda>s. s\<lparr>lp_force_pending := False, lp_storm := (lp_storm s)\<lparr>st_skip_next := True\<rparr>\<rparr>)))))"

text \<open>\<open>_update_storm\<close>: wall-clock decay, then the blend on a tick whose breath moved.\<close>

definition decayed :: "'c loop_env \<Rightarrow> int \<Rightarrow> storm_state \<Rightarrow> pyfloat" where
  "decayed env now st =
     (case st_last_ts st of
        None \<Rightarrow> st_state st
      | Some t \<Rightarrow>
          let dt = lag_hours_of (now - t)
          in if flt fzero dt then fmul (st_state st) (le_half_pow env (fdiv dt STORM_HALF_LIFE_HOURS)) else st_state st)"

definition storm_delta :: "pyfloat \<Rightarrow> storm_state \<Rightarrow> pyfloat" where
  "storm_delta breath st =
     (case st_last_breath st of
        None \<Rightarrow> fzero
      | Some prev \<Rightarrow> if st_skip_next st then fzero else fsub breath prev)"

definition blended :: "loop_config \<Rightarrow> pyfloat \<Rightarrow> pyfloat \<Rightarrow> pyfloat" where
  "blended c delta state =
     (if feq delta fzero then state
      else fmax fzero (fadd (fmul (fsub fone (lc_storm_tau c)) state) (fmul (lc_storm_tau c) (fneg delta))))"

definition update_storm :: "'c loop_env \<Rightarrow> loop_config \<Rightarrow> int \<Rightarrow> ('c loop, unit) prog" where
  "update_storm env c now =
     sthen (update (\<lambda>s. s\<lparr>lp_storm :=
         \<lparr>st_state = blended c (storm_delta (lp_breath s) (lp_storm s)) (decayed env now (lp_storm s)),
          st_storm = st_storm (lp_storm s), st_last_breath = Some (lp_breath s), st_last_ts = Some now,
          st_skip_next = False\<rparr>\<rparr>))
       (sbind (reads (\<lambda>s. py_div (st_state (lp_storm s)) (lc_storm_scale c))) (\<lambda>r.
        sbind (lift_res r) (\<lambda>x.
        update (\<lambda>s. s\<lparr>lp_storm := (lp_storm s)\<lparr>st_storm := fmin fone (fmax fzero x)\<rparr>\<rparr>))))"

section \<open>Steps 3 to 5: the decision and the order\<close>

text \<open>\<open>_assert_signal_coverage\<close> of \<open>agent/runtime/phase2_launch.py\<close>.\<close>

definition assert_signal_coverage :: "(string, signal) dict \<Rightarrow> unit res" where
  "assert_signal_coverage sigs = guard_res (missing_engines sigs = []) RuntimeError"

definition args_of :: "loop_config \<Rightarrow> tick_inputs \<Rightarrow> 'c loop \<Rightarrow> decide_args" where
  "args_of c i s =
     \<lparr>d_signals = ti_signals i,
      d_alpha = (alpha (lp_weights s) ! 0, alpha (lp_weights s) ! 1, alpha (lp_weights s) ! 2),
      d_beta = (beta (lp_weights s) ! 0, beta (lp_weights s) ! 1),
      d_w_r = w_r (lp_weights s), d_w_s = w_s (lp_weights s), d_rho = rho (lp_weights s),
      d_bankroll_usd = lp_bankroll_usd s, d_breath = lp_breath s,
      d_liquidity_cap_usd = ti_liquidity_cap_usd i, d_market_id = ti_market_id i,
      d_desperate = lp_desperate s,
      d_price = (if lc_value_betting c then Some (ti_price i) else None),
      d_storm = (if lc_storm_enabled c then st_storm (lp_storm s) else fzero),
      d_cross_market_signal = (if lc_value_betting c then ti_cross_market_signal i else fzero)\<rparr>"

definition apply_price_floor :: "'c loop_env \<Rightarrow> loop_config \<Rightarrow> tick_inputs \<Rightarrow> action \<Rightarrow> action res" where
  "apply_price_floor env c i a =
     (case (a_kind a, lc_price_floor c, a_side a) of
        (BET, Some least, Some sd) \<Rightarrow>
          let eff = (if sd = YES then ti_price i else fsub fone (ti_price i))
          in if flt eff least then mk_action (le_nv env) (no_bet (EffectivePriceBelowFloor eff)) else Inr a
      | _ \<Rightarrow> Inr a)"

definition decide_step :: "'c loop_env \<Rightarrow> loop_config \<Rightarrow> tick_inputs option \<Rightarrow> ('c loop, action) prog" where
  "decide_step env c inputs =
     (case inputs of
        None \<Rightarrow> lift_res (mk_action (le_nv env) (no_bet NoEligibleMarket))
      | Some i \<Rightarrow>
          sbind (lift_res (assert_signal_coverage (ti_signals i))) (\<lambda>_.
          sbind (\<lambda>s. case decide (le_nv env) (le_engine env) (args_of c i s) (lp_engine s) of
                   (r, en) \<Rightarrow> (r, s\<lparr>lp_engine := en\<rparr>)) (\<lambda>a.
          lift_res (apply_price_floor env c i a))))"

definition score_map :: "tick_inputs \<Rightarrow> (string, pyfloat) dict" where
  "score_map i = map (\<lambda>(n, sg). (n, score sg)) (ti_signals i)"

text \<open>The order of a BET: the scores, the storm stamps when the storm is on, the cost stamps when the
  input carries a fill price.\<close>

definition order_of ::
  "loop_config \<Rightarrow> tick_inputs \<Rightarrow> side \<Rightarrow> pyfloat \<Rightarrow> gate_diagnostics option \<Rightarrow> order" where
  "order_of c i sd usd diag =
     (let live = ti_fill_price i \<noteq> None;
          stamp = (\<lambda>f. if lc_storm_enabled c then map_option f diag else None)
      in \<lparr>o_market_id = ti_market_id i, o_side = sd, o_price = ti_price i, o_size_usd = usd,
          o_signal_scores = Some (score_map i),
          o_storm_at_bet = stamp g_storm, o_edge_at_bet = stamp g_edge_abs,
          o_min_edge_at_bet = stamp g_min_edge_base, o_gamma_at_bet = stamp g_gamma,
          o_eff_min_edge_at_bet = stamp g_eff_min_edge,
          o_fill_price = ti_fill_price i,
          o_fee_bps = (if live then ti_fee_bps i else None),
          o_spread_paid_usd = (if live then map_option (\<lambda>h. fmul h usd) (ti_half_spread_frac i) else None),
          o_liquidity_cap_usd = (if live then Some (ti_liquidity_cap_usd i) else None)\<rparr>)"

definition place_step :: "'c loop_env \<Rightarrow> loop_config \<Rightarrow> tick_inputs option \<Rightarrow> action \<Rightarrow> ('c loop, string option) prog" where
  "place_step env c inputs a =
     (case (a_kind a, inputs) of
        (BET, Some i) \<Rightarrow>
          (case (a_side a, a_size_usd a) of
             (Some sd, Some usd) \<Rightarrow>
               sbind (reads (\<lambda>s. last_gate_diagnostics (lp_engine s))) (\<lambda>diag.
               sbind (lift_res (guard_res (\<not> (lc_storm_enabled c \<and> diag = None)) RuntimeError)) (\<lambda>_.
               sbind (read_clock env) (\<lambda>now.
               sbind (\<lambda>s. case place_order (le_exec env) now (le_uuid env (lp_uuids s)) (order_of c i sd usd diag)
                              (lp_exec s, pw_ledger (lp_world s)) of
                        (r, ex, l) \<Rightarrow> (r, s\<lparr>lp_exec := ex, lp_world := (lp_world s)\<lparr>pw_ledger := l\<rparr>,
                                           lp_uuids := Suc (lp_uuids s)\<rparr>)) (\<lambda>r.
               sthen (update (\<lambda>s. s\<lparr>lp_open_bet_ids := List.insert (order_id r) (lp_open_bet_ids s)\<rparr>))
                 (ret (Some (order_id r)))))))
           | _ \<Rightarrow> raise_exc AssertionError)
      | _ \<Rightarrow> ret None)"

section \<open>Step 6: the record\<close>

definition decision_record_of ::
  "'c loop_env \<Rightarrow> loop_config \<Rightarrow> int \<Rightarrow> int \<Rightarrow> tick_inputs option \<Rightarrow> action \<Rightarrow> 'c loop \<Rightarrow> decision_record" where
  "decision_record_of env c now tick inputs a s =
     (let living = (if lc_record_living c then inputs else None)
      in \<lparr>dr_tick = tick, dr_ts = le_iso env now, dr_market_id = map_option ti_market_id inputs,
          dr_kind = a_kind a, dr_size_usd = (case a_size_usd a of None \<Rightarrow> fzero | Some x \<Rightarrow> x),
          dr_side = a_side a, dr_edge_pct = a_edge_pct a, dr_no_bet_reason = a_no_bet_reason a,
          dr_breath_after = lp_breath s, dr_bankroll_usd_after = lp_bankroll_usd s,
          dr_odds_yes = map_option ti_price living,
          dr_odds_no = map_option (\<lambda>i. fsub fone (ti_price i)) living,
          dr_fee_floor_pct = None,
          dr_signal_scores = (case living of None \<Rightarrow> [] | Some i \<Rightarrow> score_map i)\<rparr>)"

definition record_step ::
  "'c loop_env \<Rightarrow> loop_config \<Rightarrow> int \<Rightarrow> int \<Rightarrow> tick_inputs option \<Rightarrow> action \<Rightarrow> string option \<Rightarrow> ('c loop, unit) prog" where
  "record_step env c now tick inputs a oid =
     sbind (reads (\<lambda>s. mk_decision_record (le_nv env) (decision_record_of env c now tick inputs a s))) (\<lambda>r.
     sbind (lift_res r) (\<lambda>d.
     sthen (append_decision env d)
       (emit_hook (DecisionTelemetry tick (a_kind a) (map_option ti_market_id inputs) oid
          (map_option score_map inputs)))))"

section \<open>Steps 7.5 and 8: rent, altar, death\<close>

definition attempt_tithe :: "'c loop_env \<Rightarrow> loop_config \<Rightarrow> int \<Rightarrow> ('c loop, unit) prog" where
  "attempt_tithe env c tick =
     sbind (reads (\<lambda>s. fle (lc_tithe_amount_usd c) (lp_bankroll_usd s))) (\<lambda>affordable.
     sthen
       (if affordable then
          update (\<lambda>s. s\<lparr>lp_bankroll_usd := fsub (lp_bankroll_usd s) (lc_tithe_amount_usd c)\<rparr>)
        else
          sthen (chain_push env (fneg (lc_tithe_breath_cost c)))
         (sthen (refresh_breath env)
            (update (\<lambda>s. s\<lparr>lp_storm := (lp_storm s)\<lparr>st_last_breath := Some (lp_breath s)\<rparr>\<rparr>))))
       (sbind (reads (\<lambda>s. TitheHook tick (if affordable then lc_tithe_amount_usd c else fzero)
                            (if affordable then fzero else lc_tithe_breath_cost c)
                            (lp_breath s) (lp_bankroll_usd s))) emit_hook))"

definition tithe_step :: "'c loop_env \<Rightarrow> loop_config \<Rightarrow> int \<Rightarrow> tick_inputs option \<Rightarrow> ('c loop, unit) prog" where
  "tithe_step env c tick inputs =
     whenever (lc_divine_tithe c \<and> inputs \<noteq> None)
       (sthen (update (\<lambda>s. s\<lparr>lp_markets := lp_markets s + 1\<rparr>))
         (sbind (reads (\<lambda>s. lp_markets s mod lc_tithe_every c = 0)) (\<lambda>due. whenever due (attempt_tithe env c tick))))"

text \<open>The checks of the altar on what the policy returned; a raised policy offers nothing.  Converting
  an integer beyond the range of a double raises, outside the handler.\<close>

definition valid_offer :: "offer res \<Rightarrow> pyfloat \<Rightarrow> pyfloat option res" where
  "valid_offer r bankroll =
     (case r of
        Inl e \<Rightarrow> Inr None
      | Inr off \<Rightarrow>
          rbind (case off of
                   NotANumber \<Rightarrow> Inr None
                 | OfferInt n \<Rightarrow> rbind (float_of_int n) (\<lambda>x. Inr (Some x))
                 | OfferFloat x \<Rightarrow> Inr (Some x))
            (\<lambda>v. Inr (case v of
                        None \<Rightarrow> None
                      | Some x \<Rightarrow>
                          if \<not> isfinite x \<or> flt x TRIBUTE_MIN_USD \<or> flt bankroll x then None else Some x)))"

definition grant_breath :: "'c loop_env \<Rightarrow> loop_config \<Rightarrow> int \<Rightarrow> int \<Rightarrow> ('c loop, unit) prog" where
  "grant_breath env c now tick =
     sbind (chain_breath env) (\<lambda>cur.
     sthen (chain_push env (fsub (lc_tribute_breath c) cur))
    (sthen (refresh_breath env)
    (sthen (update (\<lambda>s. s\<lparr>lp_storm := (lp_storm s)\<lparr>st_last_breath := Some (lp_breath s)\<rparr>\<rparr>))
       (write_snapshot env c now tick))))"

definition roll_dice :: "'c loop_env \<Rightarrow> ('c loop, pyfloat) prog" where
  "roll_dice env s = (Inr (le_dice env (lp_rolls s)), s\<lparr>lp_rolls := Suc (lp_rolls s)\<rparr>)"

definition attempt_tribute ::
  "'c loop_env \<Rightarrow> loop_config \<Rightarrow> (int \<Rightarrow> pyfloat \<Rightarrow> pyfloat \<Rightarrow> offer res) \<Rightarrow> int \<Rightarrow> int \<Rightarrow> ('c loop, bool) prog" where
  "attempt_tribute env c policy now tick =
     sbind (reads (\<lambda>s. valid_offer (policy tick (lp_breath s) (lp_bankroll_usd s)) (lp_bankroll_usd s))) (\<lambda>r.
     sbind (lift_res r) (\<lambda>off.
       case off of
         None \<Rightarrow> ret False
       | Some offering \<Rightarrow>
           sthen (update (\<lambda>s. s\<lparr>lp_bankroll_usd := fsub (lp_bankroll_usd s) offering\<rparr>))
          (sbind (lift_res (tribute_success_probability offering)) (\<lambda>p.
           sbind (roll_dice env) (\<lambda>roll.
           sthen (whenever (flt roll p) (grant_breath env c now tick))
          (sbind (reads (\<lambda>s. TributeHook tick offering (flt roll p) (lp_breath s) (lp_bankroll_usd s) roll)) (\<lambda>h.
           sthen (emit_hook h) (ret (flt roll p)))))))))"

text \<open>Death: the terminal close when a bet is open, the tombstone, then the terminal state.\<close>

definition close_positions :: "'c loop_env \<Rightarrow> loop_config \<Rightarrow> ('c loop, unit) prog" where
  "close_positions env c =
     sbind (reads (\<lambda>s. lp_open_bet_ids s \<noteq> [])) (\<lambda>exposed. whenever exposed
       (sbind (read_clock env) (\<lambda>now.
        sbind (run_poller env (terminal_close (le_poll env) (lc_poll c) now)) (\<lambda>p.
        sthen (for_each (\<lambda>so. update (\<lambda>s. s\<lparr>lp_bankroll_usd := fadd (lp_bankroll_usd s) (so_pnl_usd so)\<rparr>)) (settlements p))
          (update (\<lambda>s. s\<lparr>lp_open_bet_ids := []\<rparr>))))))"

definition death_args_of :: "'c loop_env \<Rightarrow> loop_config \<Rightarrow> int \<Rightarrow> 'c loop \<Rightarrow> death_args" where
  "death_args_of env c last_tick s =
     \<lparr>da_agent_id = lc_agent_id c, da_bankroll_usd = lp_bankroll_usd s, da_last_tick = last_tick,
      da_final_weights_hash = le_weights_hash env (lp_weights s), da_memory_bank_cid = lc_memory_bank_cid c,
      da_last_words = (case le_last_words env of
                         Some ws \<Rightarrow> ws
                       | None \<Rightarrow> le_last_words_template env last_tick (lp_bankroll_usd s))\<rparr>"

text \<open>After the close: the tombstone, the terminal state and its snapshot, whose failure is only logged.\<close>

definition seal_death :: "'c loop_env \<Rightarrow> loop_config \<Rightarrow> int \<Rightarrow> ('c loop, death_receipt) prog" where
  "seal_death env c last_tick =
     sbind (reads (death_args_of env c last_tick)) (\<lambda>args.
     sbind (\<lambda>s. case le_kill env args (pw_chain (lp_world s)) of
              (r, k) \<Rightarrow> (r, s\<lparr>lp_world := (lp_world s)\<lparr>pw_chain := k\<rparr>\<rparr>)) (\<lambda>receipt.
     sthen (update (\<lambda>s. s\<lparr>lp_receipt := Some receipt, lp_alive := False, lp_phase := PHASE_4_TERMINAL\<rparr>))
    (sthen (handle
       (sbind (read_clock env) (\<lambda>now.
        sbind (reads (\<lambda>s. mk_snapshot (le_nv env) (snapshot_of env c now last_tick fzero s))) (\<lambda>r.
        sbind (lift_res r) put_snapshot)))
       (\<lambda>_. ret ()))
    (sthen (emit_hook (AgentDied last_tick receipt (da_bankroll_usd args) (da_final_weights_hash args)
          (da_last_words args)))
       (ret receipt)))))"

definition die :: "'c loop_env \<Rightarrow> loop_config \<Rightarrow> int \<Rightarrow> ('c loop, death_receipt) prog" where
  "die env c last_tick = sthen (close_positions env c) (seal_death env c last_tick)"

definition death_step :: "'c loop_env \<Rightarrow> loop_config \<Rightarrow> int \<Rightarrow> int \<Rightarrow> ('c loop, bool) prog" where
  "death_step env c now tick =
     sbind (reads (\<lambda>s. fle (lp_breath s) fzero)) (\<lambda>dying.
       if \<not> dying then ret False
       else
         sbind (case le_tribute_policy env of
                  None \<Rightarrow> ret False
                | Some policy \<Rightarrow> attempt_tribute env c policy now tick) (\<lambda>saved.
         if saved then ret False else sbind (die env c tick) (\<lambda>_. ret True)))"

section \<open>Step 9: reflection\<close>

definition reflection_trigger :: "loop_config \<Rightarrow> int \<Rightarrow> 'c loop \<Rightarrow> reflection_trigger option" where
  "reflection_trigger c tick s =
     (if lc_reflection_interval c \<le> tick - lp_last_reflection_tick s then Some TickInterval
      else if flt (lc_reflection_threshold c)
                (max_abs_weight_delta_against (lp_weights s) (lp_last_reflection_weights s))
      then Some WeightDeltaTrigger else None)"

text \<open>\<open>_recent_pnl_window_usd\<close>: a profit that is not finite was written as null and is skipped.\<close>

definition tail_of :: "nat \<Rightarrow> 'a list \<Rightarrow> 'a list" where
  "tail_of n xs = drop (length xs - n) xs"

definition recent_pnl_window_usd :: "ledger \<Rightarrow> pyfloat" where
  "recent_pnl_window_usd l =
     fsum (filter isfinite (map s_pnl_usd (tail_of REFLECTION_PNL_WINDOW (settled_bets l))))"

definition reset_baseline :: "int \<Rightarrow> ('c loop, unit) prog" where
  "reset_baseline tick =
     update (\<lambda>s. s\<lparr>lp_last_reflection_tick := tick, lp_last_reflection_weights := lp_weights s\<rparr>)"

definition reflection_payload_of ::
  "'c loop_env \<Rightarrow> int \<Rightarrow> int \<Rightarrow> reflection_trigger \<Rightarrow> action \<Rightarrow> string option \<Rightarrow> vitals \<Rightarrow> 'c loop \<Rightarrow> reflection_payload" where
  "reflection_payload_of env now tick tr a m v s =
     \<lparr>rp_tick = tick, rp_ts = le_iso env now, rp_trigger = tr, rp_phase = lp_phase s, rp_vitals = v,
      rp_weights = lp_weights s, rp_action = a, rp_market_id = m\<rparr>"

text \<open>The cost of the call, charged after it; a guard that ran out in between reports no cost.\<close>

definition charge_reflection :: "('c loop, pyfloat) prog" where
  "charge_reflection s =
     (case cg_record ''reflection'' REFLECTION_PER_CALL_USD_EST (lp_guard s) of
        Inr (ev, g) \<Rightarrow> (Inr (ce_usd ev), s\<lparr>lp_guard := g\<rparr>)
      | Inl e \<Rightarrow> (if e = CostExhaustedError then Inr fzero else Inl e, s))"

definition MAX_REFLECTION_CHARS :: nat where "MAX_REFLECTION_CHARS = 4000"

definition mk_reflection_row :: "bool \<Rightarrow> reflection_row \<Rightarrow> reflection_row res" where
  "mk_reflection_row nv r =
     (if rf_id r \<noteq> [] \<and> rf_ts r \<noteq> [] \<and> rf_narrative r \<noteq> [] \<and>
         length (rf_narrative r) \<le> MAX_REFLECTION_CHARS \<and> pyd_ge nv fzero (rf_llm_cost_usd r)
      then Inr r else Inl ValidationError)"

definition fire_reflection ::
  "'c loop_env \<Rightarrow> (reflection_payload \<Rightarrow> bool \<Rightarrow> string res) \<Rightarrow> int \<Rightarrow> int \<Rightarrow> reflection_trigger \<Rightarrow> action \<Rightarrow>
   string option \<Rightarrow> ('c loop, unit) prog" where
  "fire_reflection env engine now tick tr a m =
     sbind (reads lp_guard) (\<lambda>g.
       if is_exhausted g then
         sthen (reset_baseline tick) (emit_hook (ReflectionSkipped tr tick (total_usd g)))
       else
         sbind (reads (\<lambda>s. mk_vitals (le_nv env)
            \<lparr>v_breath = lp_breath s, v_bankroll_usd = lp_bankroll_usd s, v_phase_age_days = fzero\<rparr>)) (\<lambda>vr.
         sbind (lift_res vr) (\<lambda>v.
         sbind (reads (reflection_payload_of env now tick tr a m v)) (\<lambda>payload.
         sbind (lift_res (engine payload (tr = WeightDeltaTrigger))) (\<lambda>body.
         sbind charge_reflection (\<lambda>cost.
         sbind (\<lambda>s. (Inr (le_uuid env (lp_uuids s)), s\<lparr>lp_uuids := Suc (lp_uuids s)\<rparr>)) (\<lambda>rid.
         sbind (reads (\<lambda>s. mk_reflection_row (le_nv env)
            \<lparr>rf_id = rid, rf_ts = le_iso env now, rf_trigger = tr, rf_narrative = body,
             rf_weight_snapshot = weight_snapshot_dict (lp_weights s),
             rf_recent_pnl_window = recent_pnl_window_usd (pw_ledger (lp_world s)),
             rf_llm_cost_usd = cost\<rparr>)) (\<lambda>rr.
         sbind (lift_res rr) (\<lambda>row.
         sthen (append_reflection row)
        (sthen (reset_baseline tick)
           (emit_hook (ReflectionEmitted rid tr tick cost (rf_recent_pnl_window row)))))))))))))"

definition reflection_step ::
  "'c loop_env \<Rightarrow> loop_config \<Rightarrow> int \<Rightarrow> int \<Rightarrow> action \<Rightarrow> string option \<Rightarrow> ('c loop, unit) prog" where
  "reflection_step env c now tick a m =
     (case le_reflect env of
        None \<Rightarrow> ret ()
      | Some engine \<Rightarrow>
          sbind (reads (reflection_trigger c tick)) (\<lambda>tr.
            case tr of None \<Rightarrow> ret () | Some t \<Rightarrow> fire_reflection env engine now tick t a m))"

section \<open>Step 10: advice\<close>

text \<open>The folds of \<open>agent/engines/_performance_window.py\<close> over the loop's own rows.\<close>

definition RECENT_PNL_TAIL :: nat where "RECENT_PNL_TAIL = 20"
definition WEIGHT_TRAJECTORY_TAIL :: nat where "WEIGHT_TRAJECTORY_TAIL = 100"
definition RECENT_REFLECTIONS_TAIL :: nat where "RECENT_REFLECTIONS_TAIL = 5"

definition fold_pnl_from_settled :: "ledger \<Rightarrow> pyfloat list" where
  "fold_pnl_from_settled l = tail_of RECENT_PNL_TAIL (filter isfinite (map s_pnl_usd (settled_bets l)))"

definition fold_recent_reflections :: "reflection_row list \<Rightarrow> string list" where
  "fold_recent_reflections rs =
     tail_of RECENT_REFLECTIONS_TAIL (filter (\<lambda>n. py_strip n \<noteq> []) (map rf_narrative rs))"

definition try_project_weight_snapshot :: "bool \<Rightarrow> (string, pyfloat) dict \<Rightarrow> weights option" where
  "try_project_weight_snapshot nv d =
     (case (dget d ''w_r'', dget d ''alpha_0'', dget d ''alpha_1'', dget d ''alpha_2'', dget d ''beta_0'', dget d ''rho'') of
        (Some wr, Some a0, Some a1, Some a2, Some b0, Some r) \<Rightarrow>
          (case mk_weights nv \<lparr>w_r = wr, w_s = clampf fzero fone (fsub fone wr), alpha = [a0, a1, a2],
                  beta = [b0, clampf fzero fone (fsub fone b0)], rho = r\<rparr> of
             Inl e \<Rightarrow> None
           | Inr w \<Rightarrow> Some w)
      | _ \<Rightarrow> None)"

definition fold_weight_trajectory :: "bool \<Rightarrow> reflection_row list \<Rightarrow> weights list" where
  "fold_weight_trajectory nv rs =
     tail_of WEIGHT_TRAJECTORY_TAIL
       (List.map_filter (\<lambda>r. try_project_weight_snapshot nv (rf_weight_snapshot r)) rs)"

definition push_ring :: "loop_config \<Rightarrow> weights \<Rightarrow> weights list \<Rightarrow> weights list" where
  "push_ring c w ring = tail_of (lc_advisor_window c) (ring @ [w])"

definition strategy_advisor_trigger :: "loop_config \<Rightarrow> int \<Rightarrow> weights list \<Rightarrow> advisor_trigger option" where
  "strategy_advisor_trigger c tick ring =
     (if 0 < tick + 1 \<and> (tick + 1) mod lc_advisor_interval c = 0 then Some AdvisorTickInterval
      else if length ring = lc_advisor_window c \<and>
              flt (max_abs_weight_delta_in_buffer ring) (lc_advisor_threshold c)
      then Some WeightStability else None)"

definition performance_window_of ::
  "'c loop_env \<Rightarrow> loop_config \<Rightarrow> int \<Rightarrow> int \<Rightarrow> advisor_trigger \<Rightarrow> 'c loop \<Rightarrow> performance_window" where
  "performance_window_of env c now tick tr s =
     (let on = lc_populate_window c; rs = dk_reflections (lp_disk s); l = pw_ledger (lp_world s)
      in \<lparr>pf_tick = tick, pf_ts = now, pf_agent_id = lc_agent_id c, pf_phase = lp_phase s,
          pf_current_weights = lp_weights s,
          pf_baseline_weights = (case lp_ring s of [] \<Rightarrow> lp_weights s | w # _ \<Rightarrow> w),
          pf_recent_pnl_window_usd = recent_pnl_window_usd l, pf_trigger = tr,
          pf_recent_pnl = (if on then fold_pnl_from_settled l else []),
          pf_weight_trajectory = (if on then fold_weight_trajectory (le_nv env) rs else []),
          pf_recent_reflections = (if on then fold_recent_reflections rs else []),
          pf_tick_count = (if on then tick + 1 else 0)\<rparr>)"

definition persist_proposal :: "proposal \<Rightarrow> ('c loop, unit) prog" where
  "persist_proposal p =
     sthen (append_proposal (p\<lparr>p_status := Pending\<rparr>))
       (update (\<lambda>s. s\<lparr>lp_pending := lp_pending s @ [p_id p]\<rparr>))"

definition fire_strategy_advisor ::
  "'c loop_env \<Rightarrow> loop_config \<Rightarrow> int \<Rightarrow> int \<Rightarrow> advisor_trigger \<Rightarrow> ('c loop, unit) prog" where
  "fire_strategy_advisor env c now tick tr =
     sbind (reads (\<lambda>s. le_advisor env (performance_window_of env c now tick tr s))) (\<lambda>r.
     sbind (handle (lift_res r) (\<lambda>e. sthen (emit_hook (AdvisorFailed tr tick e)) (ret []))) (\<lambda>ps.
     sthen (for_each persist_proposal ps)
    (sthen (update (\<lambda>s. s\<lparr>lp_last_advisor_tick := tick, lp_ring := []\<rparr>))
       (sbind (reads (\<lambda>s. AdvisorFired tr tick (length ps) (length (lp_pending s)))) emit_hook))))"

definition advisor_step :: "'c loop_env \<Rightarrow> loop_config \<Rightarrow> int \<Rightarrow> int \<Rightarrow> ('c loop, unit) prog" where
  "advisor_step env c now tick =
     sthen (update (\<lambda>s. s\<lparr>lp_ring := push_ring c (lp_weights s) (lp_ring s)\<rparr>))
       (sbind (reads (\<lambda>s. strategy_advisor_trigger c tick (lp_ring s))) (\<lambda>tr.
          case tr of
            None \<Rightarrow> ret ()
          | Some t \<Rightarrow>
              sbind (reads (\<lambda>s. length (lp_pending s))) (\<lambda>had.
              sthen (fire_strategy_advisor env c now tick t)
                (sbind (reads (\<lambda>s. length (lp_pending s) \<noteq> had)) (\<lambda>grew.
                 whenever grew (write_snapshot env c now tick))))))"

section \<open>The tick\<close>

text \<open>Steps 1 to 5: the inputs, the action and the id of the order placed.\<close>

definition decision_steps ::
  "'c loop_env \<Rightarrow> loop_config \<Rightarrow> int \<Rightarrow> int \<Rightarrow> ('c loop, tick_inputs option \<times> action \<times> string option) prog" where
  "decision_steps env c now tick =
     (let inputs = le_inputs env now tick in
      sbind (decide_step env c inputs) (\<lambda>a.
      sbind (place_step env c inputs a) (\<lambda>oid. ret (inputs, a, oid))))"

definition settle_steps :: "'c loop_env \<Rightarrow> loop_config \<Rightarrow> int \<Rightarrow> int \<Rightarrow> ('c loop, poll_tick_result) prog" where
  "settle_steps env c now tick =
     sthen (drain_and_apply_weight_deltas env tick)
       (sbind (poll_step env c) (\<lambda>p.
        sthen (force_step env)
       (sthen (refresh_breath env)
       (sthen (whenever (lc_storm_enabled c) (update_storm env c now)) (ret p)))))"

text \<open>Steps 9 and 10, for a tick that was survived.\<close>

definition living_steps ::
  "'c loop_env \<Rightarrow> loop_config \<Rightarrow> int \<Rightarrow> int \<Rightarrow> tick_inputs option \<Rightarrow> action \<Rightarrow> ('c loop, unit) prog" where
  "living_steps env c now tick inputs a =
     sthen (reflection_step env c now tick a (map_option ti_market_id inputs)) (advisor_step env c now tick)"

definition tick :: "'c loop_env \<Rightarrow> loop_config \<Rightarrow> ('c loop, tick_result) prog" where
  "tick env c =
     sbind (read_clock env) (\<lambda>now.
     sbind (reads lp_tick_counter) (\<lambda>t.
     sbind (settle_steps env c now t) (\<lambda>p.
     sbind (decision_steps env c now t) (\<lambda>(inputs, a, oid).
     sthen (record_step env c now t inputs a oid)
    (sthen (update (\<lambda>s. s\<lparr>lp_tick_counter := t + 1\<rparr>))
    (sthen (write_snapshot env c now t)
    (sthen (tithe_step env c t inputs)
    (sbind (death_step env c now t) (\<lambda>died.
     sthen (whenever (\<not> died) (living_steps env c now t inputs a))
       (reads (\<lambda>s. \<lparr>tr_tick = t, tr_action = a, tr_breath_after = lp_breath s,
          tr_bankroll_after = lp_bankroll_usd s, tr_poll_settled = settled_count p,
          tr_poll_pending = pending_count p, tr_died = died\<rparr>)))))))))))"

section \<open>Reconstruction\<close>

definition fold_pending_proposals :: "json option list \<Rightarrow> string list" where
  "fold_pending_proposals ls =
     map fst (filter (\<lambda>(i, st). st = ''pending'') (fold_dict (List.map_filter
       (\<lambda>r. case jget r ''proposal_id'' of
              JStr i \<Rightarrow>
                if i = [] then None
                else Some (i, case jget r ''status'' of JStr st \<Rightarrow> if st = [] then ''pending'' else st | _ \<Rightarrow> ''pending'')
            | _ \<Rightarrow> None) (iter_jsonl ls))))"

definition open_ids_from_rows :: "json option list \<Rightarrow> string list" where
  "open_ids_from_rows ls =
     map fst (filter (\<lambda>(i, st). st = ''open'') (fold_dict (List.map_filter
       (\<lambda>r. case (jget r ''bet_id'', jget r ''status'') of (JStr i, JStr st) \<Rightarrow> Some (i, st) | _ \<Rightarrow> None)
       (iter_jsonl ls))))"

text \<open>The largest integer \<open>tick\<close> of the decision rows, \<open>- 1\<close> without one.  A JSON boolean is an
  \<open>int\<close> in Python.\<close>

definition last_tick_seen :: "json option list \<Rightarrow> int" where
  "last_tick_seen ls =
     foldl (\<lambda>m r. case jget r ''tick'' of
                    JInt t \<Rightarrow> if m < t then t else m
                  | JBool b \<Rightarrow> (let t = (if b then 1 else 0) in if m < t then t else m)
                  | _ \<Rightarrow> m) (- 1) (iter_jsonl ls)"

definition durable_state :: "'c loop \<Rightarrow> bool" where
  "durable_state s =
     (dk_snapshot (lp_disk s) \<noteq> None \<or> open_bets (pw_ledger (lp_world s)) \<noteq> [] \<or>
      settled_bets (pw_ledger (lp_world s)) \<noteq> [] \<or> dk_decisions (lp_disk s) \<noteq> [] \<or>
      dk_proposals (lp_disk s) \<noteq> [] \<or> dk_reflections (lp_disk s) \<noteq> [])"

text \<open>Step 1: the snapshot or the initial values; the breath it recorded.\<close>

definition load_step :: "'c loop_env \<Rightarrow> loop_config \<Rightarrow> ('c loop, pyfloat) prog" where
  "load_step env c =
     sbind (reads (\<lambda>s. dk_snapshot (lp_disk s))) (\<lambda>file.
       case file of
         None \<Rightarrow>
           sthen (update (\<lambda>s. s\<lparr>lp_weights := lc_initial_weights c, lp_phase := lc_initial_phase c,
                    lp_bankroll_usd := lc_initial_bankroll_usd c, lp_desperate := False, lp_tick_counter := 0\<rparr>))
             (ret (lc_initial_breath c))
       | Some raw \<Rightarrow>
           sbind (lift_res (le_load_snapshot env raw)) (\<lambda>sn.
           sthen (update (\<lambda>s. s\<lparr>lp_weights := (case sn_weights sn of None \<Rightarrow> lp_weights s | Some w \<Rightarrow> w),
                    lp_phase := sn_phase sn, lp_bankroll_usd := sn_bankroll_usd sn,
                    lp_desperate := sn_desperate sn,
                    lp_tick_counter := (if 0 \<le> sn_last_tick sn then sn_last_tick sn + 1 else 0)\<rparr>))
             (ret (sn_breath sn))))"

text \<open>Steps 2 and 3 and the proposal queue: what the streams say.\<close>

definition fold_streams :: "'c loop \<Rightarrow> 'c loop" where
  "fold_streams s =
     s\<lparr>lp_pending := fold_pending_proposals (dk_proposals (lp_disk s)), lp_ring := [],
       lp_open_bet_ids := open_ids_from_rows (open_bets (pw_ledger (lp_world s))),
       lp_tick_counter := (if 0 \<le> last_tick_seen (dk_decisions (lp_disk s))
                           then last_tick_seen (dk_decisions (lp_disk s)) + 1 else lp_tick_counter s)\<rparr>"

definition note_divergence :: "bool \<Rightarrow> pyfloat \<Rightarrow> ('c loop, unit) prog" where
  "note_divergence cold disk_breath =
     sbind (reads (\<lambda>s. \<not> cold \<and> \<not> feq (lp_breath s) disk_breath)) (\<lambda>differs. whenever differs
        (sbind (reads (\<lambda>s. BreathDivergence (lp_breath s) disk_breath (lp_tick_counter s - 1))) emit_hook))"

definition reconstruct_from_disk :: "'c loop_env \<Rightarrow> loop_config \<Rightarrow> ('c loop, reconstructed) prog" where
  "reconstruct_from_disk env c =
     sbind (reads (\<lambda>s. guard_res (\<not> (lc_storm_enabled c \<and> durable_state s)) RuntimeError)) (\<lambda>g.
     sbind (lift_res g) (\<lambda>_.
     sbind (reads (\<lambda>s. dk_snapshot (lp_disk s) = None)) (\<lambda>cold.
     sbind (load_step env c) (\<lambda>disk_breath.
     sthen (update fold_streams)
    (sthen (refresh_breath env)
    (sthen (note_divergence cold disk_breath)
      (reads (\<lambda>s. \<lparr>rc_last_tick = lp_tick_counter s - 1, rc_disk_breath = disk_breath,
         rc_chain_breath = lp_breath s, rc_cold_start = cold\<rparr>))))))))"

section \<open>The driver\<close>

definition summary_of :: "nat \<Rightarrow> nat \<Rightarrow> nat \<Rightarrow> nat \<Rightarrow> 'c loop \<Rightarrow> run_summary" where
  "summary_of n bets no_bets settled s =
     \<lparr>ticks_completed = n, bets_placed = bets, no_bets_emitted = no_bets, settlements_processed = settled,
      rs_died = (\<not> lp_alive s), rs_receipt = lp_receipt s, final_breath = lp_breath s,
      final_bankroll_usd = lp_bankroll_usd s\<rparr>"

text \<open>
  The loop of \<open>run\<close>.  Without a deadline, a tick bound or a death it does not end, so its value is an
  option; the sleep between ticks only lets the clock move.
\<close>

partial_function (option) run_loop ::
  "'c loop_env \<Rightarrow> loop_config \<Rightarrow> int option \<Rightarrow> nat option \<Rightarrow> nat \<Rightarrow> nat \<Rightarrow> nat \<Rightarrow> nat \<Rightarrow> 'c loop \<Rightarrow>
   (run_summary res \<times> 'c loop) option" where
  "run_loop env c until_ts max_ticks n bets no_bets settled s0 =
     (if \<not> lp_alive s0 then Some (Inr (summary_of n bets no_bets settled s0), s0)
      else let now = le_clock env (lp_clocks s0); s = s0\<lparr>lp_clocks := Suc (lp_clocks s0)\<rparr> in
        if (case until_ts of None \<Rightarrow> False | Some d \<Rightarrow> d \<le> now) \<or> (case max_ticks of None \<Rightarrow> False | Some m \<Rightarrow> m \<le> n)
        then Some (Inr (summary_of n bets no_bets settled s), s)
        else (case tick env c s of
            (Inl e, s1) \<Rightarrow> Some (Inl e, s1)
          | (Inr r, s1) \<Rightarrow>
              if tr_died r then
                Some (Inr (summary_of (Suc n) (if a_kind (tr_action r) = BET then Suc bets else bets)
                  (if a_kind (tr_action r) = BET then no_bets else Suc no_bets) (settled + tr_poll_settled r) s1), s1)
              else run_loop env c until_ts max_ticks (Suc n)
                (if a_kind (tr_action r) = BET then Suc bets else bets)
                (if a_kind (tr_action r) = BET then no_bets else Suc no_bets) (settled + tr_poll_settled r) s1))"

definition run ::
  "'c loop_env \<Rightarrow> loop_config \<Rightarrow> int option \<Rightarrow> nat option \<Rightarrow> 'c loop \<Rightarrow> (run_summary res \<times> 'c loop) option" where
  "run env c until_ts max_ticks s =
     (if \<not> lp_alive s then Some (Inr ((summary_of 0 0 0 0 s)\<lparr>rs_died := True\<rparr>), s)
      else let s1 = (if lc_force_terminal c
                     then s\<lparr>lp_force_pending := True, lp_hooks := lp_hooks s @ [ForceTerminalArmed (lp_breath s)]\<rparr>
                     else s)
        in (case reconstruct_from_disk env c s1 of
              (Inl e, s2) \<Rightarrow> Some (Inl e, s2)
            | (Inr r, s2) \<Rightarrow> run_loop env c until_ts max_ticks 0 0 0 0 s2))"

end
