(* ===== verification/LoopDemo.thy ===== *)
theory LoopDemo
  imports Loop
begin

text \<open>A small concrete world for the witnesses: a scalar chain, one market whose signals all point up,
  a settlement service that answers \<open>no\<close> from the second question on.\<close>

definition up_signal :: signal where
  "up_signal = \<lparr>score = Fin (3 / 4), confidence = fone, available_at = ''t'', rationale = ''r'', raw_features = []\<rparr>"

definition demo_inputs :: tick_inputs where
  "demo_inputs = \<lparr>ti_market_id = ''m'', ti_signals = map (\<lambda>n. (n, up_signal)) (RATIONAL_ENGINES @ SENTIENT_ENGINES),
     ti_price = Fin (1 / 2), ti_liquidity_cap_usd = Fin 50, ti_cross_market_signal = fzero,
     ti_fill_price = None, ti_fee_bps = None, ti_half_spread_frac = None\<rparr>"

definition demo_loop_env :: "scalar_chain loop_env" where
  "demo_loop_env = \<lparr>le_nv = False, le_clock = (\<lambda>n. int n), le_iso = (\<lambda>_. ''t''),
     le_poll = \<lparr>pe_nv = False, pe_iso = (\<lambda>_. Some (0, None)), pe_isoformat = (\<lambda>_. ''t''),
        pe_validate = bet_of_row False, pe_resolve = (\<lambda>n m. Inr (if n = 0 then None else Some demo_result)),
        pe_weight = (\<lambda>_ _ _. None), pe_chain = scalar_update\<rparr>,
     le_learn = (\<lambda>_ _ w. w), le_exec = demo_exec_env,
     le_uuid = (\<lambda>n. replicate (Suc n) (CHR ''u'')), le_engine = default_config, le_read_breath = scalar_read,
     le_kill = (\<lambda>a c. (Inr \<lparr>kill_tx_hash = 0, tombstone_token_id = 0, tombstone_tx_hash = 0\<rparr>, c)),
     le_inputs = (\<lambda>_ t. if t = 0 then Some demo_inputs else None), le_tribute_policy = None,
     le_dice = (\<lambda>_. Fin (1 / 10)), le_reflect = Some (\<lambda>_ _. Inr ''hm''), le_advisor = (\<lambda>_. Inr []),
     le_half_pow = (\<lambda>_. Fin (1 / 2)), le_weights_hash = (\<lambda>_. ''0x0''), le_last_words = None,
     le_last_words_template = (\<lambda>_ _. ''bye''), le_reason_text = (\<lambda>_. ''reason''), le_load_snapshot = Inr\<rparr>"

definition demo_loop_config :: loop_config where
  "demo_loop_config = \<lparr>lc_agent_id = ''a'', lc_memory_bank_cid = ''c'',
     lc_poll = \<lparr>max_bet_pnl_usd = None, side_correct_pricing = False, require_cost_fields = False\<rparr>,
     lc_value_betting = False, lc_price_floor = None, lc_tribute_breath = Fin 35, lc_storm_enabled = False,
     lc_storm_tau = Fin (1 / 2), lc_storm_scale = Fin 10, lc_divine_tithe = False, lc_tithe_every = 1,
     lc_tithe_amount_usd = Fin 20, lc_tithe_breath_cost = Fin 5, lc_record_living = False, lc_incarnation = 0,
     lc_initial_breath = Fin 100, lc_initial_bankroll_usd = Fin 100, lc_initial_weights = demo_weights\<lparr>rho := Fin (1 / 4)\<rparr>,
     lc_initial_phase = PHASE_2_APPRENTICE, lc_reflection_interval = 10, lc_reflection_threshold = Fin (1 / 4),
     lc_advisor_interval = 100, lc_advisor_window = 20, lc_advisor_threshold = Fin (1 / 1024),
     lc_force_terminal = False, lc_populate_window = False\<rparr>"

definition demo_disk :: disk where
  "demo_disk = \<lparr>dk_snapshot = None, dk_decisions = [], dk_proposals = [], dk_reflections = []\<rparr>"

definition demo_scalar_world :: "scalar_chain poll_world" where
  "demo_scalar_world = \<lparr>pw_ledger = \<lparr>open_bets = [], settled_bets = []\<rparr>, pw_hooks = [], pw_sleeps = [],
     pw_queries = 0, pw_weight_calls = [], pw_chain_calls = [], pw_chain = \<lparr>current_breath = Fin 100\<rparr>\<rparr>"

definition demo_guard :: cost_guard where
  "demo_guard = \<lparr>hard_cap_usd = Fin 25, warning_fraction = Fin (3 / 4), total_usd = fzero, cg_events = []\<rparr>"

definition demo_loop :: "scalar_chain loop" where
  "demo_loop = mk_loop demo_loop_config demo_guard \<lparr>rng_pos = 0, last_gate_diagnostics = None\<rparr>
     \<lparr>rn_pending = []\<rparr> demo_disk demo_scalar_world"

text \<open>The same world without an eligible market, and its first states.\<close>

definition idle_env :: "scalar_chain loop_env" where
  "idle_env = demo_loop_env\<lparr>le_inputs := (\<lambda>_ _. None)\<rparr>"

definition returned :: "'a res \<Rightarrow> bool" where
  "returned r = (case r of Inl _ \<Rightarrow> False | Inr _ \<Rightarrow> True)"

lemma returnedE: "returned (fst p) \<Longrightarrow> \<exists>x. p = (Inr x, snd p)"
  by (cases p; cases "fst p") (simp_all add: returned_def)

definition idle_boot :: "scalar_chain loop" where
  "idle_boot = snd (reconstruct_from_disk idle_env demo_loop_config demo_loop)"

definition idle_ticked :: "scalar_chain loop" where
  "idle_ticked = snd (tick idle_env demo_loop_config idle_boot)"

text \<open>A second process over the files of the first.\<close>

definition idle_restarted :: "scalar_chain loop" where
  "idle_restarted = mk_loop demo_loop_config demo_guard \<lparr>rng_pos = 0, last_gate_diagnostics = None\<rparr>
     \<lparr>rn_pending = []\<rparr> (lp_disk idle_ticked) (lp_world idle_ticked)
     \<lparr>lp_clocks := lp_clocks idle_ticked, lp_rolls := lp_rolls idle_ticked, lp_uuids := lp_uuids idle_ticked\<rparr>"

definition idle_reboot :: "scalar_chain loop" where
  "idle_reboot = snd (reconstruct_from_disk idle_env demo_loop_config idle_restarted)"

lemma idle_runs:
  "returned (fst (reconstruct_from_disk idle_env demo_loop_config demo_loop))"
  "returned (fst (tick idle_env demo_loop_config idle_boot))"
  "returned (fst (reconstruct_from_disk idle_env demo_loop_config idle_restarted))"
  "returned (fst (tick idle_env demo_loop_config idle_reboot))"
  by code_simp+

text \<open>The market again: one tick that bets.  And a life whose breath is spent when it starts.\<close>

definition bet_boot :: "scalar_chain loop" where
  "bet_boot = snd (reconstruct_from_disk demo_loop_env demo_loop_config demo_loop)"

definition bet_ticked :: "scalar_chain loop" where
  "bet_ticked = snd (tick demo_loop_env demo_loop_config bet_boot)"

definition doomed_loop :: "scalar_chain loop" where
  "doomed_loop = mk_loop demo_loop_config demo_guard \<lparr>rng_pos = 0, last_gate_diagnostics = None\<rparr>
     \<lparr>rn_pending = []\<rparr> demo_disk (demo_scalar_world\<lparr>pw_chain := \<lparr>current_breath = fzero\<rparr>\<rparr>)"

definition doomed_boot :: "scalar_chain loop" where
  "doomed_boot = snd (reconstruct_from_disk idle_env demo_loop_config doomed_loop)"

lemma bet_runs:
  "returned (fst (reconstruct_from_disk demo_loop_env demo_loop_config demo_loop))"
  "case tick demo_loop_env demo_loop_config bet_boot of (r, s) \<Rightarrow> returned r \<and> lp_open_bet_ids s = [''u'']"
  by code_simp+

lemma doomed_runs:
  "returned (fst (reconstruct_from_disk idle_env demo_loop_config doomed_loop))"
  "case tick idle_env demo_loop_config doomed_boot of (Inr r, s) \<Rightarrow> tr_died r | _ \<Rightarrow> False"
  by code_simp+

end
