(* ===== verification/LoopFrames.thy ===== *)
theory LoopFrames
  imports LoopDemo
begin

text \<open>
  What each step of the life loop can touch.  Every rule is stated for an arbitrary projection \<open>f\<close> of
  the loop state: it is left alone by a step when it ignores the fields the step writes, also when
  the step raises.  \<open>tick_okE\<close> splits a tick that returned into its steps.
\<close>

section \<open>Primitive steps\<close>

lemma leaves_read_clock [leaves_intros]:
  "(\<And>s v. f (s\<lparr>lp_clocks := v\<rparr>) = f s) \<Longrightarrow> leaves f (read_clock env)"
  by (simp add: leaves_def read_clock_def)

lemma leaves_emit [leaves_intros]:
  "(\<And>s v. f (s\<lparr>lp_hooks := v\<rparr>) = f s) \<Longrightarrow> leaves f (emit_hook h)"
  by (simp add: emit_hook_def leaves_intros)

lemma leaves_chain_breath [leaves_intros]: "leaves f (chain_breath env)"
  by (simp add: chain_breath_def leaves_intros)

lemma leaves_chain_push [leaves_intros]:
  "(\<And>s v. f (s\<lparr>lp_world := (lp_world s)\<lparr>pw_chain := v\<rparr>\<rparr>) = f s) \<Longrightarrow> leaves f (chain_push env p)"
  by (simp add: leaves_def chain_push_def split: prod.split)

lemma leaves_refresh [leaves_intros]:
  "(\<And>s v. f (s\<lparr>lp_breath := v\<rparr>) = f s) \<Longrightarrow> leaves f (refresh_breath env)"
  by (simp add: refresh_breath_def leaves_intros)

lemma leaves_appends [leaves_intros]:
  "(\<And>s v. f (s\<lparr>lp_disk := v\<rparr>) = f s) \<Longrightarrow> leaves f (append_decision env d)"
  "(\<And>s v. f (s\<lparr>lp_disk := v\<rparr>) = f s) \<Longrightarrow> leaves f (append_proposal p)"
  "(\<And>s v. f (s\<lparr>lp_disk := v\<rparr>) = f s) \<Longrightarrow> leaves f (append_reflection r)"
  "(\<And>s v. f (s\<lparr>lp_disk := v\<rparr>) = f s) \<Longrightarrow> leaves f (put_snapshot sn)"
  by (simp_all add: append_decision_def append_proposal_def append_reflection_def put_snapshot_def leaves_intros)

lemma leaves_write_snapshot [leaves_intros]:
  "(\<And>s sn. f (s\<lparr>lp_disk := (lp_disk s)\<lparr>dk_snapshot := sn\<rparr>\<rparr>) = f s) \<Longrightarrow> leaves f (write_snapshot env c now t)"
  by (simp add: write_snapshot_def put_snapshot_def leaves_intros)

lemma leaves_drain [leaves_intros]:
  assumes "\<And>s v. f (s\<lparr>lp_queue := v\<rparr>) = f s" "\<And>s v. f (s\<lparr>lp_weights := v\<rparr>) = f s" "\<And>s v. f (s\<lparr>lp_hooks := v\<rparr>) = f s"
  shows "leaves f (drain_and_apply_weight_deltas env t)"
  using assms by (auto simp: leaves_def drain_and_apply_weight_deltas_def split: prod.split)

lemma leaves_run_poller [leaves_intros]:
  assumes "\<And>s v. f (s\<lparr>lp_world := v\<rparr>) = f s" "\<And>s v. f (s\<lparr>lp_weights := v\<rparr>) = f s"
  shows "leaves f (run_poller env g)"
  using assms by (auto simp: leaves_def run_poller_def split: prod.split)

lemma leaves_roll [leaves_intros]: "(\<And>s v. f (s\<lparr>lp_rolls := v\<rparr>) = f s) \<Longrightarrow> leaves f (roll_dice env)"
  by (simp add: leaves_def roll_dice_def)

lemma leaves_charge [leaves_intros]: "(\<And>s v. f (s\<lparr>lp_guard := v\<rparr>) = f s) \<Longrightarrow> leaves f charge_reflection"
  by (auto simp: leaves_def charge_reflection_def split: sum.split)

lemma leaves_case_run [leaves_intros]:
  "(\<And>s x y. f (snd (k s x y)) = f s) \<Longrightarrow> leaves f (\<lambda>s. case g s of (x, y) \<Rightarrow> k s x y)"
  by (auto simp: leaves_def split: prod.split)

lemma leaves_pair_run [leaves_intros]: "(\<And>s. f (k s) = f s) \<Longrightarrow> leaves f (\<lambda>s. (g s, k s))"
  by (simp add: leaves_def)

section \<open>The steps of the tick\<close>

lemma leaves_poll_step:
  assumes "\<And>s v. f (s\<lparr>lp_clocks := v\<rparr>) = f s" "\<And>s v. f (s\<lparr>lp_world := v\<rparr>) = f s"
    "\<And>s v. f (s\<lparr>lp_weights := v\<rparr>) = f s" "\<And>s v. f (s\<lparr>lp_open_bet_ids := v\<rparr>) = f s"
    "\<And>s v. f (s\<lparr>lp_bankroll_usd := v\<rparr>) = f s"
  shows "leaves f (poll_step env c)"
  unfolding poll_step_def credit_def by (intro leaves_intros assms) (simp_all add: assms)

lemma leaves_force_step:
  assumes "\<And>s v. f (s\<lparr>lp_world := (lp_world s)\<lparr>pw_chain := v\<rparr>\<rparr>) = f s"
    "\<And>s v. f (s\<lparr>lp_force_pending := v\<rparr>) = f s" "\<And>s v. f (s\<lparr>lp_storm := v\<rparr>) = f s"
  shows "leaves f (force_step env)"
  unfolding force_step_def by (intro leaves_intros assms) (simp_all add: assms)

lemma leaves_update_storm:
  assumes "\<And>s v. f (s\<lparr>lp_storm := v\<rparr>) = f s"
  shows "leaves f (update_storm env c now)"
  unfolding update_storm_def by (intro leaves_intros assms)

lemma leaves_settle_steps:
  assumes "\<And>s v. f (s\<lparr>lp_clocks := v\<rparr>) = f s" "\<And>s v. f (s\<lparr>lp_world := v\<rparr>) = f s"
    "\<And>s v. f (s\<lparr>lp_weights := v\<rparr>) = f s" "\<And>s v. f (s\<lparr>lp_open_bet_ids := v\<rparr>) = f s"
    "\<And>s v. f (s\<lparr>lp_bankroll_usd := v\<rparr>) = f s" "\<And>s v. f (s\<lparr>lp_queue := v\<rparr>) = f s"
    "\<And>s v. f (s\<lparr>lp_hooks := v\<rparr>) = f s" "\<And>s v. f (s\<lparr>lp_force_pending := v\<rparr>) = f s"
    "\<And>s v. f (s\<lparr>lp_storm := v\<rparr>) = f s" "\<And>s v. f (s\<lparr>lp_breath := v\<rparr>) = f s"
  shows "leaves f (settle_steps env c now t)"
  unfolding settle_steps_def
  by (intro leaves_intros leaves_poll_step leaves_force_step leaves_update_storm assms)

lemma leaves_decide_step:
  assumes "\<And>s v. f (s\<lparr>lp_engine := v\<rparr>) = f s"
  shows "leaves f (decide_step env c i)"
  unfolding decide_step_def by (intro leaves_intros assms) (auto simp: assms split: prod.split)

lemma leaves_place_step:
  assumes "\<And>s v. f (s\<lparr>lp_clocks := v\<rparr>) = f s" "\<And>s v. f (s\<lparr>lp_world := (lp_world s)\<lparr>pw_ledger := v\<rparr>\<rparr>) = f s"
    "\<And>s v. f (s\<lparr>lp_open_bet_ids := v\<rparr>) = f s" "\<And>s v. f (s\<lparr>lp_exec := v\<rparr>) = f s"
    "\<And>s v. f (s\<lparr>lp_uuids := v\<rparr>) = f s"
  shows "leaves f (place_step env c i a)"
proof -
  have "f (s\<lparr>lp_exec := e, lp_world := (lp_world s)\<lparr>pw_ledger := l\<rparr>\<rparr>) = f s" for s e l
    using assms(2) [where s = "s\<lparr>lp_exec := e\<rparr>" and v = l] by (simp add: assms(4))
  then show ?thesis
    unfolding place_step_def
    by (auto intro!: leaves_intros assms simp: assms split: action_kind.split option.split prod.split)
qed

lemma leaves_decision_steps:
  assumes "\<And>s v. f (s\<lparr>lp_clocks := v\<rparr>) = f s" "\<And>s v. f (s\<lparr>lp_world := (lp_world s)\<lparr>pw_ledger := v\<rparr>\<rparr>) = f s"
    "\<And>s v. f (s\<lparr>lp_engine := v\<rparr>) = f s" "\<And>s v. f (s\<lparr>lp_open_bet_ids := v\<rparr>) = f s"
    "\<And>s v. f (s\<lparr>lp_exec := v\<rparr>) = f s" "\<And>s v. f (s\<lparr>lp_uuids := v\<rparr>) = f s"
  shows "leaves f (decision_steps env c now t)"
  unfolding decision_steps_def Let_def
  by (intro leaves_intros leaves_decide_step leaves_place_step assms)

lemma leaves_record_step:
  assumes "\<And>s ds. f (s\<lparr>lp_disk := (lp_disk s)\<lparr>dk_decisions := ds\<rparr>\<rparr>) = f s" "\<And>s v. f (s\<lparr>lp_hooks := v\<rparr>) = f s"
  shows "leaves f (record_step env c now t i a oid)"
  unfolding record_step_def append_decision_def by (intro leaves_intros assms)

lemma leaves_tithe_step:
  assumes "\<And>s v. f (s\<lparr>lp_bankroll_usd := v\<rparr>) = f s" "\<And>s v. f (s\<lparr>lp_world := (lp_world s)\<lparr>pw_chain := v\<rparr>\<rparr>) = f s"
    "\<And>s v. f (s\<lparr>lp_hooks := v\<rparr>) = f s" "\<And>s v. f (s\<lparr>lp_storm := v\<rparr>) = f s"
    "\<And>s v. f (s\<lparr>lp_breath := v\<rparr>) = f s" "\<And>s v. f (s\<lparr>lp_markets := v\<rparr>) = f s"
  shows "leaves f (tithe_step env c t i)"
  unfolding tithe_step_def attempt_tithe_def by (intro leaves_intros assms)

lemma leaves_attempt_tribute:
  assumes "\<And>s v. f (s\<lparr>lp_bankroll_usd := v\<rparr>) = f s" "\<And>s v. f (s\<lparr>lp_world := (lp_world s)\<lparr>pw_chain := v\<rparr>\<rparr>) = f s"
    "\<And>s v. f (s\<lparr>lp_hooks := v\<rparr>) = f s" "\<And>s v. f (s\<lparr>lp_storm := v\<rparr>) = f s"
    "\<And>s v. f (s\<lparr>lp_breath := v\<rparr>) = f s" "\<And>s v. f (s\<lparr>lp_rolls := v\<rparr>) = f s"
    "\<And>s sn. f (s\<lparr>lp_disk := (lp_disk s)\<lparr>dk_snapshot := sn\<rparr>\<rparr>) = f s"
  shows "leaves f (attempt_tribute env c policy now t)"
  unfolding attempt_tribute_def grant_breath_def by (intro leaves_intros assms)

lemma leaves_seal_death:
  assumes "\<And>s v. f (s\<lparr>lp_world := (lp_world s)\<lparr>pw_chain := v\<rparr>\<rparr>) = f s"
    "\<And>s v. f (s\<lparr>lp_receipt := v\<rparr>) = f s" "\<And>s v. f (s\<lparr>lp_alive := v\<rparr>) = f s" "\<And>s v. f (s\<lparr>lp_phase := v\<rparr>) = f s"
    "\<And>s v. f (s\<lparr>lp_clocks := v\<rparr>) = f s" "\<And>s v. f (s\<lparr>lp_hooks := v\<rparr>) = f s"
    "\<And>s sn. f (s\<lparr>lp_disk := (lp_disk s)\<lparr>dk_snapshot := sn\<rparr>\<rparr>) = f s"
  shows "leaves f (seal_death env c t)"
  unfolding seal_death_def put_snapshot_def by (intro leaves_intros assms) (simp_all add: assms)

lemma leaves_death_step:
  assumes "\<And>s v. f (s\<lparr>lp_bankroll_usd := v\<rparr>) = f s" "\<And>s v. f (s\<lparr>lp_world := v\<rparr>) = f s"
    "\<And>s v. f (s\<lparr>lp_hooks := v\<rparr>) = f s" "\<And>s v. f (s\<lparr>lp_storm := v\<rparr>) = f s"
    "\<And>s v. f (s\<lparr>lp_breath := v\<rparr>) = f s" "\<And>s v. f (s\<lparr>lp_rolls := v\<rparr>) = f s"
    "\<And>s v. f (s\<lparr>lp_clocks := v\<rparr>) = f s" "\<And>s v. f (s\<lparr>lp_weights := v\<rparr>) = f s"
    "\<And>s v. f (s\<lparr>lp_open_bet_ids := v\<rparr>) = f s" "\<And>s v. f (s\<lparr>lp_receipt := v\<rparr>) = f s"
    "\<And>s v. f (s\<lparr>lp_alive := v\<rparr>) = f s" "\<And>s v. f (s\<lparr>lp_phase := v\<rparr>) = f s"
    "\<And>s sn. f (s\<lparr>lp_disk := (lp_disk s)\<lparr>dk_snapshot := sn\<rparr>\<rparr>) = f s"
  shows "leaves f (death_step env c now t)"
  unfolding death_step_def die_def close_positions_def
  by (intro leaves_intros leaves_attempt_tribute leaves_seal_death assms)

lemma leaves_living_steps:
  assumes "\<And>s v. f (s\<lparr>lp_last_reflection_tick := v\<rparr>) = f s" "\<And>s v. f (s\<lparr>lp_last_reflection_weights := v\<rparr>) = f s"
    "\<And>s v. f (s\<lparr>lp_hooks := v\<rparr>) = f s" "\<And>s v. f (s\<lparr>lp_guard := v\<rparr>) = f s"
    "\<And>s v. f (s\<lparr>lp_uuids := v\<rparr>) = f s" "\<And>s v. f (s\<lparr>lp_ring := v\<rparr>) = f s"
    "\<And>s v. f (s\<lparr>lp_last_advisor_tick := v\<rparr>) = f s" "\<And>s v. f (s\<lparr>lp_pending := v\<rparr>) = f s"
    "\<And>s v. f (s\<lparr>lp_disk := (lp_disk s)\<lparr>dk_reflections := v\<rparr>\<rparr>) = f s"
    "\<And>s v. f (s\<lparr>lp_disk := (lp_disk s)\<lparr>dk_proposals := v\<rparr>\<rparr>) = f s"
    "\<And>s v. f (s\<lparr>lp_disk := (lp_disk s)\<lparr>dk_snapshot := v\<rparr>\<rparr>) = f s"
  shows "leaves f (living_steps env c now t i a)"
proof -
  have "leaves f (reflection_step env c now t a m)" for m
    unfolding reflection_step_def fire_reflection_def reset_baseline_def append_reflection_def
    by (auto intro!: leaves_intros assms simp: assms split: option.split)
  moreover have "leaves f (advisor_step env c now t)"
    unfolding advisor_step_def fire_strategy_advisor_def persist_proposal_def append_proposal_def
    by (auto intro!: leaves_intros assms simp: assms split: option.split)
  ultimately show ?thesis unfolding living_steps_def by (intro leaves_intros)
qed

section \<open>A tick taken apart\<close>

lemma tick_okE:
  assumes "tick env c s = (Inr r, s')"
  obtains now p s1 inputs a oid s2 s3 s4 s5 died s6 where
    "now = le_clock env (lp_clocks s)"
    "settle_steps env c now (lp_tick_counter s) (s\<lparr>lp_clocks := Suc (lp_clocks s)\<rparr>) = (Inr p, s1)"
    "decision_steps env c now (lp_tick_counter s) s1 = (Inr (inputs, a, oid), s2)"
    "record_step env c now (lp_tick_counter s) inputs a oid s2 = (Inr (), s3)"
    "write_snapshot env c now (lp_tick_counter s) (s3\<lparr>lp_tick_counter := lp_tick_counter s + 1\<rparr>) = (Inr (), s4)"
    "tithe_step env c (lp_tick_counter s) inputs s4 = (Inr (), s5)"
    "death_step env c now (lp_tick_counter s) s5 = (Inr died, s6)"
    "whenever (\<not> died) (living_steps env c now (lp_tick_counter s) inputs a) s6 = (Inr (), s')"
    "r = \<lparr>tr_tick = lp_tick_counter s, tr_action = a, tr_breath_after = lp_breath s',
          tr_bankroll_after = lp_bankroll_usd s', tr_poll_settled = settled_count p,
          tr_poll_pending = pending_count p, tr_died = died\<rparr>"
  using assms unfolding tick_def
  by (auto simp: sbind_ok sthen_ok run_simps read_clock_def split: prod.splits)

end
