(* ===== verification/LoopLife.thy ===== *)
theory LoopLife
  imports LoopFrames
begin

text \<open>
  The life of a loop across processes: ticks that return, ticks that raise, restarts over the files left
  behind, and what others do in between.  The decision log over such a life.
\<close>

section \<open>Lives\<close>

definition logged_ticks :: "json option list \<Rightarrow> int list" where
  "logged_ticks ls = List.map_filter (\<lambda>r. case jget r ''tick'' of JInt t \<Rightarrow> Some t | _ \<Rightarrow> None) (iter_jsonl ls)"

text \<open>The flag says whether the process is inside \<open>run\<close>, that is, has reconstructed and not failed.  A
  restart keeps the files; the chain, the queue, the guard and the engine may be any; the clock, the
  dice and the identifiers go on where they were.  A life is born over an empty ledger and a decision
  stream without ticks (the server writes a marker row first); \<open>run\<close> arms the forced end and reads the
  clock between the ticks.\<close>

inductive loop_life :: "'c loop_env \<Rightarrow> loop_config \<Rightarrow> 'c loop \<Rightarrow> bool \<Rightarrow> bool" for env c where
  birth: "logged_ticks (dk_decisions d) = [] \<Longrightarrow> pw_ledger w = \<lparr>open_bets = [], settled_bets = []\<rparr> \<Longrightarrow>
    loop_life env c ((mk_loop c g en q d w)\<lparr>lp_clocks := i, lp_rolls := j, lp_uuids := k\<rparr>) False"
| boot: "loop_life env c s running \<Longrightarrow> reconstruct_from_disk env c s = (Inr r, s') \<Longrightarrow> loop_life env c s' True"
| boot_fails: "loop_life env c s running \<Longrightarrow> reconstruct_from_disk env c s = (Inl e, s') \<Longrightarrow> loop_life env c s' False"
| ticks: "loop_life env c s True \<Longrightarrow> tick env c s = (Inr r, s') \<Longrightarrow> loop_life env c s' True"
| tick_fails: "loop_life env c s True \<Longrightarrow> tick env c s = (Inl e, s') \<Longrightarrow> loop_life env c s' False"
| restart: "loop_life env c s running \<Longrightarrow>
    loop_life env c ((mk_loop c g en q (lp_disk s) (w\<lparr>pw_ledger := pw_ledger (lp_world s)\<rparr>))
      \<lparr>lp_clocks := lp_clocks s, lp_rolls := lp_rolls s, lp_uuids := lp_uuids s\<rparr>) False"
| waits: "loop_life env c s running \<Longrightarrow>
    loop_life env c (s\<lparr>lp_clocks := i, lp_force_pending := p, lp_hooks := hs\<rparr>) running"
| approval: "loop_life env c s running \<Longrightarrow> loop_life env c (s\<lparr>lp_queue := enqueue_weight_delta d (lp_queue s)\<rparr>) running"
| operator: "loop_life env c s running \<Longrightarrow>
    loop_life env c (s\<lparr>lp_disk := (lp_disk s)\<lparr>dk_proposals := dk_proposals (lp_disk s) @ ps\<rparr>\<rparr>) running"

text \<open>A first process over an empty directory.\<close>

lemma first_birth:
  assumes "dk_decisions d = []" "pw_ledger w = \<lparr>open_bets = [], settled_bets = []\<rparr>"
  shows "loop_life env c (mk_loop c g en q d w) False"
proof -
  have "logged_ticks (dk_decisions d) = []" using assms(1) by (simp add: logged_ticks_def iter_jsonl_def List.map_filter_def)
  from loop_life.birth [where env = env and c = c and g = g and en = en and q = q and i = 0 and j = 0 and k = 0, OF this assms(2)]
  show ?thesis by (simp add: mk_loop_def)
qed

section \<open>The decision log\<close>

abbreviation tick_log :: "'c loop \<Rightarrow> int list" where
  "tick_log s \<equiv> logged_ticks (dk_decisions (lp_disk s))"

abbreviation last_seen :: "'c loop \<Rightarrow> int" where
  "last_seen s \<equiv> last_tick_seen (dk_decisions (lp_disk s))"

lemma decision_row_tick [simp]: "jget (decision_row text_of d) ''tick'' = JInt (dr_tick d)"
  by (simp add: decision_row_def DECISION_LIVING_KEYS_def jget_def)

lemma logged_ticks_nil [simp]: "logged_ticks [] = []"
  by (simp add: logged_ticks_def iter_jsonl_def List.map_filter_def)

lemma logged_ticks_append [simp]:
  "logged_ticks (ls @ [Some (JDict (decision_row text_of d))]) = logged_ticks ls @ [dr_tick d]"
  by (simp add: logged_ticks_def iter_jsonl_append List.map_filter_def)

lemma last_tick_seen_append [simp]:
  "last_tick_seen (ls @ [Some (JDict (decision_row text_of d))]) = max (last_tick_seen ls) (dr_tick d)"
  by (simp add: last_tick_seen_def iter_jsonl_append)

lemma last_tick_seen_nil [simp]: "last_tick_seen [] = - 1"
  by (simp add: last_tick_seen_def iter_jsonl_def List.map_filter_def)

lemma last_tick_ge:
  "m \<le> foldl (\<lambda>m r. case jget r ''tick'' of JInt t \<Rightarrow> if m < t then t else m
                  | JBool b \<Rightarrow> (let t = (if b then 1 else 0) in if m < t then t else m)
                  | _ \<Rightarrow> m) m rs \<and>
   (\<forall>r\<in>set rs. \<forall>t. jget r ''tick'' = JInt t \<longrightarrow> t \<le> foldl (\<lambda>m r. case jget r ''tick'' of JInt t \<Rightarrow> if m < t then t else m
                  | JBool b \<Rightarrow> (let t = (if b then 1 else 0) in if m < t then t else m)
                  | _ \<Rightarrow> m) (m::int) rs)"
proof (induction rs arbitrary: m)
  case (Cons r rs)
  show ?case
    using Cons.IH [of "case jget r ''tick'' of JInt t \<Rightarrow> if m < t then t else m
                  | JBool b \<Rightarrow> (let t = (if b then 1 else 0) in if m < t then t else m) | _ \<Rightarrow> m"]
    by (auto simp: Let_def split: json.splits if_splits)
qed simp

lemma logged_tick_row:
  assumes "t \<in> set (logged_ticks ls)" shows "\<exists>r\<in>set (iter_jsonl ls). jget r ''tick'' = JInt t"
proof -
  obtain r where "r \<in> set (iter_jsonl ls)" "(case jget r ''tick'' of JInt t \<Rightarrow> Some t | _ \<Rightarrow> None) = Some t"
    using assms by (auto simp: logged_ticks_def set_map_filter_iff)
  then show ?thesis by (cases "jget r ''tick''") auto
qed

lemma last_tick_seen_ge: "t \<in> set (logged_ticks ls) \<Longrightarrow> t \<le> last_tick_seen ls"
  using last_tick_ge [of "- 1" "iter_jsonl ls"] logged_tick_row [of t ls]
  by (auto simp: last_tick_seen_def)

section \<open>What a tick does to the log\<close>

lemma wp_seq: "wp m P E s \<Longrightarrow> (\<And>x s1. P x s1 \<Longrightarrow> wp (k x) Q E s1) \<Longrightarrow> wp (sbind m k) Q E s"
  unfolding wp_bind by (erule wp_mono)

lemma wp_seq_then: "wp m (\<lambda>_. P) E s \<Longrightarrow> (\<And>s1. P s1 \<Longrightarrow> wp k Q E s1) \<Longrightarrow> wp (sthen m k) Q E s"
  unfolding wp_then by (erule wp_mono)

lemma wp_leaves: "leaves f m \<Longrightarrow> wp m (\<lambda>_ s1. f s1 = f s) (\<lambda>_ s1. f s1 = f s) s"
  by (auto simp: leaves_def wp_def split: prod.split sum.split) (metis snd_conv)+

text \<open>The log and the counter while a tick numbered \<open>t\<close> runs.\<close>

abbreviation log_state :: "'c loop \<Rightarrow> int list \<times> int \<times> int" where
  "log_state s \<equiv> (tick_log s, last_seen s, lp_tick_counter s)"

lemma log_leaves:
  "leaves log_state (settle_steps env c now t)" "leaves log_state (decision_steps env c now t)"
  "leaves log_state (write_snapshot env c now t)" "leaves log_state (tithe_step env c t i)"
  "leaves log_state (death_step env c now t)" "leaves log_state (living_steps env c now t i a)"
  by (rule leaves_settle_steps leaves_decision_steps leaves_write_snapshot leaves_tithe_step leaves_death_step
      leaves_living_steps; simp)+

lemma record_step_log:
  "wp (record_step env c now t i a oid)
     (\<lambda>_ s1. tick_log s1 = tick_log s @ [t] \<and> 0 \<le> t \<and> lp_tick_counter s1 = lp_tick_counter s \<and>
        last_seen s1 = max (last_seen s) t)
     (\<lambda>_ s1. log_state s1 = log_state s) s"
  by (simp add: record_step_def wp_simps emit_hook_def append_decision_def mk_decision_record_def
      decision_record_of_def Let_def)

lemma tick_log_grows:
  "wp (tick env c)
     (\<lambda>r s'. tick_log s' = tick_log s @ [lp_tick_counter s] \<and> 0 \<le> lp_tick_counter s \<and>
        lp_tick_counter s' = lp_tick_counter s + 1 \<and> tr_tick r = lp_tick_counter s \<and>
        last_seen s' = max (last_seen s) (lp_tick_counter s))
     (\<lambda>_ s'. tick_log s' = tick_log s \<or> tick_log s' = tick_log s @ [lp_tick_counter s] \<and> 0 \<le> lp_tick_counter s) s"
  (is "wp _ ?Q ?E s")
proof -
  let ?t = "lp_tick_counter s"
  let ?done = "\<lambda>s1. tick_log s1 = tick_log s @ [?t] \<and> 0 \<le> ?t \<and> lp_tick_counter s1 = ?t + 1 \<and>
    last_seen s1 = max (last_seen s) ?t"
  have kept: "wp m (\<lambda>_ s2. log_state s2 = log_state s) ?E s1"
    if "leaves log_state m" "log_state s1 = log_state s" for m :: "('a loop, 'x) prog" and s1
    using wp_leaves [OF that(1), of s1] that(2) by (auto elim!: wp_mono)
  have after: "wp m (\<lambda>_. ?done) ?E s1"
    if "leaves log_state m" "?done s1" for m :: "('a loop, 'x) prog" and s1
    using wp_leaves [OF that(1), of s1] that(2) by (auto elim!: wp_mono)
  have living: "leaves log_state (whenever b (living_steps env c now ?t i a))" for b now i a
    by (intro leaves_whenever log_leaves)
  have clock: "leaves log_state (read_clock env)" by (simp add: leaves_intros)
  have written: "wp (record_step env c now ?t i a oid)
      (\<lambda>_ s1. tick_log s1 = tick_log s @ [?t] \<and> 0 \<le> ?t \<and> lp_tick_counter s1 = ?t \<and>
         last_seen s1 = max (last_seen s) ?t) ?E s1"
    if "log_state s1 = log_state s" for s1 :: "'a loop" and now i a oid
    using record_step_log [of env c now ?t i a oid s1] that by (auto elim!: wp_mono)
  show ?thesis
    unfolding tick_def
    apply (rule wp_seq [OF kept [OF clock refl]])
    apply (subst wp_bind, subst wp_reads)
    apply (rule wp_seq [OF kept [OF log_leaves(1)]], simp)
    apply (rule wp_seq [OF kept [OF log_leaves(2)]], simp)
    apply (clarsimp simp only: split_conv)
    apply (rule wp_seq_then [OF written], simp)
    apply (subst wp_then, subst wp_update)
    apply (rule wp_seq_then [OF after [OF log_leaves(3)]], simp)
    apply (rule wp_seq_then [OF after [OF log_leaves(4)]], simp)
    apply (rule wp_seq [OF after [OF log_leaves(5)]], simp)
    apply (rule wp_seq_then [OF after [OF living]], simp)
    apply (simp add: wp_reads)
    done
qed

section \<open>Decision ticks never repeat\<close>

definition log_sound :: "'c loop \<Rightarrow> bool \<Rightarrow> bool" where
  "log_sound s running =
     (sorted_wrt (<) (tick_log s) \<and> (\<forall>t\<in>set (tick_log s). 0 \<le> t) \<and>
      (running \<longrightarrow> last_seen s < lp_tick_counter s))"

lemma logged_below: "log_sound s True \<Longrightarrow> t \<in> set (tick_log s) \<Longrightarrow> t < lp_tick_counter s"
  using last_tick_seen_ge by (fastforce simp: log_sound_def)

lemma load_step_disk: "leaves lp_disk (load_step env c)"
  unfolding load_step_def by (intro leaves_intros; simp)

lemma load_step_counter: "load_step env c s = (Inr b, s1) \<Longrightarrow> 0 \<le> lp_tick_counter s1"
  by (auto simp: load_step_def ok_simps split: option.splits)

lemma reconstruct_okE:
  assumes "reconstruct_from_disk env c s = (Inr x, s')"
  obtains b s1 s2 where "load_step env c s = (Inr b, s1)" "refresh_breath env (fold_streams s1) = (Inr (), s2)"
    "note_divergence (dk_snapshot (lp_disk s) = None) b s2 = (Inr (), s')"
    "\<not> (lc_storm_enabled c \<and> durable_state s)"
  using assms unfolding reconstruct_from_disk_def
  by (auto simp: ok_simps guard_res_def split: if_splits)

lemma leaves_note_divergence [leaves_intros]:
  "(\<And>s v. f (s\<lparr>lp_hooks := v\<rparr>) = f s) \<Longrightarrow> leaves f (note_divergence cold b)"
  unfolding note_divergence_def by (intro leaves_intros)

lemma reconstruct_log:
  assumes "reconstruct_from_disk env c s = (r, s')"
  shows "lp_disk s' = lp_disk s" "r = Inr x \<Longrightarrow> last_seen s < lp_tick_counter s'"
proof -
  have "leaves lp_disk (reconstruct_from_disk env c)"
    unfolding reconstruct_from_disk_def by (intro leaves_intros load_step_disk; simp add: fold_streams_def)
  then show "lp_disk s' = lp_disk s" using assms by (metis leaves_def snd_conv)
  assume x: "r = Inr x"
  obtain b s1 s2 where load: "load_step env c s = (Inr b, s1)"
    and rest: "refresh_breath env (fold_streams s1) = (Inr (), s2)"
      "note_divergence (dk_snapshot (lp_disk s) = None) b s2 = (Inr (), s')"
    using assms [unfolded x] by (rule reconstruct_okE)
  have "leaves lp_tick_counter (refresh_breath env)" for env :: "'a loop_env" by (simp add: leaves_intros)
  moreover have "leaves lp_tick_counter (note_divergence cold b)" for cold b by (simp add: leaves_intros)
  ultimately have "lp_tick_counter s' = lp_tick_counter (fold_streams s1)"
    using rest by (metis leaves_def snd_conv)
  moreover have "lp_disk s1 = lp_disk s" using load_step_disk load by (metis leaves_def snd_conv)
  ultimately show "last_seen s < lp_tick_counter s'" using load_step_counter [OF load] by (simp add: fold_streams_def)
qed

lemma log_sound_tick:
  assumes "log_sound s True" "tick env c s = (r, s')"
  shows "log_sound s' (case r of Inl _ \<Rightarrow> False | Inr _ \<Rightarrow> True)"
proof (cases r)
  case (Inl e)
  then show ?thesis
    using wp_excD [OF tick_log_grows, of env c s e s'] assms logged_below [OF assms(1)]
    by (auto simp: log_sound_def sorted_wrt_append)
next
  case (Inr x)
  then show ?thesis
    using wp_okD [OF tick_log_grows, of env c s x s'] assms logged_below [OF assms(1)]
    by (auto simp: log_sound_def sorted_wrt_append)
qed

lemma loop_life_log_sound: "loop_life env c s running \<Longrightarrow> log_sound s running"
proof (induction rule: loop_life.induct)
  case (boot s running r s')
  then show ?case using reconstruct_log [OF boot(2)] by (auto simp: log_sound_def)
next
  case (boot_fails s running e s')
  then show ?case using reconstruct_log(1) [OF boot_fails(2)] by (auto simp: log_sound_def)
next
  case (ticks s r s')
  then show ?case using log_sound_tick [OF ticks(3,2)] by simp
next
  case (tick_fails s e s')
  then show ?case using log_sound_tick [OF tick_fails(3,2)] by simp
qed (simp_all add: log_sound_def mk_loop_def)

text \<open>C5. Over a whole life of the loop, with ticks that raise at any point, restarts over the files left
  behind, approvals and operator rows in between, the decision log never holds two rows with the same
  tick: the ticks of its rows increase strictly.  A tick that returns appends exactly one row, with the
  tick it reports; a tick that raises appends that row or none.\<close>

theorem decision_ticks_never_repeat:
  assumes "loop_life env c s running"
  shows "sorted_wrt (<) (tick_log s) \<and> distinct (tick_log s) \<and>
    (running \<longrightarrow> (case tick env c s of
        (Inr r, s') \<Rightarrow> tick_log s' = tick_log s @ [tr_tick r] \<and> lp_tick_counter s' = tr_tick r + 1
      | (Inl e, s') \<Rightarrow> tick_log s' \<in> {tick_log s, tick_log s @ [lp_tick_counter s]}))"
proof -
  have sound: "sorted_wrt (<) (tick_log s)" using loop_life_log_sound [OF assms] by (simp add: log_sound_def)
  have "case tick env c s of
        (Inr r, s') \<Rightarrow> tick_log s' = tick_log s @ [tr_tick r] \<and> lp_tick_counter s' = tr_tick r + 1
      | (Inl e, s') \<Rightarrow> tick_log s' \<in> {tick_log s, tick_log s @ [lp_tick_counter s]}"
    using tick_log_grows [of env c s] by (auto simp: wp_def split: prod.splits sum.splits)
  then show ?thesis using sound strict_sorted_iff by blast
qed

lemma idle_life: "loop_life idle_env demo_loop_config idle_reboot True"
proof -
  have start: "loop_life idle_env demo_loop_config demo_loop False"
    unfolding demo_loop_def by (rule first_birth) (simp_all add: demo_disk_def demo_scalar_world_def)
  have "loop_life idle_env demo_loop_config idle_boot True"
    using loop_life.boot [OF start] returnedE [OF idle_runs(1)] unfolding idle_boot_def by blast
  then have "loop_life idle_env demo_loop_config idle_ticked True"
    using loop_life.ticks returnedE [OF idle_runs(2)] unfolding idle_ticked_def by blast
  from loop_life.restart [OF this, of demo_guard _ _ "lp_world idle_ticked"]
  have "loop_life idle_env demo_loop_config idle_restarted False"
    unfolding idle_restarted_def by simp
  from loop_life.boot [OF this] show ?thesis
    using returnedE [OF idle_runs(3)] unfolding idle_reboot_def by blast
qed

theorem decision_ticks_never_repeat_witness:
  "tick_log (snd (tick idle_env demo_loop_config idle_reboot)) = [0, 1]"
proof -
  obtain r s' where t: "tick idle_env demo_loop_config idle_reboot = (Inr r, s')"
    using returnedE [OF idle_runs(4)] by blast
  have "tick_log idle_reboot = [0]" by code_simp
  moreover have "case fst (tick idle_env demo_loop_config idle_reboot) of Inr r \<Rightarrow> tr_tick r = 1 | Inl _ \<Rightarrow> False"
    by code_simp
  ultimately show ?thesis using decision_ticks_never_repeat [OF idle_life] t by simp
qed

end
