(* ===== verification/Books.thy ===== *)
theory Books
  imports Loop
begin

text \<open>
  A sound ledger: every row of the open-bets file was written from a valid bet with a minted
  identifier, and nothing was settled twice.  Orders with fresh identifiers and everything the poller
  does keep it sound; the in-memory open set is a function of it.
\<close>

definition valid_rows :: "bool \<Rightarrow> string set \<Rightarrow> ledger \<Rightarrow> bool" where
  "valid_rows nv ids l =
     (\<forall>r\<in>set (iter_jsonl (open_bets l)). \<exists>b. r = bet_record_jsonl_dict b \<and> bet_fields_ok nv b \<and> bet_id b \<in> ids)"

definition ledger_ok :: "bool \<Rightarrow> string set \<Rightarrow> ledger \<Rightarrow> bool" where
  "ledger_ok nv ids l = (settled_once l \<and> valid_rows nv ids l)"

lemma valid_rows_append [simp]:
  "valid_rows nv ids (append_open_bet b l) \<longleftrightarrow>
   valid_rows nv ids l \<and> (\<exists>b'. bet_record_jsonl_dict b = bet_record_jsonl_dict b' \<and> bet_fields_ok nv b' \<and> bet_id b' \<in> ids)"
  by (auto simp: valid_rows_def iter_jsonl_append)

lemma valid_rows_append_settled [simp]: "valid_rows nv ids (append_settled_bet s l) = valid_rows nv ids l"
  by (simp add: valid_rows_def)

lemma ledger_ok_mono: "ledger_ok nv ids l \<Longrightarrow> ids \<subseteq> ids' \<Longrightarrow> ledger_ok nv ids' l"
  unfolding ledger_ok_def valid_rows_def by blast

lemma latest_row:
  assumes "latest l i = Some r" shows "r \<in> set (iter_jsonl (open_bets l))" "jget r ''bet_id'' = JStr i"
proof -
  have row: "(i, r) \<in> set (fold_latest_rows (open_bets l))" using assms by (simp add: latest_in_fold)
  then show "jget r ''bet_id'' = JStr i" by (rule fold_latest_keys)
  from row have "map_of (rev (List.map_filter (\<lambda>r. case jget r ''bet_id'' of JStr i \<Rightarrow> Some (i, r) | _ \<Rightarrow> None)
      (iter_jsonl (open_bets l)))) i = Some r"
    using assms by (simp only: latest_def fold_latest_rows_def dget_fold_dict)
  from map_of_SomeD [OF this] obtain x where x: "x \<in> set (iter_jsonl (open_bets l))"
    "(case jget x ''bet_id'' of JStr i \<Rightarrow> Some (i, x) | _ \<Rightarrow> None) = Some (i, r)"
    by (auto simp: set_map_filter_iff)
  then show "r \<in> set (iter_jsonl (open_bets l))" by (cases "jget x ''bet_id''") auto
qed

lemma valid_latest:
  assumes "valid_rows nv ids l" "latest l i = Some r"
  obtains b where "r = bet_record_jsonl_dict b" "bet_fields_ok nv b" "bet_id b = i" "i \<in> ids"
proof -
  obtain b where b: "r = bet_record_jsonl_dict b" "bet_fields_ok nv b" "bet_id b \<in> ids"
    using assms latest_row(1) unfolding valid_rows_def by blast
  then show ?thesis using that latest_row(2) [OF assms(2)] by simp
qed

lemma is_open_minted: "valid_rows nv ids l \<Longrightarrow> is_open l i \<Longrightarrow> i \<in> ids"
  by (auto simp: is_open_def split: option.splits elim!: valid_latest)

lemma ledger_ok_close:
  assumes "ledger_ok nv ids l" "is_open l (bet_id b)" "bet_fields_ok nv b" "s_bet_id s = bet_id b"
  shows "ledger_ok nv ids (close_bet s b l)"
proof -
  have "bet_id b \<in> ids" using assms(1,2) is_open_minted by (auto simp: ledger_ok_def)
  then have "valid_rows nv ids (close_bet s b l)"
    using assms(1,3) unfolding close_bet_def ledger_ok_def
    by (auto intro!: exI [of _ "settled_copy (settled_ts s) b"])
  then show ?thesis using settled_once_close [of l b s] assms by (simp add: ledger_ok_def)
qed

lemma ledger_ok_place:
  assumes "ledger_ok nv ids l" "bet_fields_ok nv b" "bet_id b \<notin> ids"
  shows "ledger_ok nv (insert (bet_id b) ids) (append_open_bet b l)"
proof -
  have "latest l (bet_id b) = None"
    using assms(1,3) by (cases "latest l (bet_id b)") (auto simp: ledger_ok_def elim: valid_latest)
  moreover have "valid_rows nv (insert (bet_id b) ids) l"
    using ledger_ok_mono [OF assms(1)] by (auto simp: ledger_ok_def)
  ultimately show ?thesis using settled_once_place [of l b] assms by (auto simp: ledger_ok_def)
qed

section \<open>The open set of a sound ledger\<close>

lemma map_of_rev_map: "map_of (rev (map (\<lambda>r. (k r, g r)) rs)) i = map_option g (map_of (rev (map (\<lambda>r. (k r, r)) rs)) i)"
proof -
  have "map_of (map (\<lambda>r. (k r, g r)) xs) i = map_option g (map_of (map (\<lambda>r. (k r, r)) xs) i)" for xs
    by (induction xs) auto
  then show ?thesis by (simp add: rev_map)
qed

definition row_id :: "row \<Rightarrow> string" where
  "row_id r = (case jget r ''bet_id'' of JStr i \<Rightarrow> i | _ \<Rightarrow> [])"

definition row_status :: "row \<Rightarrow> string" where
  "row_status r = (case jget r ''status'' of JStr i \<Rightarrow> i | _ \<Rightarrow> [])"

lemma map_filter_total: "(\<And>x. x \<in> set xs \<Longrightarrow> f x = Some (g x)) \<Longrightarrow> List.map_filter f xs = map g xs"
  by (induction xs) (simp_all add: List.map_filter_simps)

lemma keys_with_value:
  "distinct (map fst d) \<Longrightarrow> set (map fst (filter (\<lambda>(i, x). x = v) d)) = {i. dget d i = Some v}"
  by (force simp: dget_in_set)

lemma open_ids_of_ledger:
  assumes "valid_rows nv ids l"
  shows "set (open_ids_from_rows (open_bets l)) = {i. is_open l i}" "distinct (open_ids_from_rows (open_bets l))"
proof -
  let ?rs = "iter_jsonl (open_bets l)"
  let ?d = "fold_dict (map (\<lambda>r. (row_id r, row_status r)) ?rs)"
  have row: "jget r ''bet_id'' = JStr (row_id r) \<and> jget r ''status'' = JStr (row_status r)" if "r \<in> set ?rs" for r
    using assms that by (auto simp: valid_rows_def row_id_def row_status_def)
  have ids: "open_ids_from_rows (open_bets l) = map fst (filter (\<lambda>(i, st). st = ''open'') ?d)"
    unfolding open_ids_from_rows_def
    by (subst map_filter_total [of _ _ "\<lambda>r. (row_id r, row_status r)"]) (simp_all add: row)
  have lat: "latest l i = map_of (rev (map (\<lambda>r. (row_id r, r)) ?rs)) i" for i
    unfolding latest_def fold_latest_rows_def
    by (subst map_filter_total [of _ _ "\<lambda>r. (row_id r, r)"]) (simp_all add: row dget_fold_dict del: map_of_eq_Some_iff)
  have get: "dget ?d i = Some ''open'' \<longleftrightarrow> is_open l i" for i
  proof -
    have "dget ?d i = map_option row_status (latest l i)" unfolding dget_fold_dict lat by (rule map_of_rev_map)
    moreover have "jget r ''status'' = JStr (row_status r)" if "latest l i = Some r" for r
      using row latest_row(1) [OF that] by blast
    ultimately show ?thesis by (auto simp: is_open_def split: option.splits)
  qed
  show "set (open_ids_from_rows (open_bets l)) = {i. is_open l i}"
    unfolding ids keys_with_value [OF distinct_fold_dict] get ..
  show "distinct (open_ids_from_rows (open_bets l))"
    unfolding ids using distinct_map_filter [of fst ?d] by simp
qed

lemma open_bets_selected:
  assumes "bet_reader (pe_nv env) (pe_validate env)" "valid_rows (pe_nv env) ids l"
  shows "bet_id ` set (select_open_bets env l) = {i. is_open l i}"
proof -
  have "i \<in> bet_id ` set (select_open_bets env l)" if "is_open l i" for i
  proof -
    from that obtain r where r: "latest l i = Some r" "jget r ''status'' = JStr ''open''"
      by (auto simp: is_open_def split: option.splits)
    from valid_latest [OF assms(2) r(1)] obtain b where b: "r = bet_record_jsonl_dict b"
      "bet_fields_ok (pe_nv env) b" "bet_id b = i" by metis
    then have "pe_validate env r = Some b" using bet_reader.validate_written [OF assms(1)] by simp
    moreover have "(i, r) \<in> set (fold_latest_rows (open_bets l))" using r(1) by (simp add: latest_in_fold)
    ultimately have "b \<in> set (select_open_bets env l)"
      using r(2) by (auto simp: select_open_bets_def set_map_filter_iff intro!: bexI [of _ "(i, r)"])
    then show ?thesis using b(3) by blast
  qed
  moreover have "is_open l (bet_id b)" if "b \<in> set (select_open_bets env l)" for b
    using select_open_processable [OF assms(1), of l] that by (simp add: processable_def)
  ultimately show ?thesis by blast
qed

section \<open>Polls and terminal closes\<close>

text \<open>A property of the ledger that survives closing an open bet survives both loops of the poller.\<close>

lemma loop_step_keeps:
  assumes close: "\<And>l s b. J l \<Longrightarrow> is_open l (bet_id b) \<Longrightarrow> bet_fields_ok (pe_nv env) b \<Longrightarrow> s_bet_id s = bet_id b \<Longrightarrow> J (close_bet s b l)"
    and b: "bet_fields_ok (pe_nv env) b" "is_open (pw_ledger w) (bet_id b)" "J (pw_ledger w)"
    and run: "resolve_and_settle env cfg b now w = (r, w1)"
  shows "J (pw_ledger w1) \<and> (pw_ledger w1 = pw_ledger w \<or> (\<exists>s. pw_ledger w1 = close_bet s b (pw_ledger w)))"
  using resolve_and_settle_ledger [OF b(1) run] close [OF b(3,2,1)] b(3) by (auto simp: settles_def)

lemma processable_after:
  assumes "processable env l (b # bs)" "l' = l \<or> (\<exists>s. l' = close_bet s b l)"
  shows "processable env l' bs"
  using assms processable_close [OF assms(1)] by (auto simp: processable_def)

lemma tick_loop_keeps:
  assumes close: "\<And>l s b. J l \<Longrightarrow> is_open l (bet_id b) \<Longrightarrow> bet_fields_ok (pe_nv env) b \<Longrightarrow> s_bet_id s = bet_id b \<Longrightarrow> J (close_bet s b l)"
  shows "processable env (pw_ledger w) bs \<Longrightarrow> J (pw_ledger w) \<Longrightarrow> tick_loop env cfg now bs p w = (res, w') \<Longrightarrow>
    J (pw_ledger w')"
proof (induction bs arbitrary: w p)
  case (Cons b bs)
  obtain r w1 where rs: "resolve_and_settle env cfg b now w = (r, w1)" by (metis prod.exhaust)
  have ok: "bet_fields_ok (pe_nv env) b" "is_open (pw_ledger w) (bet_id b)"
    using Cons.prems(1) by (auto simp: processable_def)
  have st: "J (pw_ledger w1) \<and> (pw_ledger w1 = pw_ledger w \<or> (\<exists>s. pw_ledger w1 = close_bet s b (pw_ledger w)))"
    by (rule loop_step_keeps [where J = J, OF _ ok Cons.prems(2) rs]) (rule close)
  have pr: "processable env (pw_ledger w1) bs"
    using processable_after [OF Cons.prems(1) conjunct2 [OF st]] .
  show ?case
  proof (cases r)
    case (Inl e)
    then show ?thesis using st Cons.prems(3) rs by simp
  next
    case (Inr d)
    then have "tick_loop env cfg now bs (count d p) w1 = (res, w')" using Cons.prems(3) rs by simp
    from Cons.IH [OF pr conjunct1 [OF st] this] show ?thesis .
  qed
qed simp

lemma close_loop_keeps:
  assumes close: "\<And>l s b. J l \<Longrightarrow> is_open l (bet_id b) \<Longrightarrow> bet_fields_ok (pe_nv env) b \<Longrightarrow> s_bet_id s = bet_id b \<Longrightarrow> J (close_bet s b l)"
  shows "processable env (pw_ledger w) bs \<Longrightarrow> J (pw_ledger w) \<Longrightarrow> close_loop env cfg now bs p w = (res, w') \<Longrightarrow>
    J (pw_ledger w')"
proof (induction bs arbitrary: w p)
  case (Cons b bs)
  obtain r w1 where rs: "resolve_and_settle env cfg b now w = (r, w1)" by (metis prod.exhaust)
  have ok: "bet_fields_ok (pe_nv env) b" "is_open (pw_ledger w) (bet_id b)"
    using Cons.prems(1) by (auto simp: processable_def)
  have st: "J (pw_ledger w1) \<and> (pw_ledger w1 = pw_ledger w \<or> (\<exists>s. pw_ledger w1 = close_bet s b (pw_ledger w)))"
    by (rule loop_step_keeps [where J = J, OF _ ok Cons.prems(2) rs]) (rule close)
  show ?case
  proof (cases r)
    case (Inl e)
    then show ?thesis using st Cons.prems(3) rs by simp
  next
    case (Inr d)
    show ?thesis
    proof (cases "\<exists>so. d = Done so")
      case True
      then have "close_loop env cfg now bs (count d p) w1 = (res, w')" using Cons.prems(3) rs Inr by auto
      from Cons.IH [OF processable_after [OF Cons.prems(1) conjunct2 [OF st]] conjunct1 [OF st] this] show ?thesis .
    next
      case False
      have same: "pw_ledger w1 = pw_ledger w"
        using resolve_and_settle_ledger [OF ok(1) rs] Inr False by (auto simp: settles_def)
      obtain reason where reason: "close_loop env cfg now (b # bs) p w =
          (case void_terminal env b now reason w1 of
             (Inl e, w2) \<Rightarrow> (Inl e, w2) | (Inr _, w2) \<Rightarrow> close_loop env cfg now bs (count d p) w2)"
        using rs Inr False by (cases d) auto
      obtain s where s: "void_terminal env b now reason w1 =
          (Inr (), w1\<lparr>pw_ledger := close_bet s b (pw_ledger w1)\<rparr>)" "s_bet_id s = bet_id b"
        using void_terminal_ok [OF ok(1)] by blast
      let ?w2 = "w1\<lparr>pw_ledger := close_bet s b (pw_ledger w)\<rparr>"
      have run: "close_loop env cfg now bs (count d p) ?w2 = (res, w')"
        using Cons.prems(3) reason s(1) same by simp
      have "processable env (pw_ledger ?w2) bs" using processable_close [OF Cons.prems(1)] by simp
      moreover have "J (pw_ledger ?w2)" using close [OF Cons.prems(2) ok(2,1) s(2)] by simp
      ultimately show ?thesis using Cons.IH [OF _ _ run] by blast
    qed
  qed
qed simp

lemma poller_tick_ledger_ok:
  assumes reader: "bet_reader (pe_nv env) (pe_validate env)" and ok: "ledger_ok (pe_nv env) ids (pw_ledger w)"
    and run: "poller_tick env cfg now w = (res, w')"
  shows "ledger_ok (pe_nv env) ids (pw_ledger w')"
proof (cases "select_due_bets env now (pw_ledger w)")
  case (Inl e)
  then show ?thesis using ok run by (simp add: poller_tick_def)
next
  case (Inr due)
  have loop: "tick_loop env cfg now due (no_polls (length due)) w = (res, w')"
    using run Inr by (simp add: poller_tick_def)
  show ?thesis
    by (rule tick_loop_keeps [where J = "ledger_ok (pe_nv env) ids", OF _ select_due_processable [OF reader Inr] ok loop])
       (rule ledger_ok_close)
qed

lemma terminal_close_ledger_ok:
  assumes reader: "bet_reader (pe_nv env) (pe_validate env)" and ok: "ledger_ok (pe_nv env) ids (pw_ledger w)"
    and run: "terminal_close env cfg now w = (res, w')"
  shows "ledger_ok (pe_nv env) ids (pw_ledger w')"
  by (rule close_loop_keeps [where J = "ledger_ok (pe_nv env) ids", OF _ select_open_processable [OF reader] ok
        run [unfolded terminal_close_def Let_def]])
     (rule ledger_ok_close)

text \<open>What a poll removes from the open bets is what it reports.\<close>

lemma poller_tick_opens:
  assumes "bet_reader (pe_nv env) (pe_validate env)" "settled_once (pw_ledger w)"
    and "poller_tick env cfg now w = (Inr p, w')"
  shows "is_open (pw_ledger w') i \<longleftrightarrow> is_open (pw_ledger w) i \<and> i \<notin> set (map so_bet_id (settlements p))"
proof -
  obtain due where due: "select_due_bets env now (pw_ledger w) = Inr due"
    "tick_loop env cfg now due (no_polls (length due)) w = (Inr p, w')"
    using assms(3) by (auto simp: poller_tick_def split: sum.splits)
  from tick_loop_closes [OF select_due_processable [OF assms(1) due(1)] assms(2) due(2)]
  obtain ss where c: "closes (pw_ledger w) (pw_ledger w') ss (bet_id ` set due)" "reported (settlements p) ss"
    by (auto simp: no_polls_def)
  have "map so_bet_id (settlements p) = map s_bet_id ss"
    using arg_cong [OF c(2) [unfolded reported_def], of "map fst"] by (simp add: comp_def)
  then show ?thesis using c(1) by (cases "i \<in> set (map s_bet_id ss)") (auto simp: closes_def is_open_def)
qed

end
