(* ===== verification/LoopBooks.thy ===== *)
theory LoopBooks
  imports LoopLife Books
begin

text \<open>
  The in-memory open set and the bankroll of the loop against the ledger, over a whole life: ticks that
  return or raise, restarts, deaths.
\<close>

section \<open>Sound books\<close>

text \<open>What the loop relies on: the row reader reads back what was written, the executor and the poller
  validate alike, and identifiers are never minted twice.\<close>

definition sound_env :: "'c loop_env \<Rightarrow> bool" where
  "sound_env env =
     (bet_reader (pe_nv (le_poll env)) (pe_validate (le_poll env)) \<and>
      x_nv (le_exec env) = pe_nv (le_poll env) \<and> inj (le_uuid env))"

definition minted :: "'c loop_env \<Rightarrow> nat \<Rightarrow> string set" where
  "minted env n = le_uuid env ` {..<n}"

lemma minted_simps [simp]:
  "minted env (Suc n) = insert (le_uuid env n) (minted env n)"
  "inj (le_uuid env) \<Longrightarrow> le_uuid env n \<notin> minted env n"
  by (auto simp: minted_def lessThan_Suc dest: injD)

lemma minted_mono: "m \<le> n \<Longrightarrow> minted env m \<subseteq> minted env n"
  by (auto simp: minted_def)

abbreviation ledger_of :: "'c loop \<Rightarrow> ledger" where
  "ledger_of s \<equiv> pw_ledger (lp_world s)"

definition book_state :: "'c loop \<Rightarrow> ledger \<times> string list \<times> nat" where
  "book_state s = (ledger_of s, lp_open_bet_ids s, lp_uuids s)"

definition books :: "'c loop_env \<Rightarrow> 'c loop \<Rightarrow> bool \<Rightarrow> bool" where
  "books env s running =
     (ledger_ok (pe_nv (le_poll env)) (minted env (lp_uuids s)) (ledger_of s) \<and>
      (running \<longrightarrow> distinct (lp_open_bet_ids s) \<and> set (lp_open_bet_ids s) = {i. is_open (ledger_of s) i}))"

lemma books_cong: "book_state s1 = book_state s \<Longrightarrow> books env s1 = books env s"
  by (simp add: books_def book_state_def fun_eq_iff)

lemma books_weaken: "books env s running \<Longrightarrow> books env s False"
  by (simp add: books_def)

definition keeps_books :: "'c loop_env \<Rightarrow> ('c loop, 'a) prog \<Rightarrow> bool" where
  "keeps_books env m = (\<forall>s. books env s True \<longrightarrow> wp m (\<lambda>_ s1. books env s1 True) (\<lambda>_ s1. books env s1 False) s)"

lemma keeps_booksD: "keeps_books env m \<Longrightarrow> books env s True \<Longrightarrow>
    wp m (\<lambda>_ s1. books env s1 True) (\<lambda>_ s1. books env s1 False) s"
  by (simp add: keeps_books_def)

lemma keeps_books_leaves: "leaves book_state m \<Longrightarrow> keeps_books env m"
  unfolding keeps_books_def
proof (intro allI impI)
  fix s assume m: "leaves book_state m" and b: "books env s True"
  show "wp m (\<lambda>_ s1. books env s1 True) (\<lambda>_ s1. books env s1 False) s"
    by (rule wp_mono [OF wp_leaves [OF m]]) (use b in \<open>metis books_cong books_weaken\<close>)+
qed

lemma keeps_books_bind:
  "keeps_books env m \<Longrightarrow> (\<And>x. keeps_books env (k x)) \<Longrightarrow> keeps_books env (sbind m k)"
  unfolding keeps_books_def by (auto simp: wp_bind intro: wp_mono)

lemma keeps_books_then: "keeps_books env m \<Longrightarrow> keeps_books env k \<Longrightarrow> keeps_books env (sthen m k)"
  unfolding sthen_def by (rule keeps_books_bind)

section \<open>The poll\<close>

lemma fold_credit:
  "fold credit os s = s\<lparr>lp_open_bet_ids := filter (\<lambda>i. i \<notin> set (map so_bet_id os)) (lp_open_bet_ids s),
     lp_bankroll_usd := foldl fadd (lp_bankroll_usd s) (map so_pnl_usd os)\<rparr>"
proof (induction os arbitrary: s)
  case (Cons o1 os)
  have "filter (\<lambda>i. i \<notin> set (map so_bet_id os)) (removeAll (so_bet_id o1) xs) =
      filter (\<lambda>i. i \<notin> set (map so_bet_id (o1 # os))) xs" for xs
    by (induction xs) auto
  then show ?case using Cons by (simp add: credit_def)
qed simp

lemma poll_step_ok:
  assumes "poll_step env c s = (Inr p, s')"
  obtains w where "poller_tick (le_poll env) (lc_poll c) (le_clock env (lp_clocks s)) (lp_world s) = (Inr p, w)"
    "s' = s\<lparr>lp_clocks := Suc (lp_clocks s), lp_world := w, lp_weights := learned env (lp_world s) w (lp_weights s),
       lp_open_bet_ids := filter (\<lambda>i. i \<notin> set (map so_bet_id (settlements p))) (lp_open_bet_ids s),
       lp_bankroll_usd := foldl fadd (lp_bankroll_usd s) (map so_pnl_usd (settlements p))\<rparr>"
proof -
  obtain now s1 s2 where a: "read_clock env s = (Inr now, s1)"
    "run_poller env (poller_tick (le_poll env) (lc_poll c) now) s1 = (Inr p, s2)" "s' = fold credit (settlements p) s2"
    using assms by (auto simp: poll_step_def ok_simps for_each_update)
  then show ?thesis using that
    by (auto simp: read_clock_def run_poller_def fold_credit split: prod.splits)
qed

lemma poll_step_raises:
  assumes "poll_step env c s = (Inl e, s')"
  obtains w where "poller_tick (le_poll env) (lc_poll c) (le_clock env (lp_clocks s)) (lp_world s) = (Inl e, w)"
    "lp_world s' = w" "lp_uuids s' = lp_uuids s"
  using assms
  by (auto simp: poll_step_def sbind_raises sthen_def read_clock_def run_poller_def for_each_update ok_simps
      split: prod.splits)

lemma poll_step_books:
  assumes "sound_env env" shows "keeps_books env (poll_step env c)"
  unfolding keeps_books_def
proof (intro allI impI wpI)
  fix s assume b: "books env s True"
  have reader: "bet_reader (pe_nv (le_poll env)) (pe_validate (le_poll env))"
    using assms by (simp add: sound_env_def)
  let ?tick = "\<lambda>r w. poller_tick (le_poll env) (lc_poll c) (le_clock env (lp_clocks s)) (lp_world s) = (r, w)"
  have ledger: "ledger_ok (pe_nv (le_poll env)) (minted env (lp_uuids s)) (pw_ledger w)" if "?tick r w" for r w
    using poller_tick_ledger_ok [OF reader _ that] b by (simp add: books_def)
  show "books env s1 False" if "poll_step env c s = (Inl e, s1)" for e s1
    using that ledger by (auto simp: books_def elim!: poll_step_raises)
  show "books env s1 True" if "poll_step env c s = (Inr p, s1)" for p s1
  proof -
    from that obtain w where w: "?tick (Inr p) w" and s1: "lp_world s1 = w" "lp_uuids s1 = lp_uuids s"
      "lp_open_bet_ids s1 = filter (\<lambda>i. i \<notin> set (map so_bet_id (settlements p))) (lp_open_bet_ids s)"
      by (auto elim!: poll_step_ok)
    have "settled_once (ledger_of s)" using b by (simp add: books_def ledger_ok_def)
    from poller_tick_opens [OF reader this w] ledger [OF w] b show ?thesis
      by (simp add: books_def s1 set_eq_iff)
  qed
qed

section \<open>Orders\<close>

lemma insert_open:
  "bet_status b = Open \<Longrightarrow> is_open (append_open_bet b l) i \<longleftrightarrow> i = bet_id b \<or> is_open l i"
  by (simp add: is_open_def)

lemma place_order_books:
  assumes "sound_env env" "books env s True"
    and place: "place_order (le_exec env) now (le_uuid env (lp_uuids s)) x (ex, ledger_of s) = (r, ex', l')"
    and s1: "s1 = s\<lparr>lp_exec := ex', lp_world := (lp_world s)\<lparr>pw_ledger := l'\<rparr>, lp_uuids := Suc (lp_uuids s)\<rparr>"
  shows "books env s1 False"
    "r = Inr y \<Longrightarrow> books env (s1\<lparr>lp_open_bet_ids := List.insert (order_id y) (lp_open_bet_ids s)\<rparr>) True"
proof -
  note env = assms(1) [unfolded sound_env_def]
  let ?ok = "ledger_ok (pe_nv (le_poll env))"
  have ok: "?ok (minted env (lp_uuids s)) (ledger_of s)" using assms(2) by (simp add: books_def)
  have fresh: "le_uuid env (lp_uuids s) \<notin> minted env (lp_uuids s)" using env by simp
  have placed: "\<exists>b. l' = append_open_bet b (ledger_of s) \<and> bet_status b = Open \<and> bet_id b = le_uuid env (lp_uuids s) \<and>
      order_id y = bet_id b \<and> bet_fields_ok (pe_nv (le_poll env)) b" if "r = Inr y" for y
  proof -
    from place [unfolded that] obtain ts where p: "placed_bet y = bet_of_order (le_exec env) now (le_uuid env (lp_uuids s)) ts x"
      "bet_fields_ok (x_nv (le_exec env)) (placed_bet y)"
      "y = \<lparr>order_id = le_uuid env (lp_uuids s), accepted = True, broadcast = False, placed_bet = placed_bet y\<rparr>"
      "l' = append_open_bet (placed_bet y) (ledger_of s)"
      by (rule place_order_ok)
    have "order_id y = le_uuid env (lp_uuids s)" by (subst p(3)) simp
    then show ?thesis using p(1,2,4) env by (intro exI [of _ "placed_bet y"]) (simp add: bet_of_order_def)
  qed
  have "?ok (minted env (lp_uuids s1)) l'"
  proof (cases r)
    case (Inl e)
    then show ?thesis
      using place_order_failed [OF place [unfolded Inl]] ledger_ok_mono [OF ok subset_insertI] s1 by simp
  next
    case (Inr y)
    with placed obtain b where b: "l' = append_open_bet b (ledger_of s)" "bet_id b = le_uuid env (lp_uuids s)"
      "bet_fields_ok (pe_nv (le_poll env)) b" by blast
    from ledger_ok_place [OF ok b(3)] fresh show ?thesis by (simp add: b(1,2) s1)
  qed
  then show l: "books env s1 False" by (simp add: books_def s1)
  assume "r = Inr y"
  from placed [OF this] l assms(2)
  show "books env (s1\<lparr>lp_open_bet_ids := List.insert (order_id y) (lp_open_bet_ids s)\<rparr>) True"
    by (auto simp: books_def s1 insert_open)
qed

lemma place_step_books:
  assumes "sound_env env" shows "keeps_books env (place_step env c i a)"
proof -
  have place: "keeps_books env (sbind (\<lambda>s. case place_order (le_exec env) now (le_uuid env (lp_uuids s)) x
                              (lp_exec s, pw_ledger (lp_world s)) of
                        (r, ex, l) \<Rightarrow> (r, s\<lparr>lp_exec := ex, lp_world := (lp_world s)\<lparr>pw_ledger := l\<rparr>,
                                           lp_uuids := Suc (lp_uuids s)\<rparr>)) (\<lambda>r.
               sthen (update (\<lambda>s. s\<lparr>lp_open_bet_ids := List.insert (order_id r) (lp_open_bet_ids s)\<rparr>))
                 (ret (Some (order_id r)))))" for now x
    unfolding keeps_books_def
  proof (intro allI impI)
    fix s assume b: "books env s True"
    obtain r ex l where p: "place_order (le_exec env) now (le_uuid env (lp_uuids s)) x
        (lp_exec s, pw_ledger (lp_world s)) = (r, ex, l)" by (metis prod.exhaust)
    note pb = place_order_books [OF assms b p refl]
    show "wp (sbind (\<lambda>s. case place_order (le_exec env) now (le_uuid env (lp_uuids s)) x
                              (lp_exec s, pw_ledger (lp_world s)) of
                        (r, ex, l) \<Rightarrow> (r, s\<lparr>lp_exec := ex, lp_world := (lp_world s)\<lparr>pw_ledger := l\<rparr>,
                                           lp_uuids := Suc (lp_uuids s)\<rparr>)) (\<lambda>r.
               sthen (update (\<lambda>s. s\<lparr>lp_open_bet_ids := List.insert (order_id r) (lp_open_bet_ids s)\<rparr>))
                 (ret (Some (order_id r)))))
        (\<lambda>_ s1. books env s1 True) (\<lambda>_ s1. books env s1 False) s"
      using pb p by (cases r) (simp_all add: wp_def sbind_def sthen_def run_simps)
  qed
  have basic: "keeps_books env (ret v)" "keeps_books env (raise_exc e)" "keeps_books env (reads g)"
      "keeps_books env (lift_res rs)" "keeps_books env (read_clock env)"
    for v :: "string option" and e :: exc and g :: "'a loop \<Rightarrow> gate_diagnostics option" and rs :: "unit res"
    by (rule keeps_books_leaves; simp add: leaves_intros book_state_def)+
  show ?thesis
    unfolding place_step_def
    by (auto intro!: keeps_books_bind place basic split: action_kind.split option.split)
qed

section \<open>Death\<close>

lemma terminal_close_none_open:
  assumes reader: "bet_reader (pe_nv env) (pe_validate env)" and ok: "ledger_ok (pe_nv env) ids (pw_ledger w)"
    and run: "terminal_close env cfg now w = (Inr p, w')"
  shows "\<not> is_open (pw_ledger w') i"
proof -
  let ?bs = "select_open_bets env (pw_ledger w)"
  have once: "settled_once (pw_ledger w)" and rows: "valid_rows (pe_nv env) ids (pw_ledger w)"
    using ok by (simp_all add: ledger_ok_def)
  from terminal_close_closes [OF reader once run] obtain ss where
    ss: "closes (pw_ledger w) (pw_ledger w') ss (bet_id ` set ?bs)" "map s_bet_id ss = map bet_id ?bs"
    by (auto simp: close_result_def)
  then have ids: "i \<in> set (map s_bet_id ss) \<longleftrightarrow> is_open (pw_ledger w) i"
    using open_bets_selected [OF reader rows] by (metis list.set_map mem_Collect_eq)
  show ?thesis
  proof (cases "i \<in> set (map s_bet_id ss)")
    case True
    then show ?thesis using ss(1) by (auto simp: closes_def)
  next
    case False
    then have "latest (pw_ledger w') i = latest (pw_ledger w) i" using ss(1) unfolding closes_def by blast
    then show ?thesis using False ids by (simp add: is_open_def)
  qed
qed

lemma close_positions_books:
  assumes env: "sound_env env" and b: "books env s True"
  shows "wp (close_positions env c) (\<lambda>_ s1. books env s1 True \<and> lp_open_bet_ids s1 = []) (\<lambda>_ s1. books env s1 False) s"
proof (cases "lp_open_bet_ids s = []")
  case True
  then show ?thesis using b by (simp add: close_positions_def wp_simps)
next
  case False
  have reader: "bet_reader (pe_nv (le_poll env)) (pe_validate (le_poll env))" using env by (simp add: sound_env_def)
  have ok: "ledger_ok (pe_nv (le_poll env)) (minted env (lp_uuids s)) (ledger_of s)" using b by (simp add: books_def)
  obtain r w where close: "terminal_close (le_poll env) (lc_poll c) (le_clock env (lp_clocks s)) (lp_world s) = (r, w)"
    by (metis prod.exhaust)
  note l = terminal_close_ledger_ok [OF reader ok close]
  show ?thesis
  proof (cases r)
    case (Inl e)
    then show ?thesis using False close l
      by (simp add: close_positions_def wp_simps read_clock_def run_poller_def wp_def [of "read_clock env"]
          wp_def [of "run_poller env f" for f] books_def)
  next
    case (Inr p)
    have fold: "fold (\<lambda>so s. s\<lparr>lp_bankroll_usd := fadd (lp_bankroll_usd s) (so_pnl_usd so)\<rparr>) os s0 =
        s0\<lparr>lp_bankroll_usd := foldl fadd (lp_bankroll_usd s0) (map so_pnl_usd os)\<rparr>"
      for os and s0 :: "'a loop" by (induction os arbitrary: s0) simp_all
    have each: "wp (for_each (\<lambda>x. update (g x)) os) Q E s0 = Q () (fold g os s0)"
      for g :: "'x \<Rightarrow> 'a loop \<Rightarrow> 'a loop" and os Q E s0
      by (simp add: wp_def for_each_update)
    show ?thesis using False close l Inr terminal_close_none_open [OF reader ok close [unfolded Inr]]
      by (simp add: close_positions_def wp_simps read_clock_def run_poller_def wp_def [of "read_clock env"]
          wp_def [of "run_poller env f" for f] books_def each fold)
  qed
qed

lemma die_books:
  assumes "sound_env env" "books env s True"
  shows "wp (die env c t) (\<lambda>_ s1. books env s1 True \<and> lp_open_bet_ids s1 = []) (\<lambda>_ s1. books env s1 False) s"
  unfolding die_def
proof (rule wp_seq_then [OF close_positions_books [OF assms]])
  fix s1 assume s1: "books env s1 True \<and> lp_open_bet_ids s1 = []"
  have same: "books env s2 True \<and> lp_open_bet_ids s2 = []" if "book_state s2 = book_state s1" for s2
    using books_cong [OF that, of env] s1 that by (simp add: book_state_def)
  have rest: "leaves book_state (seal_death env c t)" by (rule leaves_seal_death) (simp_all add: book_state_def)
  show "wp (seal_death env c t) (\<lambda>_ s1. books env s1 True \<and> lp_open_bet_ids s1 = []) (\<lambda>_ s1. books env s1 False) s1"
    by (rule wp_mono [OF wp_leaves [OF rest]]) (use same books_weaken in blast)+
qed

lemma death_step_books:
  assumes "sound_env env" shows "keeps_books env (death_step env c now t)"
proof -
  have die: "keeps_books env (die env c t)"
    unfolding keeps_books_def using die_books [OF assms] by (blast intro: wp_mono)
  have "leaves book_state (attempt_tribute env c policy now t)" for policy
    by (rule leaves_attempt_tribute; simp add: book_state_def)
  then have tribute: "keeps_books env (case le_tribute_policy env of None \<Rightarrow> ret False
                | Some policy \<Rightarrow> attempt_tribute env c policy now t)"
    by (auto intro!: keeps_books_leaves leaves_intros)
  have basic: "keeps_books env (ret v)" "keeps_books env (reads g)"
    for v :: bool and g :: "'a loop \<Rightarrow> bool"
    by (rule keeps_books_leaves; simp add: leaves_intros)+
  have bury: "keeps_books env (if saved then ret False else sbind (die env c t) (\<lambda>_. ret True))" for saved
    by (simp add: keeps_books_bind die basic)
  have dying: "keeps_books env (if \<not> dying then ret False
      else sbind (case le_tribute_policy env of None \<Rightarrow> ret False | Some policy \<Rightarrow> attempt_tribute env c policy now t)
        (\<lambda>saved. if saved then ret False else sbind (die env c t) (\<lambda>_. ret True)))" for dying
    using keeps_books_bind [OF tribute bury] basic by (cases dying) simp_all
  show ?thesis
    unfolding death_step_def by (rule keeps_books_bind [OF basic(2) dying])
qed

section \<open>The tick and the life\<close>

lemma living_uuids: "keeps (\<lambda>s. n \<le> lp_uuids s) (living_steps env c now t i a)"
proof -
  have frame: "keeps (\<lambda>s. n \<le> lp_uuids s) m" if "leaves lp_uuids m" for m :: "('a loop, 'x) prog"
    by (rule keepsI, rule wp_mono [OF wp_leaves [OF that]]) simp_all
  have mint: "keeps (\<lambda>s. n \<le> lp_uuids s) (\<lambda>s. (Inr (le_uuid env (lp_uuids s)), s\<lparr>lp_uuids := Suc (lp_uuids s)\<rparr>))"
    for env :: "'a loop_env"
    by (simp add: keeps_def wp_def)
  have "keeps (\<lambda>s. n \<le> lp_uuids s) (fire_reflection env engine now t tr a m)" for engine tr m
    unfolding fire_reflection_def
    by (intro keeps_bind keeps_then keeps_if mint keeps_reads keeps_lift; rule frame;
        simp add: leaves_intros reset_baseline_def)
  then have "keeps (\<lambda>s. n \<le> lp_uuids s) (reflection_step env c now t a m)" for m
    unfolding reflection_step_def by (auto intro!: keeps_bind split: option.split)
  moreover have "leaves lp_uuids (advisor_step env c now t)"
    unfolding advisor_step_def fire_strategy_advisor_def persist_proposal_def
    by (auto intro!: leaves_intros split: option.split)
  ultimately show ?thesis unfolding living_steps_def by (blast intro: keeps_then frame)
qed

lemma living_steps_books: "keeps_books env (living_steps env c now t i a)"
proof -
  let ?f = "\<lambda>s. (ledger_of s, lp_open_bet_ids s)"
  have rest: "leaves ?f (living_steps env c now t i a)" by (rule leaves_living_steps) simp_all
  have mono: "books env s1 running" if "?f s1 = ?f s" "lp_uuids s \<le> lp_uuids s1" "books env s running" for s s1 running
    using that ledger_ok_mono [OF _ minted_mono [OF that(2), of env]] by (simp add: books_def)
  show ?thesis
    unfolding keeps_books_def
  proof (intro allI impI)
    fix s assume b: "books env s True"
    have "wp (living_steps env c now t i a) (\<lambda>_ s1. ?f s1 = ?f s \<and> lp_uuids s \<le> lp_uuids s1)
        (\<lambda>_ s1. ?f s1 = ?f s \<and> lp_uuids s \<le> lp_uuids s1) s"
      using wp_leaves [OF rest] keeps_wp [OF living_uuids order_refl] unfolding wp_conj by blast
    then show "wp (living_steps env c now t i a) (\<lambda>_ s1. books env s1 True) (\<lambda>_ s1. books env s1 False) s"
      by (rule wp_mono) (use mono b books_weaken in blast)+
  qed
qed

lemma tick_books:
  assumes "sound_env env" shows "keeps_books env (tick env c)"
proof -
  have frame: "leaves book_state (read_clock env)" "leaves book_state (drain_and_apply_weight_deltas env t)"
    "leaves book_state (force_step env)" "leaves book_state (refresh_breath env)"
    "leaves book_state (whenever b (update_storm env c now))" "leaves book_state (decide_step env c i)"
    "leaves book_state (record_step env c now t i a oid)" "leaves book_state (write_snapshot env c now t)"
    "leaves book_state (tithe_step env c t i)" "leaves book_state (update (\<lambda>s. s\<lparr>lp_tick_counter := t + 1\<rparr>))"
    for t now b i a oid
    by (rule leaves_force_step leaves_decide_step leaves_record_step leaves_tithe_step leaves_write_snapshot leaves_drain
        leaves_read_clock leaves_refresh leaves_update leaves_whenever [OF leaves_update_storm]; simp add: book_state_def)+
  have pure: "keeps_books env (reads g)" "keeps_books env (ret x)" for g :: "'a loop \<Rightarrow> 'x" and x :: 'x
    by (rule keeps_books_leaves; simp add: leaves_intros)+
  note kept = keeps_books_leaves [OF frame(1)] keeps_books_leaves [OF frame(2)] keeps_books_leaves [OF frame(3)]
    keeps_books_leaves [OF frame(4)] keeps_books_leaves [OF frame(5)] keeps_books_leaves [OF frame(6)]
    keeps_books_leaves [OF frame(7)] keeps_books_leaves [OF frame(8)] keeps_books_leaves [OF frame(9)]
    keeps_books_leaves [OF frame(10)]
  have settle: "keeps_books env (settle_steps env c now t)" for now t
    unfolding settle_steps_def
    by (intro keeps_books_bind keeps_books_then kept poll_step_books [OF assms] keeps_books_leaves leaves_ret)
  have choose: "keeps_books env (decision_steps env c now t)" for now t
    unfolding decision_steps_def Let_def
    by (intro keeps_books_bind keeps_books_then kept place_step_books [OF assms] keeps_books_leaves leaves_ret)
  have living: "keeps_books env (whenever b (living_steps env c now t i a))" for b now t i a
    using living_steps_books keeps_books_leaves [OF leaves_ret] by (cases b) (simp_all add: whenever_def)
  show ?thesis
    unfolding tick_def
    by (intro keeps_books_bind keeps_books_then kept settle choose living death_step_books [OF assms]
        keeps_books_leaves [OF leaves_reads]; (simp only: split_paired_all split_conv)?;
        intro keeps_books_bind keeps_books_then kept settle choose living death_step_books [OF assms]
        keeps_books_leaves [OF leaves_reads])
qed

lemma reconstruct_books:
  assumes "books env s False" "reconstruct_from_disk env c s = (r, s')"
  shows "books env s' (case r of Inl _ \<Rightarrow> False | Inr _ \<Rightarrow> True)"
proof -
  let ?f = "\<lambda>s. (ledger_of s, lp_uuids s)"
  have frames: "leaves ?f (load_step env c)" "leaves ?f (reconstruct_from_disk env c)"
    unfolding reconstruct_from_disk_def load_step_def by (intro leaves_intros; simp add: fold_streams_def)+
  have "?f s' = ?f s" using frames(2) assms(2) by (metis leaves_def snd_conv)
  then have ledger: "ledger_ok (pe_nv (le_poll env)) (minted env (lp_uuids s')) (ledger_of s')"
    using assms(1) by (simp add: books_def)
  show ?thesis
  proof (cases r)
    case (Inl e)
    then show ?thesis using ledger by (simp add: books_def)
  next
    case (Inr x)
    obtain b s1 s2 where load: "load_step env c s = (Inr b, s1)"
      and rest: "refresh_breath env (fold_streams s1) = (Inr (), s2)"
        "note_divergence (dk_snapshot (lp_disk s) = None) b s2 = (Inr (), s')"
      using assms(2) [unfolded Inr] by (rule reconstruct_okE)
    have "leaves book_state (refresh_breath env)" "leaves book_state (note_divergence cold b)" for cold
      by (simp_all add: leaves_intros book_state_def)
    then have "book_state s' = book_state (fold_streams s1)" using rest by (metis leaves_def snd_conv)
    then have ids: "lp_open_bet_ids s' = open_ids_from_rows (open_bets (ledger_of s'))"
      by (simp add: book_state_def fold_streams_def)
    have "valid_rows (pe_nv (le_poll env)) (minted env (lp_uuids s')) (ledger_of s')"
      using ledger by (simp add: ledger_ok_def)
    from open_ids_of_ledger [OF this] show ?thesis using ledger Inr by (simp add: books_def ids)
  qed
qed

lemma loop_life_books:
  assumes "sound_env env" "loop_life env c s running" shows "books env s running"
  using assms(2)
proof (induction rule: loop_life.induct)
  case (birth d w g en q i j k)
  then show ?case
    by (simp add: books_def mk_loop_def ledger_ok_def settled_once_def valid_rows_def iter_jsonl_def List.map_filter_def)
next
  case (boot s running r s')
  from reconstruct_books [OF books_weaken [OF boot(3)] boot(2)] show ?case by simp
next
  case (boot_fails s running e s')
  from reconstruct_books [OF books_weaken [OF boot_fails(3)] boot_fails(2)] show ?case by simp
next
  case (ticks s r s')
  from wp_okD [OF keeps_booksD [OF tick_books [OF assms(1)] ticks(3)] ticks(2)] show ?case .
next
  case (tick_fails s e s')
  from wp_excD [OF keeps_booksD [OF tick_books [OF assms(1)] tick_fails(3)] tick_fails(2)] show ?case .
qed (simp_all add: books_def mk_loop_def)

lemma books_open_bets:
  assumes "sound_env env" "books env s True"
  shows "distinct (lp_open_bet_ids s)"
    "set (lp_open_bet_ids s) = bet_id ` set (select_open_bets (le_poll env) (ledger_of s))"
    "set (lp_open_bet_ids s) \<inter> set (map s_bet_id (settled_bets (ledger_of s))) = {}"
    "distinct (map s_bet_id (settled_bets (ledger_of s)))"
proof -
  have reader: "bet_reader (pe_nv (le_poll env)) (pe_validate (le_poll env))" using assms(1) by (simp add: sound_env_def)
  have rows: "valid_rows (pe_nv (le_poll env)) (minted env (lp_uuids s)) (ledger_of s)"
    and once: "settled_once (ledger_of s)" and open_ids: "set (lp_open_bet_ids s) = {i. is_open (ledger_of s) i}"
    using assms(2) by (simp_all add: books_def ledger_ok_def)
  show "set (lp_open_bet_ids s) = bet_id ` set (select_open_bets (le_poll env) (ledger_of s))"
    using open_bets_selected [OF reader rows] open_ids by simp
  show "set (lp_open_bet_ids s) \<inter> set (map s_bet_id (settled_bets (ledger_of s))) = {}"
    using once open_ids by (auto simp: settled_once_def)
  show "distinct (map s_bet_id (settled_bets (ledger_of s)))" using once by (simp add: settled_once_def)
  show "distinct (lp_open_bet_ids s)" using assms(2) by (simp add: books_def)
qed

text \<open>C1. The in-memory set of open bets is the abstraction of the files: after any life with ticks that
  return or raise, restarts, deaths and approvals, a loop that is running holds every bet the ledger
  still has open, exactly once and no other, and none of them has a settled row; no bet has two.\<close>

theorem open_set_refines_ledger:
  assumes "sound_env env" "loop_life env c s True"
  shows "distinct (lp_open_bet_ids s) \<and>
    set (lp_open_bet_ids s) = bet_id ` set (select_open_bets (le_poll env) (ledger_of s)) \<and>
    set (lp_open_bet_ids s) \<inter> set (map s_bet_id (settled_bets (ledger_of s))) = {} \<and>
    distinct (map s_bet_id (settled_bets (ledger_of s)))"
  using books_open_bets [OF assms(1) loop_life_books [OF assms]] by blast

section \<open>Death\<close>

definition entombed :: "loop_config \<Rightarrow> int \<Rightarrow> 'c loop \<Rightarrow> bool" where
  "entombed c t s =
     (\<not> lp_alive s \<and> lp_phase s = PHASE_4_TERMINAL \<and> lp_receipt s \<noteq> None \<and>
      (0 \<le> lc_incarnation c \<and> - 1 \<le> t \<longrightarrow>
        (\<exists>sn. dk_snapshot (lp_disk s) = Some sn \<and> sn_phase sn = PHASE_4_TERMINAL \<and> sn_breath sn = fzero \<and>
           sn_bankroll_usd sn = lp_bankroll_usd s \<and> sn_open_bet_ids sn = sort (lp_open_bet_ids s) \<and> sn_last_tick sn = t)))"

lemma seal_death_entombs: "wp (seal_death env c t) (\<lambda>_ s1. entombed c t s1) (\<lambda>_ _. True) s"
proof -
  have "pyd_ge nv fzero fzero" for nv by (simp add: pyd_ge_def isnan_def)
  then show ?thesis
    by (auto simp: seal_death_def wp_simps wp_def [of "\<lambda>s. case f s of (x, y) \<Rightarrow> g s x y" for f g]
        wp_def [of "read_clock env"] read_clock_def put_snapshot_def emit_hook_def mk_snapshot_def snapshot_of_def
        entombed_def split: prod.split sum.split)
qed

lemma tribute_unsaved:
  "attempt_tribute env c policy now t s = (Inr False, s') \<Longrightarrow> lp_breath s' = lp_breath s \<and> book_state s' = book_state s"
  by (auto simp: attempt_tribute_def ok_simps roll_dice_def emit_hook_def book_state_def
      split: option.splits)

lemma death_step_died:
  assumes "death_step env c now t s = (Inr True, s')"
  obtains s1 rec where "die env c t s1 = (Inr rec, s')" "lp_breath s1 = lp_breath s" "book_state s1 = book_state s"
    "fle (lp_breath s) fzero"
  using assms unfolding death_step_def
  by (auto simp: ok_simps split: if_splits option.splits) (use tribute_unsaved in blast)

lemma die_final:
  assumes "die env c t s = (Inr rec, s')"
  shows "entombed c t s'" "lp_breath s' = lp_breath s" "lp_open_bet_ids s' = []"
proof -
  obtain s1 where s1: "close_positions env c s = (Inr (), s1)" "seal_death env c t s1 = (Inr rec, s')"
    using assms by (auto simp: die_def ok_simps)
  show "entombed c t s'" using wp_okD [OF seal_death_entombs s1(2)] .
  have seal: "leaves lp_breath (seal_death env c t)" "leaves lp_open_bet_ids (seal_death env c t)"
    by (rule leaves_seal_death; simp)+
  have close: "leaves lp_breath (close_positions env c)"
    unfolding close_positions_def by (intro leaves_intros) simp_all
  show "lp_breath s' = lp_breath s"
    using leavesD [OF seal(1) s1(2)] leavesD [OF close s1(1)] by simp
  have "lp_open_bet_ids s1 = []"
    using s1(1) by (auto simp: close_positions_def ok_simps split: if_splits)
  then show "lp_open_bet_ids s' = []" using leavesD [OF seal(2) s1(2)] by simp
qed

text \<open>C3. Death is final and leaves nothing behind: when a tick of a running loop ends in death, the breath
  is spent, the loop is dead with its receipt and the terminal phase, no bet is left open in memory or in
  the ledger, the snapshot on disk is the terminal one with the final bankroll, and a further \<open>run\<close> of the
  object executes no tick and changes nothing.\<close>

theorem death_is_final:
  assumes "sound_env env" "loop_life env c s True" "tick env c s = (Inr r, s')" "tr_died r"
  shows "fle (lp_breath s') fzero \<and> \<not> lp_alive s' \<and> lp_phase s' = PHASE_4_TERMINAL \<and> lp_receipt s' \<noteq> None \<and>
    lp_open_bet_ids s' = [] \<and> select_open_bets (le_poll env) (ledger_of s') = [] \<and>
    (0 \<le> lc_incarnation c \<longrightarrow>
      (\<exists>sn. dk_snapshot (lp_disk s') = Some sn \<and> sn_phase sn = PHASE_4_TERMINAL \<and> sn_breath sn = fzero \<and>
         sn_bankroll_usd sn = lp_bankroll_usd s' \<and> sn_open_bet_ids sn = [] \<and> sn_last_tick sn = tr_tick r)) \<and>
    (\<forall>until_ts max_ticks. run env c until_ts max_ticks s' = Some (Inr (summary_of 0 0 0 0 s'), s'))"
proof -
  obtain now p s1 inputs a oid s2 s3 s4 s5 died s6 where
    written: "record_step env c now (lp_tick_counter s) inputs a oid s2 = (Inr (), s3)"
    and death: "death_step env c now (lp_tick_counter s) s5 = (Inr died, s6)"
    and rest: "whenever (\<not> died) (living_steps env c now (lp_tick_counter s) inputs a) s6 = (Inr (), s')"
      "tr_tick r = lp_tick_counter s" "tr_died r = died"
    using assms(3) by (auto elim!: tick_okE)
  have died: "died" "s6 = s'" using rest assms(4) by (simp_all add: whenever_ok)
  obtain s7 rec where die: "die env c (lp_tick_counter s) s7 = (Inr rec, s')" "lp_breath s7 = lp_breath s5"
    "fle (lp_breath s5) fzero"
    using death died by (auto elim!: death_step_died)
  note final = die_final [OF die(1)]
  have "0 \<le> lp_tick_counter s" using wp_okD [OF record_step_log written] by simp
  moreover have "books env s' True"
    using wp_okD [OF keeps_booksD [OF tick_books [OF assms(1)] loop_life_books [OF assms(1,2)]] assms(3)] .
  then have "select_open_bets (le_poll env) (ledger_of s') = []"
    using books_open_bets(2) [OF assms(1)] final(3) by fastforce
  moreover have "run env c until_ts max_ticks s' = Some (Inr (summary_of 0 0 0 0 s'), s')" for until_ts max_ticks
    using final(1) by (simp add: entombed_def run_def summary_of_def)
  ultimately show ?thesis
    using final die(2,3) rest(2) by (simp add: entombed_def)
qed

section \<open>Concrete lives\<close>

lemma demo_sound: "sound_env demo_loop_env" "sound_env idle_env"
proof -
  have inj: "inj (\<lambda>n. replicate (Suc n) (CHR ''u''))"
    by (rule injI) (metis Suc_inject length_replicate)
  then show "sound_env demo_loop_env" "sound_env idle_env"
    using strict_reader.bet_reader_axioms [of False]
    by (simp_all add: sound_env_def idle_env_def demo_loop_env_def demo_exec_env_def)
qed

lemma demo_birth:
  "loop_life env demo_loop_config demo_loop False" "loop_life idle_env demo_loop_config doomed_loop False"
  unfolding demo_loop_def doomed_loop_def
  by (rule first_birth; simp add: demo_disk_def demo_scalar_world_def)+

lemma bet_life: "loop_life demo_loop_env demo_loop_config bet_ticked True" "lp_open_bet_ids bet_ticked = [''u'']"
proof -
  have "loop_life demo_loop_env demo_loop_config bet_boot True"
    using loop_life.boot [OF demo_birth(1)] returnedE [OF bet_runs(1)] unfolding bet_boot_def by blast
  moreover have "returned (fst (tick demo_loop_env demo_loop_config bet_boot))"
    using bet_runs(2) by (simp add: split_beta)
  ultimately show "loop_life demo_loop_env demo_loop_config bet_ticked True"
    using loop_life.ticks returnedE unfolding bet_ticked_def by blast
  show "lp_open_bet_ids bet_ticked = [''u'']" using bet_runs(2) by (simp add: bet_ticked_def split_beta)
qed

theorem open_set_refines_ledger_witness:
  "bet_id ` set (select_open_bets (le_poll demo_loop_env) (ledger_of bet_ticked)) = {''u''}"
  using open_set_refines_ledger [OF demo_sound(1) bet_life(1)] bet_life(2) by simp

theorem death_is_final_witness:
  "case tick idle_env demo_loop_config doomed_boot of
     (Inr r, s') \<Rightarrow> \<not> lp_alive s' \<and> (\<exists>sn. dk_snapshot (lp_disk s') = Some sn \<and> sn_phase sn = PHASE_4_TERMINAL) \<and>
        run idle_env demo_loop_config None None s' = Some (Inr (summary_of 0 0 0 0 s'), s')
   | _ \<Rightarrow> False"
proof -
  have life: "loop_life idle_env demo_loop_config doomed_boot True"
    using loop_life.boot [OF demo_birth(2)] returnedE [OF doomed_runs(1)] unfolding doomed_boot_def by blast
  obtain r s' where t: "tick idle_env demo_loop_config doomed_boot = (Inr r, s')" "tr_died r"
    using doomed_runs(2) by (auto split: prod.splits sum.splits)
  have "0 \<le> lc_incarnation demo_loop_config" by (simp add: demo_loop_config_def)
  with death_is_final [OF demo_sound(2) life t] t(1) show ?thesis by auto
qed

end
