(* ===== verification/LoopBreath.thy ===== *)
theory LoopBreath
  imports LoopFrames
begin

text \<open>
  The breath of the loop and the breath of the chain: what a tick that returns leaves in memory is what
  the chain would answer, and the forced-terminal switch ends a run in its first tick.
\<close>

section \<open>In step with the chain\<close>

definition in_sync :: "'c loop_env \<Rightarrow> 'c loop \<Rightarrow> bool" where
  "in_sync env s = (le_read_breath env (pw_chain (lp_world s)) = Inr (lp_breath s))"

abbreviation breath_state :: "'c loop \<Rightarrow> 'c \<times> pyfloat" where
  "breath_state s \<equiv> (pw_chain (lp_world s), lp_breath s)"

lemma in_sync_cong: "breath_state s1 = breath_state s \<Longrightarrow> in_sync env s1 = in_sync env s"
  by (simp add: in_sync_def)

lemma in_sync_leaves: "leaves breath_state m \<Longrightarrow> in_sync env s \<Longrightarrow> m s = (r, s1) \<Longrightarrow> in_sync env s1"
  using leavesD in_sync_cong by metis

lemma refresh_in_sync: "refresh_breath env s = (Inr u, s1) \<Longrightarrow> in_sync env s1"
  by (auto simp: refresh_breath_def chain_breath_def ok_simps in_sync_def)

lemma breath_leaves:
  "leaves breath_state (decision_steps env c now t)" "leaves breath_state (record_step env c now t i a oid)"
  "leaves breath_state (write_snapshot env c now t)" "leaves breath_state (update_storm env c now)"
  "leaves breath_state (living_steps env c now t i a)" "leaves breath_state (emit_hook h)"
  "leaves breath_state (roll_dice env)"
  by (rule leaves_decision_steps leaves_record_step leaves_write_snapshot leaves_update_storm leaves_living_steps
      leaves_emit leaves_roll; simp)+

lemma settle_steps_in_sync:
  assumes "settle_steps env c now t s = (Inr p, s1)" shows "in_sync env s1"
proof -
  obtain s2 s3 where "refresh_breath env s2 = (Inr (), s3)"
    "whenever (lc_storm_enabled c) (update_storm env c now) s3 = (Inr (), s1)"
    using assms by (auto simp: settle_steps_def ok_simps)
  then show ?thesis using refresh_in_sync in_sync_leaves [OF leaves_whenever [OF breath_leaves(4)]] by blast
qed

lemma attempt_tithe_in_sync:
  assumes "in_sync env s" "attempt_tithe env c t s = (Inr u, s1)" shows "in_sync env s1"
proof (cases "fle (lc_tithe_amount_usd c) (lp_bankroll_usd s)")
  case True
  then show ?thesis using assms
    by (auto simp: attempt_tithe_def ok_simps emit_hook_def in_sync_def)
next
  case False
  then obtain s2 s3 where "refresh_breath env s2 = (Inr (), s3)" "breath_state s1 = breath_state s3"
    using assms(2) by (auto simp: attempt_tithe_def ok_simps emit_hook_def)
  then show ?thesis using refresh_in_sync in_sync_cong by metis
qed

lemma tithe_step_in_sync:
  assumes "in_sync env s" "tithe_step env c t i s = (Inr u, s1)" shows "in_sync env s1"
proof -
  have "in_sync env (s\<lparr>lp_markets := lp_markets s + 1\<rparr>)" using assms(1) by (simp add: in_sync_def)
  then show ?thesis
    using assms attempt_tithe_in_sync [of env "s\<lparr>lp_markets := lp_markets s + 1\<rparr>" c t u s1]
    by (auto simp: tithe_step_def ok_simps split: if_splits)
qed

lemma tribute_saved_in_sync:
  assumes "attempt_tribute env c policy now t s = (Inr True, s1)" shows "in_sync env s1"
proof -
  obtain s2 s3 s4 where "refresh_breath env s2 = (Inr (), s3)"
    "write_snapshot env c now t (s3\<lparr>lp_storm := (lp_storm s3)\<lparr>st_last_breath := Some (lp_breath s3)\<rparr>\<rparr>) = (Inr (), s4)"
    "breath_state s1 = breath_state s4"
    using assms
    by (auto simp: attempt_tribute_def grant_breath_def ok_simps emit_hook_def split: option.splits)
  moreover have "in_sync env (s3\<lparr>lp_storm := v\<rparr>)" if "in_sync env s3" for v using that by (simp add: in_sync_def)
  ultimately show ?thesis using refresh_in_sync in_sync_leaves [OF breath_leaves(3)] in_sync_cong by metis
qed

lemma death_step_survived:
  assumes "in_sync env s" "death_step env c now t s = (Inr False, s1)"
  shows "in_sync env s1" "le_tribute_policy env = None \<Longrightarrow> \<not> fle (lp_breath s1) fzero"
  using assms tribute_saved_in_sync
  by (auto simp: death_step_def ok_simps split: if_splits option.splits)

lemma survived_in_sync:
  assumes "tick env c s = (Inr r, s')" "\<not> tr_died r"
  shows "in_sync env s'" "tr_breath_after r = lp_breath s'" "le_tribute_policy env = None \<Longrightarrow> \<not> fle (lp_breath s') fzero"
proof -
  obtain now p s1 inputs a oid s2 s3 s4 s5 died s6 where st:
    "settle_steps env c now (lp_tick_counter s) (s\<lparr>lp_clocks := Suc (lp_clocks s)\<rparr>) = (Inr p, s1)"
    "decision_steps env c now (lp_tick_counter s) s1 = (Inr (inputs, a, oid), s2)"
    "record_step env c now (lp_tick_counter s) inputs a oid s2 = (Inr (), s3)"
    "write_snapshot env c now (lp_tick_counter s) (s3\<lparr>lp_tick_counter := lp_tick_counter s + 1\<rparr>) = (Inr (), s4)"
    "tithe_step env c (lp_tick_counter s) inputs s4 = (Inr (), s5)"
    "death_step env c now (lp_tick_counter s) s5 = (Inr died, s6)"
    "whenever (\<not> died) (living_steps env c now (lp_tick_counter s) inputs a) s6 = (Inr (), s')"
    and r: "tr_died r = died" "tr_breath_after r = lp_breath s'"
    using assms(1) by (auto elim!: tick_okE)
  have "in_sync env s3"
    using settle_steps_in_sync [OF st(1)] in_sync_leaves breath_leaves(1,2) st(2,3) by metis
  then have "in_sync env (s3\<lparr>lp_tick_counter := lp_tick_counter s + 1\<rparr>)" by (simp add: in_sync_def)
  from in_sync_leaves [OF breath_leaves(3) this st(4)] have s5: "in_sync env s5"
    using tithe_step_in_sync st(5) by blast
  have death: "death_step env c now (lp_tick_counter s) s5 = (Inr False, s6)" using st(6) r assms(2) by simp
  have "breath_state s' = breath_state s6"
    using leavesD [OF leaves_whenever [OF breath_leaves(5)] st(7)] .
  then show "in_sync env s'" "le_tribute_policy env = None \<Longrightarrow> \<not> fle (lp_breath s') fzero"
    using death_step_survived [OF s5 death] in_sync_cong by (blast, simp)
  show "tr_breath_after r = lp_breath s'" by (rule r)
qed

text \<open>C9. No tick leaves a loop that is spent alive, or alive on a breath the chain does not confirm: after
  a tick that returns without dying, the breath in memory is the one the chain reads, and without an
  altar it is not zero or below, whatever settlements, rent and orders the tick went through.\<close>

theorem survivors_breathe:
  assumes "tick env c s = (Inr r, s')" "\<not> tr_died r"
  shows "le_read_breath env (pw_chain (lp_world s')) = Inr (lp_breath s') \<and> tr_breath_after r = lp_breath s' \<and>
    (le_tribute_policy env = None \<longrightarrow> \<not> fle (lp_breath s') fzero)"
  using survived_in_sync [OF assms] by (simp add: in_sync_def)

lemma idle_survives: "case tick idle_env demo_loop_config idle_boot of (Inr r, s') \<Rightarrow> \<not> tr_died r | _ \<Rightarrow> False"
  by code_simp

theorem survivors_breathe_witness:
  "case tick idle_env demo_loop_config idle_boot of
     (Inr r, s') \<Rightarrow> lp_breath s' = current_breath (pw_chain (lp_world s')) \<and> \<not> fle (lp_breath s') fzero | _ \<Rightarrow> False"
proof -
  obtain r s' where t: "tick idle_env demo_loop_config idle_boot = (Inr r, s')" "\<not> tr_died r"
    using idle_survives by (auto split: prod.splits sum.splits)
  have "le_tribute_policy idle_env = None" "le_read_breath idle_env = scalar_read"
    by (simp_all add: idle_env_def demo_loop_env_def)
  with survivors_breathe [OF t] t(1) show ?thesis by (simp add: scalar_read_def)
qed

end
