(* ===== verification/LoopRun.thy ===== *)
theory LoopRun
  imports LoopBooks LoopBreath
begin

text \<open>
  The driver: a bounded run ends and its summary accounts for what happened; the forced-terminal
  switch ends a run in its first tick.
\<close>

section \<open>Bounded runs\<close>

lemma tick_died_dead:
  assumes "tick env c s = (Inr r, s')" "tr_died r" shows "\<not> lp_alive s'"
proof -
  obtain now inputs a s5 died s6 where
    death: "death_step env c now (lp_tick_counter s) s5 = (Inr died, s6)"
    and rest: "whenever (\<not> died) (living_steps env c now (lp_tick_counter s) inputs a) s6 = (Inr (), s')" "tr_died r = died"
    using assms(1) by (auto elim!: tick_okE)
  then obtain s7 rec where "die env c (lp_tick_counter s) s7 = (Inr rec, s')"
    using assms(2) by (auto simp: whenever_ok elim!: death_step_died)
  then show ?thesis using die_final(1) by (fastforce simp: entombed_def)
qed

lemma tick_log_length: "tick env c s = (Inr r, s') \<Longrightarrow> length (tick_log s') = Suc (length (tick_log s))"
  using wp_okD [OF tick_log_grows] by fastforce

definition accounts :: "int option \<Rightarrow> nat \<Rightarrow> nat \<Rightarrow> nat \<Rightarrow> 'c loop \<Rightarrow> run_summary \<Rightarrow> 'c loop \<Rightarrow> bool" where
  "accounts until_ts m n acted s sm s' =
     (n \<le> ticks_completed sm \<and> ticks_completed sm \<le> max n m \<and>
      bets_placed sm + no_bets_emitted sm + n = acted + ticks_completed sm \<and>
      length (tick_log s') + n = length (tick_log s) + ticks_completed sm \<and>
      rs_died sm = (\<not> lp_alive s') \<and> final_breath sm = lp_breath s' \<and> final_bankroll_usd sm = lp_bankroll_usd s' \<and>
      (m \<le> ticks_completed sm \<or> rs_died sm \<or> until_ts \<noteq> None))"

lemma accounts_step:
  assumes "accounts until_ts m (Suc n) (Suc acted) s1 sm s'" "length (tick_log s1) = Suc (length (tick_log s))" "n < m"
  shows "accounts until_ts m n acted s sm s'"
  using assms by (auto simp: accounts_def)

lemma run_loop_ends:
  "\<exists>res s'. run_loop env c until_ts (Some m) n bets no_bets settled s = Some (res, s') \<and>
     (\<forall>sm. res = Inr sm \<longrightarrow> accounts until_ts m n (bets + no_bets) s sm s')"
proof (induction "m - n" arbitrary: n bets no_bets settled s)
  case 0
  then show ?case
    by (subst run_loop.simps) (auto simp: accounts_def summary_of_def Let_def)
next
  case (Suc k)
  then have n: "n < m" "k = m - Suc n" by simp_all
  let ?now = "le_clock env (lp_clocks s)" and ?s = "s\<lparr>lp_clocks := Suc (lp_clocks s)\<rparr>"
  show ?case
  proof (cases "lp_alive s \<and> \<not> (case until_ts of None \<Rightarrow> False | Some d \<Rightarrow> d \<le> ?now)")
    case False
    then show ?thesis
      by (subst run_loop.simps)
         (auto simp: accounts_def summary_of_def Let_def split: option.splits)
  next
    case True
    obtain r s1 where t: "tick env c ?s = (r, s1)" by (metis prod.exhaust)
    show ?thesis
    proof (cases r)
      case (Inl e)
      then show ?thesis using True t n by (subst run_loop.simps) (simp add: Let_def)
    next
      case (Inr x)
      note len = tick_log_length [OF t [unfolded Inr], simplified]
      show ?thesis
      proof (cases "tr_died x")
        case died: True
        from tick_died_dead [OF t [unfolded Inr] died]
        show ?thesis using True t Inr n len died
          by (subst run_loop.simps) (auto simp: accounts_def summary_of_def Let_def)
      next
        case alive: False
        let ?bet = "a_kind (tr_action x) = BET"
        let ?rest = "run_loop env c until_ts (Some m) (Suc n) (if ?bet then Suc bets else bets)
            (if ?bet then no_bets else Suc no_bets) (settled + tr_poll_settled x) s1"
        have unfold: "run_loop env c until_ts (Some m) n bets no_bets settled s = ?rest"
          using True t Inr n alive by (subst run_loop.simps) (simp add: Let_def)
        obtain res s' where rest: "?rest = Some (res, s')"
          "\<forall>sm. res = Inr sm \<longrightarrow> accounts until_ts m (Suc n) (Suc (bets + no_bets)) s1 sm s'"
          using Suc(1) [OF n(2), of "if ?bet then Suc bets else bets" "if ?bet then no_bets else Suc no_bets"]
          by (cases ?bet) fastforce+
        show ?thesis unfolding unfold
          using rest accounts_step len n(1) by blast
      qed
    qed
  qed
qed

lemma bounded_run:
  assumes "lp_alive s"
  shows "\<exists>res s'. run env c until_ts (Some m) s = Some (res, s') \<and>
    (\<forall>sm. res = Inr sm \<longrightarrow>
      ticks_completed sm \<le> m \<and> (ticks_completed sm = m \<or> rs_died sm \<or> until_ts \<noteq> None) \<and>
      bets_placed sm + no_bets_emitted sm = ticks_completed sm \<and>
      length (tick_log s') = length (tick_log s) + ticks_completed sm \<and>
      rs_died sm = (\<not> lp_alive s') \<and> final_breath sm = lp_breath s' \<and> final_bankroll_usd sm = lp_bankroll_usd s')"
proof -
  let ?s = "if lc_force_terminal c
            then s\<lparr>lp_force_pending := True, lp_hooks := lp_hooks s @ [ForceTerminalArmed (lp_breath s)]\<rparr> else s"
  obtain r s1 where boot: "reconstruct_from_disk env c ?s = (r, s1)" by (metis prod.exhaust)
  have log: "tick_log s1 = tick_log s" using reconstruct_log(1) [OF boot] by simp
  show ?thesis
  proof (cases r)
    case (Inl e)
    then show ?thesis using assms boot by (simp add: run_def Let_def)
  next
    case (Inr x)
    obtain res s' where loop: "run_loop env c until_ts (Some m) 0 0 0 0 s1 = Some (res, s')"
      "\<forall>sm. res = Inr sm \<longrightarrow> accounts until_ts m 0 0 s1 sm s'"
      using run_loop_ends [of env c until_ts m 0 0 0 0 s1] by auto
    have "run env c until_ts (Some m) s = Some (res, s')"
      using assms boot Inr loop(1) by (simp add: run_def Let_def)
    then show ?thesis using loop(2) log by (intro exI [of _ res] exI [of _ s']) (auto simp: accounts_def)
  qed
qed

text \<open>C11. A run bounded by \<open>max_ticks\<close> ends, and its summary is true: it completes at most that many
  ticks, exactly that many unless the agent died or a deadline was given, every completed tick was
  either a bet or not and left exactly one row in the decision log, and the reported death, breath and
  bankroll are those of the loop it leaves.\<close>

theorem run_ends_and_accounts:
  assumes "lp_alive s"
  shows "\<exists>res s'. run env c until_ts (Some m) s = Some (res, s') \<and>
    (\<forall>sm. res = Inr sm \<longrightarrow>
      ticks_completed sm \<le> m \<and> (ticks_completed sm = m \<or> rs_died sm \<or> until_ts \<noteq> None) \<and>
      bets_placed sm + no_bets_emitted sm = ticks_completed sm \<and>
      length (tick_log s') = length (tick_log s) + ticks_completed sm \<and>
      rs_died sm = (\<not> lp_alive s') \<and> final_breath sm = lp_breath s' \<and> final_bankroll_usd sm = lp_bankroll_usd s')"
  by (rule bounded_run [OF assms])

section \<open>The chain under the poller\<close>

lemma update_chain_keeps:
  assumes "\<And>p k. P k \<Longrightarrow> P (snd (pe_chain env p k))"
  shows "P (pw_chain w) \<Longrightarrow> P (pw_chain (snd (update_chain_with_retry env ds i m pnl w)))"
proof (induction ds arbitrary: w)
  case Nil
  obtain x k where k: "pe_chain env pnl (pw_chain w) = (x, k)" by (metis prod.exhaust)
  then have "P k" using assms [OF Nil, of pnl] by simp
  then show ?case using k by (cases x) (simp_all add: push_pnl_def)
next
  case (Cons d ds)
  obtain x k where k: "pe_chain env pnl (pw_chain w) = (x, k)" by (metis prod.exhaust)
  then have "P k" using assms [OF Cons.prems, of pnl] by simp
  then show ?case using k Cons.IH by (cases x) (simp_all add: push_pnl_def)
qed

lemma resolve_chain_keeps:
  assumes "\<And>p k. P k \<Longrightarrow> P (snd (pe_chain env p k))" "P (pw_chain w)"
  shows "P (pw_chain (snd (resolve_and_settle env cfg b now w)))"
proof -
  have wrote: "pw_chain (snd (write_settled env s b w)) = pw_chain w" for s w
    by (simp add: write_settled_def Let_def split: sum.split)
  have feed: "P (pw_chain (snd (feed_back env b r pnl lag w)))" if "P (pw_chain w)" for r pnl lag w
  proof -
    let ?w = "w\<lparr>pw_weight_calls := pw_weight_calls w @ [(feedback_signals pnl b, r)]\<rparr>"
    have "P (pw_chain ?w)" using that by simp
    from update_chain_keeps [where P = P, OF assms(1) this, of CHAIN_RETRY_DELAYS "bet_id b" "bet_market_id b" pnl]
    show ?thesis using that
      by (auto simp: feed_back_def Let_def split: option.split prod.split)
  qed
  have book: "P (pw_chain (snd (book env cfg b now r w)))" if "P (pw_chain w)" for r w
  proof -
    have "P (pw_chain (snd (case write_settled env s b w of
        (Inl e, w1) \<Rightarrow> (Inl e, w1) | (Inr u, w1) \<Rightarrow> feed_back env b r pnl lag w1)))" for s pnl lag
      using wrote [of s w] feed [of "snd (write_settled env s b w)" r pnl lag] that
      by (auto split: prod.split sum.split)
    then show ?thesis using that by (auto simp: book_def Let_def split: sum.split)
  qed
  obtain r1 w1 where lag: "emit_lag_alert env b now w = (r1, w1)" by (metis prod.exhaust)
  have l: "pw_chain w1 = pw_chain w" using emit_lag_frame(3) [of env b now w] lag by simp
  obtain f w2 where fe: "fetch_with_retry env GAMMA_RETRY_DELAYS (bet_market_id b) w1 = (f, w2)" by (metis prod.exhaust)
  have "pw_chain w2 = pw_chain w" using fetch_frame(2) [of env GAMMA_RETRY_DELAYS "bet_market_id b" w1] fe l by simp
  then show ?thesis using book [of w2] assms(2) lag fe l
    by (auto simp: resolve_and_settle_def split: sum.split fetched.split option.split)
qed

lemma poller_tick_chain_keeps:
  assumes "\<And>p k. P k \<Longrightarrow> P (snd (pe_chain env p k))" "P (pw_chain w)"
  shows "P (pw_chain (snd (poller_tick env cfg now w)))"
proof -
  have "P (pw_chain (snd (tick_loop env cfg now bs p w)))" if "P (pw_chain w)" for bs p w
    using that
  proof (induction bs arbitrary: p w)
    case (Cons b bs)
    from resolve_chain_keeps [where P = P, OF assms(1) Cons.prems, of cfg b now] Cons.IH
    show ?case by (auto split: prod.split sum.split)
  qed simp
  then show ?thesis using assms(2) by (auto simp: poller_tick_def split: sum.split)
qed

section \<open>The forced end\<close>

text \<open>The chain of the replay and of the sandbox: a scalar that is clamped at zero.\<close>

definition on_scalar_chain :: "scalar_chain loop_env \<Rightarrow> bool" where
  "on_scalar_chain env = (pe_chain (le_poll env) = scalar_update \<and> le_read_breath env = scalar_read)"

abbreviation chain_value :: "scalar_chain loop \<Rightarrow> pyfloat" where
  "chain_value s \<equiv> current_breath (pw_chain (lp_world s))"

lemma scalar_push_nonneg: "fle fzero (current_breath (snd (scalar_update p k)))"
  by (simp add: scalar_update_def fmax_ge_left)

lemma drained: "fle fzero b \<Longrightarrow> (if flt fzero b then fmax fzero (fadd b (fneg b)) else b) = fzero"
  by (cases b) (auto simp: fmax_def)

lemma settle_steps_forced:
  assumes env: "on_scalar_chain env" and s: "lp_force_pending s" "fle fzero (chain_value s)"
    and run: "settle_steps env c now t s = (Inr p, s1)"
  shows "lp_breath s1 = fzero \<and> chain_value s1 = fzero"
proof -
  obtain s2 s3 s4 s5 where st: "drain_and_apply_weight_deltas env t s = (Inr (), s2)" "poll_step env c s2 = (Inr p, s3)"
    "force_step env s3 = (Inr (), s4)" "refresh_breath env s4 = (Inr (), s5)"
    "whenever (lc_storm_enabled c) (update_storm env c now) s5 = (Inr (), s1)"
    using run by (auto simp: settle_steps_def ok_simps)
  let ?f = "\<lambda>s. (lp_force_pending s, lp_world s)"
  have s2: "?f s2 = ?f s" by (rule leavesD [OF leaves_drain st(1)]) simp_all
  have "leaves lp_force_pending (poll_step env c)" by (rule leaves_poll_step) simp_all
  then have pending: "lp_force_pending s3" using leavesD st(2) s2 s(1) by fastforce
  obtain w where w: "poller_tick (le_poll env) (lc_poll c) (le_clock env (lp_clocks s2)) (lp_world s2) = (Inr p, w)"
    "lp_world s3 = w"
    using st(2) by (auto elim!: poll_step_ok)
  have "fle fzero (current_breath (pw_chain (snd (poller_tick (le_poll env) (lc_poll c) (le_clock env (lp_clocks s2)) (lp_world s2)))))"
    by (rule poller_tick_chain_keeps) (use env scalar_push_nonneg s(2) s2 in \<open>simp_all add: on_scalar_chain_def\<close>)
  then have "fle fzero (chain_value s3)" using w by simp
  from drained [OF this] have "chain_value s4 = fzero"
    using st(3) pending env
    by (auto simp: force_step_def ok_simps chain_breath_def chain_push_def on_scalar_chain_def scalar_read_def
        scalar_update_def split: if_splits)
  then have "breath_state s5 = (pw_chain (lp_world s4), fzero)" "chain_value s5 = fzero"
    using st(4) env by (auto simp: refresh_breath_def chain_breath_def ok_simps on_scalar_chain_def scalar_read_def)
  then show ?thesis using leavesD [OF leaves_whenever [OF breath_leaves(4)] st(5)] by auto
qed

lemma tithe_step_spent:
  assumes env: "on_scalar_chain env" "check_loop_config has_policy has_rng scale c = Inr ()"
    and s: "lp_breath s = fzero" "chain_value s = fzero"
    and run: "tithe_step env c t i s = (Inr u, s1)"
  shows "fle (lp_breath s1) fzero"
proof -
  have cost: "fle (fmax fzero (fadd fzero (fneg (lc_tithe_breath_cost c)))) fzero" if "lc_divine_tithe c"
  proof (rule scalar_pay_loss)
    have "isfinite (lc_tithe_breath_cost c)" "\<not> flt (lc_tithe_breath_cost c) fzero"
      using env(2) that by (auto simp: check_loop_config_def)
    then show "fle (fneg (lc_tithe_breath_cost c)) fzero" by (cases "lc_tithe_breath_cost c") auto
  qed simp_all
  show ?thesis
  proof (cases "lc_divine_tithe c \<and> i \<noteq> None \<and> (lp_markets s + 1) mod lc_tithe_every c = 0")
    case False
    then show ?thesis using run s(1) by (auto simp: tithe_step_def ok_simps split: if_splits)
  next
    case True
    then show ?thesis using run s cost env(1)
      by (cases "fle (lc_tithe_amount_usd c) (lp_bankroll_usd s)")
         (auto simp: tithe_step_def attempt_tithe_def ok_simps emit_hook_def chain_push_def refresh_breath_def
          chain_breath_def on_scalar_chain_def scalar_read_def scalar_update_def)
  qed
qed

lemma forced_tick_dies:
  assumes env: "on_scalar_chain env" "le_tribute_policy env = None" "check_loop_config has_policy has_rng scale c = Inr ()"
    and s: "lp_force_pending s" "fle fzero (chain_value s)"
    and run: "tick env c s = (Inr r, s')"
  shows "tr_died r"
proof -
  obtain now p s1 inputs a oid s2 s3 s4 s5 died s6 where st:
    "settle_steps env c now (lp_tick_counter s) (s\<lparr>lp_clocks := Suc (lp_clocks s)\<rparr>) = (Inr p, s1)"
    "decision_steps env c now (lp_tick_counter s) s1 = (Inr (inputs, a, oid), s2)"
    "record_step env c now (lp_tick_counter s) inputs a oid s2 = (Inr (), s3)"
    "write_snapshot env c now (lp_tick_counter s) (s3\<lparr>lp_tick_counter := lp_tick_counter s + 1\<rparr>) = (Inr (), s4)"
    "tithe_step env c (lp_tick_counter s) inputs s4 = (Inr (), s5)"
    "death_step env c now (lp_tick_counter s) s5 = (Inr died, s6)" and r: "tr_died r = died"
    using run by (auto elim!: tick_okE)
  have "breath_state s4 = breath_state s1"
    using leavesD [OF breath_leaves(1) st(2)] leavesD [OF breath_leaves(2) st(3)] leavesD [OF breath_leaves(3) st(4)] by simp
  moreover have "lp_breath s1 = fzero \<and> chain_value s1 = fzero"
    by (rule settle_steps_forced [OF env(1) _ _ st(1)]) (use s in simp_all)
  ultimately have "fle (lp_breath s5) fzero" by (intro tithe_step_spent [OF env(1,3) _ _ st(5)]) auto
  then show ?thesis using st(6) env(2) r by (auto simp: death_step_def ok_simps)
qed

text \<open>C15. The forced-terminal switch is honoured at once: on the clamped chain, with a valid configuration
  and no altar, a run started with it ends although it was given no bound and no deadline, and the
  summary it returns, if nothing raised, reports one tick and a dead agent, even if settlements of that
  very tick had filled the breath again.\<close>

theorem forced_run_dies_at_once:
  assumes "on_scalar_chain env" "le_tribute_policy env = None" "check_loop_config has_policy has_rng scale c = Inr ()"
    and "lc_force_terminal c" "lp_alive s" "fle fzero (current_breath (pw_chain (lp_world s)))"
  shows "\<exists>res s'. run env c None None s = Some (res, s') \<and>
    (\<forall>sm. res = Inr sm \<longrightarrow> ticks_completed sm = 1 \<and> rs_died sm \<and> \<not> lp_alive s')"
proof -
  let ?s = "s\<lparr>lp_force_pending := True, lp_hooks := lp_hooks s @ [ForceTerminalArmed (lp_breath s)]\<rparr>"
  let ?f = "\<lambda>s. (lp_force_pending s, lp_world s, lp_alive s)"
  obtain r s1 where boot: "reconstruct_from_disk env c ?s = (r, s1)" by (metis prod.exhaust)
  have "leaves ?f (reconstruct_from_disk env c)"
    unfolding reconstruct_from_disk_def load_step_def by (intro leaves_intros; simp add: fold_streams_def)
  from leavesD [OF this boot] have s1: "lp_force_pending s1" "lp_world s1 = lp_world s" "lp_alive s1" using assms(5) by simp_all
  show ?thesis
  proof (cases r)
    case (Inl e)
    then show ?thesis using assms boot by (simp add: run_def Let_def)
  next
    case (Inr x)
    let ?s1 = "s1\<lparr>lp_clocks := Suc (lp_clocks s1)\<rparr>"
    obtain res s' where t: "tick env c ?s1 = (res, s')" by (metis prod.exhaust)
    have run: "run env c None None s = run_loop env c None None 0 0 0 0 s1"
      using assms boot Inr by (simp add: run_def Let_def)
    show ?thesis
    proof (cases res)
      case (Inl e)
      then show ?thesis using run t s1 by (subst (asm) run_loop.simps) (simp add: Let_def)
    next
      case (Inr y)
      have died: "tr_died y"
        by (rule forced_tick_dies [OF assms(1-3) _ _ t [unfolded Inr]]) (use s1 assms(6) in simp_all)
      then show ?thesis using run t s1 Inr tick_died_dead [OF t [unfolded Inr] died]
        by (subst (asm) run_loop.simps) (simp add: Let_def summary_of_def)
    qed
  qed
qed

definition forced_config :: loop_config where
  "forced_config = demo_loop_config\<lparr>lc_force_terminal := True\<rparr>"

declare run_loop.simps [code]

lemma demo_run_evaluated:
  "case run idle_env demo_loop_config None (Some 2) demo_loop of Some (Inr sm, s') \<Rightarrow> \<not> rs_died sm | _ \<Rightarrow> False"
  "case run idle_env forced_config None None demo_loop of Some (Inr sm, s') \<Rightarrow> True | _ \<Rightarrow> False"
  by code_simp+

theorem run_ends_and_accounts_witness:
  "case run idle_env demo_loop_config None (Some 2) demo_loop of
     Some (Inr sm, s') \<Rightarrow> ticks_completed sm = 2 \<and> length (tick_log s') = 2 | _ \<Rightarrow> False"
proof -
  have "lp_alive demo_loop" "tick_log demo_loop = []" by (simp_all add: demo_loop_def mk_loop_def demo_disk_def)
  with run_ends_and_accounts [of demo_loop idle_env demo_loop_config None 2] demo_run_evaluated(1) show ?thesis
    by (auto split: sum.splits)
qed

theorem forced_run_dies_at_once_witness:
  "case run idle_env forced_config None None demo_loop of
     Some (Inr sm, s') \<Rightarrow> ticks_completed sm = 1 \<and> rs_died sm \<and> \<not> lp_alive s' | _ \<Rightarrow> False"
proof -
  have "on_scalar_chain idle_env" "le_tribute_policy idle_env = None"
    by (simp_all add: on_scalar_chain_def idle_env_def demo_loop_env_def)
  moreover have "check_loop_config False False None forced_config = Inr ()" "lc_force_terminal forced_config"
    by code_simp+
  moreover have "lp_alive demo_loop" "fle fzero (chain_value demo_loop)"
    by (simp_all add: demo_loop_def mk_loop_def demo_scalar_world_def)
  ultimately show ?thesis
    using forced_run_dies_at_once [of idle_env False False None forced_config demo_loop] demo_run_evaluated(2)
    by (auto split: sum.splits)
qed

end
