(* ===== verification/LoopMoney.thy ===== *)
theory LoopMoney
  imports LoopRun
begin

text \<open>
  Money over a tick: the bankroll against the settled rows and the rent, what the snapshot keeps of it,
  and what a restart makes of the snapshot.
\<close>

section \<open>The poll books what it credits\<close>

abbreviation settled_of :: "'c loop \<Rightarrow> settled_bet_record list" where
  "settled_of s \<equiv> settled_bets (ledger_of s)"

abbreviation money :: "'c loop \<Rightarrow> settled_bet_record list \<times> pyfloat \<times> int" where
  "money s \<equiv> (settled_of s, lp_bankroll_usd s, lp_markets s)"

lemma reported_profits:
  assumes "reported os ss" shows "map so_pnl_usd os = map s_pnl_usd ss"
  using arg_cong [OF assms [unfolded reported_def], of "map (\<lambda>x. fst (snd x))"] by (simp add: comp_def)

lemma poll_step_money:
  assumes env: "sound_env env" and ok: "settled_once (ledger_of s)" and run: "poll_step env c s = (Inr p, s1)"
  obtains ss where "settled_of s1 = settled_of s @ ss" "settled_count p = length ss"
    "lp_bankroll_usd s1 = foldl fadd (lp_bankroll_usd s) (map s_pnl_usd ss)" "lp_markets s1 = lp_markets s"
proof -
  from run obtain w where w: "poller_tick (le_poll env) (lc_poll c) (le_clock env (lp_clocks s)) (lp_world s) = (Inr p, w)"
    "lp_world s1 = w" "lp_bankroll_usd s1 = foldl fadd (lp_bankroll_usd s) (map so_pnl_usd (settlements p))"
    "lp_markets s1 = lp_markets s"
    by (auto elim!: poll_step_ok)
  have reader: "bet_reader (pe_nv (le_poll env)) (pe_validate (le_poll env))" using env by (simp add: sound_env_def)
  from poller_tick_closes [OF reader ok w(1)] obtain ss where
    ss: "settled_bets (pw_ledger w) = settled_of s @ ss" "reported (settlements p) ss" "settled_count p = length ss" by auto
  show ?thesis by (rule that [of ss]) (use ss w reported_profits [OF ss(2)] in simp_all)
qed

lemma settle_steps_money:
  assumes env: "sound_env env" and ok: "settled_once (ledger_of s)" and run: "settle_steps env c now t s = (Inr p, s1)"
  obtains ss where "settled_of s1 = settled_of s @ ss" "settled_count p = length ss"
    "lp_bankroll_usd s1 = foldl fadd (lp_bankroll_usd s) (map s_pnl_usd ss)" "lp_markets s1 = lp_markets s"
proof -
  obtain s2 s3 s4 s5 where st: "drain_and_apply_weight_deltas env t s = (Inr (), s2)" "poll_step env c s2 = (Inr p, s3)"
    "force_step env s3 = (Inr (), s4)" "refresh_breath env s4 = (Inr (), s5)"
    "whenever (lc_storm_enabled c) (update_storm env c now) s5 = (Inr (), s1)"
    using run by (auto simp: settle_steps_def ok_simps)
  let ?f = "\<lambda>s. (ledger_of s, lp_bankroll_usd s, lp_markets s)"
  have s2: "?f s2 = ?f s" by (rule leavesD [OF leaves_drain st(1)]) simp_all
  have frames: "leaves ?f (force_step env)" "leaves ?f (refresh_breath env)"
    "leaves ?f (whenever (lc_storm_enabled c) (update_storm env c now))"
    by (rule leaves_force_step leaves_refresh leaves_whenever [OF leaves_update_storm]; simp)+
  have s1: "?f s1 = ?f s3"
    using leavesD [OF frames(1) st(3)] leavesD [OF frames(2) st(4)] leavesD [OF frames(3) st(5)] by simp
  have "settled_once (ledger_of s2)" using ok s2 by simp
  from poll_step_money [OF env this st(2)] obtain ss where
    "settled_of s3 = settled_of s2 @ ss" "settled_count p = length ss"
    "lp_bankroll_usd s3 = foldl fadd (lp_bankroll_usd s2) (map s_pnl_usd ss)" "lp_markets s3 = lp_markets s2" .
  then show ?thesis using that s1 s2 by simp
qed

section \<open>Rent\<close>

definition rent_due :: "'c loop_env \<Rightarrow> loop_config \<Rightarrow> 'c loop \<Rightarrow> bool" where
  "rent_due env c s =
     (lc_divine_tithe c \<and> le_inputs env (le_clock env (lp_clocks s)) (lp_tick_counter s) \<noteq> None \<and>
      (lp_markets s + 1) mod lc_tithe_every c = 0)"

definition rent_paid :: "loop_config \<Rightarrow> pyfloat \<Rightarrow> pyfloat" where
  "rent_paid c b = (if fle (lc_tithe_amount_usd c) b then fsub b (lc_tithe_amount_usd c) else b)"

lemma tithe_step_money:
  assumes "tithe_step env c t i s = (Inr u, s1)"
  shows "lp_bankroll_usd s1 = (if lc_divine_tithe c \<and> i \<noteq> None \<and> (lp_markets s + 1) mod lc_tithe_every c = 0
      then rent_paid c (lp_bankroll_usd s) else lp_bankroll_usd s)"
proof -
  have push: "leaves lp_bankroll_usd (chain_push env p)" "leaves lp_bankroll_usd (refresh_breath env)" for p
    by (simp_all add: leaves_intros)
  have "lp_bankroll_usd s2 = rent_paid c (lp_bankroll_usd s1)" if pay: "attempt_tithe env c t s1 = (Inr u, s2)" for s1 s2
  proof (cases "fle (lc_tithe_amount_usd c) (lp_bankroll_usd s1)")
    case True
    then show ?thesis using pay by (auto simp: attempt_tithe_def ok_simps emit_hook_def rent_paid_def)
  next
    case False
    then obtain s3 s4 where "chain_push env (fneg (lc_tithe_breath_cost c)) s1 = (Inr (), s3)"
      "refresh_breath env s3 = (Inr (), s4)" "lp_bankroll_usd s2 = lp_bankroll_usd s4"
      using pay by (auto simp: attempt_tithe_def ok_simps emit_hook_def)
    then show ?thesis
      using leavesD [OF push(1)] leavesD [OF push(2)] False by (simp add: rent_paid_def)
  qed
  then show ?thesis using assms by (auto simp: tithe_step_def ok_simps split: if_splits)
qed

section \<open>What the snapshot keeps\<close>

definition saved :: "int \<Rightarrow> pyfloat \<Rightarrow> 'c loop \<Rightarrow> bool" where
  "saved t b s = (\<exists>sn. dk_snapshot (lp_disk s) = Some sn \<and> sn_weights sn = Some (lp_weights s) \<and>
     sn_phase sn = lp_phase s \<and> sn_desperate sn = lp_desperate s \<and> sn_last_tick sn = t \<and> sn_bankroll_usd sn = b)"

abbreviation saved_state :: "'c loop \<Rightarrow> snapshot option \<times> weights \<times> phase \<times> bool" where
  "saved_state s \<equiv> (dk_snapshot (lp_disk s), lp_weights s, lp_phase s, lp_desperate s)"

lemma saved_cong: "saved_state s1 = saved_state s \<Longrightarrow> saved t b s1 = saved t b s"
  by (simp add: saved_def)

lemma write_snapshot_saves: "write_snapshot env c now t s = (Inr u, s1) \<Longrightarrow> saved t (lp_bankroll_usd s1) s1"
  by (auto simp: write_snapshot_def ok_simps put_snapshot_def mk_snapshot_def snapshot_of_def saved_def split: if_splits)

lemma advisor_step_saves:
  assumes "saved t b s" "advisor_step env c now t s = (Inr u, s1)"
  shows "saved t (if length (lp_pending s1) = length (lp_pending s) then b else lp_bankroll_usd s1) s1"
proof -
  have fire: "leaves saved_state (fire_strategy_advisor env c now t tr)" for tr
    unfolding fire_strategy_advisor_def persist_proposal_def append_proposal_def by (intro leaves_intros) simp_all
  have pend: "leaves lp_pending (write_snapshot env c now t)" by (simp add: leaves_intros)
  let ?s = "s\<lparr>lp_ring := push_ring c (lp_weights s) (lp_ring s)\<rparr>"
  have s: "saved t b ?s" using assms(1) by (simp add: saved_def)
  show ?thesis
  proof (cases "strategy_advisor_trigger c t (lp_ring ?s)")
    case None
    then show ?thesis using assms(2) s by (auto simp: advisor_step_def ok_simps)
  next
    case (Some tr)
    then obtain s2 where f: "fire_strategy_advisor env c now t tr ?s = (Inr (), s2)"
      "if length (lp_pending s2) \<noteq> length (lp_pending s) then write_snapshot env c now t s2 = (Inr u, s1) else s1 = s2"
      using assms(2) by (auto simp: advisor_step_def ok_simps)
    have "saved t b s2" using saved_cong [OF leavesD [OF fire f(1)]] s by simp
    then show ?thesis using f(2) write_snapshot_saves leavesD [OF pend] by (auto split: if_splits)
  qed
qed

lemma reflection_frames:
  "leaves saved_state (reflection_step env c now t a m)" "leaves lp_pending (reflection_step env c now t a m)"
  unfolding reflection_step_def fire_reflection_def reset_baseline_def append_reflection_def
  by (auto intro!: leaves_intros split: option.split)

lemma living_steps_saves:
  assumes "saved t b s" "living_steps env c now t i a s = (Inr u, s1)"
  shows "saved t (if length (lp_pending s1) = length (lp_pending s) then b else lp_bankroll_usd s1) s1"
proof -
  obtain s2 where st: "reflection_step env c now t a (map_option ti_market_id i) s = (Inr (), s2)"
    "advisor_step env c now t s2 = (Inr u, s1)"
    using assms(2) by (auto simp: living_steps_def ok_simps)
  have "saved t b s2" using saved_cong [OF leavesD [OF reflection_frames(1) st(1)]] assms(1) by simp
  from advisor_step_saves [OF this st(2)] show ?thesis using leavesD [OF reflection_frames(2) st(1)] by simp
qed

section \<open>The bankroll over a tick\<close>

abbreviation booked :: "'c loop \<Rightarrow> settled_bet_record list \<Rightarrow> pyfloat" where
  "booked s ss \<equiv> foldl fadd (lp_bankroll_usd s) (map s_pnl_usd ss)"

lemma place_order_settled:
  "place_order env now oid x (ex, l) = (r, ex', l') \<Longrightarrow> settled_bets l' = settled_bets l"
  by (auto simp: place_order_def Let_def split: option.splits if_splits sum.splits)

lemma place_step_settled: "place_step env c i a s = (Inr oid, s1) \<Longrightarrow> settled_of s1 = settled_of s"
  by (auto simp: place_step_def ok_simps read_clock_def dest!: place_order_settled
      split: action_kind.splits option.splits prod.splits)

lemma decision_steps_money:
  assumes "decision_steps env c now t s = (Inr (i, a, oid), s1)"
  shows "money s1 = money s" "i = le_inputs env now t"
proof -
  obtain s2 where st: "decide_step env c i s = (Inr a, s2)" "place_step env c i a s2 = (Inr oid, s1)"
    and i: "i = le_inputs env now t"
    using assms by (auto simp: decision_steps_def Let_def ok_simps)
  have fr: "leaves money (decide_step env c i)" "leaves (\<lambda>s. (lp_bankroll_usd s, lp_markets s)) (place_step env c i a)"
    by (rule leaves_decide_step leaves_place_step; simp)+
  show "money s1 = money s"
    using leavesD [OF fr(1) st(1)] leavesD [OF fr(2) st(2)] place_step_settled [OF st(2)] by simp
  show "i = le_inputs env now t" by (rule i)
qed

lemma survived_no_altar:
  "death_step env c now t s = (Inr False, s1) \<Longrightarrow> le_tribute_policy env = None \<Longrightarrow> s1 = s"
  by (auto simp: death_step_def ok_simps split: if_splits)

lemma tick_money:
  assumes env: "sound_env env" "le_tribute_policy env = None" and ok: "settled_once (ledger_of s)"
    and run: "tick env c s = (Inr r, s')" "\<not> tr_died r"
  obtains ss where "settled_of s' = settled_of s @ ss" "tr_poll_settled r = length ss"
    "lp_bankroll_usd s' = (if rent_due env c s then rent_paid c (booked s ss) else booked s ss)"
    "saved (tr_tick r) (if length (lp_pending s') = length (lp_pending s) then booked s ss else lp_bankroll_usd s') s'"
proof -
  obtain p s1 inputs a oid s2 s3 s4 s5 died s6 where st:
    "settle_steps env c (le_clock env (lp_clocks s)) (lp_tick_counter s) (s\<lparr>lp_clocks := Suc (lp_clocks s)\<rparr>) = (Inr p, s1)"
    "decision_steps env c (le_clock env (lp_clocks s)) (lp_tick_counter s) s1 = (Inr (inputs, a, oid), s2)"
    "record_step env c (le_clock env (lp_clocks s)) (lp_tick_counter s) inputs a oid s2 = (Inr (), s3)"
    "write_snapshot env c (le_clock env (lp_clocks s)) (lp_tick_counter s) (s3\<lparr>lp_tick_counter := lp_tick_counter s + 1\<rparr>) = (Inr (), s4)"
    "tithe_step env c (lp_tick_counter s) inputs s4 = (Inr (), s5)"
    "death_step env c (le_clock env (lp_clocks s)) (lp_tick_counter s) s5 = (Inr died, s6)"
    "whenever (\<not> died) (living_steps env c (le_clock env (lp_clocks s)) (lp_tick_counter s) inputs a) s6 = (Inr (), s')"
    and r: "r = \<lparr>tr_tick = lp_tick_counter s, tr_action = a, tr_breath_after = lp_breath s',
          tr_bankroll_after = lp_bankroll_usd s', tr_poll_settled = settled_count p,
          tr_poll_pending = pending_count p, tr_died = died\<rparr>"
    using run(1) by (auto elim!: tick_okE)
  note inputs = decision_steps_money(2) [OF st(2)]
  have "settled_once (ledger_of (s\<lparr>lp_clocks := Suc (lp_clocks s)\<rparr>))" using ok by simp
  from settle_steps_money [OF env(1) this st(1)] obtain ss where
    ss: "settled_of s1 = settled_of s @ ss" "settled_count p = length ss" "lp_bankroll_usd s1 = booked s ss"
      "lp_markets s1 = lp_markets s" by auto
  have frames: "leaves money (record_step env c now t i a' oid')" "leaves money (write_snapshot env c now t)"
    "leaves settled_of (tithe_step env c t i)" "leaves saved_state (tithe_step env c t i)"
    "leaves lp_pending (settle_steps env c now t)" "leaves lp_pending (decision_steps env c now t)"
    "leaves lp_pending (record_step env c now t i a' oid')" "leaves lp_pending (write_snapshot env c now t)"
    "leaves lp_pending (tithe_step env c t i)"
    "leaves (\<lambda>s. (settled_of s, lp_bankroll_usd s)) (living_steps env c now t i a')" for now t i a' oid'
    by (rule leaves_record_step leaves_write_snapshot leaves_tithe_step leaves_settle_steps leaves_decision_steps
        leaves_living_steps; simp)+
  have s4: "money s4 = (settled_of s @ ss, booked s ss, lp_markets s)"
    using decision_steps_money(1) [OF st(2)] leavesD [OF frames(1) st(3)] leavesD [OF frames(2) st(4)] ss by simp
  have s6: "s6 = s5" "died = False" using survived_no_altar [OF _ env(2)] st(6) run(2) r by auto
  have s5: "settled_of s5 = settled_of s @ ss"
    "lp_bankroll_usd s5 = (if rent_due env c s then rent_paid c (booked s ss) else booked s ss)"
    using s4 leavesD [OF frames(3) st(5)] tithe_step_money [OF st(5)] by (auto simp: rent_due_def inputs)
  have living: "living_steps env c (le_clock env (lp_clocks s)) (lp_tick_counter s) inputs a s5 = (Inr (), s')"
    using st(7) s6 by (simp add: whenever_ok)
  have s': "settled_of s' = settled_of s @ ss" "lp_bankroll_usd s' = lp_bankroll_usd s5"
    using leavesD [OF frames(10) living] s5(1) by simp_all
  have "saved (lp_tick_counter s) (booked s ss) s4" using write_snapshot_saves [OF st(4)] s4 by simp
  then have "saved (lp_tick_counter s) (booked s ss) s5" using saved_cong [OF leavesD [OF frames(4) st(5)]] by blast
  from living_steps_saves [OF this living]
  have sv: "saved (lp_tick_counter s) (if length (lp_pending s') = length (lp_pending s5) then booked s ss else lp_bankroll_usd s') s'" .
  have "lp_pending s5 = lp_pending s"
    using leavesD [OF frames(5) st(1)] leavesD [OF frames(6) st(2)] leavesD [OF frames(7) st(3)]
      leavesD [OF frames(8) st(4)] leavesD [OF frames(9) st(5)] by simp
  then show ?thesis using that [of ss] s' s5(2) sv ss(2) r by simp
qed

text \<open>C6. The bankroll moves only with the ledger and the rent: over a tick that is survived without an altar,
  it grows by exactly the profits of the rows the tick appended to the settled stream, in their order,
  and loses the rent if the rent is due and affordable; the number of settlements the tick reports is
  the number of those rows.\<close>

theorem bankroll_follows_ledger:
  assumes "sound_env env" "loop_life env c s True" "le_tribute_policy env = None"
    and "tick env c s = (Inr r, s')" "\<not> tr_died r"
  shows "\<exists>ss. settled_bets (ledger_of s') = settled_bets (ledger_of s) @ ss \<and> tr_poll_settled r = length ss \<and>
    lp_bankroll_usd s' = (let b = foldl fadd (lp_bankroll_usd s) (map s_pnl_usd ss) in
      if rent_due env c s \<and> fle (lc_tithe_amount_usd c) b then fsub b (lc_tithe_amount_usd c) else b)"
proof -
  have "settled_once (ledger_of s)"
    using loop_life_books [OF assms(1,2)] by (simp add: books_def ledger_ok_def)
  from tick_money [OF assms(1,3) this assms(4,5)] obtain ss where
    "settled_of s' = settled_of s @ ss" "tr_poll_settled r = length ss"
    "lp_bankroll_usd s' = (if rent_due env c s then rent_paid c (booked s ss) else booked s ss)" .
  then show ?thesis by (intro exI [of _ ss]) (simp add: rent_paid_def Let_def)
qed

lemma idle_life_boot: "loop_life idle_env demo_loop_config idle_boot True"
  using loop_life.boot [OF demo_birth(1)] returnedE [OF idle_runs(1)] unfolding idle_boot_def by blast

lemma idle_env_plain:
  "le_tribute_policy idle_env = None" "\<forall>sn. le_load_snapshot idle_env sn = Inr sn" "\<not> lc_storm_enabled demo_loop_config"
  by (simp_all add: idle_env_def demo_loop_env_def demo_loop_config_def)

theorem bankroll_follows_ledger_witness:
  "case tick idle_env demo_loop_config idle_boot of
     (Inr r, s') \<Rightarrow> \<exists>ss. settled_bets (ledger_of s') = settled_bets (ledger_of idle_boot) @ ss \<and>
        lp_bankroll_usd s' = foldl fadd (lp_bankroll_usd idle_boot) (map s_pnl_usd ss) | _ \<Rightarrow> False"
proof -
  obtain r s' where t: "tick idle_env demo_loop_config idle_boot = (Inr r, s')" "\<not> tr_died r"
    using idle_survives by (auto split: prod.splits sum.splits)
  have "\<not> rent_due idle_env demo_loop_config idle_boot" by (simp add: rent_due_def demo_loop_config_def)
  with bankroll_follows_ledger [OF demo_sound(2) idle_life_boot idle_env_plain(1) t] t(1)
  show ?thesis by (auto simp: Let_def)
qed

end
