(* ===== verification/LoopRestart.thy ===== *)
theory LoopRestart
  imports LoopMoney
begin

text \<open>
  A process that starts over the files and the chain another left: what it finds again, and what it
  does not.
\<close>

text \<open>A fresh object over the files, the ledger and the chain of \<open>s\<close>; guard, engine and queue are new.\<close>

definition reopened :: "loop_config \<Rightarrow> cost_guard \<Rightarrow> engine_state \<Rightarrow> agent_runner \<Rightarrow> 'c loop \<Rightarrow> 'c loop" where
  "reopened c g en q s = mk_loop c g en q (lp_disk s) (lp_world s)"

lemma reopened_simps [simp]:
  "lp_disk (reopened c g en q s) = lp_disk s" "lp_world (reopened c g en q s) = lp_world s"
  "lp_alive (reopened c g en q s)"
  by (simp_all add: reopened_def mk_loop_def)

abbreviation recovered :: "'c loop \<Rightarrow> weights \<times> phase \<times> pyfloat \<times> bool \<times> bool" where
  "recovered s \<equiv> (lp_weights s, lp_phase s, lp_bankroll_usd s, lp_desperate s, lp_alive s)"

lemma load_step_snapshot:
  assumes "dk_snapshot (lp_disk s) = Some raw" "le_load_snapshot env raw = Inr sn" "sn_weights sn = Some w"
  obtains s1 where "load_step env c s = (Inr (sn_breath sn), s1)"
    "recovered s1 = (w, sn_phase sn, sn_bankroll_usd sn, sn_desperate sn, lp_alive s)"
    "lp_disk s1 = lp_disk s" "lp_world s1 = lp_world s"
  using assms by (simp add: load_step_def sbind_def sthen_def run_simps)

text \<open>Reconstruction over a snapshot, when the chain answers.\<close>

lemma reconstruct_snapshot:
  assumes snap: "dk_snapshot (lp_disk s) = Some raw" "le_load_snapshot env raw = Inr sn" "sn_weights sn = Some w"
    and calm: "\<not> lc_storm_enabled c" and chain: "le_read_breath env (pw_chain (lp_world s)) = Inr b"
  obtains x s' where "reconstruct_from_disk env c s = (Inr x, s')" "\<not> rc_cold_start x"
    "recovered s' = (w, sn_phase sn, sn_bankroll_usd sn, sn_desperate sn, lp_alive s)" "lp_breath s' = b"
    "lp_open_bet_ids s' = open_ids_from_rows (open_bets (ledger_of s))"
    "0 \<le> last_seen s \<longrightarrow> lp_tick_counter s' = last_seen s + 1"
    "lp_disk s' = lp_disk s" "lp_world s' = lp_world s"
proof -
  obtain s1 where load: "load_step env c s = (Inr (sn_breath sn), s1)"
    "recovered s1 = (w, sn_phase sn, sn_bankroll_usd sn, sn_desperate sn, lp_alive s)"
    "lp_disk s1 = lp_disk s" "lp_world s1 = lp_world s"
    using load_step_snapshot [OF snap] .
  let ?s2 = "(fold_streams s1)\<lparr>lp_breath := b\<rparr>"
  let ?s3 = "if feq b (sn_breath sn) then ?s2
    else ?s2\<lparr>lp_hooks := lp_hooks s1 @ [BreathDivergence b (sn_breath sn) (lp_tick_counter ?s2 - 1)]\<rparr>"
  have "refresh_breath env (fold_streams s1) = (Inr (), ?s2)"
    using chain load(4)
    by (simp add: refresh_breath_def chain_breath_def sbind_def run_simps fold_streams_def)
  moreover have "note_divergence False (sn_breath sn) ?s2 = (Inr (), ?s3)"
    by (simp add: note_divergence_def sbind_def run_simps whenever_def emit_hook_def fold_streams_def)
  ultimately have run: "reconstruct_from_disk env c s =
      (Inr \<lparr>rc_last_tick = lp_tick_counter ?s3 - 1, rc_disk_breath = sn_breath sn, rc_chain_breath = lp_breath ?s3,
         rc_cold_start = False\<rparr>, ?s3)"
    using calm load(1) snap(1)
    by (simp add: reconstruct_from_disk_def sbind_def sthen_def run_simps guard_res_def)
  show ?thesis
    by (rule that [OF run]) (use load in \<open>simp_all add: fold_streams_def\<close>)
qed

lemma saved_reopen:
  assumes env: "sound_env env" and life: "books env s True" "log_sound s True"
    and sv: "saved t b s" and exact: "\<And>sn. dk_snapshot (lp_disk s) = Some sn \<Longrightarrow> le_load_snapshot env sn = Inr sn" and calm: "\<not> lc_storm_enabled c"
    and chain: "le_read_breath env (pw_chain (lp_world s)) = Inr (lp_breath s)"
    and logged: "last_seen s = lp_tick_counter s - 1" "0 \<le> last_seen s"
  obtains x f where "reconstruct_from_disk env c (reopened c g en q s) = (Inr x, f)" "\<not> rc_cold_start x"
    "lp_weights f = lp_weights s" "lp_phase f = lp_phase s" "lp_desperate f = lp_desperate s"
    "lp_bankroll_usd f = b" "lp_breath f = lp_breath s" "lp_tick_counter f = lp_tick_counter s"
    "set (lp_open_bet_ids f) = set (lp_open_bet_ids s)" "lp_disk f = lp_disk s" "lp_world f = lp_world s" "lp_alive f"
proof -
  obtain sn where sn: "dk_snapshot (lp_disk s) = Some sn" "sn_weights sn = Some (lp_weights s)" "sn_phase sn = lp_phase s"
    "sn_desperate sn = lp_desperate s" "sn_bankroll_usd sn = b"
    using sv by (auto simp: saved_def)
  let ?f = "reopened c g en q s"
  have snap: "dk_snapshot (lp_disk ?f) = Some sn" and chain': "le_read_breath env (pw_chain (lp_world ?f)) = Inr (lp_breath s)"
    using sn(1) chain by simp_all
  have "valid_rows (pe_nv (le_poll env)) (minted env (lp_uuids s)) (ledger_of s)"
    using life(1) by (simp add: books_def ledger_ok_def)
  then have ids: "set (open_ids_from_rows (open_bets (ledger_of s))) = set (lp_open_bet_ids s)"
    using open_ids_of_ledger(1) life(1) by (simp add: books_def)
  from reconstruct_snapshot [OF snap exact [OF sn(1)] sn(2) calm chain'] obtain x f where f:
    "reconstruct_from_disk env c ?f = (Inr x, f)" "\<not> rc_cold_start x"
    "recovered f = (lp_weights s, sn_phase sn, sn_bankroll_usd sn, sn_desperate sn, lp_alive ?f)" "lp_breath f = lp_breath s"
    "lp_open_bet_ids f = open_ids_from_rows (open_bets (ledger_of ?f))"
    "0 \<le> last_seen ?f \<longrightarrow> lp_tick_counter f = last_seen ?f + 1" "lp_disk f = lp_disk ?f" "lp_world f = lp_world ?f" .
  show ?thesis by (rule that [OF f(1,2)]) (use f ids sn logged in simp_all)
qed

text \<open>The same over the state a survived tick leaves.\<close>

lemma reopen_after_tick:
  assumes env: "sound_env env" "le_tribute_policy env = None" "\<forall>sn. dk_snapshot (lp_disk s') = Some sn \<longrightarrow> le_load_snapshot env sn = Inr sn"
    and calm: "\<not> lc_storm_enabled c" and life: "loop_life env c s True"
    and run: "tick env c s = (Inr r, s')" "\<not> tr_died r"
  obtains x f ss where "reconstruct_from_disk env c (reopened c g en q s') = (Inr x, f)" "\<not> rc_cold_start x"
    "lp_weights f = lp_weights s'" "lp_phase f = lp_phase s'" "lp_desperate f = lp_desperate s'"
    "lp_breath f = lp_breath s'" "lp_tick_counter f = lp_tick_counter s'"
    "set (lp_open_bet_ids f) = set (lp_open_bet_ids s')" "lp_disk f = lp_disk s'" "lp_world f = lp_world s'" "lp_alive f"
    "lp_bankroll_usd s' = (if rent_due env c s then rent_paid c (booked s ss) else booked s ss)"
    "lp_bankroll_usd f = (if length (lp_pending s') = length (lp_pending s) then booked s ss else lp_bankroll_usd s')"
proof -
  have books: "books env s True" "books env s' True" and log: "log_sound s True" "log_sound s' True"
    using loop_life_books [OF env(1) life] wp_okD [OF keeps_booksD [OF tick_books [OF env(1)]] run(1)]
      loop_life_log_sound [OF life] log_sound_tick [OF _ run(1)] by simp_all
  have seen: "last_seen s' = lp_tick_counter s' - 1" "0 \<le> last_seen s'"
    using wp_okD [OF tick_log_grows run(1)] log(1) by (simp_all add: log_sound_def)
  have once: "settled_once (ledger_of s)" using books(1) by (simp add: books_def ledger_ok_def)
  from tick_money [OF env(1,2) once run] obtain ss where ss:
    "lp_bankroll_usd s' = (if rent_due env c s then rent_paid c (booked s ss) else booked s ss)"
    "saved (tr_tick r) (if length (lp_pending s') = length (lp_pending s) then booked s ss else lp_bankroll_usd s') s'" .
  have chain: "le_read_breath env (pw_chain (lp_world s')) = Inr (lp_breath s')"
    using survived_in_sync(1) [OF run] by (simp add: in_sync_def)
  have exact: "le_load_snapshot env sn = Inr sn" if "dk_snapshot (lp_disk s') = Some sn" for sn using env(3) that by blast
  from saved_reopen [OF env(1) books(2) log(2) ss(2) exact calm chain seen] obtain x f where f:
    "reconstruct_from_disk env c (reopened c g en q s') = (Inr x, f)" "\<not> rc_cold_start x"
    "lp_weights f = lp_weights s'" "lp_phase f = lp_phase s'" "lp_desperate f = lp_desperate s'"
    "lp_bankroll_usd f = (if length (lp_pending s') = length (lp_pending s) then booked s ss else lp_bankroll_usd s')"
    "lp_breath f = lp_breath s'" "lp_tick_counter f = lp_tick_counter s'"
    "set (lp_open_bet_ids f) = set (lp_open_bet_ids s')" "lp_disk f = lp_disk s'" "lp_world f = lp_world s'" "lp_alive f" .
  show ?thesis by (rule that [OF f(1,2)]) (fact f ss)+
qed

text \<open>A restart with the storm on refuses any durable state.\<close>

lemma stormy_reopen:
  assumes "lc_storm_enabled c" "durable_state (reopened c g en q s)"
  shows "reconstruct_from_disk env c (reopened c g en q s) = (Inl RuntimeError, reopened c g en q s)"
  using assms by (simp add: reconstruct_from_disk_def sbind_def run_simps guard_res_def)

lemma tick_leaves_snapshot:
  assumes "sound_env env" "le_tribute_policy env = None" "loop_life env c s True" "tick env c s = (Inr r, s')" "\<not> tr_died r"
  shows "durable_state (reopened c g en q s')"
proof -
  have "settled_once (ledger_of s)" using loop_life_books [OF assms(1,3)] by (simp add: books_def ledger_ok_def)
  from tick_money [OF assms(1,2) this assms(4,5)] obtain b where "saved (tr_tick r) b s'" by blast
  then show ?thesis by (auto simp: saved_def durable_state_def)
qed

text \<open>C10. A restart after a survived tick of a loop without an altar: with the storm model off, and when the snapshot
  on the disk reads back as it was written (one with a bankroll that is not finite does not), a fresh object over
  the same files and chain reconstructs the weights, the phase, desperate mode, the breath, the tick counter and the
  open bets the running process held, without writing anything, and the bankroll too unless the tick owed rent.
  With the storm model on the restart is refused and changes nothing.\<close>

theorem restart_roundtrip:
  assumes "sound_env env" "le_tribute_policy env = None" "\<forall>sn. dk_snapshot (lp_disk s') = Some sn \<longrightarrow> le_load_snapshot env sn = Inr sn"
    and "loop_life env c s True" "tick env c s = (Inr r, s')" "\<not> tr_died r"
  shows "(lc_storm_enabled c \<longrightarrow> reconstruct_from_disk env c (reopened c g en q s') = (Inl RuntimeError, reopened c g en q s')) \<and>
    (\<not> lc_storm_enabled c \<longrightarrow> (\<exists>x f. reconstruct_from_disk env c (reopened c g en q s') = (Inr x, f) \<and> \<not> rc_cold_start x \<and>
    (lp_weights f, lp_phase f, lp_desperate f) = (lp_weights s', lp_phase s', lp_desperate s') \<and>
    (lp_breath f, lp_tick_counter f, set (lp_open_bet_ids f)) =
      (lp_breath s', lp_tick_counter s', set (lp_open_bet_ids s')) \<and>
    (lp_disk f, lp_world f) = (lp_disk s', lp_world s') \<and>
    (\<not> rent_due env c s \<longrightarrow> lp_bankroll_usd f = lp_bankroll_usd s')))"
proof (intro conjI impI)
  assume "lc_storm_enabled c"
  then show "reconstruct_from_disk env c (reopened c g en q s') = (Inl RuntimeError, reopened c g en q s')"
    by (rule stormy_reopen [OF _ tick_leaves_snapshot [OF assms(1,2,4-6)]])
next
  assume calm: "\<not> lc_storm_enabled c"
  show "\<exists>x f. reconstruct_from_disk env c (reopened c g en q s') = (Inr x, f) \<and> \<not> rc_cold_start x \<and>
    (lp_weights f, lp_phase f, lp_desperate f) = (lp_weights s', lp_phase s', lp_desperate s') \<and>
    (lp_breath f, lp_tick_counter f, set (lp_open_bet_ids f)) =
      (lp_breath s', lp_tick_counter s', set (lp_open_bet_ids s')) \<and>
    (lp_disk f, lp_world f) = (lp_disk s', lp_world s') \<and>
    (\<not> rent_due env c s \<longrightarrow> lp_bankroll_usd f = lp_bankroll_usd s')"
    by (rule reopen_after_tick [OF assms(1-3) calm assms(4-6), of g en q], rule exI, rule exI, rule conjI, assumption) simp
qed

text \<open>A restart gives the rent back: when a survived tick owes rent it can pay and leaves the list of
  pending proposals as long as it was, the snapshot still holds the bankroll before the rent, so the
  process that starts over these files has the amount again that the running one had paid.\<close>

theorem restart_refunds_rent:
  assumes "sound_env env" "le_tribute_policy env = None" "\<forall>sn. dk_snapshot (lp_disk s') = Some sn \<longrightarrow> le_load_snapshot env sn = Inr sn"
    and "\<not> lc_storm_enabled c" "loop_life env c s True" "tick env c s = (Inr r, s')" "\<not> tr_died r"
    and "rent_due env c s" "length (lp_pending s') = length (lp_pending s)"
  shows "\<exists>x f. reconstruct_from_disk env c (reopened c g en q s') = (Inr x, f) \<and>
    lp_bankroll_usd s' = (if fle (lc_tithe_amount_usd c) (lp_bankroll_usd f)
      then fsub (lp_bankroll_usd f) (lc_tithe_amount_usd c) else lp_bankroll_usd f)"
  by (rule reopen_after_tick [OF assms(1-7), of g en q], rule exI, rule exI, rule conjI, assumption)
    (simp add: assms(8,9) rent_paid_def)

section \<open>Concrete restarts\<close>

theorem restart_roundtrip_witness:
  "case tick idle_env demo_loop_config idle_boot of
     (Inr r, s') \<Rightarrow> \<exists>x f. reconstruct_from_disk idle_env demo_loop_config
         (reopened demo_loop_config demo_guard \<lparr>rng_pos = 0, last_gate_diagnostics = None\<rparr> \<lparr>rn_pending = []\<rparr> s') = (Inr x, f) \<and>
       lp_tick_counter f = 1 \<and> lp_bankroll_usd f = lp_bankroll_usd s'
   | _ \<Rightarrow> False"
proof -
  obtain r s' where t: "tick idle_env demo_loop_config idle_boot = (Inr r, s')" "\<not> tr_died r"
    using idle_survives by (auto split: prod.splits sum.splits)
  have one: "lp_tick_counter (snd (tick idle_env demo_loop_config idle_boot)) = 1" by code_simp
  have "\<not> rent_due idle_env demo_loop_config idle_boot" by (simp add: rent_due_def demo_loop_config_def)
  moreover have "\<forall>sn. dk_snapshot (lp_disk s') = Some sn \<longrightarrow> le_load_snapshot idle_env sn = Inr sn" using idle_env_plain(2) by blast
  ultimately show ?thesis using restart_roundtrip [OF demo_sound(2) idle_env_plain(1) _ idle_life_boot t] idle_env_plain(3) one t(1)
    by fastforce
qed

text \<open>A market on every tick and rent on every tick.\<close>

definition rent_config :: loop_config where
  "rent_config = demo_loop_config\<lparr>lc_divine_tithe := True\<rparr>"

definition rent_boot :: "scalar_chain loop" where
  "rent_boot = snd (reconstruct_from_disk demo_loop_env rent_config
     (mk_loop rent_config demo_guard \<lparr>rng_pos = 0, last_gate_diagnostics = None\<rparr> \<lparr>rn_pending = []\<rparr> demo_disk demo_scalar_world))"

lemma rent_life: "loop_life demo_loop_env rent_config rent_boot True"
proof -
  have "returned (fst (reconstruct_from_disk demo_loop_env rent_config
     (mk_loop rent_config demo_guard \<lparr>rng_pos = 0, last_gate_diagnostics = None\<rparr> \<lparr>rn_pending = []\<rparr> demo_disk demo_scalar_world)))"
    by code_simp
  from returnedE [OF this] show ?thesis unfolding rent_boot_def
    by (elim exE) (rule loop_life.boot [OF first_birth], simp_all add: demo_disk_def demo_scalar_world_def)
qed

lemma rent_ticked:
  "case tick demo_loop_env rent_config rent_boot of
     (Inr r, s') \<Rightarrow> \<not> tr_died r \<and> lp_pending s' = [] \<and> lp_bankroll_usd s' = Fin 80 | _ \<Rightarrow> False"
  "lp_pending rent_boot = []" "rent_due demo_loop_env rent_config rent_boot"
  by code_simp+

theorem restart_refunds_rent_witness:
  "case tick demo_loop_env rent_config rent_boot of
     (Inr r, s') \<Rightarrow> lp_bankroll_usd s' = Fin 80 \<and> (\<exists>x f. reconstruct_from_disk demo_loop_env rent_config
         (reopened rent_config demo_guard \<lparr>rng_pos = 0, last_gate_diagnostics = None\<rparr> \<lparr>rn_pending = []\<rparr> s') = (Inr x, f) \<and>
       lp_bankroll_usd s' = (if fle (Fin 20) (lp_bankroll_usd f) then fsub (lp_bankroll_usd f) (Fin 20) else lp_bankroll_usd f))
   | _ \<Rightarrow> False"
proof -
  obtain r s' where t: "tick demo_loop_env rent_config rent_boot = (Inr r, s')" "\<not> tr_died r"
    "lp_pending s' = []" "lp_bankroll_usd s' = Fin 80"
    using rent_ticked(1) by (auto split: prod.splits sum.splits)
  have plain: "le_tribute_policy demo_loop_env = None" "\<forall>sn. le_load_snapshot demo_loop_env sn = Inr sn"
    "\<not> lc_storm_enabled rent_config" "lc_tithe_amount_usd rent_config = Fin 20"
    by (simp_all add: demo_loop_env_def demo_loop_config_def rent_config_def)
  have "length (lp_pending s') = length (lp_pending rent_boot)" using t(3) rent_ticked(2) by simp
  moreover have "\<forall>sn. dk_snapshot (lp_disk s') = Some sn \<longrightarrow> le_load_snapshot demo_loop_env sn = Inr sn" using plain(2) by blast
  ultimately show ?thesis
    using restart_refunds_rent [OF demo_sound(1) plain(1) _ plain(3) rent_life t(1,2) rent_ticked(3)] t(1,4) plain(4) by fastforce
qed

end
