(* ===== verification/LoopAltar.thy ===== *)
theory LoopAltar
  imports LoopRestart
begin

text \<open>The bargain with death over a whole death step: the offer, the price, one roll, and what follows.\<close>

lemma valid_offer_sound:
  assumes "valid_offer r bank = Inr (Some x)" "bank \<noteq> NaN"
  shows "isfinite x" "fle TRIBUTE_MIN_USD x" "fle x bank" "\<exists>p. tribute_success_probability x = Inr p \<and> fle P_FLOOR p"
proof -
  show x: "isfinite x" "fle TRIBUTE_MIN_USD x" "fle x bank"
  proof -
    have y: "isfinite x" "\<not> flt x TRIBUTE_MIN_USD" "\<not> flt bank x"
      using assms by (auto simp: valid_offer_def rbind_eq_Inr split: sum.splits offer.splits option.splits if_splits)
    then have "x \<noteq> NaN" by auto
    then show "isfinite x" "fle TRIBUTE_MIN_USD x" "fle x bank" using y assms(2) by (simp_all add: not_flt TRIBUTE_MIN_USD_def)
  qed
  then show "\<exists>p. tribute_success_probability x = Inr p \<and> fle P_FLOOR p"
    using tribute_price_mono [of "Fin 500" x] tribute_price_samples(1)
    by (cases x) (auto simp: tribute_success_eq TRIBUTE_MIN_USD_def not_flt)
qed

text \<open>What the altar answers, before the tombstone.\<close>

lemma altar_answer:
  assumes "attempt_tribute env c policy now t s = (Inr granted, s')"
    and "valid_offer (policy t (lp_breath s) (lp_bankroll_usd s)) (lp_bankroll_usd s) = Inr (Some x)"
    and "tribute_success_probability x = Inr p"
  shows "granted = flt (le_dice env (lp_rolls s)) p" "lp_rolls s' = Suc (lp_rolls s)"
    "lp_bankroll_usd s' = fsub (lp_bankroll_usd s) x" "granted \<Longrightarrow> saved t (fsub (lp_bankroll_usd s) x) s'"
proof -
  have grant: "leaves (\<lambda>s. (lp_rolls s, lp_bankroll_usd s)) (grant_breath env c now t)"
    unfolding grant_breath_def by (intro leaves_intros) simp_all
  let ?s = "s\<lparr>lp_bankroll_usd := fsub (lp_bankroll_usd s) x, lp_rolls := Suc (lp_rolls s)\<rparr>"
  let ?roll = "le_dice env (lp_rolls s)"
  obtain g s1 where w: "whenever (flt ?roll p) (grant_breath env c now t) ?s = (g, s1)" by (metis prod.exhaust)
  have run: "attempt_tribute env c policy now t s = (case g of Inl e \<Rightarrow> (Inl e, s1)
      | Inr u \<Rightarrow> (Inr (flt ?roll p), s1\<lparr>lp_hooks := lp_hooks s1 @
           [TributeHook t x (flt ?roll p) (lp_breath s1) (lp_bankroll_usd s1) ?roll]\<rparr>))"
    using w by (cases g) (simp_all add: attempt_tribute_def sbind_def sthen_def run_simps roll_dice_def emit_hook_def assms(2,3))
  have s1: "g = Inr ()" "granted = flt ?roll p" "lp_rolls s' = lp_rolls s1" "lp_bankroll_usd s' = lp_bankroll_usd s1"
    "lp_disk s' = lp_disk s1" "saved t b s' = saved t b s1" for b
    using run assms(1) by (cases g; auto simp: saved_def)+
  show "granted = flt ?roll p" by (rule s1(2))
  show money: "lp_rolls s' = Suc (lp_rolls s)" "lp_bankroll_usd s' = fsub (lp_bankroll_usd s) x"
    using leavesD [OF leaves_whenever [OF grant] w] s1(3,4) by simp_all
  assume "granted"
  then have "grant_breath env c now t ?s = (Inr (), s1)" using w s1(1,2) by (simp add: whenever_ok)
  then obtain s2 where "write_snapshot env c now t s2 = (Inr (), s1)"
    by (auto simp: grant_breath_def ok_simps)
  from write_snapshot_saves [OF this] show "saved t (fsub (lp_bankroll_usd s) x) s'"
    using s1(4,6) money(2) by simp
qed

lemma death_step_altar:
  assumes "fle (lp_breath s) fzero" "le_tribute_policy env = Some policy" "death_step env c now t s = (Inr died, s')"
  obtains granted s1 where "attempt_tribute env c policy now t s = (Inr granted, s1)"
    "granted \<longrightarrow> \<not> died \<and> s' = s1" "\<not> granted \<longrightarrow> died \<and> (\<exists>rec. die env c t s1 = (Inr rec, s'))"
proof -
  obtain granted s1 where g: "attempt_tribute env c policy now t s = (Inr granted, s1)"
    "(if granted then ret False else sbind (die env c t) (\<lambda>_. ret True)) s1 = (Inr died, s')"
    using assms by (auto simp: death_step_def ok_simps simp del: if_split_asm)
  show ?thesis by (rule that [OF g(1)]) (use g(2) in \<open>auto simp: ok_simps split: if_splits\<close>)
qed

text \<open>C8. The bargain with death: a loop whose breath is spent asks the policy once.  An offer that is not a
  finite amount of at least 500 dollars within the bankroll is silence and the loop dies without a roll.
  A valid one is taken from the bankroll win or lose, costs exactly one roll of the dice, and the loop
  lives on if and only if the roll is below the price of the offer; then its snapshot already holds the
  bankroll after the offering, so a restart refunds nothing.  A loop with breath is not touched.\<close>

theorem bargain_with_death:
  assumes "le_tribute_policy env = Some policy" "lp_bankroll_usd s \<noteq> NaN" "death_step env c now t s = (Inr died, s')"
  shows "if \<not> fle (lp_breath s) fzero then \<not> died \<and> s' = s
    else (case valid_offer (policy t (lp_breath s) (lp_bankroll_usd s)) (lp_bankroll_usd s) of
        Inl e \<Rightarrow> False
      | Inr None \<Rightarrow> died \<and> (\<exists>rec. die env c t s = (Inr rec, s'))
      | Inr (Some x) \<Rightarrow> isfinite x \<and> fle TRIBUTE_MIN_USD x \<and> fle x (lp_bankroll_usd s) \<and>
          (\<exists>p. tribute_success_probability x = Inr p \<and> fle P_FLOOR p \<and>
            died = (\<not> flt (le_dice env (lp_rolls s)) p) \<and>
            (if died
             then \<exists>s1 rec. die env c t s1 = (Inr rec, s') \<and> lp_bankroll_usd s1 = fsub (lp_bankroll_usd s) x \<and>
                    lp_rolls s1 = Suc (lp_rolls s)
             else lp_bankroll_usd s' = fsub (lp_bankroll_usd s) x \<and> lp_rolls s' = Suc (lp_rolls s) \<and>
                    (\<exists>sn. dk_snapshot (lp_disk s') = Some sn \<and> sn_bankroll_usd sn = lp_bankroll_usd s'))))"
proof (cases "fle (lp_breath s) fzero")
  case False
  then show ?thesis using assms(3) by (auto simp: death_step_def ok_simps)
next
  case spent: True
  let ?offer = "valid_offer (policy t (lp_breath s) (lp_bankroll_usd s)) (lp_bankroll_usd s)"
  obtain granted s1 where altar: "attempt_tribute env c policy now t s = (Inr granted, s1)"
    and rest: "granted \<longrightarrow> \<not> died \<and> s' = s1" "\<not> granted \<longrightarrow> died \<and> (\<exists>rec. die env c t s1 = (Inr rec, s'))"
    using spent assms(1,3) by (rule death_step_altar)
  obtain off where off: "?offer = Inr off"
    using altar unfolding attempt_tribute_def by (cases ?offer) (simp_all add: sbind_def run_simps)
  show ?thesis
  proof (cases off)
    case None
    then have "\<not> granted" "s1 = s" using altar off by (simp_all add: attempt_tribute_def sbind_def run_simps)
    then show ?thesis using rest(2) off None spent by simp
  next
    case (Some x)
    note offer = valid_offer_sound [OF off [unfolded Some] assms(2)]
    then obtain p where p: "tribute_success_probability x = Inr p" "fle P_FLOOR p" by blast
    note answer = altar_answer [OF altar off [unfolded Some] p(1)]
    show ?thesis
    proof (cases granted)
      case True
      then have "\<exists>sn. dk_snapshot (lp_disk s1) = Some sn \<and> sn_bankroll_usd sn = lp_bankroll_usd s1"
        using answer(3) answer(4) by (auto simp: saved_def)
      then show ?thesis using rest(1) answer(1-3) offer(1-3) p True off Some spent by simp
    next
      case False
      then obtain rec where "died" "die env c t s1 = (Inr rec, s')" using rest(2) by blast
      then show ?thesis using answer(1-3) offer(1-3) p False off Some spent by auto
    qed
  qed
qed

text \<open>A deathbed with money, the reflex policy and a lucky roll.\<close>

definition altar_env :: "scalar_chain loop_env" where
  "altar_env = idle_env\<lparr>le_tribute_policy := Some (\<lambda>t b k. Inr (case reflex_on_dying t b k of
      None \<Rightarrow> NotANumber | Some x \<Rightarrow> OfferFloat x))\<rparr>"

definition deathbed :: "scalar_chain loop" where
  "deathbed = doomed_loop\<lparr>lp_breath := fzero, lp_bankroll_usd := Fin 2500\<rparr>"

lemma deathbed_offer:
  "valid_offer (Inr (OfferFloat (Fin 2000))) (Fin 2500) = Inr (Some (Fin 2000))"
  "reflex_on_dying 0 b (Fin 2500) = Some (Fin 2000)" "tribute_success_probability (Fin 2000) = Inr P_CAP"
  by (simp_all add: valid_offer_def rbind_def reflex_on_dying_def TRIBUTE_MIN_USD_def TRIBUTE_FULL_USD_def fmin_def
      tribute_success_eq tribute_price_samples(2))

lemma lucky: "flt (Fin (1 / 10)) P_CAP"
  by code_simp

lemma deathbed_money: "fsub (Fin 2500) (Fin 2000) = Fin 500"
  by code_simp

lemma deathbed_simps:
  "le_tribute_policy altar_env = Some (\<lambda>t b k. Inr (case reflex_on_dying t b k of None \<Rightarrow> NotANumber | Some x \<Rightarrow> OfferFloat x))"
  "le_dice altar_env n = Fin (1 / 10)" "lp_breath deathbed = fzero" "lp_bankroll_usd deathbed = Fin 2500" "lp_rolls deathbed = 0"
  "le_read_breath altar_env = scalar_read" "le_nv altar_env = False" "lc_incarnation demo_loop_config = 0"
  by (simp_all add: altar_env_def idle_env_def demo_loop_env_def deathbed_def doomed_loop_def mk_loop_def demo_loop_config_def)

lemma push_altar: "wp (chain_push altar_env p) Q E s =
    Q () (s\<lparr>lp_world := (lp_world s)\<lparr>pw_chain := snd (scalar_update p (pw_chain (lp_world s)))\<rparr>\<rparr>)"
  by (simp add: chain_push_def altar_env_def idle_env_def demo_loop_env_def wp_def scalar_update_def)

lemma roll_wp: "wp (roll_dice env) Q E s = Q (le_dice env (lp_rolls s)) (s\<lparr>lp_rolls := Suc (lp_rolls s)\<rparr>)"
  by (simp add: roll_dice_def wp_def)

lemma deathbed_step: "wp (death_step altar_env demo_loop_config 0 0) (\<lambda>_ _. True) (\<lambda>_ _. False) deathbed"
proof -
  have "pyd_ge nv fzero (fmax fzero x)" for nv x by (cases x) (auto simp: pyd_ge_def fmax_def isnan_def)
  then show ?thesis
    by (simp add: death_step_def attempt_tribute_def wp_simps push_altar roll_wp emit_hook_def deathbed_simps
      deathbed_offer lucky deathbed_money grant_breath_def chain_breath_def refresh_breath_def
      scalar_read_def write_snapshot_def mk_snapshot_def put_snapshot_def snapshot_of_def scalar_update_def)
qed

theorem bargain_with_death_witness:
  "case death_step altar_env demo_loop_config 0 0 deathbed of
     (Inr died, s') \<Rightarrow> \<not> died \<and> lp_bankroll_usd s' = Fin 500 \<and> lp_rolls s' = 1 | _ \<Rightarrow> False"
proof -
  obtain died s' where d: "death_step altar_env demo_loop_config 0 0 deathbed = (Inr died, s')"
    using deathbed_step by (auto simp: wp_def split: prod.splits sum.splits)
  have "lp_bankroll_usd deathbed \<noteq> NaN" by (simp add: deathbed_simps)
  from bargain_with_death [OF deathbed_simps(1) this d] show ?thesis
    using d lucky deathbed_money by (simp add: deathbed_simps deathbed_offer)
qed

end
