(* ===== verification/LoopSession.thy ===== *)
theory LoopSession
  imports LoopRun
begin

text \<open>
  A call of \<open>run\<close> is a piece of a life, and a run that reports a death ended in a tick that died.
\<close>

section \<open>Ticks and the flag of life\<close>

lemma tick_died_entombed:
  assumes "tick env c s = (Inr r, s')" "tr_died r"
  shows "\<exists>t\<ge>0. entombed c t s'" "lp_open_bet_ids s' = []"
proof -
  obtain now inputs a s5 died s6 where
    death: "death_step env c now (lp_tick_counter s) s5 = (Inr died, s6)"
    and rest: "whenever (\<not> died) (living_steps env c now (lp_tick_counter s) inputs a) s6 = (Inr (), s')"
      "tr_died r = died"
    using assms(1) by (auto elim!: tick_okE)
  then obtain s7 rec where "die env c (lp_tick_counter s) s7 = (Inr rec, s')"
    using assms(2) by (auto simp: whenever_ok elim!: death_step_died)
  moreover have "0 \<le> lp_tick_counter s" using wp_okD [OF tick_log_grows assms(1)] by simp
  ultimately show "\<exists>t\<ge>0. entombed c t s'" "lp_open_bet_ids s' = []" using die_final by blast+
qed

lemma death_step_alive:
  assumes "death_step env c now t s = (Inr False, s')" shows "lp_alive s' = lp_alive s"
proof -
  have "leaves lp_alive (attempt_tribute env c policy now t)" for policy by (rule leaves_attempt_tribute; simp)
  then show ?thesis using assms
    by (auto simp: death_step_def ok_simps dest: leavesD split: if_splits option.splits)
qed

lemma tick_survived_alive:
  assumes "tick env c s = (Inr r, s')" "\<not> tr_died r" shows "lp_alive s' = lp_alive s"
proof -
  obtain now p s1 inputs a oid s2 s3 s4 s5 died s6 where st:
    "settle_steps env c now (lp_tick_counter s) (s\<lparr>lp_clocks := Suc (lp_clocks s)\<rparr>) = (Inr p, s1)"
    "decision_steps env c now (lp_tick_counter s) s1 = (Inr (inputs, a, oid), s2)"
    "record_step env c now (lp_tick_counter s) inputs a oid s2 = (Inr (), s3)"
    "write_snapshot env c now (lp_tick_counter s) (s3\<lparr>lp_tick_counter := lp_tick_counter s + 1\<rparr>) = (Inr (), s4)"
    "tithe_step env c (lp_tick_counter s) inputs s4 = (Inr (), s5)"
    "death_step env c now (lp_tick_counter s) s5 = (Inr died, s6)"
    "whenever (\<not> died) (living_steps env c now (lp_tick_counter s) inputs a) s6 = (Inr (), s')"
    and r: "tr_died r = died"
    using assms(1) by (auto elim!: tick_okE)
  have frames: "leaves lp_alive (settle_steps env c now t)" "leaves lp_alive (decision_steps env c now t)"
    "leaves lp_alive (record_step env c now t i a' oid')" "leaves lp_alive (write_snapshot env c now t)"
    "leaves lp_alive (tithe_step env c t i)" "leaves lp_alive (living_steps env c now t i a')" for t i a' oid'
    by (rule leaves_settle_steps leaves_decision_steps leaves_record_step leaves_write_snapshot leaves_tithe_step
        leaves_living_steps; simp)+
  have "lp_alive s5 = lp_alive s"
    using leavesD [OF frames(1) st(1)] leavesD [OF frames(2) st(2)] leavesD [OF frames(3) st(3)]
      leavesD [OF frames(4) st(4)] leavesD [OF frames(5) st(5)] by simp
  moreover have "lp_alive s6 = lp_alive s5" using death_step_alive [of env c now _ s5 s6] st(6) r assms(2) by simp
  moreover have "lp_alive s' = lp_alive s6" using leavesD [OF leaves_whenever [OF frames(6)] st(7)] .
  ultimately show ?thesis by simp
qed

section \<open>Runs\<close>

text \<open>How a run may leave the loop: in a life, and entombed when it reports a death.\<close>

definition left_by_run :: "'c loop_env \<Rightarrow> loop_config \<Rightarrow> run_summary res \<times> 'c loop \<Rightarrow> bool" where
  "left_by_run env c y = (case y of
       (Inl e, s) \<Rightarrow> loop_life env c s False
     | (Inr sm, s) \<Rightarrow> loop_life env c s True \<and> (rs_died sm \<longrightarrow> lp_open_bet_ids s = [] \<and> (\<exists>t\<ge>0. entombed c t s)))"

lemma run_loop_life:
  assumes "run_loop env c until_ts max_ticks n bets no_bets settled s = Some y"
  shows "loop_life env c s True \<and> lp_alive s \<longrightarrow> left_by_run env c y"
proof (rule run_loop.raw_induct [where P = "\<lambda>env c u m n b nb st s y. loop_life env c s True \<and> lp_alive s \<longrightarrow>
    left_by_run env c y"], goal_cases)
  case (1 self env c until_ts max_ticks n bets no_bets settled s y)
  let ?s = "s\<lparr>lp_clocks := Suc (lp_clocks s)\<rparr>"
  show ?case
  proof
    assume "loop_life env c s True \<and> lp_alive s"
    then have life: "loop_life env c s True" and alive: "lp_alive s" by simp_all
    have wait: "loop_life env c ?s True"
      using loop_life.waits [OF life, where i = "Suc (lp_clocks s)" and p = "lp_force_pending s" and hs = "lp_hooks s"] by simp
    obtain r s1 where t: "tick env c ?s = (r, s1)" by (metis prod.exhaust)
    have after: "loop_life env c s1 (case r of Inl _ \<Rightarrow> False | Inr _ \<Rightarrow> True)"
      using wait t loop_life.ticks loop_life.tick_fails by (cases r) fastforce+
    have alive1: "lp_alive s1" if "r = Inr x" "\<not> tr_died x" for x
      using tick_survived_alive t that alive by fastforce
    have died: "lp_open_bet_ids s1 = []" "\<exists>t\<ge>0. entombed c t s1" if "r = Inr x" "tr_died x" for x
      using tick_died_entombed t that by blast+
    have rest: "self env c until_ts max_ticks n' bets' no_bets' settled' s1 = Some y \<Longrightarrow> loop_life env c s1 True \<Longrightarrow> lp_alive s1 \<Longrightarrow>
        left_by_run env c y" for n' bets' no_bets' settled'
      using 1(1) by blast
    show "left_by_run env c y"
    proof (cases "\<exists>x. r = Inr x \<and> \<not> tr_died x \<and> lp_alive s \<and>
        \<not> (case until_ts of None \<Rightarrow> False | Some d \<Rightarrow> d \<le> le_clock env (lp_clocks s)) \<and>
        \<not> (case max_ticks of None \<Rightarrow> False | Some m \<Rightarrow> m \<le> n)")
      case True
      then show ?thesis using 1(2) t after alive1 by (auto simp: Let_def intro: rest)
    next
      case False
      then show ?thesis using 1(2) life alive wait t after died
        by (auto simp: left_by_run_def Let_def summary_of_def split: if_splits sum.splits)
    qed
  qed
qed (rule assms)

lemma run_life:
  assumes "run env c until_ts max_ticks s = Some y" "loop_life env c s False" "lp_alive s"
  shows "left_by_run env c y"
proof -
  let ?s = "if lc_force_terminal c
            then s\<lparr>lp_force_pending := True, lp_hooks := lp_hooks s @ [ForceTerminalArmed (lp_breath s)]\<rparr> else s"
  have start: "loop_life env c ?s False" "lp_alive ?s"
    using assms(2,3) loop_life.waits [OF assms(2), where i = "lp_clocks s" and p = True
      and hs = "lp_hooks s @ [ForceTerminalArmed (lp_breath s)]"] by simp_all
  obtain r s1 where boot: "reconstruct_from_disk env c ?s = (r, s1)" by (metis prod.exhaust)
  have "leaves lp_alive (reconstruct_from_disk env c)"
    unfolding reconstruct_from_disk_def load_step_def by (intro leaves_intros; simp add: fold_streams_def)
  from leavesD [OF this boot] start(2) have alive: "lp_alive s1" by simp
  have run: "run env c until_ts max_ticks s = (case r of Inl e \<Rightarrow> Some (Inl e, s1)
      | Inr x \<Rightarrow> run_loop env c until_ts max_ticks 0 0 0 0 s1)"
    using assms(3) boot by (simp add: run_def Let_def split: sum.split)
  show ?thesis
  proof (cases r)
    case (Inl e)
    then have "y = (Inl e, s1)" "loop_life env c s1 False"
      using run assms(1) loop_life.boot_fails [OF start(1)] boot by simp_all
    then show ?thesis by (simp add: left_by_run_def)
  next
    case (Inr x)
    then have "run_loop env c until_ts max_ticks 0 0 0 0 s1 = Some y" "loop_life env c s1 True"
      using run assms(1) loop_life.boot [OF start(1)] boot by simp_all
    then show ?thesis using run_loop_life alive by blast
  qed
qed

end
