(* ===== verification/Supervisor.thy ===== *)
theory Supervisor
  imports LoopSession LoopRestart
begin

text \<open>
  The supervisor of \<open>runtime/incarnation_supervisor.py\<close>: it runs one life of the loop after the other
  over one directory, carrying the weights, and leaves a manifest for a restart of the server.
\<close>

section \<open>The directory\<close>

record manifest =
  im_run_id :: string
  im_current_incarnation_idx :: nat
  im_carry_weights_hash :: string
  im_max_incarnations :: nat

datatype stream = OPEN_BETS | SETTLED_BETS | DECISIONS | REFLECTIONS | PROPOSALS | SNAPSHOT

text \<open>
  What outlives a life: the files, the manifest (absent also when it cannot be parsed), the queue of
  approvals and the service side of the world, the hooks of all lives (the divine streams are written
  from them), and how many chain adapters were built.
\<close>

record 'c lineage =
  ln_disk :: disk
  ln_world :: "'c poll_world"
  ln_manifest :: "manifest option"
  ln_queue :: agent_runner
  ln_hooks :: "loop_hook list"
  ln_adapters :: nat
  ln_clocks :: nat
  ln_rolls :: nat
  ln_uuids :: nat

text \<open>What a build of an incarnation chooses: the configuration, the guard, the engine and the marker rows
  it appends to the decision stream.\<close>

record incarnation =
  in_config :: loop_config
  in_guard :: cost_guard
  in_engine :: engine_state
  in_boot_rows :: "json option list"

record 'c supervisor =
  sv_env :: "'c loop_env"
  sv_build_incarnation :: "nat \<Rightarrow> weights option \<Rightarrow> incarnation res"
  sv_build_chain_adapter :: "nat \<Rightarrow> 'c res"
  sv_unlink_fails :: "stream \<Rightarrow> bool"
  sv_max_incarnations :: nat
  sv_run_id :: string

definition DEFAULT_MAX_INCARNATIONS :: nat where "DEFAULT_MAX_INCARNATIONS = 10"

definition mk_supervisor ::
  "'c loop_env \<Rightarrow> (nat \<Rightarrow> weights option \<Rightarrow> incarnation res) \<Rightarrow> (nat \<Rightarrow> 'c res) \<Rightarrow> (stream \<Rightarrow> bool) \<Rightarrow> int option \<Rightarrow>
   string option \<Rightarrow> 'c supervisor" where
  "mk_supervisor env build adapter fails max_incarnations run_id =
     \<lparr>sv_env = env, sv_build_incarnation = build, sv_build_chain_adapter = adapter, sv_unlink_fails = fails,
      sv_max_incarnations = (case max_incarnations of None \<Rightarrow> DEFAULT_MAX_INCARNATIONS | Some m \<Rightarrow> nat (max 1 m)),
      sv_run_id = (case run_id of None \<Rightarrow> ''live'' | Some r \<Rightarrow> r)\<rparr>"

section \<open>Operations\<close>

definition weights_hash :: "'c loop_env \<Rightarrow> weights option \<Rightarrow> string" where
  "weights_hash env w = (case w of None \<Rightarrow> ''0x0'' | Some x \<Rightarrow> le_weights_hash env x)"

definition read_snapshot_weights :: "'c loop_env \<Rightarrow> 'c lineage \<Rightarrow> weights option" where
  "read_snapshot_weights env l = (case dk_snapshot (ln_disk l) of
       None \<Rightarrow> None
     | Some raw \<Rightarrow> (case le_load_snapshot env raw of Inl e \<Rightarrow> None | Inr sn \<Rightarrow> sn_weights sn))"

text \<open>A stream that cannot be unlinked is left as it is, with a warning.\<close>

definition reset_per_life_streams :: "(stream \<Rightarrow> bool) \<Rightarrow> 'c lineage \<Rightarrow> 'c lineage" where
  "reset_per_life_streams fails l =
     (let d = ln_disk l; b = pw_ledger (ln_world l) in
      l\<lparr>ln_disk := \<lparr>dk_snapshot = (if fails SNAPSHOT then dk_snapshot d else None),
                    dk_decisions = (if fails DECISIONS then dk_decisions d else []),
                    dk_proposals = (if fails PROPOSALS then dk_proposals d else []),
                    dk_reflections = (if fails REFLECTIONS then dk_reflections d else [])\<rparr>,
        ln_world := (ln_world l)\<lparr>pw_ledger := \<lparr>open_bets = (if fails OPEN_BETS then open_bets b else []),
                    settled_bets = (if fails SETTLED_BETS then settled_bets b else [])\<rparr>\<rparr>\<rparr>)"

text \<open>The loop object of one incarnation, over the files and a new chain.\<close>

definition incarnate :: "incarnation \<Rightarrow> 'c \<Rightarrow> 'c lineage \<Rightarrow> 'c loop" where
  "incarnate inc ch l =
     (mk_loop (in_config inc) (in_guard inc) (in_engine inc) (ln_queue l)
        ((ln_disk l)\<lparr>dk_decisions := dk_decisions (ln_disk l) @ in_boot_rows inc\<rparr>) ((ln_world l)\<lparr>pw_chain := ch\<rparr>))
      \<lparr>lp_clocks := ln_clocks l, lp_rolls := ln_rolls l, lp_uuids := ln_uuids l\<rparr>"

definition write_manifest :: "'c supervisor \<Rightarrow> nat \<Rightarrow> weights option \<Rightarrow> 'c lineage \<Rightarrow> 'c lineage" where
  "write_manifest sv idx carry l =
     l\<lparr>ln_manifest := Some \<lparr>im_run_id = sv_run_id sv, im_current_incarnation_idx = idx,
         im_carry_weights_hash = weights_hash (sv_env sv) carry, im_max_incarnations = sv_max_incarnations sv\<rparr>\<rparr>"

text \<open>What a life leaves to the lineage.\<close>

definition bequeath :: "'c loop \<Rightarrow> 'c lineage \<Rightarrow> 'c lineage" where
  "bequeath s l = l\<lparr>ln_disk := lp_disk s, ln_world := lp_world s, ln_queue := lp_queue s,
     ln_hooks := ln_hooks l @ lp_hooks s, ln_clocks := lp_clocks s, ln_rolls := lp_rolls s, ln_uuids := lp_uuids s\<rparr>"

text \<open>One turn of the loop of \<open>run\<close>: reset, new adapter, new incarnation, manifest, life.  \<open>None\<close>: the
  life does not end.\<close>

definition live :: "'c supervisor \<Rightarrow> nat \<Rightarrow> weights option \<Rightarrow> 'c lineage \<Rightarrow> ((run_summary \<times> weights) res \<times> 'c lineage) option" where
  "live sv idx carry l =
     (let l1 = reset_per_life_streams (sv_unlink_fails sv) l in
      case sv_build_chain_adapter sv (ln_adapters l1) of
        Inl e \<Rightarrow> Some (Inl e, l1)
      | Inr ch \<Rightarrow>
          let l2 = l1\<lparr>ln_adapters := Suc (ln_adapters l1)\<rparr> in
          (case sv_build_incarnation sv idx carry of
             Inl e \<Rightarrow> Some (Inl e, l2)
           | Inr inc \<Rightarrow>
               let l3 = write_manifest sv idx carry l2 in
               (case run (sv_env sv) (in_config inc) None None (incarnate inc ch l2) of
                  None \<Rightarrow> None
                | Some (Inl e, s) \<Rightarrow> Some (Inl e, bequeath s l3)
                | Some (Inr sm, s) \<Rightarrow> Some (Inr (sm, lp_weights s), bequeath s l3))))"

definition no_life :: run_summary where
  "no_life = \<lparr>ticks_completed = 0, bets_placed = 0, no_bets_emitted = 0, settlements_processed = 0,
     rs_died = False, rs_receipt = None, final_breath = fzero, final_bankroll_usd = fzero\<rparr>"

function supervise ::
  "'c supervisor \<Rightarrow> nat \<Rightarrow> weights option \<Rightarrow> run_summary \<Rightarrow> 'c lineage \<Rightarrow> (run_summary res \<times> 'c lineage) option" where
  "supervise sv idx carry prev l =
     (if idx < sv_max_incarnations sv
      then (case live sv idx carry l of
              None \<Rightarrow> None
            | Some (Inl e, l1) \<Rightarrow> Some (Inl e, l1)
            | Some (Inr (sm, w), l1) \<Rightarrow>
                if \<not> rs_died sm then Some (Inr sm, l1) else supervise sv (Suc idx) (Some w) sm l1)
      else Some (Inr prev, l))"
  by pat_completeness auto
termination by (relation "measure (\<lambda>(sv, idx, _). sv_max_incarnations sv - idx)") auto

declare supervise.simps [simp del]

definition start_idx :: "'c lineage \<Rightarrow> nat" where
  "start_idx l = (case ln_manifest l of None \<Rightarrow> 0 | Some m \<Rightarrow> im_current_incarnation_idx m)"

definition start_weights :: "'c loop_env \<Rightarrow> 'c lineage \<Rightarrow> weights option" where
  "start_weights env l = (if ln_manifest l = None then None else read_snapshot_weights env l)"

definition run_supervisor :: "'c supervisor \<Rightarrow> 'c lineage \<Rightarrow> (run_summary res \<times> 'c lineage) option" where
  "run_supervisor sv l = supervise sv (start_idx l) (start_weights (sv_env sv) l) no_life l"

section \<open>The builder of the server\<close>

text \<open>What the server fixes once; the remaining constructor arguments keep the values of \<open>sb_base\<close>.\<close>

record server_build =
  sb_base :: loop_config
  sb_guard :: cost_guard
  sb_engine :: engine_state
  sb_divine_economy :: bool
  sb_sandbox_live :: bool
  sb_populate_window :: bool
  sb_staged :: "weights option"
  sb_default_weights :: weights
  sb_now :: string

definition SANDBOX_COLD_START_BREATH_USD :: pyfloat where "SANDBOX_COLD_START_BREATH_USD = Fin 100"

definition LOOP_BOOT_MARKER_LOOP_NAME :: string where "LOOP_BOOT_MARKER_LOOP_NAME = ''sandbox_phase2_real''"

definition loop_boot_row :: "string \<Rightarrow> string \<Rightarrow> json option" where
  "loop_boot_row ts name = Some (JDict [(''kind'', JStr ''loop_boot''), (''loop'', JStr name), (''ts'', JStr ts)])"

definition build_one_incarnation :: "server_build \<Rightarrow> nat \<Rightarrow> weights option \<Rightarrow> incarnation res" where
  "build_one_incarnation b idx initial_weights =
     (let promoted = (case initial_weights of None \<Rightarrow> sb_staged b | Some w \<Rightarrow> Some w) in
      Inr \<lparr>in_config = (sb_base b)\<lparr>lc_divine_tithe := sb_divine_economy b, lc_record_living := sb_divine_economy b,
             lc_incarnation := int idx, lc_initial_phase := PHASE_2_APPRENTICE,
             lc_initial_weights := (case promoted of None \<Rightarrow> sb_default_weights b | Some w \<Rightarrow> w),
             lc_initial_breath := SANDBOX_COLD_START_BREATH_USD,
             lc_initial_bankroll_usd := SANDBOX_COLD_START_BREATH_USD,
             lc_populate_window := sb_populate_window b, lc_storm_enabled := False,
             lc_poll := (lc_poll (sb_base b))\<lparr>side_correct_pricing := sb_sandbox_live b, require_cost_fields := sb_sandbox_live b\<rparr>\<rparr>,
           in_guard = sb_guard b, in_engine = sb_engine b,
           in_boot_rows = [loop_boot_row (sb_now b) LOOP_BOOT_MARKER_LOOP_NAME]\<rparr>)"

section \<open>What the supervisor asks of a builder\<close>

locale incarnation_builder =
  fixes build :: "nat \<Rightarrow> weights option \<Rightarrow> incarnation res"
  assumes carries: "build i (Some w) = Inr inc \<Longrightarrow> lc_initial_weights (in_config inc) = w"
    and numbered: "build i c = Inr inc \<Longrightarrow> lc_incarnation (in_config inc) = int i"
    and calm: "build i c = Inr inc \<Longrightarrow> \<not> lc_storm_enabled (in_config inc)"
    and unticked: "build i c = Inr inc \<Longrightarrow>
      logged_ticks (in_boot_rows inc) = [] \<and> last_tick_seen (in_boot_rows inc) = - 1"
begin

lemma born:
  assumes "build i c = Inr inc"
  shows "loop_life env (in_config inc) (incarnate inc ch (reset_per_life_streams (\<lambda>_. False) l)) False"
    "lp_alive (incarnate inc ch (reset_per_life_streams (\<lambda>_. False) l))"
proof -
  let ?l = "reset_per_life_streams (\<lambda>_. False) l"
  show "loop_life env (in_config inc) (incarnate inc ch ?l) False"
    unfolding incarnate_def
    by (rule loop_life.birth) (use unticked [OF assms] in \<open>simp_all add: reset_per_life_streams_def Let_def\<close>)
  show "lp_alive (incarnate inc ch ?l)" by (simp add: incarnate_def mk_loop_def)
qed

lemma cold_start:
  assumes inc: "build i c = Inr inc" and chain: "le_read_breath env ch = Inr b"
  obtains x s where "reconstruct_from_disk env (in_config inc) (incarnate inc ch (reset_per_life_streams (\<lambda>_. False) l)) = (Inr x, s)"
    "rc_cold_start x" "lp_weights s = lc_initial_weights (in_config inc)"
    "lp_phase s = lc_initial_phase (in_config inc)" "lp_bankroll_usd s = lc_initial_bankroll_usd (in_config inc)"
    "\<not> lp_desperate s" "lp_tick_counter s = 0" "lp_breath s = b" "lp_open_bet_ids s = []" "lp_pending s = []" "lp_alive s"
proof -
  let ?s = "incarnate inc ch (reset_per_life_streams (\<lambda>_. False) l)"
  have disk: "dk_snapshot (lp_disk ?s) = None" "dk_decisions (lp_disk ?s) = in_boot_rows inc" "dk_proposals (lp_disk ?s) = []"
    "open_bets (ledger_of ?s) = []" "pw_chain (lp_world ?s) = ch" "lp_alive ?s"
    by (simp_all add: incarnate_def reset_per_life_streams_def Let_def mk_loop_def)
  have empty: "open_ids_from_rows [] = []" "fold_pending_proposals [] = []"
    by (simp_all add: open_ids_from_rows_def fold_pending_proposals_def iter_jsonl_def List.map_filter_def)
  show ?thesis
    using empty calm [OF inc] unticked [OF inc] chain disk
    by (intro that)
      (simp add: reconstruct_from_disk_def sbind_def sthen_def run_simps guard_res_def load_step_def fold_streams_def
        refresh_breath_def chain_breath_def note_divergence_def whenever_def, simp_all)
qed

end

interpretation server: incarnation_builder "build_one_incarnation b" for b
  by unfold_locales (auto simp: build_one_incarnation_def Let_def loop_boot_row_def logged_ticks_def last_tick_seen_def
      iter_jsonl_def List.map_filter_def jget_def split: option.splits)

section \<open>Lineages\<close>

text \<open>A life that returned: who lived it and what it left.\<close>

lemma live_okE:
  assumes "live sv idx carry l = Some (Inr (sm, w), l')"
  obtains ch inc s where "sv_build_chain_adapter sv (ln_adapters l) = Inr ch" "sv_build_incarnation sv idx carry = Inr inc"
    "run (sv_env sv) (in_config inc) None None
       (incarnate inc ch (reset_per_life_streams (sv_unlink_fails sv) l\<lparr>ln_adapters := Suc (ln_adapters l)\<rparr>)) = Some (Inr sm, s)"
    "w = lp_weights s" "ln_disk l' = lp_disk s" "ln_world l' = lp_world s" "ln_adapters l' = Suc (ln_adapters l)"
    "\<exists>m. ln_manifest l' = Some m \<and> im_current_incarnation_idx m = idx"
  using assms
  by (auto simp: live_def Let_def reset_per_life_streams_def bequeath_def write_manifest_def
      split: sum.splits option.splits prod.splits)

text \<open>The last life of a lineage that ended in death.\<close>

lemma supervise_died:
  assumes "supervise sv idx carry prev l = Some (Inr sm, l')" "rs_died sm" "idx < sv_max_incarnations sv"
  shows "\<exists>c w l0. live sv (sv_max_incarnations sv - 1) c l0 = Some (Inr (sm, w), l') \<and>
    Suc (ln_adapters l0) + idx = ln_adapters l + sv_max_incarnations sv"
  using assms
proof (induction "sv_max_incarnations sv - idx" arbitrary: idx carry prev l)
  case 0
  then show ?case by simp
next
  case (Suc k)
  from Suc.prems obtain sm1 w l1 where step: "live sv idx carry l = Some (Inr (sm1, w), l1)"
    and rest: "if \<not> rs_died sm1 then (sm1, l1) = (sm, l') else supervise sv (Suc idx) (Some w) sm1 l1 = Some (Inr sm, l')"
    by (subst (asm) supervise.simps) (auto split: option.splits prod.splits sum.splits if_splits)
  have next_life: "supervise sv (Suc idx) (Some w) sm1 l1 = Some (Inr sm, l')" using rest Suc.prems(2) by (auto split: if_splits)
  have adapters: "ln_adapters l1 = Suc (ln_adapters l)" using step by (rule live_okE) simp
  show ?case
  proof (cases "Suc idx < sv_max_incarnations sv")
    case True
    then show ?thesis
      using Suc.hyps(1) [OF _ next_life Suc.prems(2)] Suc.hyps(2) adapters by simp
  next
    case False
    then have idx: "idx = sv_max_incarnations sv - 1" using Suc.prems(3) by simp
    moreover have "sm1 = sm" "l1 = l'" using next_life False by (subst (asm) supervise.simps, simp)+
    ultimately show ?thesis using step Suc.prems(3) by (intro exI [of _ carry] exI [of _ w] exI [of _ l]) auto
  qed
qed

lemma run_supervisor_died:
  assumes "run_supervisor sv l = Some (Inr sm, l')" "rs_died sm"
  obtains c w l0 where "live sv (sv_max_incarnations sv - 1) c l0 = Some (Inr (sm, w), l')"
    "Suc (ln_adapters l0) + start_idx l = ln_adapters l + sv_max_incarnations sv" "start_idx l < sv_max_incarnations sv"
proof -
  have lt: "start_idx l < sv_max_incarnations sv"
  proof (rule ccontr)
    assume "\<not> ?thesis"
    then have "sm = no_life" using assms(1) by (simp add: run_supervisor_def supervise.simps)
    then show False using assms(2) by (simp add: no_life_def)
  qed
  from supervise_died [OF assms(1) [unfolded run_supervisor_def] assms(2) lt] show ?thesis using that lt by blast
qed


text \<open>C7. A lineage that ends has closed its books: when the supervisor returns because its last incarnation
  died, no bet is open in the ledger it leaves, no bet is settled twice, the ticks of the decision log
  increase strictly, and the snapshot is the terminal one of the last incarnation.\<close>

theorem lineage_closes_its_books:
  assumes "sound_env (sv_env sv)" "sv_build_incarnation sv = build_one_incarnation b" "sv_unlink_fails sv = (\<lambda>_. False)"
    and "run_supervisor sv l = Some (Inr sm, l')" "rs_died sm"
  shows "select_open_bets (le_poll (sv_env sv)) (pw_ledger (ln_world l')) = [] \<and>
    distinct (map s_bet_id (settled_bets (pw_ledger (ln_world l')))) \<and>
    sorted_wrt (<) (logged_ticks (dk_decisions (ln_disk l'))) \<and>
    (\<exists>sn. dk_snapshot (ln_disk l') = Some sn \<and> sn_phase sn = PHASE_4_TERMINAL \<and> sn_breath sn = fzero \<and> sn_open_bet_ids sn = [])"
proof -
  obtain c w l0 where life: "live sv (sv_max_incarnations sv - 1) c l0 = Some (Inr (sm, w), l')"
    using run_supervisor_died [OF assms(4,5)] by blast
  obtain ch inc s where lived: "sv_build_incarnation sv (sv_max_incarnations sv - 1) c = Inr inc"
    "run (sv_env sv) (in_config inc) None None
       (incarnate inc ch (reset_per_life_streams (sv_unlink_fails sv) l0\<lparr>ln_adapters := Suc (ln_adapters l0)\<rparr>)) = Some (Inr sm, s)"
    and left: "ln_disk l' = lp_disk s" "ln_world l' = lp_world s"
    using life by (rule live_okE)
  have built: "build_one_incarnation b (sv_max_incarnations sv - 1) c = Inr inc" using lived(1) assms(2) by simp
  have same: "incarnate inc ch (reset_per_life_streams (sv_unlink_fails sv) l0\<lparr>ln_adapters := n\<rparr>) =
      incarnate inc ch (reset_per_life_streams (\<lambda>_. False) l0)" for n
    by (simp add: incarnate_def assms(3))
  from run_life [OF lived(2) [unfolded same] server.born [OF built]]
  have s: "loop_life (sv_env sv) (in_config inc) s True" "lp_open_bet_ids s = []" "\<exists>t\<ge>0. entombed (in_config inc) t s"
    using assms(5) by (simp_all add: left_by_run_def)
  note books = books_open_bets [OF assms(1) loop_life_books [OF assms(1) s(1)]]
  have "0 \<le> lc_incarnation (in_config inc)" using server.numbered [OF built] by simp
  then have "\<exists>sn. dk_snapshot (lp_disk s) = Some sn \<and> sn_phase sn = PHASE_4_TERMINAL \<and> sn_breath sn = fzero \<and> sn_open_bet_ids sn = []"
    using s(2,3) by (auto simp: entombed_def)
  moreover have "sorted_wrt (<) (tick_log s)" using loop_life_log_sound [OF s(1)] by (simp add: log_sound_def)
  moreover have "select_open_bets (le_poll (sv_env sv)) (ledger_of s) = []" using books(2) s(2) by simp
  ultimately show ?thesis using books(4) left by simp
qed

text \<open>The bound on the incarnations is forgotten by a restart: a lineage whose last incarnation died has
  built one adapter per incarnation from the index it started at up to \<open>max_incarnations\<close> and leaves the
  index of the last one in the manifest, so a supervisor started over the same directory does not stop:
  it runs that incarnation once more, one life beyond the bound.\<close>

theorem restart_outlives_the_bound:
  assumes "run_supervisor sv l = Some (Inr sm, l')" "rs_died sm"
  shows "ln_adapters l' + start_idx l = ln_adapters l + sv_max_incarnations sv \<and>
    start_idx l' = sv_max_incarnations sv - 1 \<and>
    (\<forall>sm2 l2. run_supervisor sv l' = Some (Inr sm2, l2) \<longrightarrow> ln_adapters l2 = Suc (ln_adapters l'))"
proof -
  obtain c w l0 where life: "live sv (sv_max_incarnations sv - 1) c l0 = Some (Inr (sm, w), l')"
    and count: "Suc (ln_adapters l0) + start_idx l = ln_adapters l + sv_max_incarnations sv"
    and lt: "start_idx l < sv_max_incarnations sv"
    by (rule run_supervisor_died [OF assms])
  have left: "ln_adapters l' = Suc (ln_adapters l0)" "start_idx l' = sv_max_incarnations sv - 1"
    using life by (auto elim!: live_okE simp: start_idx_def)
  have "ln_adapters l2 = Suc (ln_adapters l')" if again: "run_supervisor sv l' = Some (Inr sm2, l2)" for sm2 l2
  proof -
    obtain sm1 w1 l1 where "live sv (sv_max_incarnations sv - 1) (start_weights (sv_env sv) l') l' = Some (Inr (sm1, w1), l1)"
      "l2 = l1"
      using again lt left(2) unfolding run_supervisor_def
      by (subst (asm) supervise.simps)
        (auto simp: supervise.simps [of _ "sv_max_incarnations sv"] split: option.splits prod.splits sum.splits if_splits)
    then show ?thesis by (auto elim!: live_okE)
  qed
  then show ?thesis using count left by simp
qed

section \<open>A concrete lineage\<close>

text \<open>Two incarnations, each forced to its end in its first tick.\<close>

definition demo_build :: server_build where
  "demo_build = \<lparr>sb_base = forced_config, sb_guard = demo_guard, sb_engine = \<lparr>rng_pos = 0, last_gate_diagnostics = None\<rparr>,
     sb_divine_economy = False, sb_sandbox_live = False, sb_populate_window = False, sb_staged = None,
     sb_default_weights = demo_weights, sb_now = ''t''\<rparr>"

definition demo_supervisor :: "scalar_chain supervisor" where
  "demo_supervisor = mk_supervisor idle_env (build_one_incarnation demo_build) (\<lambda>_. Inr \<lparr>current_breath = Fin 100\<rparr>)
     (\<lambda>_. False) (Some 2) None"

definition demo_lineage :: "scalar_chain lineage" where
  "demo_lineage = \<lparr>ln_disk = demo_disk, ln_world = demo_scalar_world, ln_manifest = None, ln_queue = \<lparr>rn_pending = []\<rparr>,
     ln_hooks = [], ln_adapters = 0, ln_clocks = 0, ln_rolls = 0, ln_uuids = 0\<rparr>"

lemma demo_lineage_runs:
  "case run_supervisor demo_supervisor demo_lineage of Some (Inr sm, l') \<Rightarrow> rs_died sm | _ \<Rightarrow> False"
  by code_simp

lemma demo_supervisor_parts:
  "sv_env demo_supervisor = idle_env" "sv_build_incarnation demo_supervisor = build_one_incarnation demo_build"
  "sv_unlink_fails demo_supervisor = (\<lambda>_. False)" "sv_max_incarnations demo_supervisor = 2" "start_idx demo_lineage = 0"
  by (simp_all add: demo_supervisor_def mk_supervisor_def start_idx_def demo_lineage_def)


theorem lineage_closes_its_books_witness:
  "case run_supervisor demo_supervisor demo_lineage of
     Some (Inr sm, l') \<Rightarrow> select_open_bets (le_poll idle_env) (pw_ledger (ln_world l')) = [] \<and>
       (\<exists>sn. dk_snapshot (ln_disk l') = Some sn \<and> sn_phase sn = PHASE_4_TERMINAL)
   | _ \<Rightarrow> False"
proof -
  obtain sm l' where r: "run_supervisor demo_supervisor demo_lineage = Some (Inr sm, l')" "rs_died sm"
    using demo_lineage_runs by (auto split: option.splits prod.splits sum.splits)
  have "sound_env (sv_env demo_supervisor)" using demo_sound(2) demo_supervisor_parts(1) by simp
  from lineage_closes_its_books [OF this demo_supervisor_parts(2,3) r] show ?thesis
    using r(1) demo_supervisor_parts(1) by auto
qed

theorem restart_outlives_the_bound_witness:
  "case run_supervisor demo_supervisor demo_lineage of
     Some (Inr sm, l') \<Rightarrow> ln_adapters l' = 2 \<and> start_idx l' = 1 | _ \<Rightarrow> False"
proof -
  obtain sm l' where r: "run_supervisor demo_supervisor demo_lineage = Some (Inr sm, l')" "rs_died sm"
    using demo_lineage_runs by (auto split: option.splits prod.splits sum.splits)
  have "ln_adapters demo_lineage = 0" by (simp add: demo_lineage_def)
  with restart_outlives_the_bound [OF r] r(1) demo_supervisor_parts(4,5) show ?thesis by simp
qed

end
