(* ===== verification/Reconciler.thy ===== *)
theory Reconciler
  imports CoreState "HOL-Library.Multiset"
begin

text \<open>
  The off-chain reconciler of \<open>ops/settlement_reconciler.py\<close>: pairs the settlements an indexer saw with
  the attestations that moved breath.
\<close>

section \<open>Data\<close>

record attestation =
  at_signer :: string
  at_market_id :: int
  at_outcome :: side
  at_nonce :: int
  at_amount_usd :: pyfloat
  at_deadline :: int
  at_signature :: "string option"

definition mk_attestation :: "attestation \<Rightarrow> attestation res" where
  "mk_attestation a =
     (if length (at_signer a) = 42 \<and> 0 \<le> at_market_id a \<and> 0 \<le> at_nonce a \<and> 0 \<le> at_deadline a
      then Inr a else Inl ValidationError)"

record market_settlement =
  ms_market_id :: int
  ms_outcome :: side
  ms_payout_usd :: pyfloat
  ms_settled_at :: string

definition mk_market_settlement :: "market_settlement \<Rightarrow> market_settlement res" where
  "mk_market_settlement s = (if 0 \<le> ms_market_id s then Inr s else Inl ValidationError)"

datatype reconciliation_status = MATCHED | REPLAY_REJECTED | IDENTITY_MISMATCH | DRIFT_DETECTED | UNMATCHED

text \<open>The reasons with the values their texts show.\<close>

datatype reconciliation_reason =
    NonceReused int string
  | DuplicateAttestation int side string
  | WrongOutcome side side
  | NoAttestation int side
  | AmountDrift pyfloat pyfloat pyfloat pyfloat
  | IdentityAndAmount
  | NoSettlement int side

record pairing_outcome =
  po_status :: reconciliation_status
  po_reason :: reconciliation_reason
  po_settlement :: "market_settlement option"
  po_attestation :: "attestation option"
  po_drift_usd :: pyfloat

record reconciliation_report =
  rr_matched :: "pairing_outcome list"
  rr_rejected :: "pairing_outcome list"
  rr_unmatched :: "pairing_outcome list"
  rr_drift :: "pairing_outcome list"

definition empty_report :: reconciliation_report where
  "empty_report = \<lparr>rr_matched = [], rr_rejected = [], rr_unmatched = [], rr_drift = []\<rparr>"

definition is_clean :: "reconciliation_report \<Rightarrow> bool" where
  "is_clean r = (rr_rejected r = [] \<and> rr_unmatched r = [] \<and> rr_drift r = [])"

definition total_pairings :: "reconciliation_report \<Rightarrow> nat" where
  "total_pairings r = length (rr_matched r) + length (rr_rejected r) + length (rr_unmatched r) + length (rr_drift r)"

definition DEFAULT_DRIFT_TOLERANCE_USD :: pyfloat where
  "DEFAULT_DRIFT_TOLERANCE_USD = fone"

record reconciler =
  drift_tolerance_usd :: pyfloat
  seen_nonces :: "(string \<times> int) set"

section \<open>Operations\<close>

definition replay_key :: "attestation \<Rightarrow> string \<times> int" where
  "replay_key a = (py_lower (at_signer a), at_nonce a)"

definition pair_key :: "attestation \<Rightarrow> int \<times> side" where
  "pair_key a = (at_market_id a, at_outcome a)"

definition settlement_key :: "market_settlement \<Rightarrow> int \<times> side" where
  "settlement_key s = (ms_market_id s, ms_outcome s)"

type_synonym attestation_index = "(int \<times> side, attestation) dict"

text \<open>Step 1: one attestation of the stream.\<close>

definition index_attestation ::
  "(string \<times> int) set \<times> reconciliation_report \<times> attestation_index \<Rightarrow> attestation \<Rightarrow>
   (string \<times> int) set \<times> reconciliation_report \<times> attestation_index" where
  "index_attestation st a = (case st of (seen, rep, idx) \<Rightarrow>
     if replay_key a \<in> seen then
       (seen, rep\<lparr>rr_rejected := rr_rejected rep @
          [\<lparr>po_status = REPLAY_REJECTED, po_reason = NonceReused (at_nonce a) (at_signer a),
             po_settlement = None, po_attestation = Some a, po_drift_usd = fzero\<rparr>]\<rparr>, idx)
     else let seen1 = insert (replay_key a) seen in
       if dget idx (pair_key a) \<noteq> None then
         (seen1, rep\<lparr>rr_rejected := rr_rejected rep @
            [\<lparr>po_status = IDENTITY_MISMATCH,
               po_reason = DuplicateAttestation (at_market_id a) (at_outcome a) (at_signer a),
               po_settlement = None, po_attestation = Some a, po_drift_usd = fzero\<rparr>]\<rparr>, idx)
       else (seen1, rep, dset (pair_key a) a idx))"

text \<open>Step 2: one settlement of the stream.\<close>

definition other_side :: "side \<Rightarrow> side" where
  "other_side x = (if x = YES then NO else YES)"

definition pair_settlement ::
  "pyfloat \<Rightarrow> attestation_index \<Rightarrow> reconciliation_report \<times> (int \<times> side) set \<Rightarrow> market_settlement \<Rightarrow>
   reconciliation_report \<times> (int \<times> side) set" where
  "pair_settlement tol idx st s = (case st of (rep, used) \<Rightarrow>
     (case dget idx (settlement_key s) of
        None \<Rightarrow>
          let wrong = (ms_market_id s, other_side (ms_outcome s)) in
          (case dget idx wrong of
             Some a \<Rightarrow>
               (rep\<lparr>rr_rejected := rr_rejected rep @
                  [\<lparr>po_status = IDENTITY_MISMATCH, po_reason = WrongOutcome (at_outcome a) (ms_outcome s),
                     po_settlement = Some s, po_attestation = Some a, po_drift_usd = fzero\<rparr>]\<rparr>, insert wrong used)
           | None \<Rightarrow>
               (rep\<lparr>rr_unmatched := rr_unmatched rep @
                  [\<lparr>po_status = UNMATCHED, po_reason = NoAttestation (ms_market_id s) (ms_outcome s),
                     po_settlement = Some s, po_attestation = None, po_drift_usd = fzero\<rparr>]\<rparr>, used))
      | Some a \<Rightarrow>
          let d = fabs (fsub (at_amount_usd a) (ms_payout_usd s)) in
          ((if flt tol d then
              rep\<lparr>rr_drift := rr_drift rep @
                [\<lparr>po_status = DRIFT_DETECTED, po_reason = AmountDrift (at_amount_usd a) (ms_payout_usd s) d tol,
                   po_settlement = Some s, po_attestation = Some a, po_drift_usd = d\<rparr>]\<rparr>
            else
              rep\<lparr>rr_matched := rr_matched rep @
                [\<lparr>po_status = MATCHED, po_reason = IdentityAndAmount,
                   po_settlement = Some s, po_attestation = Some a, po_drift_usd = d\<rparr>]\<rparr>),
           insert (settlement_key s) used)))"

text \<open>Step 3: an attestation no settlement used.\<close>

definition orphan :: "attestation \<Rightarrow> pairing_outcome" where
  "orphan a = \<lparr>po_status = UNMATCHED, po_reason = NoSettlement (at_market_id a) (at_outcome a),
     po_settlement = None, po_attestation = Some a, po_drift_usd = fzero\<rparr>"

definition add_orphans :: "(int \<times> side) set \<Rightarrow> attestation_index \<Rightarrow> reconciliation_report \<Rightarrow> reconciliation_report" where
  "add_orphans used idx rep =
     rep\<lparr>rr_unmatched := rr_unmatched rep @ [orphan (snd p). p \<leftarrow> idx, fst p \<notin> used]\<rparr>"

definition reconcile ::
  "reconciler \<Rightarrow> market_settlement list \<Rightarrow> attestation list \<Rightarrow> reconciliation_report \<times> reconciler" where
  "reconcile rc ss as =
     (let (seen, rep, idx) = foldl index_attestation (seen_nonces rc, empty_report, []) as;
          (rep1, used) = foldl (pair_settlement (drift_tolerance_usd rc) idx) (rep, {}) ss
      in (add_orphans used idx rep1, rc\<lparr>seen_nonces := seen\<rparr>))"

definition has_seen_nonce :: "reconciler \<Rightarrow> string \<Rightarrow> int \<Rightarrow> bool" where
  "has_seen_nonce rc signer n = ((py_lower signer, n) \<in> seen_nonces rc)"

definition seen_nonce_count :: "reconciler \<Rightarrow> nat" where
  "seen_nonce_count rc = card (seen_nonces rc)"

section \<open>Step 1: indexing\<close>

definition fresh_stream :: "(string \<times> int) set \<Rightarrow> attestation_index \<Rightarrow> attestation list \<Rightarrow> bool" where
  "fresh_stream seen idx as =
     (distinct (map replay_key as) \<and> replay_key ` set as \<inter> seen = {} \<and>
      distinct (map pair_key as) \<and> pair_key ` set as \<inter> fst ` set idx = {})"

lemma fresh_stream_simps:
  "fresh_stream seen idx []"
  "fresh_stream seen idx (a # as) \<longleftrightarrow> replay_key a \<notin> seen \<and> dget idx (pair_key a) = None \<and>
     fresh_stream (insert (replay_key a) seen) (idx @ [(pair_key a, a)]) as"
  by (auto simp: fresh_stream_def map_of_eq_None_iff)

text \<open>A rejection of step 1 names its attestation and no settlement.\<close>

definition rejects :: "attestation \<Rightarrow> pairing_outcome \<Rightarrow> bool" where
  "rejects a p = (po_settlement p = None \<and> po_attestation p = Some a \<and> po_status p \<noteq> MATCHED)"

lemma index_attestation_cases:
  obtains (dropped) p where "index_attestation (seen, rep, idx) a =
      (insert (replay_key a) seen, rep\<lparr>rr_rejected := rr_rejected rep @ [p]\<rparr>, idx)"
      "rejects a p" "replay_key a \<in> seen \<or> dget idx (pair_key a) \<noteq> None"
    | (kept) "replay_key a \<notin> seen" "dget idx (pair_key a) = None"
      "index_attestation (seen, rep, idx) a = (insert (replay_key a) seen, rep, idx @ [(pair_key a, a)])"
proof -
  have new: "dset k v d = d @ [(k, v)]" if "dget d k = None" for k :: "int \<times> side" and v :: attestation and d
    using that by (induction k v d rule: dset.induct) (auto split: if_splits)
  show ?thesis
  proof (cases "replay_key a \<in> seen")
    case True
    then show ?thesis by (intro dropped) (simp_all add: index_attestation_def insert_absorb rejects_def)+
  next
    case False
    show ?thesis
    proof (cases "dget idx (pair_key a)")
      case None
      with False show ?thesis by (intro kept) (simp_all add: index_attestation_def new)
    next
      case (Some b)
      with False show ?thesis by (intro dropped) (simp_all add: index_attestation_def rejects_def)+
    qed
  qed
qed

lemma index_stream:
  "\<exists>bs ps ks. foldl index_attestation (seen, rep, idx) as =
       (seen \<union> replay_key ` set as, rep\<lparr>rr_rejected := rr_rejected rep @ ps\<rparr>, idx @ map (\<lambda>a. (pair_key a, a)) ks) \<and>
     list_all2 rejects bs ps \<and> mset bs + mset ks = mset as \<and> (ps = [] \<longleftrightarrow> fresh_stream seen idx as) \<and>
     (distinct (map fst idx) \<longrightarrow> distinct (map fst idx @ map pair_key ks))"
proof (induction as arbitrary: seen rep idx)
  case Nil
  show ?case by (rule exI [of _ "[]"], rule exI [of _ "[]"], rule exI [of _ "[]"]) (simp add: fresh_stream_simps)
next
  case (Cons a as)
  show ?case
  proof (cases rule: index_attestation_cases [where seen = seen and rep = rep and idx = idx and a = a])
    case (dropped p)
    let ?rep = "rep\<lparr>rr_rejected := rr_rejected rep @ [p]\<rparr>"
    obtain bs ps ks where "foldl index_attestation (insert (replay_key a) seen, ?rep, idx) as =
        (insert (replay_key a) seen \<union> replay_key ` set as, ?rep\<lparr>rr_rejected := rr_rejected ?rep @ ps\<rparr>,
         idx @ map (\<lambda>a. (pair_key a, a)) ks)" "list_all2 rejects bs ps" "mset bs + mset ks = mset as"
      "distinct (map fst idx) \<longrightarrow> distinct (map fst idx @ map pair_key ks)"
      using Cons.IH [of "insert (replay_key a) seen" ?rep idx] by blast
    with dropped show ?thesis
      by (intro exI [of _ "a # bs"] exI [of _ "p # ps"] exI [of _ ks]) (auto simp: fresh_stream_simps)
  next
    case kept
    let ?idx = "idx @ [(pair_key a, a)]"
    obtain bs ps ks where "foldl index_attestation (insert (replay_key a) seen, rep, ?idx) as =
        (insert (replay_key a) seen \<union> replay_key ` set as, rep\<lparr>rr_rejected := rr_rejected rep @ ps\<rparr>,
         ?idx @ map (\<lambda>a. (pair_key a, a)) ks)" "list_all2 rejects bs ps" "mset bs + mset ks = mset as"
      "ps = [] \<longleftrightarrow> fresh_stream (insert (replay_key a) seen) ?idx as"
      "distinct (map fst ?idx) \<longrightarrow> distinct (map fst ?idx @ map pair_key ks)"
      using Cons.IH [of "insert (replay_key a) seen" rep ?idx] by blast
    with kept show ?thesis
      by (intro exI [of _ bs] exI [of _ ps] exI [of _ "a # ks"])
        (auto simp: fresh_stream_simps map_of_eq_None_iff)
  qed
qed

section \<open>Step 2: one verdict per settlement\<close>

definition verdict :: "pyfloat \<Rightarrow> attestation_index \<Rightarrow> market_settlement \<Rightarrow> pairing_outcome" where
  "verdict tol idx s = (case (dget idx (settlement_key s), dget idx (ms_market_id s, other_side (ms_outcome s))) of
       (Some a, _) \<Rightarrow> let d = fabs (fsub (at_amount_usd a) (ms_payout_usd s)) in
         (if flt tol d
          then \<lparr>po_status = DRIFT_DETECTED, po_reason = AmountDrift (at_amount_usd a) (ms_payout_usd s) d tol,
                po_settlement = Some s, po_attestation = Some a, po_drift_usd = d\<rparr>
          else \<lparr>po_status = MATCHED, po_reason = IdentityAndAmount,
                po_settlement = Some s, po_attestation = Some a, po_drift_usd = d\<rparr>)
     | (None, Some a) \<Rightarrow> \<lparr>po_status = IDENTITY_MISMATCH, po_reason = WrongOutcome (at_outcome a) (ms_outcome s),
                     po_settlement = Some s, po_attestation = Some a, po_drift_usd = fzero\<rparr>
     | (None, None) \<Rightarrow> \<lparr>po_status = UNMATCHED, po_reason = NoAttestation (ms_market_id s) (ms_outcome s),
                     po_settlement = Some s, po_attestation = None, po_drift_usd = fzero\<rparr>)"

definition uses :: "attestation_index \<Rightarrow> market_settlement \<Rightarrow> (int \<times> side) set" where
  "uses idx s = (if dget idx (settlement_key s) \<noteq> None then {settlement_key s}
     else if dget idx (ms_market_id s, other_side (ms_outcome s)) \<noteq> None then {(ms_market_id s, other_side (ms_outcome s))}
     else {})"

text \<open>Filing a row in the bucket of its status.\<close>

definition file_row :: "reconciliation_report \<Rightarrow> pairing_outcome \<Rightarrow> reconciliation_report" where
  "file_row r p = (case po_status p of
       MATCHED \<Rightarrow> r\<lparr>rr_matched := rr_matched r @ [p]\<rparr>
     | DRIFT_DETECTED \<Rightarrow> r\<lparr>rr_drift := rr_drift r @ [p]\<rparr>
     | UNMATCHED \<Rightarrow> r\<lparr>rr_unmatched := rr_unmatched r @ [p]\<rparr>
     | _ \<Rightarrow> r\<lparr>rr_rejected := rr_rejected r @ [p]\<rparr>)"

definition report_rows :: "reconciliation_report \<Rightarrow> pairing_outcome list" where
  "report_rows r = rr_matched r @ rr_rejected r @ rr_unmatched r @ rr_drift r"

abbreviation rows :: "reconciliation_report \<Rightarrow> pairing_outcome multiset" where
  "rows r \<equiv> mset (report_rows r)"

lemma file_row_rows [simp]: "rows (file_row r p) = add_mset p (rows r)"
  by (simp add: file_row_def report_rows_def split: reconciliation_status.split)

lemma file_row_clean [simp]: "is_clean (file_row r p) \<longleftrightarrow> is_clean r \<and> po_status p = MATCHED"
  by (auto simp: file_row_def is_clean_def split: reconciliation_status.split)

lemma pair_settlement_verdict:
  "pair_settlement tol idx (rep, used) s = (file_row rep (verdict tol idx s), used \<union> uses idx s)"
  by (auto simp: pair_settlement_def verdict_def uses_def file_row_def Let_def split: option.split)

lemma pair_stream:
  "foldl (pair_settlement tol idx) (rep, used) ss =
     (foldl file_row rep (map (verdict tol idx) ss), used \<union> (\<Union>s\<in>set ss. uses idx s))"
  by (induction ss arbitrary: rep used) (simp_all add: pair_settlement_verdict Un_assoc)

lemma filed_rows: "rows (foldl file_row r ps) = rows r + mset ps"
  by (induction ps arbitrary: r) simp_all

lemma filed_clean: "is_clean (foldl file_row r ps) \<longleftrightarrow> is_clean r \<and> (\<forall>p\<in>set ps. po_status p = MATCHED)"
  by (induction ps arbitrary: r) auto

lemma orphans_filtered:
  "[orphan (snd p). p \<leftarrow> idx, fst p \<notin> used] = map (\<lambda>p. orphan (snd p)) (filter (\<lambda>p. fst p \<notin> used) idx)"
  by (induction idx) auto

lemma orphans_clean: "is_clean (add_orphans used idx rep) \<longleftrightarrow> is_clean rep \<and> fst ` set idx \<subseteq> used"
  unfolding add_orphans_def orphans_filtered by (auto simp: is_clean_def filter_empty_conv)

lemma orphans_rows:
  "rows (add_orphans used idx rep) = rows rep + mset (map (\<lambda>p. orphan (snd p)) (filter (\<lambda>p. fst p \<notin> used) idx))"
  unfolding add_orphans_def orphans_filtered by (simp add: report_rows_def)

lemma rejected_only:
  "is_clean (empty_report\<lparr>rr_rejected := ps\<rparr>) \<longleftrightarrow> ps = []" "rows (empty_report\<lparr>rr_rejected := ps\<rparr>) = mset ps"
  by (simp_all add: is_clean_def report_rows_def empty_report_def)

lemma verdict_simps:
  "po_settlement (verdict tol idx s) = Some s"
  "po_status (verdict tol idx s) = MATCHED \<longleftrightarrow>
     (\<exists>a. dget idx (settlement_key s) = Some a \<and> \<not> flt tol (fabs (fsub (at_amount_usd a) (ms_payout_usd s))))"
  "set_option (po_attestation (verdict tol idx s)) = {a. \<exists>k\<in>uses idx s. dget idx k = Some a}"
  by (auto simp: verdict_def uses_def Let_def split: option.split)

section \<open>The report\<close>

text \<open>What one invocation does, in terms of the abstract steps.\<close>

lemma reconcile_steps:
  obtains bs ps ks rep where
    "reconcile rc ss as = (add_orphans (\<Union>s\<in>set ss. uses (map (\<lambda>a. (pair_key a, a)) ks) s) (map (\<lambda>a. (pair_key a, a)) ks) rep,
       rc\<lparr>seen_nonces := seen_nonces rc \<union> replay_key ` set as\<rparr>)"
    "rep = foldl file_row (empty_report\<lparr>rr_rejected := ps\<rparr>)
       (map (verdict (drift_tolerance_usd rc) (map (\<lambda>a. (pair_key a, a)) ks)) ss)"
    "list_all2 rejects bs ps" "mset bs + mset ks = mset as" "distinct (map pair_key ks)"
    "ps = [] \<longleftrightarrow> fresh_stream (seen_nonces rc) [] as"
proof -
  obtain bs ps ks where s: "foldl index_attestation (seen_nonces rc, empty_report, []) as =
       (seen_nonces rc \<union> replay_key ` set as, empty_report\<lparr>rr_rejected := rr_rejected empty_report @ ps\<rparr>,
        [] @ map (\<lambda>a. (pair_key a, a)) ks)"
     "list_all2 rejects bs ps" "mset bs + mset ks = mset as" "ps = [] \<longleftrightarrow> fresh_stream (seen_nonces rc) [] as"
     "distinct (map fst ([] :: attestation_index)) \<longrightarrow> distinct (map fst ([] :: attestation_index) @ map pair_key ks)"
    using index_stream [of "seen_nonces rc" empty_report "[]" as] by blast
  show ?thesis
    by (rule that [OF _ refl s(2,3) _ s(4)]) (use s in \<open>simp_all add: reconcile_def pair_stream empty_report_def\<close>)
qed

lemma indexed: "distinct (map pair_key ks) \<Longrightarrow> dget (map (\<lambda>a. (pair_key a, a)) ks) k = Some a \<longleftrightarrow> a \<in> set ks \<and> pair_key a = k"
  by (subst dget_in_set) (auto simp: comp_def)

lemma clean_report:
  "is_clean (fst (reconcile rc ss as)) \<longleftrightarrow>
     distinct (map replay_key as) \<and> (\<forall>a\<in>set as. \<not> has_seen_nonce rc (at_signer a) (at_nonce a)) \<and>
     distinct (map pair_key as) \<and> pair_key ` set as = settlement_key ` set ss \<and>
     (\<forall>a\<in>set as. \<forall>s\<in>set ss. pair_key a = settlement_key s \<longrightarrow>
        \<not> flt (drift_tolerance_usd rc) (fabs (fsub (at_amount_usd a) (ms_payout_usd s))))"
proof -
  obtain bs ps ks rep where r:
    "reconcile rc ss as = (add_orphans (\<Union>s\<in>set ss. uses (map (\<lambda>a. (pair_key a, a)) ks) s) (map (\<lambda>a. (pair_key a, a)) ks) rep,
       rc\<lparr>seen_nonces := seen_nonces rc \<union> replay_key ` set as\<rparr>)"
    "rep = foldl file_row (empty_report\<lparr>rr_rejected := ps\<rparr>)
       (map (verdict (drift_tolerance_usd rc) (map (\<lambda>a. (pair_key a, a)) ks)) ss)"
    "list_all2 rejects bs ps" "mset bs + mset ks = mset as" "distinct (map pair_key ks)"
    "ps = [] \<longleftrightarrow> fresh_stream (seen_nonces rc) [] as"
    by (rule reconcile_steps)
  let ?idx = "map (\<lambda>a. (pair_key a, a)) ks" and ?tol = "drift_tolerance_usd rc"
  have fresh: "fresh_stream (seen_nonces rc) [] as \<longleftrightarrow> distinct (map replay_key as) \<and>
      (\<forall>a\<in>set as. \<not> has_seen_nonce rc (at_signer a) (at_nonce a)) \<and> distinct (map pair_key as)"
    by (auto simp: fresh_stream_def has_seen_nonce_def replay_key_def)
  have clean: "is_clean (fst (reconcile rc ss as)) \<longleftrightarrow> ps = [] \<and>
      (\<forall>s\<in>set ss. po_status (verdict ?tol ?idx s) = MATCHED) \<and> pair_key ` set ks \<subseteq> (\<Union>s\<in>set ss. uses ?idx s)"
    by (auto simp: r(1,2) orphans_clean filed_clean rejected_only image_image)
  have ks: "set ks = set as" if "ps = []"
    using r(3,4) that by (metis add_0 list_all2_Nil2 mset.simps(1) set_mset_mset)
  have used: "(\<Union>s\<in>set ss. uses ?idx s) = settlement_key ` set ss"
    if "\<forall>s\<in>set ss. po_status (verdict ?tol ?idx s) = MATCHED"
  proof -
    have "uses ?idx s = {settlement_key s}" if "s \<in> set ss" for s
      using \<open>\<forall>s\<in>set ss. _\<close> that by (fastforce simp: verdict_simps(2) uses_def)
    then show ?thesis by auto
  qed
  have matched: "po_status (verdict ?tol ?idx s) = MATCHED \<longleftrightarrow>
      (\<exists>a\<in>set ks. pair_key a = settlement_key s \<and> \<not> flt ?tol (fabs (fsub (at_amount_usd a) (ms_payout_usd s))))" for s
    by (auto simp: verdict_simps indexed [OF r(5)])
  have one: "a = b" if "a \<in> set ks" "b \<in> set ks" "pair_key a = pair_key b" for a b
    using r(5) that by (auto simp: distinct_map inj_on_def)
  show ?thesis
  proof (cases "ps = []")
    case True
    have "(\<forall>s\<in>set ss. po_status (verdict ?tol ?idx s) = MATCHED) \<and> pair_key ` set ks \<subseteq> (\<Union>s\<in>set ss. uses ?idx s) \<longleftrightarrow>
        pair_key ` set as = settlement_key ` set ss \<and>
        (\<forall>a\<in>set as. \<forall>s\<in>set ss. pair_key a = settlement_key s \<longrightarrow>
          \<not> flt ?tol (fabs (fsub (at_amount_usd a) (ms_payout_usd s))))" (is "?A \<and> ?B \<longleftrightarrow> ?C")
    proof
      assume ab: "?A \<and> ?B"
      then have "pair_key ` set ks \<subseteq> settlement_key ` set ss" using used by simp
      moreover have "settlement_key ` set ss \<subseteq> pair_key ` set ks" using ab by (force simp: matched)
      moreover have "\<not> flt ?tol (fabs (fsub (at_amount_usd a) (ms_payout_usd s)))"
        if "a \<in> set ks" "s \<in> set ss" "pair_key a = settlement_key s" for a s
        using ab that one by (metis matched)
      ultimately show ?C using ks [OF True] by auto
    next
      assume c: ?C
      have ?A
      proof
        fix s assume s: "s \<in> set ss"
        then obtain a where "a \<in> set as" "pair_key a = settlement_key s" using c by (metis (no_types) image_iff)
        then show "po_status (verdict ?tol ?idx s) = MATCHED" using c s ks [OF True] by (auto simp: matched)
      qed
      then show "?A \<and> ?B" using c used ks [OF True] by auto
    qed
    then show ?thesis using True r(6) fresh clean by blast
  next
    case False
    then show ?thesis using r(6) fresh clean by blast
  qed
qed

text \<open>C12. What a clean report means: \<open>reconcile\<close> reports no rejection, no drift and nothing unmatched if and only if
  no attestation reuses a nonce of its signer (in the stream or in an earlier invocation, the signer compared
  without case), no two attestations claim the same market and outcome, every settlement has the attestation of its
  market and outcome with an amount not off by more than the tolerance, and every attestation has a settlement.  This
  is agreement of the sets of markets and outcomes: several settlements may share one attestation, and a clean report is
  one-to-one exactly when no two settlements are of the same market and outcome.\<close>

theorem clean_report_iff:
  "(is_clean (fst (reconcile rc ss as)) \<longleftrightarrow>
     distinct (map replay_key as) \<and> (\<forall>a\<in>set as. \<not> has_seen_nonce rc (at_signer a) (at_nonce a)) \<and>
     distinct (map pair_key as) \<and> pair_key ` set as = settlement_key ` set ss \<and>
     (\<forall>a\<in>set as. \<forall>s\<in>set ss. pair_key a = settlement_key s \<longrightarrow>
        \<not> flt (drift_tolerance_usd rc) (fabs (fsub (at_amount_usd a) (ms_payout_usd s))))) \<and>
   (is_clean (fst (reconcile rc ss as)) \<longrightarrow>
     (mset (map pair_key as) = mset (map settlement_key ss) \<longleftrightarrow> distinct (map settlement_key ss)))"
proof (intro conjI impI)
  assume "is_clean (fst (reconcile rc ss as))"
  then have k: "distinct (map pair_key as)" "set (map pair_key as) = set (map settlement_key ss)" by (simp_all add: clean_report)
  show "mset (map pair_key as) = mset (map settlement_key ss) \<longleftrightarrow> distinct (map settlement_key ss)"
  proof
    assume "mset (map pair_key as) = mset (map settlement_key ss)"
    then show "distinct (map settlement_key ss)" using k(1) mset_eq_imp_distinct_iff by blast
  next
    assume "distinct (map settlement_key ss)"
    then show "mset (map pair_key as) = mset (map settlement_key ss)" using k set_eq_iff_mset_eq_distinct by blast
  qed
qed (rule clean_report)

lemma mset_map_filter: "mset (List.map_filter f xs) = (\<Sum>x\<in>#mset xs. case f x of None \<Rightarrow> {#} | Some y \<Rightarrow> {#y#})"
  by (induction xs) (auto simp: List.map_filter_simps split: option.split)

lemma set_map_filter: "set (List.map_filter f xs) = (\<Union>x\<in>set_mset (mset xs). set_option (f x))"
  by (induction xs) (auto simp: List.map_filter_simps split: option.split)

lemma rejected_names: "list_all2 rejects bs ps \<Longrightarrow> (\<Union>x\<in>set ps. set_option (po_attestation x)) = set bs"
  by (induction rule: list_all2_induct) (auto simp: rejects_def)

lemma rejected_settles_none:
  "list_all2 rejects bs ps \<Longrightarrow> (\<Sum>x\<in>#mset ps. case po_settlement x of None \<Rightarrow> {#} | Some y \<Rightarrow> {#y#}) = {#}"
  by (induction rule: list_all2_induct) (auto simp: rejects_def)

lemma uses_indexed: "k \<in> uses idx s \<Longrightarrow> dget idx k \<noteq> None"
  by (auto simp: uses_def split: if_splits)

text \<open>Every input is accounted for: the report of an invocation holds exactly one row per settlement of
  the stream, and its rows name exactly the attestations of the stream, none lost and none invented;
  afterwards the nonces of the stream are seen and those seen before still are.\<close>

theorem report_accounts_for_inputs:
  "case reconcile rc ss as of (rep, rc') \<Rightarrow>
     mset (List.map_filter po_settlement (report_rows rep)) = mset ss \<and>
     set (List.map_filter po_attestation (report_rows rep)) = set as \<and>
     (\<forall>signer n. has_seen_nonce rc' signer n \<longleftrightarrow>
        has_seen_nonce rc signer n \<or> (\<exists>a\<in>set as. py_lower (at_signer a) = py_lower signer \<and> at_nonce a = n))"
proof -
  obtain bs ps ks rep where r:
    "reconcile rc ss as = (add_orphans (\<Union>s\<in>set ss. uses (map (\<lambda>a. (pair_key a, a)) ks) s) (map (\<lambda>a. (pair_key a, a)) ks) rep,
       rc\<lparr>seen_nonces := seen_nonces rc \<union> replay_key ` set as\<rparr>)"
    "rep = foldl file_row (empty_report\<lparr>rr_rejected := ps\<rparr>)
       (map (verdict (drift_tolerance_usd rc) (map (\<lambda>a. (pair_key a, a)) ks)) ss)"
    "list_all2 rejects bs ps" "mset bs + mset ks = mset as" "distinct (map pair_key ks)"
    "ps = [] \<longleftrightarrow> fresh_stream (seen_nonces rc) [] as"
    by (rule reconcile_steps)
  let ?idx = "map (\<lambda>a. (pair_key a, a)) ks" and ?tol = "drift_tolerance_usd rc"
  let ?used = "\<Union>s\<in>set ss. uses ?idx s"
  let ?orphans = "map (\<lambda>p. orphan (snd p)) (filter (\<lambda>p. fst p \<notin> ?used) ?idx)"
  have all: "rows (fst (reconcile rc ss as)) = mset ps + mset (map (verdict ?tol ?idx) ss) + mset ?orphans"
    by (simp add: r(1,2) orphans_rows filed_rows rejected_only)
  have "(\<Sum>x\<in>#mset ?orphans. case po_settlement x of None \<Rightarrow> {#} | Some y \<Rightarrow> {#y#}) = {#}"
    by (auto simp: orphan_def)
  moreover have "(\<Sum>x\<in>#mset (map (verdict ?tol ?idx) ss). case po_settlement x of None \<Rightarrow> {#} | Some y \<Rightarrow> {#y#}) = mset ss"
    by (simp add: verdict_simps image_mset.compositionality comp_def)
  ultimately have settlements: "mset (List.map_filter po_settlement (report_rows (fst (reconcile rc ss as)))) = mset ss"
    using rejected_settles_none [OF r(3)] unfolding mset_map_filter all by simp
  have as: "set as = set bs \<union> set ks" using r(4) by (metis set_mset_mset set_mset_union)
  have verdicts: "(\<Union>x\<in>set (map (verdict ?tol ?idx) ss). set_option (po_attestation x)) = {a \<in> set ks. pair_key a \<in> ?used}"
    by (auto simp: verdict_simps indexed [OF r(5)])
  have orphans: "(\<Union>x\<in>set ?orphans. set_option (po_attestation x)) = {a \<in> set ks. pair_key a \<notin> ?used}"
    by (auto simp: orphan_def)
  have "set (List.map_filter po_attestation (report_rows (fst (reconcile rc ss as)))) = set as"
    unfolding set_map_filter all
    using rejected_names [OF r(3)] verdicts orphans as by (simp add: UN_Un) blast
  moreover have "(py_lower signer, n) \<in> replay_key ` set as \<longleftrightarrow>
      (\<exists>a\<in>set as. py_lower (at_signer a) = py_lower signer \<and> at_nonce a = n)" for signer n
    by (force simp: replay_key_def image_iff)
  ultimately show ?thesis
    using settlements by (simp add: r(1) has_seen_nonce_def)
qed

text \<open>One attestation, asked about twice: both settlements are matched and the report is clean.\<close>

definition demo_attestation :: attestation where
  "demo_attestation = \<lparr>at_signer = replicate 42 (CHR ''A''), at_market_id = 7, at_outcome = YES, at_nonce = 1,
     at_amount_usd = Fin 3, at_deadline = 9, at_signature = None\<rparr>"

definition demo_settlement :: market_settlement where
  "demo_settlement = \<lparr>ms_market_id = 7, ms_outcome = YES, ms_payout_usd = Fin (5 / 2), ms_settled_at = ''t''\<rparr>"

definition demo_reconciler :: reconciler where
  "demo_reconciler = \<lparr>drift_tolerance_usd = DEFAULT_DRIFT_TOLERANCE_USD, seen_nonces = {}\<rparr>"

lemma demo_within: "\<not> flt fone (fabs (fsub (Fin 3) (Fin (5 / 2))))"
  by code_simp

theorem clean_report_iff_witness:
  "is_clean (fst (reconcile demo_reconciler [demo_settlement, demo_settlement] [demo_attestation])) \<and>
   mset (map pair_key [demo_attestation]) \<noteq> mset (map settlement_key [demo_settlement, demo_settlement])"
proof -
  have "is_clean (fst (reconcile demo_reconciler [demo_settlement, demo_settlement] [demo_attestation]))"
    unfolding conjunct1 [OF clean_report_iff]
    using demo_within
    by (simp add: demo_attestation_def demo_settlement_def demo_reconciler_def has_seen_nonce_def pair_key_def
        settlement_key_def DEFAULT_DRIFT_TOLERANCE_USD_def)
  then show ?thesis using clean_report_iff [of demo_reconciler "[demo_settlement, demo_settlement]" "[demo_attestation]"] by simp
qed

theorem report_accounts_for_inputs_witness:
  "mset (List.map_filter po_settlement (report_rows (fst (reconcile demo_reconciler [demo_settlement] [demo_attestation, demo_attestation]))))
     = {#demo_settlement#}"
  using report_accounts_for_inputs
    [where rc = demo_reconciler and ss = "[demo_settlement]" and as = "[demo_attestation, demo_attestation]"]
  by (simp add: split_beta)

end
