(* ===== verification/Learner.thy ===== *)
theory Learner
  imports WeightDelta Decision
begin

text \<open>
  The gradient learner of \<open>engines/weight_updater.py\<close> and the settlement channel that feeds it,
  \<open>backtest/settlement_learner.py\<close>: six fusion parameters moved in logit space, with the freeze list of
  the phases.
\<close>

section \<open>NumPy and the mathematical library\<close>

text \<open>Exponential, logarithm and hyperbolic tangent of the C library, and the sign bit of a NaN that
  \<open>copysign\<close> sees.\<close>

record libm =
  m_exp :: "pyfloat \<Rightarrow> pyfloat"
  m_log :: "pyfloat \<Rightarrow> pyfloat"
  m_tanh :: "pyfloat \<Rightarrow> pyfloat"
  m_nan_sign :: pyfloat

text \<open>NumPy propagates NaN in \<open>maximum\<close> and \<open>clip\<close>, adds short vectors from left to right without a
  leading zero, and divides by zero without raising.\<close>

definition np_maximum :: "pyfloat \<Rightarrow> pyfloat \<Rightarrow> pyfloat" where
  "np_maximum x y = (if isnan x \<or> isnan y then NaN else fmax x y)"

definition np_minimum :: "pyfloat \<Rightarrow> pyfloat \<Rightarrow> pyfloat" where
  "np_minimum x y = (if isnan x \<or> isnan y then NaN else fmin x y)"

definition np_clip :: "pyfloat \<Rightarrow> pyfloat \<Rightarrow> pyfloat \<Rightarrow> pyfloat" where
  "np_clip x lo hi = np_minimum (np_maximum x lo) hi"

definition np_sum :: "pyfloat list \<Rightarrow> pyfloat" where
  "np_sum xs = (case xs of [] \<Rightarrow> fzero | y # ys \<Rightarrow> foldl fadd y ys)"

definition np_max :: "pyfloat list \<Rightarrow> pyfloat" where
  "np_max xs = (case xs of [] \<Rightarrow> NaN | y # ys \<Rightarrow> foldl np_maximum y ys)"

definition np_div :: "pyfloat \<Rightarrow> pyfloat \<Rightarrow> pyfloat" where
  "np_div x y = (if feq y fzero then inf_of_sign (fsgn x) else fdiv x y)"

definition flen :: "'a list \<Rightarrow> pyfloat" where
  "flen xs = Fin (of_nat (length xs))"

section \<open>Constants\<close>

definition DEFAULT_LEARNING_RATE :: pyfloat where "DEFAULT_LEARNING_RATE = rnd (5 / 100)"
definition DESPERATE_LR_MULTIPLIER :: pyfloat where "DESPERATE_LR_MULTIPLIER = Fin 2"
definition DEFAULT_EMA_TAU :: pyfloat where "DEFAULT_EMA_TAU = rnd (1 / 10)"
definition LOGIT_CLIP :: pyfloat where "LOGIT_CLIP = Fin 5"

definition LOOKAHEAD_FORBIDDEN_PREFIXES :: "string list" where
  "LOOKAHEAD_FORBIDDEN_PREFIXES = [''settled_at'', ''resolved_at'', ''outcome'', ''payout'']"

text \<open>The pattern \<open>^(prefix)(_|$)\<close>; \<open>$\<close> also matches before a final line feed.\<close>

definition lookahead_key :: "string \<Rightarrow> bool" where
  "lookahead_key k = list_ex (\<lambda>p. take (length p) k = p \<and>
     (let r = drop (length p) k in r = [] \<or> r = [CHR 0x0A] \<or> take 1 r = ''_'')) LOOKAHEAD_FORBIDDEN_PREFIXES"

datatype degraded_mode = MODE_NONE | MODE_DESPERATE

record weight_delta_record =
  wd_mode :: degraded_mode
  wd_effective_learning_rate :: pyfloat
  wd_phase :: phase
  wd_alpha_l1 :: pyfloat
  wd_beta_l1 :: pyfloat
  wd_w_l1 :: pyfloat
  wd_rho_delta :: pyfloat

section \<open>Logits\<close>

definition logit_from_simplex :: "libm \<Rightarrow> pyfloat list \<Rightarrow> pyfloat list" where
  "logit_from_simplex m p =
     (let ls = map (\<lambda>x. m_log m (np_maximum x (rnd (1 / 10 ^ 12)))) p; mean = np_div (np_sum ls) (flen ls)
      in map (\<lambda>l. fsub l mean) ls)"

definition softmax :: "libm \<Rightarrow> pyfloat list \<Rightarrow> pyfloat list" where
  "softmax m us =
     (let es = map (\<lambda>u. m_exp m (fsub u (np_max us))) us; total = np_sum es
      in if flt fzero total then map (\<lambda>e. np_div e total) es else map (\<lambda>_. np_div fone (flen es)) es)"

definition sigmoid :: "libm \<Rightarrow> pyfloat \<Rightarrow> pyfloat res" where
  "sigmoid m x = py_div fone (fadd fone (m_exp m (fneg (fmax (Fin (- 50)) (fmin (Fin 50) x)))))"

definition logit_scalar :: "libm \<Rightarrow> pyfloat \<Rightarrow> pyfloat res" where
  "logit_scalar m p =
     (let s = fmin (fsub fone (rnd (1 / 10 ^ 6))) (fmax (rnd (1 / 10 ^ 6)) p)
      in rbind (py_div s (fsub fone s)) (\<lambda>q. Inr (m_log m q)))"

definition gradient_from_features :: "string list \<Rightarrow> (string, pyfloat) dict \<Rightarrow> string \<Rightarrow> pyfloat list" where
  "gradient_from_features names fs suffix = map (\<lambda>n. dget_default fs (n @ ''_'' @ suffix) fzero) names"

section \<open>The updater\<close>

record weight_updater =
  wu_lr :: pyfloat
  wu_tau :: pyfloat
  wu_ema :: "(string, pyfloat) dict"

definition mk_weight_updater :: "pyfloat \<Rightarrow> pyfloat \<Rightarrow> weight_updater res" where
  "mk_weight_updater lr tau =
     (if fle lr fzero then Inl ValueError
      else if \<not> (flt fzero tau \<and> fle tau fone) then Inl ValueError
      else Inr \<lparr>wu_lr = lr, wu_tau = tau, wu_ema = []\<rparr>)"

definition smooth :: "pyfloat \<Rightarrow> (string, pyfloat) dict \<Rightarrow> string \<times> pyfloat \<Rightarrow> (string, pyfloat) dict" where
  "smooth tau ema kv = (case kv of (k, v) \<Rightarrow>
     dset k (fadd (fmul tau v) (fmul (fsub fone tau) (dget_default ema k v))) ema)"

definition frozen_phase :: "phase \<Rightarrow> bool \<Rightarrow> bool" where
  "frozen_phase ph desperate = (ph = PHASE_4_TERMINAL \<or> (ph = PHASE_3_MASTER \<and> \<not> desperate))"

definition stepped :: "pyfloat \<Rightarrow> pyfloat list \<Rightarrow> pyfloat list \<Rightarrow> pyfloat list" where
  "stepped eta us gs = map2 (\<lambda>u g. np_clip (fadd u (fmul eta g)) (fneg LOGIT_CLIP) LOGIT_CLIP) us gs"

definition renormalise :: "pyfloat list \<Rightarrow> pyfloat list" where
  "renormalise xs = map (\<lambda>x. np_div x (np_sum xs)) xs"

definition l1 :: "pyfloat list \<Rightarrow> pyfloat list \<Rightarrow> pyfloat" where
  "l1 xs ys = np_sum (map2 (\<lambda>x y. fabs (fsub x y)) xs ys)"

text \<open>The gradient step over the smoothed features: the new parameters before validation.\<close>

definition gradient_step ::
  "libm \<Rightarrow> weights \<Rightarrow> phase \<Rightarrow> (string, pyfloat) dict \<Rightarrow> pyfloat \<Rightarrow> weights res" where
  "gradient_step m w ph fs eta =
     rbind (logit_scalar m (fmax fzero (fmin fone (rho w)))) (\<lambda>u_rho.
     let u_alpha = stepped eta (logit_from_simplex m (alpha w)) (gradient_from_features RATIONAL_ENGINES fs ''quality'');
         u_rho' = fmax (fneg LOGIT_CLIP) (fmin LOGIT_CLIP (fadd u_rho (fmul eta (dget_default fs ''rho_quality'' fzero))));
         grad_w = [dget_default fs ''rational_stream_quality'' fzero, dget_default fs ''sentient_stream_quality'' fzero];
         new_alpha = softmax m u_alpha;
         new_beta = (if ph = PHASE_1_INFANCY then beta w
           else softmax m (stepped eta (logit_from_simplex m (beta w)) (gradient_from_features SENTIENT_ENGINES fs ''quality'')));
         new_w = (if ph = PHASE_1_INFANCY then [w_r w, w_s w]
           else softmax m (stepped eta (logit_from_simplex m [w_r w, w_s w]) grad_w))
     in rbind (sigmoid m u_rho') (\<lambda>new_rho.
        Inr \<lparr>w_r = renormalise new_w ! 0, w_s = renormalise new_w ! 1, alpha = renormalise new_alpha,
             beta = renormalise new_beta, rho = new_rho\<rparr>))"

definition step_record :: "bool \<Rightarrow> pyfloat \<Rightarrow> phase \<Rightarrow> weights \<Rightarrow> weights \<Rightarrow> weight_delta_record" where
  "step_record desperate eta ph w w' =
     \<lparr>wd_mode = (if desperate then MODE_DESPERATE else MODE_NONE), wd_effective_learning_rate = eta, wd_phase = ph,
      wd_alpha_l1 = l1 (alpha w') (alpha w), wd_beta_l1 = l1 (beta w') (beta w),
      wd_w_l1 = fadd (fabs (fsub (w_r w') (w_r w))) (fabs (fsub (w_s w') (w_s w))),
      wd_rho_delta = fabs (fsub (rho w') (rho w))\<rparr>"

definition empty_record :: "bool \<Rightarrow> pyfloat \<Rightarrow> phase \<Rightarrow> weight_delta_record" where
  "empty_record desperate eta ph =
     \<lparr>wd_mode = (if desperate then MODE_DESPERATE else MODE_NONE), wd_effective_learning_rate = eta, wd_phase = ph,
      wd_alpha_l1 = fzero, wd_beta_l1 = fzero, wd_w_l1 = fzero, wd_rho_delta = fzero\<rparr>"

definition effective_rate :: "weight_updater \<Rightarrow> bool \<Rightarrow> pyfloat" where
  "effective_rate u desperate = fmul (wu_lr u) (if desperate then DESPERATE_LR_MULTIPLIER else fone)"

definition update_with_delta ::
  "libm \<Rightarrow> bool \<Rightarrow> weights \<Rightarrow> phase \<Rightarrow> (string, pyfloat) dict \<Rightarrow> bool \<Rightarrow> (weight_updater, weights \<times> weight_delta_record) prog" where
  "update_with_delta m nv w ph fs desperate u =
     (let eta = effective_rate u desperate in
      if list_ex lookahead_key (map fst fs) then (Inl ValueError, u)
      else if frozen_phase ph desperate then (Inr (w, empty_record desperate eta ph), u)
      else let u' = u\<lparr>wu_ema := foldl (smooth (wu_tau u)) (wu_ema u) fs\<rparr> in
        (rbind (gradient_step m w ph (wu_ema u') eta) (\<lambda>w'.
         rbind (mk_weights nv w') (\<lambda>w''. Inr (w'', step_record desperate eta ph w w''))), u'))"

definition update_weights ::
  "libm \<Rightarrow> bool \<Rightarrow> weights \<Rightarrow> phase \<Rightarrow> (string, pyfloat) dict \<Rightarrow> bool \<Rightarrow> (weight_updater, weights) prog" where
  "update_weights m nv w ph fs desperate = sbind (update_with_delta m nv w ph fs desperate) (\<lambda>p. ret (fst p))"

section \<open>The settlement channel\<close>

definition pnl_sign :: "libm \<Rightarrow> pyfloat \<Rightarrow> pyfloat" where
  "pnl_sign m x = (if feq x fzero then fzero else if isnan x then m_nan_sign m
     else if flt x fzero then Fin (- 1) else fone)"

definition engine_credit :: "libm \<Rightarrow> pyfloat \<Rightarrow> pyfloat \<Rightarrow> (string, pyfloat) dict \<Rightarrow> (string, pyfloat) dict" where
  "engine_credit m pnl dir scores =
     fold_dict (map (\<lambda>(e, x). (e @ ''_quality'', fmul (fmul (pnl_sign m pnl) dir) x)) scores)"

definition settlement_features ::
  "libm \<Rightarrow> pyfloat \<Rightarrow> pyfloat \<Rightarrow> (string, pyfloat) dict \<Rightarrow> pyfloat \<Rightarrow> (string, pyfloat) dict res" where
  "settlement_features m pnl size_usd scores dir =
     (let fs = engine_credit m pnl dir scores;
          total = (\<lambda>engines. fsum (map (\<lambda>e. dget_default fs (e @ ''_quality'') fzero) engines));
          fs1 = dset ''sentient_stream_quality'' (total SENTIENT_ENGINES) (dset ''rational_stream_quality'' (total RATIONAL_ENGINES) fs)
      in rbind (py_div pnl (fmax size_usd (rnd (1 / 10 ^ 6)))) (\<lambda>q. Inr (dset ''rho_quality'' (m_tanh m q) fs1)))"

definition update_from_settlement ::
  "libm \<Rightarrow> bool \<Rightarrow> weights \<Rightarrow> phase \<Rightarrow> pyfloat \<Rightarrow> pyfloat \<Rightarrow> (string, pyfloat) dict \<Rightarrow> pyfloat \<Rightarrow> bool \<Rightarrow>
   (weight_updater, weights) prog" where
  "update_from_settlement m nv w ph pnl size_usd scores dir desperate =
     sbind (lift_res (settlement_features m pnl size_usd scores dir)) (\<lambda>fs. update_weights m nv w ph fs desperate)"

section \<open>The adapter\<close>

definition SLOT_KEY_ALIASES :: "(string, string) dict" where
  "SLOT_KEY_ALIASES =
     [(''smart_money'', ''surface_advantage''), (''sentiment_llm'', ''head_to_head''), (''crowd_volume'', ''rest_recency'')]"

definition alias_slot :: "string \<Rightarrow> string" where
  "alias_slot k = dget_default SLOT_KEY_ALIASES k k"

definition SCORE_PREFIX :: string where "SCORE_PREFIX = ''score_''"

definition unflatten_scores :: "(string, pyfloat) dict \<Rightarrow> (string, pyfloat) dict" where
  "unflatten_scores sig = fold_dict (List.map_filter (\<lambda>(k, v).
     if take (length SCORE_PREFIX) k = SCORE_PREFIX then Some (alias_slot (drop (length SCORE_PREFIX) k), v) else None) sig)"

definition PHASE_MAP :: "(string, phase) dict" where
  "PHASE_MAP =
     [(''PHASE_1_INFANCY'', PHASE_1_INFANCY), (''PHASE_2_APPRENTICE'', PHASE_2_APPRENTICE),
      (''PHASE_2_EXTENDED'', PHASE_2_APPRENTICE), (''PHASE_3_MASTER'', PHASE_3_MASTER),
      (''PHASE_4_TERMINAL'', PHASE_4_TERMINAL)]"

text \<open>The holder of the weights is the state beside the updater: its weights and its desperate flag.\<close>

record learner =
  lr_updater :: weight_updater
  lr_weights :: weights
  lr_desperate :: bool

definition learn :: "libm \<Rightarrow> bool \<Rightarrow> string \<Rightarrow> (string, pyfloat) dict \<Rightarrow> (learner, unit) prog" where
  "learn m nv label sig s =
     (case dget sig ''bet_direction'' of
        None \<Rightarrow> (Inr (), s)
      | Some dir \<Rightarrow>
          (case dget PHASE_MAP label of
             None \<Rightarrow> (Inl KeyError, s)
           | Some ph \<Rightarrow>
               (case update_from_settlement m nv (lr_weights s) ph (dget_default sig ''pnl_usd'' fzero)
                       (dget_default sig ''size_usd'' fzero) (unflatten_scores sig) dir (lr_desperate s) (lr_updater s) of
                  (Inl e, u) \<Rightarrow> (Inl e, s\<lparr>lr_updater := u\<rparr>)
                | (Inr w, u) \<Rightarrow> (Inr (), s\<lparr>lr_updater := u, lr_weights := w\<rparr>))))"

section \<open>Rounding\<close>

text \<open>What the library functions must keep on the range the code uses them on: finite doubles, an
  exponential that is not negative, at most one below zero and one at zero, a logarithm of moderate size, and
  a hyperbolic tangent that is a number on every number, infinities included.\<close>

definition libm_ok :: "libm \<Rightarrow> bool" where
  "libm_ok m =
     (m_exp m fzero = fone \<and>
      (\<forall>q. - 10 \<le> q \<and> q \<le> 10 \<and> f64 (Fin q) \<longrightarrow> num (m_exp m (Fin q)) \<and> fle fzero (m_exp m (Fin q)) \<and>
         (q \<le> 0 \<longrightarrow> fle (m_exp m (Fin q)) fone)) \<and>
      (\<forall>q. f64 (Fin q) \<and> 1 / 10 ^ 13 \<le> q \<and> q \<le> 2 ^ 30 \<longrightarrow> num (m_log m (Fin q)) \<and> fle (fabs (m_log m (Fin q))) (Fin 1000)) \<and>
      (\<forall>x. f64 x \<and> x \<noteq> NaN \<longrightarrow> num (m_tanh m x)))"

lemma np_sum_fsum: "f64 x \<Longrightarrow> np_sum (x # xs) = fsum (x # xs)"
  by (cases x) (simp_all add: np_sum_def fsum_def rnd_f64)

lemma np_clip_unit:
  assumes "u \<noteq> NaN" "f64 u"
  shows "\<exists>q. np_clip u (fneg LOGIT_CLIP) LOGIT_CLIP = Fin q \<and> - 5 \<le> q \<and> q \<le> 5 \<and> f64 (Fin q)"
proof -
  have "f64 (Fin 5)" "f64 (Fin (- 5))" by (simp_all add: f64_def rr_minus rr_numeral p2_def)
  then show ?thesis using assms
    by (cases u) (auto simp: np_clip_def np_minimum_def np_maximum_def LOGIT_CLIP_def isnan_def fmax_def fmin_def)
qed

lemma f64_dyadic_Fin: "f64 (Fin q) \<Longrightarrow> dyadic q"
  by (simp add: f64_dyadic)

lemma np_div_nonzero: "0 < s \<Longrightarrow> np_div x (Fin s) = fdiv x (Fin s)"
  by (simp add: np_div_def)

lemma rmap_py_div: "0 < s \<Longrightarrow> rmap (\<lambda>a. py_div a (Fin s)) xs = Inr (map (\<lambda>a. fdiv a (Fin s)) xs)"
  by (induction xs) (simp_all add: py_div_def)

text \<open>Probabilities as the updater writes them: non-negative doubles up to one that sum to one.\<close>

definition simplex :: "pyfloat list \<Rightarrow> bool" where
  "simplex xs = (list_all (\<lambda>x. \<exists>q. x = Fin q \<and> 0 \<le> q \<and> q \<le> 1 \<and> dyadic q) xs \<and>
     py_isclose (fsum xs) fone (rnd (1 / 1000000)) \<and> (\<exists>t. np_sum xs = Fin t \<and> 1 / 2 \<le> t))"

lemma dyadic_0: "dyadic 0"
  unfolding dyadic_def by (intro exI [of _ 0] exI [of _ 0]) simp

lemma sum_of_three:
  assumes "0 \<le> x" "0 \<le> y" "0 \<le> z" "x \<le> 2" "y \<le> 2" "z \<le> 2" "dyadic x"
  shows "np_sum [Fin x, Fin y, Fin z] = Fin (rr (rr (x + y) + z))" "np_sum [Fin x, Fin y] = Fin (rr (x + y))"
    "fsum [Fin x, Fin y, Fin z] = Fin (rr (rr (x + y) + z))" "fsum [Fin x, Fin y] = Fin (rr (x + y))"
proof -
  have p: "(2::rat) \<le> p2 1001" by (simp add: p2_def)
  have x: "rnd x = Fin x" using assms(1,4,7) rr_moderate [of x] by (simp add: rnd_in_range rr_dyadic)
  then have f: "f64 (Fin x)" by (metis f64_rnd)
  show three: "fsum [Fin x, Fin y, Fin z] = Fin (rr (rr (x + y) + z))"
    by (rule fsum_three) (use assms p in auto)
  show two: "fsum [Fin x, Fin y] = Fin (rr (x + y))"
    using assms x rr_moderate [of "x + y"] by (simp add: fsum_def rnd_in_range)
  show "np_sum [Fin x, Fin y, Fin z] = Fin (rr (rr (x + y) + z))" "np_sum [Fin x, Fin y] = Fin (rr (x + y))"
    using np_sum_fsum [OF f] three two by simp_all
qed

lemma renormalise_three:
  assumes "0 \<le> x" "0 \<le> y" "0 \<le> z" "x \<le> 2" "y \<le> 2" "z \<le> 2" "dyadic x" "dyadic y" "dyadic z"
    and "0 < rr (rr (x + y) + z)"
  shows "simplex (renormalise [Fin x, Fin y, Fin z])"
proof -
  from normalise_three_unit [OF assms(1-3,7-10)] obtain p q r where pqr: "0 \<le> p" "0 \<le> q" "0 \<le> r" "p \<le> 1" "q \<le> 1" "r \<le> 1"
    "dyadic p" "dyadic q" "dyadic r" "1 / 2 \<le> rr (rr (p + q) + r)"
    "rmap (\<lambda>a. py_div a (Fin (rr (rr (x + y) + z)))) [Fin x, Fin y, Fin z] = Inr [Fin p, Fin q, Fin r]"
    "py_isclose (fsum [Fin p, Fin q, Fin r]) fone (rnd (1 / 1000000))" by blast
  have "renormalise [Fin x, Fin y, Fin z] = [Fin p, Fin q, Fin r]"
    using pqr(11) assms(10) unfolding renormalise_def sum_of_three(1) [OF assms(1-7)] rmap_py_div [OF assms(10)]
    by (simp add: np_div_nonzero)
  moreover have "np_sum [Fin p, Fin q, Fin r] = Fin (rr (rr (p + q) + r))" using sum_of_three(1) [of p q r] pqr by simp
  ultimately show ?thesis using pqr by (simp add: simplex_def)
qed

lemma renormalise_two:
  assumes "0 \<le> x" "0 \<le> y" "x \<le> 2" "y \<le> 2" "dyadic x" "dyadic y" "0 < rr (x + y)"
  shows "simplex (renormalise [Fin x, Fin y])"
proof -
  have rr: "rr (rr (x + y) + 0) = rr (x + y)" by (simp add: rr_dyadic dyadic_rr)
  from normalise_three_unit [OF assms(1,2) order_refl assms(5,6) dyadic_0] assms(7) rr
  obtain p q r where pqr: "0 \<le> p" "0 \<le> q" "p \<le> 1" "q \<le> 1" "dyadic p" "dyadic q"
    "rmap (\<lambda>a. py_div a (Fin (rr (x + y)))) [Fin x, Fin y, fzero] = Inr [Fin p, Fin q, Fin r]"
    "1 / 2 \<le> rr (rr (p + q) + r)"
    "py_isclose (fsum [Fin p, Fin q, Fin r]) fone (rnd (1 / 1000000))" "0 \<le> r" "r \<le> 1" by auto
  have div: "fdiv (Fin x) (Fin (rr (x + y))) = Fin p" "fdiv (Fin y) (Fin (rr (x + y))) = Fin q" "r = 0"
    using pqr(7) rmap_py_div [OF assms(7)] by simp_all
  have "renormalise [Fin x, Fin y] = [Fin p, Fin q]"
    unfolding renormalise_def using sum_of_three(2) [OF assms(1,2) order_refl assms(3,4) _ assms(5)] assms(7) div(1,2)
    by (simp add: np_div_nonzero)
  moreover have "np_sum [Fin p, Fin q] = Fin (rr (p + q))" "fsum [Fin p, Fin q] = Fin (rr (p + q))"
    "fsum [Fin p, Fin q, Fin r] = Fin (rr (p + q))" "rr (rr (p + q) + r) = rr (p + q)"
    using sum_of_three [of p q 0] pqr div(3) by (simp_all add: rr_dyadic dyadic_rr)
  ultimately show ?thesis using pqr by (simp add: simplex_def)
qed

section \<open>One step stays on the simplex\<close>

text \<open>A clipped logit shifted by the largest one, and its exponential.\<close>

lemma shifted_exp:
  assumes m: "libm_ok m" and u: "- 5 \<le> u" "u \<le> 5" and M: "u \<le> M" "M \<le> 5"
  shows "\<exists>e. m_exp m (fsub (Fin u) (Fin M)) = Fin e \<and> 0 \<le> e \<and> e \<le> 1 \<and> dyadic e \<and> (u = M \<longrightarrow> e = 1)"
proof -
  have d: "- 10 \<le> u - M" "u - M \<le> 0" using assms by linarith+
  have "dyadic (- 10)" unfolding dyadic_def by (intro exI [of _ "- 10"] exI [of _ 0]) simp
  then have r: "- 10 \<le> rr (u - M)" "rr (u - M) \<le> 0"
    using rr_mono [OF d(1)] rr_mono [OF d(2)] by (simp_all add: rr_dyadic)
  then have f: "fsub (Fin u) (Fin M) = Fin (rr (u - M))"
    using rr_moderate [of "u - M"] d by (simp add: fsub_def rnd_in_range)
  have "f64 (Fin (rr (u - M)))" using f by (metis f64_rnd fsub_def fadd.simps(1) fneg.simps(1))
  then have e: "num (m_exp m (Fin (rr (u - M))))" "fle fzero (m_exp m (Fin (rr (u - M))))" "fle (m_exp m (Fin (rr (u - M)))) fone"
    using m r unfolding libm_ok_def by (metis order.trans zero_le_numeral)+
  have one: "u = M \<Longrightarrow> m_exp m (Fin (rr (u - M))) = fone" using m by (simp add: libm_ok_def)
  from e(1) obtain q where q: "m_exp m (Fin (rr (u - M))) = Fin q" "f64 (Fin q)" by (rule numE)
  show ?thesis unfolding f using q e(2,3) one f64_dyadic_Fin by (intro exI [of _ q]) auto
qed

lemma softmax_three:
  assumes m: "libm_ok m" and u: "list_all (\<lambda>x. \<exists>q. x = Fin q \<and> - 5 \<le> q \<and> q \<le> 5 \<and> f64 (Fin q)) [a, b, c]"
  shows "simplex (softmax m [a, b, c])"
proof -
  obtain x y z where xyz: "a = Fin x" "b = Fin y" "c = Fin z" "- 5 \<le> x" "x \<le> 5" "- 5 \<le> y" "y \<le> 5" "- 5 \<le> z" "z \<le> 5"
    using u by auto
  define M where "M = max (max x y) z"
  have M: "np_max [a, b, c] = Fin M" "x \<le> M" "y \<le> M" "z \<le> M" "M \<le> 5"
    using xyz by (auto simp: np_max_def np_maximum_def fmax_def isnan_def M_def max_def)
  obtain e f g where e: "m_exp m (fsub a (Fin M)) = Fin e" "0 \<le> e" "e \<le> 1" "dyadic e" "x = M \<longrightarrow> e = 1"
    and f: "m_exp m (fsub b (Fin M)) = Fin f" "0 \<le> f" "f \<le> 1" "dyadic f" "y = M \<longrightarrow> f = 1"
    and g: "m_exp m (fsub c (Fin M)) = Fin g" "0 \<le> g" "g \<le> 1" "dyadic g" "z = M \<longrightarrow> g = 1"
    using shifted_exp [OF m xyz(4,5) M(2,5)] shifted_exp [OF m xyz(6,7) M(3,5)] shifted_exp [OF m xyz(8,9) M(4,5)]
    unfolding xyz by blast
  have some: "e = 1 \<or> f = 1 \<or> g = 1" using e(5) f(5) g(5) by (auto simp: M_def max_def split: if_splits)
  have "rr (e + f) \<ge> 0" using e f by (simp add: rr_nonneg)
  moreover have "rr (e + f) \<ge> 1" if "e = 1 \<or> f = 1" using rr_mono [of 1 "e + f"] that e f by auto
  ultimately have "1 \<le> rr (e + f) + g" using some e f g by fastforce
  then have t: "1 \<le> rr (rr (e + f) + g)" using rr_mono by fastforce
  have sum: "np_sum [Fin e, Fin f, Fin g] = Fin (rr (rr (e + f) + g))" using sum_of_three(1) [of e f g] e f g by simp
  have "softmax m [a, b, c] = renormalise [Fin e, Fin f, Fin g]"
    unfolding softmax_def Let_def M(1) list.map e(1) f(1) g(1) using t sum by (simp add: renormalise_def)
  then show ?thesis using renormalise_three [of e f g] e f g t by simp
qed

lemma softmax_two:
  assumes m: "libm_ok m" and u: "list_all (\<lambda>x. \<exists>q. x = Fin q \<and> - 5 \<le> q \<and> q \<le> 5 \<and> f64 (Fin q)) [a, b]"
  shows "simplex (softmax m [a, b])"
proof -
  obtain x y where xy: "a = Fin x" "b = Fin y" "- 5 \<le> x" "x \<le> 5" "- 5 \<le> y" "y \<le> 5"
    using u by auto
  define M where "M = max x y"
  have M: "np_max [a, b] = Fin M" "x \<le> M" "y \<le> M" "M \<le> 5"
    using xy by (auto simp: np_max_def np_maximum_def fmax_def isnan_def M_def max_def)
  obtain e f where e: "m_exp m (fsub a (Fin M)) = Fin e" "0 \<le> e" "e \<le> 1" "dyadic e" "x = M \<longrightarrow> e = 1"
    and f: "m_exp m (fsub b (Fin M)) = Fin f" "0 \<le> f" "f \<le> 1" "dyadic f" "y = M \<longrightarrow> f = 1"
    using shifted_exp [OF m xy(3,4) M(2,4)] shifted_exp [OF m xy(5,6) M(3,4)] unfolding xy by blast
  have "e = 1 \<or> f = 1" using e(5) f(5) by (auto simp: M_def max_def split: if_splits)
  then have t: "1 \<le> rr (e + f)" using rr_mono [of 1 "e + f"] e f by auto
  have sum: "np_sum [Fin e, Fin f] = Fin (rr (e + f))" using sum_of_three(2) [of e f 0] e f by simp
  have "softmax m [a, b] = renormalise [Fin e, Fin f]"
    unfolding softmax_def Let_def M(1) list.map e(1) f(1) using t sum by (simp add: renormalise_def)
  then show ?thesis using renormalise_two [of e f] e f t by simp
qed

text \<open>Renormalising a probability vector once more.\<close>

lemma renormalise_simplex:
  assumes "simplex xs" "length xs = 3 \<or> length xs = 2" shows "simplex (renormalise xs)" "length (renormalise xs) = length xs"
proof -
  show "length (renormalise xs) = length xs" by (simp add: renormalise_def)
  consider (three) a b c where "xs = [a, b, c]" | (two) a b where "xs = [a, b]"
    using assms(2) by (auto simp: numeral_3_eq_3 numeral_2_eq_2 length_Suc_conv)
  then show "simplex (renormalise xs)"
  proof cases
    case three
    with assms(1) obtain x y z where q: "xs = [Fin x, Fin y, Fin z]" "0 \<le> x" "0 \<le> y" "0 \<le> z" "x \<le> 1" "y \<le> 1" "z \<le> 1"
      "dyadic x" "dyadic y" "dyadic z" by (auto simp: simplex_def)
    then have "1 / 2 \<le> rr (rr (x + y) + z)" using assms(1) sum_of_three(1) [of x y z] by (simp add: simplex_def)
    then show ?thesis using renormalise_three [of x y z] q by simp
  next
    case two
    with assms(1) obtain x y where q: "xs = [Fin x, Fin y]" "0 \<le> x" "0 \<le> y" "x \<le> 1" "y \<le> 1" "dyadic x" "dyadic y"
      by (auto simp: simplex_def)
    then have "1 / 2 \<le> rr (x + y)" using assms(1) sum_of_three(2) [of x y 0] by (simp add: simplex_def)
    then show ?thesis using renormalise_two [of x y] q by simp
  qed
qed

section \<open>The smoothed features\<close>

lemma rr_bound: "dyadic b \<Longrightarrow> \<bar>q\<bar> \<le> b \<Longrightarrow> \<bar>rr q\<bar> \<le> b"
  using rr_mono [of q b] rr_mono [of "- q" b] by (simp add: rr_dyadic rr_minus abs_le_iff)

text \<open>A double below one leaves a positive rest.\<close>

lemma rest_positive:
  assumes "f64 t" "flt t fone" "fle fzero t" shows "flt fzero (fsub fone t)" "fle (fsub fone t) fone" "f64 (fsub fone t)"
proof -
  obtain q where q: "t = Fin q" "0 \<le> q" "q < 1" "dyadic q" using assms f64_dyadic_Fin by (cases t) auto
  obtain k where k: "q = of_int k * p2 (- 1074)" using dyadic_multiple [OF q(4)] by blast
  have one: "(1::rat) = of_int (2 ^ 1074) * p2 (- 1074)" by (simp add: p2_def)
  have "of_int k * p2 (- 1074) < of_int (2 ^ 1074) * p2 (- 1074)" using q(3) k one by simp
  then have "k < 2 ^ 1074" by (simp only: mult_less_cancel_right_pos [OF p2_pos] of_int_less_iff)
  then have "(1::int) \<le> 2 ^ 1074 - k" by simp
  then have "of_int 1 \<le> (of_int (2 ^ 1074 - k) :: rat)" by (simp only: of_int_le_iff)
  then have "1 * p2 (- 1074) \<le> of_int (2 ^ 1074 - k) * p2 (- 1074)" by (intro mult_right_mono) (simp_all add: less_imp_le)
  also have "\<dots> = 1 - q" using one k by (simp add: left_diff_distrib)
  finally have "p2 (- 1074) \<le> 1 - q" by simp
  moreover have "dyadic (p2 (- 1074))" unfolding dyadic_def by (intro exI [of _ 1] exI [of _ "- 1074"]) simp
  ultimately have "p2 (- 1074) \<le> rr (1 - q)" using rr_mono rr_dyadic by metis
  then have r: "0 < rr (1 - q)" using p2_pos [of "- 1074"] by linarith
  have "rr (1 - q) \<le> 1" using rr_mono [of "1 - q" 1] q by simp
  moreover have "fsub fone t = Fin (rr (1 - q))" using rr_moderate [of "1 - q"] q by (simp add: fsub_def rnd_in_range)
  ultimately show "flt fzero (fsub fone t)" "fle (fsub fone t) fone" using r by simp_all
  show "f64 (fsub fone t)" using assms(1) by simp
qed

text \<open>Scaling by a number in the unit interval keeps a finite double finite.\<close>

lemma unit_scale:
  assumes "fle fzero t" "fle t fone" "num v" shows "num (fmul t v)"
proof -
  obtain a where a: "t = Fin a" "0 \<le> a" "a \<le> 1" using assms by (auto elim!: unit_Fin)
  obtain b where b: "v = Fin b" "f64 (Fin b)" using assms(3) by (rule numE)
  have "\<bar>a * b\<bar> \<le> \<bar>b\<bar>" using a by (simp add: abs_mult mult_left_le_one_le)
  moreover have "dyadic \<bar>b\<bar>" using f64_dyadic_Fin b by (metis f64_fabs fabs.simps(1))
  ultimately have "\<bar>rr (a * b)\<bar> \<le> \<bar>b\<bar>" by (intro rr_bound)
  moreover have "\<bar>b\<bar> < p2 1024" using b by (simp add: f64_def)
  ultimately have "rnd (a * b) = Fin (rr (a * b))" by (simp add: rnd_in_range)
  then show ?thesis using a b by (metis f64_rnd fmul.simps(1) isfinite.simps(1) num_def)
qed

definition ema_ok :: "pyfloat \<Rightarrow> (string, pyfloat) dict \<Rightarrow> bool" where
  "ema_ok tau ema = (\<forall>k v. dget ema k = Some v \<longrightarrow> v \<noteq> NaN \<and> f64 v \<and> (tau = fone \<longrightarrow> isfinite v))"

definition tau_ok :: "pyfloat \<Rightarrow> bool" where
  "tau_ok tau = (f64 tau \<and> flt fzero tau \<and> fle tau fone)"

lemma smooth_ok:
  assumes tau: "tau_ok tau" and ema: "ema_ok tau ema" and v: "num v"
  shows "ema_ok tau (smooth tau ema (k, v))"
proof -
  let ?e = "dget_default ema k v"
  have e: "?e \<noteq> NaN" "f64 ?e" "tau = fone \<Longrightarrow> isfinite ?e"
    using ema v num_finite [OF v] by (auto simp: ema_ok_def dget_default_def split: option.split)
  have t: "fle fzero tau" using tau by (cases tau) (auto simp: tau_ok_def)
  have fresh: "num (fmul tau v)" using unit_scale t tau v by (simp add: tau_ok_def)
  have new: "fadd (fmul tau v) (fmul (fsub fone tau) ?e) \<noteq> NaN" "f64 (fadd (fmul tau v) (fmul (fsub fone tau) ?e))"
    "tau = fone \<Longrightarrow> isfinite (fadd (fmul tau v) (fmul (fsub fone tau) ?e))"
  proof -
    have old: "fmul (fsub fone tau) ?e \<noteq> NaN \<and> f64 (fmul (fsub fone tau) ?e) \<and> (tau = fone \<longrightarrow> fmul (fsub fone tau) ?e = fzero)"
    proof (cases "tau = fone")
      case True
      then obtain q where "?e = Fin q" using e(3) by (cases ?e) auto
      then show ?thesis using True by (simp add: fsub_def)
    next
      case False
      then have "flt tau fone" using tau by (cases tau) (auto simp: tau_ok_def)
      then have r: "flt fzero (fsub fone tau)" "fle (fsub fone tau) fone" "f64 (fsub fone tau)"
        using rest_positive t tau by (simp_all add: tau_ok_def)
      then obtain a where a: "fsub fone tau = Fin a" "0 < a" by (cases "fsub fone tau") auto
      show ?thesis using a False e(1,2) by (cases ?e) (simp_all add: inf_of_sign_def)
    qed
    then show "fadd (fmul tau v) (fmul (fsub fone tau) ?e) \<noteq> NaN"
      using num_finite [OF fresh] by (cases "fmul tau v"; cases "fmul (fsub fone tau) ?e") auto
    show "f64 (fadd (fmul tau v) (fmul (fsub fone tau) ?e))"
      using num_finite [OF fresh] old by simp
    show "isfinite (fadd (fmul tau v) (fmul (fsub fone tau) ?e))" if "tau = fone"
      using old that fresh by (auto elim!: numE simp: rnd_f64)
  qed
  show ?thesis using ema new by (auto simp: ema_ok_def smooth_def dget_dset split: if_splits)
qed

lemma smooth_all_ok:
  assumes "tau_ok tau" shows "ema_ok tau ema \<Longrightarrow> list_all (\<lambda>(k, v). num v) fs \<Longrightarrow> ema_ok tau (foldl (smooth tau) ema fs)"
  by (induction fs arbitrary: ema) (auto intro: smooth_ok [OF assms])

section \<open>The parameters before and after\<close>

definition sound_weights :: "bool \<Rightarrow> weights \<Rightarrow> bool" where
  "sound_weights nv w = (live_weights nv w \<and> list_all (\<lambda>a. fle a (Fin 2)) (beta w))"

definition eta_ok :: "pyfloat \<Rightarrow> bool" where
  "eta_ok eta = (num eta \<and> flt fzero eta)"

text \<open>Doubles in \<open>[0, 2]\<close>, the components the logits are taken of.\<close>

definition parts :: "pyfloat list \<Rightarrow> bool" where
  "parts xs = list_all (\<lambda>x. \<exists>q. x = Fin q \<and> 0 \<le> q \<and> q \<le> 2 \<and> f64 (Fin q)) xs"

lemma floor_12: "rnd (1 / 10 ^ 12) = Fin (rr (1 / 10 ^ 12)) \<and> 1 / 10 ^ 13 \<le> rr (1 / 10 ^ 12) \<and> rr (1 / 10 ^ 12) \<le> 1 \<and> f64 (rnd (1 / 10 ^ 12))"
proof -
  have "rnd (1 / 10 ^ 12) = Fin (rr (1 / 10 ^ 12))" using rr_moderate [of "1 / 10 ^ 12"] by (simp add: rnd_in_range)
  moreover have "(1 / 10 ^ 13 :: rat) \<le> rr (1 / 10 ^ 12) \<and> rr (1 / 10 ^ 12) \<le> 1" by code_simp
  moreover have "f64 (rnd (1 / 10 ^ 12))" by (rule f64_rnd)
  ultimately show ?thesis by blast
qed

lemma part_log:
  assumes "libm_ok m" "0 \<le> q" "q \<le> 2" "f64 (Fin q)"
  shows "\<exists>l. m_log m (np_maximum (Fin q) (rnd (1 / 10 ^ 12))) = Fin l \<and> \<bar>l\<bar> \<le> 1000"
proof -
  obtain r where r: "rnd (1 / 10 ^ 12) = Fin r" "1 / 10 ^ 13 \<le> r" "r \<le> 1" "f64 (Fin r)" using floor_12 by metis
  define x where "x = (if q < r then r else q)"
  have x: "np_maximum (Fin q) (rnd (1 / 10 ^ 12)) = Fin x" "f64 (Fin x)" "1 / 10 ^ 13 \<le> x" "x \<le> 2"
    using r assms(2-4) by (auto simp: x_def np_maximum_def isnan_def fmax_def)
  have "x \<le> 2 ^ 30" using x(4) by (rule order.trans) simp
  then have "num (m_log m (Fin x)) \<and> fle (fabs (m_log m (Fin x))) (Fin 1000)"
    using assms(1) x(2,3) unfolding libm_ok_def by blast
  then show ?thesis unfolding x(1) by (auto elim!: numE)
qed

text \<open>Sums, means and differences of moderate numbers stay moderate.\<close>

lemma rnd_small:
  assumes "\<bar>q\<bar> \<le> of_nat n" "n \<le> 2 ^ 40" shows "rnd q = Fin (rr q)" "\<bar>rr q\<bar> \<le> of_nat n" "f64 (Fin (rr q))"
proof -
  have n: "(of_nat n :: rat) \<le> of_nat (2 ^ 40)" using assms(2) by (simp only: of_nat_le_iff)
  have "dyadic (of_nat n)" using dyadic_of_int [of "int n"] assms(2) by simp
  then show "\<bar>rr q\<bar> \<le> of_nat n" using assms(1) by (rule rr_bound)
  show r: "rnd q = Fin (rr q)" using rr_moderate [of q] assms(1) n by (simp add: rnd_in_range)
  show "f64 (Fin (rr q))" using f64_rnd [of q] unfolding r .
qed

lemma parts_logits:
  assumes m: "libm_ok m" and p: "parts p" and n: "length p = 3 \<or> length p = 2"
  shows "list_all num (logit_from_simplex m p)"
proof -
  define ls where "ls = map (\<lambda>x. m_log m (np_maximum x (rnd (1 / 10 ^ 12)))) p"
  have l: "list_all (\<lambda>x. \<exists>q. x = Fin q \<and> \<bar>q\<bar> \<le> of_nat 1000) ls"
    using p part_log [OF m] unfolding parts_def ls_def list_all_iff by fastforce
  have mean: "\<exists>q. np_div (np_sum ls) (flen ls) = Fin q \<and> \<bar>q\<bar> \<le> of_nat 3000"
  proof -
    have step: "\<exists>r. fadd (Fin q) (Fin q') = Fin r \<and> \<bar>r\<bar> \<le> of_nat (a + b)"
      if "\<bar>q\<bar> \<le> of_nat a" "\<bar>q'\<bar> \<le> of_nat b" "a + b \<le> 2 ^ 40" for q q' a b
      using rnd_small [of "q + q'" "a + b"] that abs_triangle_ineq [of q q'] by simp
    have "length ls = 3 \<or> length ls = 2" using n by (simp add: ls_def)
    then have "\<exists>s. np_sum ls = Fin s \<and> \<bar>s\<bar> \<le> of_nat 3000"
    proof
      assume "length ls = 3"
      then obtain x y z where q: "ls = [Fin x, Fin y, Fin z]" "\<bar>x\<bar> \<le> of_nat 1000" "\<bar>y\<bar> \<le> of_nat 1000" "\<bar>z\<bar> \<le> of_nat 1000"
        using l by (auto simp: numeral_3_eq_3 length_Suc_conv)
      obtain r where r: "fadd (Fin x) (Fin y) = Fin r" "\<bar>r\<bar> \<le> of_nat (1000 + 1000)" using step [OF q(2,3)] by auto
      show ?thesis using step [OF r(2) q(4)] r(1) by (simp add: np_sum_def q(1))
    next
      assume "length ls = 2"
      then obtain x y where q: "ls = [Fin x, Fin y]" "\<bar>x\<bar> \<le> of_nat 1000" "\<bar>y\<bar> \<le> of_nat 1000"
        using l by (auto simp: numeral_2_eq_2 length_Suc_conv)
      show ?thesis using step [OF q(2,3)] by (auto simp: np_sum_def q(1))
    qed
    then obtain s where s: "np_sum ls = Fin s" "\<bar>s\<bar> \<le> of_nat 3000" by blast
    have d: "flen ls = Fin 3 \<or> flen ls = Fin 2" using n by (auto simp: flen_def ls_def)
    have "\<bar>s / 3\<bar> \<le> of_nat 3000" "\<bar>s / 2\<bar> \<le> of_nat 3000" using s(2) by (simp_all add: abs_le_iff)
    then show ?thesis using d rnd_small [of "s / 3" 3000] rnd_small [of "s / 2" 3000] s(1) by (auto simp: np_div_def)
  qed
  then obtain a where a: "np_div (np_sum ls) (flen ls) = Fin a" "\<bar>a\<bar> \<le> of_nat 3000" by blast
  have "num (fsub (Fin q) (Fin a))" if "\<bar>q\<bar> \<le> of_nat 1000" for q
  proof -
    have "\<bar>q - a\<bar> \<le> of_nat 4000" using that a(2) by (simp add: abs_le_iff)
    then show ?thesis using rnd_small [of "q - a" 4000] by (simp add: fsub_def num_def)
  qed
  then show ?thesis unfolding logit_from_simplex_def ls_def [symmetric] Let_def a(1) using l by (auto simp: list_all_iff)
qed

text \<open>A step from finite logits lands in the clip range whatever the gradients are, NaN aside.\<close>

lemma step_not_NaN:
  assumes "num u" "eta_ok eta" "g \<noteq> NaN" shows "fadd u (fmul eta g) \<noteq> NaN"
proof -
  obtain e where e: "eta = Fin e" "0 < e" using assms(2) by (cases eta) (auto simp: eta_ok_def num_def)
  obtain x where x: "u = Fin x" using assms(1) by (auto elim!: numE)
  have "fmul eta g \<noteq> NaN" using e assms(3) by (cases g) (auto simp: inf_of_sign_def)
  then show ?thesis using x by (cases "fmul eta g") auto
qed

lemma stepped_ok:
  assumes "list_all num us" "eta_ok eta" "list_all (\<lambda>g. g \<noteq> NaN \<and> f64 g) gs" "length gs = length us"
  shows "list_all (\<lambda>x. \<exists>q. x = Fin q \<and> - 5 \<le> q \<and> q \<le> 5 \<and> f64 (Fin q)) (stepped eta us gs)"
    "length (stepped eta us gs) = length us"
proof -
  have "\<exists>q. np_clip (fadd u (fmul eta g)) (fneg LOGIT_CLIP) LOGIT_CLIP = Fin q \<and> - 5 \<le> q \<and> q \<le> 5 \<and> f64 (Fin q)"
    if "num u" "g \<noteq> NaN" "f64 g" for u g
    using that assms(2) by (intro np_clip_unit step_not_NaN) (auto simp: eta_ok_def num_def)
  then show "list_all (\<lambda>x. \<exists>q. x = Fin q \<and> - 5 \<le> q \<and> q \<le> 5 \<and> f64 (Fin q)) (stepped eta us gs)"
    using assms(1,3,4) by (simp add: stepped_def list_all_length)
  show "length (stepped eta us gs) = length us" using assms(4) by (simp add: stepped_def)
qed

text \<open>The scaler: its logit is finite, and the sigmoid of any clipped logit is in the unit interval.\<close>

lemma logit_scalar_ok:
  assumes m: "libm_ok m" and p: "p = Fin a" "0 \<le> a" "a \<le> 1" "f64 p"
  shows "\<exists>u. logit_scalar m p = Inr u \<and> num u"
proof -
  define lo where "lo = rr (1 / 10 ^ 6)"
  define hi where "hi = rr (1 - rr (1 / 10 ^ 6))"
  have lohi: "rnd (1 / 10 ^ 6) = Fin lo" "fsub fone (rnd (1 / 10 ^ 6)) = Fin hi" "1 / 10 ^ 7 \<le> lo" "lo \<le> hi" "hi \<le> 1"
    "1 / 10 ^ 7 \<le> rr (1 - hi)"
    unfolding lo_def hi_def by code_simp+
  have f: "f64 (Fin lo)" "f64 (Fin hi)" using f64_rnd [of "1 / 10 ^ 6"] lohi(1,2) by (metis f64_1 f64_fsub)+
  define s where "s = min hi (max lo a)"
  have s: "fmin (fsub fone (rnd (1 / 10 ^ 6))) (fmax (rnd (1 / 10 ^ 6)) p) = Fin s" "lo \<le> s" "s \<le> hi" "f64 (Fin s)"
    unfolding lohi(2) unfolding lohi(1) p(1) using lohi(4) f p(1,4) by (auto simp: s_def fmin_def fmax_def min_def max_def)
  define r where "r = rr (1 - s)"
  have "rr (1 - hi) \<le> r" "r \<le> 1" unfolding r_def using s lohi rr_mono [of "1 - hi" "1 - s"] rr_mono [of "1 - s" 1] by simp_all
  then have r: "1 / 10 ^ 7 \<le> r" "r \<le> 1" "0 < r" using lohi(6) by simp_all
  have sub: "fsub fone (Fin s) = Fin r"
    using rr_moderate [of "1 - s"] s(2,3) lohi by (simp add: fsub_def r_def rnd_in_range)
  have q: "s \<le> s / r" "s / r \<le> 10 ^ 7"
  proof -
    show "s \<le> s / r" using r s(2) lohi(3) by (simp add: pos_le_divide_eq mult_left_le)
    have "s * 1 \<le> 10 ^ 7 * r" using r(1) s(3) lohi(5) by simp
    then show "s / r \<le> 10 ^ 7" using r(3) by (simp add: pos_divide_le_eq)
  qed
  have d: "dyadic (10 ^ 7)" using dyadic_of_int [of "10 ^ 7"] by simp
  have "dyadic s" using s(4) f64_dyadic_Fin by blast
  then have b: "s \<le> rr (s / r)" "rr (s / r) \<le> 10 ^ 7" using rr_mono [OF q(1)] rr_mono [OF q(2)] d by (simp_all add: rr_dyadic)
  have "rnd (s / r) = Fin (rr (s / r))" using rr_moderate [of "s / r"] q s(2) lohi(3) by (simp add: rnd_in_range)
  moreover have "f64 (Fin (rr (s / r)))" using f64_rnd [of "s / r"] calculation by simp
  moreover have "1 / 10 ^ 13 \<le> rr (s / r)" "rr (s / r) \<le> 2 ^ 30" using b s(2) lohi(3) by simp_all
  ultimately have l: "num (m_log m (Fin (rr (s / r))))" "fdiv (Fin s) (Fin r) = Fin (rr (s / r))"
    using m unfolding libm_ok_def by auto
  then show ?thesis unfolding logit_scalar_def Let_def s(1) sub py_div_def using r(3) by simp
qed

lemma clipped_scaler:
  assumes "u \<noteq> NaN" "f64 u"
  shows "\<exists>q. fmax (fneg LOGIT_CLIP) (fmin LOGIT_CLIP u) = Fin q \<and> - 5 \<le> q \<and> q \<le> 5 \<and> f64 (Fin q)"
proof -
  have "f64 (Fin 5)" "f64 (Fin (- 5))" by (simp_all add: f64_def rr_minus rr_numeral p2_def)
  then show ?thesis using assms by (cases u) (auto simp: LOGIT_CLIP_def fmax_def fmin_def)
qed

lemma sigmoid_unit:
  assumes m: "libm_ok m" and q: "- 5 \<le> q" "q \<le> 5" "f64 (Fin q)"
  shows "\<exists>a. sigmoid m (Fin q) = Inr (Fin a) \<and> 0 \<le> a \<and> a \<le> 1 \<and> f64 (Fin a)"
proof -
  have clip: "fneg (fmax (Fin (- 50)) (fmin (Fin 50) (Fin q))) = Fin (- q)" using q by (simp add: fmax_def fmin_def)
  have "f64 (Fin (- q))" using q(3) by (simp add: f64_minus)
  then have e: "num (m_exp m (Fin (- q)))" "fle fzero (m_exp m (Fin (- q)))"
    using m q unfolding libm_ok_def by auto
  then obtain e where e: "m_exp m (Fin (- q)) = Fin e" "0 \<le> e" by (cases "m_exp m (Fin (- q))") (auto simp: num_def)
  have d: "f64 (rnd (1 + e))" "fle fone (rnd (1 + e))" using rnd_ge_f64 [of 1 "1 + e"] e(2) by simp_all
  show ?thesis
  proof (cases "rnd (1 + e)")
    case (Fin x)
    then have x: "1 \<le> x" using d by simp
    then have "0 \<le> 1 / x" "1 / x \<le> 1" by (simp_all add: pos_divide_le_eq)
    then have r: "rnd (1 / x) = Fin (rr (1 / x))" "0 \<le> rr (1 / x)" "rr (1 / x) \<le> 1"
      using rr_moderate [of "1 / x"] rr_mono [of "1 / x" 1] by (simp_all add: rnd_in_range rr_nonneg)
    then show ?thesis using x Fin e(1) f64_rnd [of "1 / x"] by (simp add: sigmoid_def clip py_div_def)
  next
    case PInf then show ?thesis using e(1) by (simp add: sigmoid_def clip py_div_def)
  qed (use d in simp_all)
qed

section \<open>What a sound parameter set gives the step\<close>

lemma sound_parts:
  assumes "sound_weights nv w"
  shows "parts (alpha w)" "length (alpha w) = 3" "parts (beta w)" "length (beta w) = 2" "parts [w_r w, w_s w]"
    "\<exists>a. fmax fzero (fmin fone (rho w)) = Fin a \<and> 0 \<le> a \<and> a \<le> 1 \<and> f64 (Fin a)"
    "py_isclose (fsum (beta w)) fone (rnd (1 / 1000000))" "py_isclose (fadd (w_r w) (w_s w)) fone (rnd (1 / 1000000))"
proof -
  have mk: "weights_fields_ok nv w" "validate_normalised w" "list_all f64 ([w_r w, w_s w, rho w] @ alpha w @ beta w)"
    "list_all (\<lambda>a. fle a (Fin 2)) (alpha w)" "list_all (\<lambda>a. fle a (Fin 2)) (beta w)"
    using assms by (auto simp: sound_weights_def live_weights_def mk_weights_Inr)
  have unit: "\<exists>q. x = Fin q \<and> 0 \<le> q \<and> q \<le> 2 \<and> f64 (Fin q)" if "\<not> flt x fzero" "fle x (Fin 2)" "f64 x" for x
    using that by (cases x) auto
  have neg: "\<not> list_ex (\<lambda>a. flt a fzero) (alpha w)" "\<not> list_ex (\<lambda>a. flt a fzero) (beta w)"
    "py_isclose (fsum (beta w)) fone (rnd (1 / 1000000))" "py_isclose (fadd (w_r w) (w_s w)) fone (rnd (1 / 1000000))"
    using mk(2) by (auto simp: validate_normalised_def Let_def split: if_splits)
  then show "py_isclose (fsum (beta w)) fone (rnd (1 / 1000000))" "py_isclose (fadd (w_r w) (w_s w)) fone (rnd (1 / 1000000))"
    by blast+
  show "parts (alpha w)" "parts (beta w)"
    using neg(1,2) mk(3-5) unit by (auto simp: parts_def list_all_iff list_ex_iff)
  show "length (alpha w) = 3" "length (beta w) = 2" using mk(1) by (auto simp: weights_fields_ok_def)
  have stream: "w_r w \<noteq> NaN" "w_s w \<noteq> NaN" using neg(4) by (cases "w_r w"; cases "w_s w"; simp add: py_isclose_NaN)+
  have "\<exists>q. x = Fin q \<and> 0 \<le> q \<and> q \<le> 2 \<and> f64 (Fin q)" if "pyd_ge nv fzero x" "pyd_le nv fone x" "f64 x" "x \<noteq> NaN" for x
    using that by (cases x) (auto simp: pyd_ge_def pyd_le_def isnan_def)
  then show "parts [w_r w, w_s w]" using mk(1,3) stream by (simp add: parts_def weights_fields_ok_def)
  have "f64 (rho w)" using mk(3) by simp
  then show "\<exists>a. fmax fzero (fmin fone (rho w)) = Fin a \<and> 0 \<le> a \<and> a \<le> 1 \<and> f64 (Fin a)"
    by (cases "rho w") (auto simp: fmax_def fmin_def)
qed

lemma ema_value:
  assumes "ema_ok tau fs" shows "dget_default fs k fzero \<noteq> NaN \<and> f64 (dget_default fs k fzero)"
  using assms by (auto simp: ema_ok_def dget_default_def split: option.split)

text \<open>A frozen pair is divided by its sum, which the validator holds near one.\<close>

lemma near_one_pos:
  assumes "py_isclose (Fin s) fone (rnd (1 / 1000000))" "0 \<le> s" shows "0 < s"
proof -
  have "\<not> py_isclose fzero fone (rnd (1 / 1000000))" by code_simp
  then have "s \<noteq> 0" using assms(1) by blast
  then show ?thesis using assms(2) by simp
qed

lemma frozen_pair:
  assumes "parts [a, b]" "py_isclose (fadd a b) fone (rnd (1 / 1000000))" shows "simplex (renormalise [a, b])"
proof -
  obtain x y where q: "a = Fin x" "b = Fin y" "0 \<le> x" "x \<le> 2" "0 \<le> y" "y \<le> 2" "dyadic x" "dyadic y"
    using assms(1) f64_dyadic_Fin by (auto simp: parts_def)
  then have "fadd a b = Fin (rr (x + y))" using rr_moderate [of "x + y"] by (simp add: rnd_in_range)
  then have "0 < rr (x + y)" using assms(2) near_one_pos q rr_nonneg [of "x + y"] by simp
  then show ?thesis using renormalise_two [of x y] q by simp
qed

section \<open>Properties\<close>

lemma simplex_facts:
  assumes "simplex [a, b]"
  shows "py_isclose (fadd a b) fone (rnd (1 / 1000000))" "pyd_ge nv fzero a" "pyd_le nv fone a" "pyd_ge nv fzero b" "pyd_le nv fone b"
proof -
  obtain x y where q: "a = Fin x" "b = Fin y" "0 \<le> x" "x \<le> 1" "0 \<le> y" "y \<le> 1" "dyadic x" "dyadic y"
    using assms by (auto simp: simplex_def)
  then have "fsum [a, b] = fadd a b" using sum_of_three(4) [of x y 0] rr_moderate [of "x + y"] by (simp add: rnd_in_range)
  then show "py_isclose (fadd a b) fone (rnd (1 / 1000000))" using assms by (simp add: simplex_def)
  show "pyd_ge nv fzero a" "pyd_le nv fone a" "pyd_ge nv fzero b" "pyd_le nv fone b" using q by simp_all
qed

lemma simplex_list:
  assumes "simplex xs"
  shows "list_all f64 xs" "list_all (\<lambda>a. fle a (Fin 2)) xs" "\<not> list_ex (\<lambda>a. flt a fzero) xs" "py_isclose (fsum xs) fone (rnd (1 / 1000000))"
proof -
  have "f64 (Fin q)" if "0 \<le> q" "q \<le> 1" "dyadic q" for q
    using that rr_moderate [of q] by (simp add: f64_def rr_dyadic)
  then show "list_all f64 xs" using assms by (auto simp: simplex_def list_all_iff)
  show "list_all (\<lambda>a. fle a (Fin 2)) xs" "\<not> list_ex (\<lambda>a. flt a fzero) xs" "py_isclose (fsum xs) fone (rnd (1 / 1000000))"
    using assms by (auto simp: simplex_def list_all_iff list_ex_iff)
qed

lemma simplices_sound:
  assumes "simplex (alpha w)" "length (alpha w) = 3" "simplex (beta w)" "length (beta w) = 2"
    "simplex [w_r w, w_s w]" "rho w = Fin c" "0 \<le> c" "c \<le> 1" "f64 (Fin c)"
  shows "sound_weights nv w"
proof -
  have "weights_fields_ok nv w" using assms(2,4,6-8) simplex_facts [OF assms(5)] by (simp add: weights_fields_ok_def)
  moreover have "validate_normalised w"
    using simplex_list [OF assms(1)] simplex_list [OF assms(3)] simplex_facts(1) [OF assms(5)]
    by (simp add: validate_normalised_def Let_def)
  moreover have "list_all f64 ([w_r w, w_s w, rho w] @ alpha w @ beta w)"
    using simplex_list(1) [OF assms(1)] simplex_list(1) [OF assms(3)] simplex_list(1) [OF assms(5)] assms(6,9) by simp
  ultimately show ?thesis using simplex_list(2) [OF assms(1)] simplex_list(2) [OF assms(3)]
    by (simp add: sound_weights_def live_weights_def mk_weights_Inr)
qed

lemma channel_step:
  assumes m: "libm_ok m" and e: "eta_ok eta"
    and p: "parts p" "length p = 3 \<or> length p = 2" "list_all (\<lambda>g. g \<noteq> NaN \<and> f64 g) gs" "length gs = length p"
  shows "simplex (softmax m (stepped eta (logit_from_simplex m p) gs))"
    "length (softmax m (stepped eta (logit_from_simplex m p) gs)) = length p"
proof -
  define us where "us = stepped eta (logit_from_simplex m p) gs"
  have l: "length (logit_from_simplex m p) = length p" by (simp add: logit_from_simplex_def Let_def)
  have ok: "list_all (\<lambda>x. \<exists>q. x = Fin q \<and> - 5 \<le> q \<and> q \<le> 5 \<and> f64 (Fin q)) us" "length us = length p"
    unfolding us_def using stepped_ok [OF parts_logits [OF m p(1,2)] e p(3)] p(4) l by simp_all
  show "length (softmax m (stepped eta (logit_from_simplex m p) gs)) = length p"
    using ok(2) unfolding us_def by (simp add: softmax_def Let_def)
  show "simplex (softmax m (stepped eta (logit_from_simplex m p) gs))"
  proof (cases "length us = 3")
    case True
    then obtain x y z where "us = [x, y, z]" by (auto simp: numeral_3_eq_3 length_Suc_conv)
    then show ?thesis using softmax_three [OF m, of x y z] ok(1) unfolding us_def by metis
  next
    case False
    then have "length us = 2" using ok(2) p(2) by simp
    then obtain x y where "us = [x, y]" by (auto simp: numeral_2_eq_2 length_Suc_conv)
    then show ?thesis using softmax_two [OF m, of x y] ok(1) unfolding us_def by metis
  qed
qed

lemma channel_renormalised:
  assumes "libm_ok m" "eta_ok eta" "parts p" "length p = 3 \<or> length p = 2"
    "list_all (\<lambda>g. g \<noteq> NaN \<and> f64 g) gs" "length gs = length p"
  shows "simplex (renormalise (softmax m (stepped eta (logit_from_simplex m p) gs)))"
    "length (renormalise (softmax m (stepped eta (logit_from_simplex m p) gs))) = length p"
  using channel_step [OF assms] renormalise_simplex assms(4) by simp_all

lemma engine_gradient:
  assumes "ema_ok tau fs"
  shows "list_all (\<lambda>g. g \<noteq> NaN \<and> f64 g) (gradient_from_features ns fs sfx)"
    "length (gradient_from_features ns fs sfx) = length ns"
  using ema_value [OF assms] by (simp_all add: gradient_from_features_def list_all_iff)

lemma gradient_step_sound:
  assumes m: "libm_ok m" and w: "sound_weights nv w" and e: "eta_ok eta" and fs: "ema_ok tau fs"
  shows "\<exists>w'. gradient_step m w ph fs eta = Inr w' \<and> sound_weights nv w'"
proof -
  note sp = sound_parts [OF w]
  obtain a where a: "fmax fzero (fmin fone (rho w)) = Fin a" "0 \<le> a" "a \<le> 1" "f64 (Fin a)" using sp(6) by blast
  obtain u where u: "logit_scalar m (Fin a) = Inr u" "num u" using logit_scalar_ok [OF m refl a(2-4)] by blast
  note g = engine_gradient(1) [OF fs] engine_gradient(2) [OF fs]
  have gw: "list_all (\<lambda>g. g \<noteq> NaN \<and> f64 g) [dget_default fs ''rational_stream_quality'' fzero, dget_default fs ''sentient_stream_quality'' fzero]"
    using ema_value [OF fs] by simp
  have r: "fadd u (fmul eta (dget_default fs ''rho_quality'' fzero)) \<noteq> NaN"
    "f64 (fadd u (fmul eta (dget_default fs ''rho_quality'' fzero)))"
    using step_not_NaN [OF u(2) e] ema_value [OF fs] u(2) e by (auto simp: eta_ok_def num_def)
  obtain q where q: "fmax (fneg LOGIT_CLIP) (fmin LOGIT_CLIP (fadd u (fmul eta (dget_default fs ''rho_quality'' fzero)))) = Fin q"
    "- 5 \<le> q" "q \<le> 5" "f64 (Fin q)" using clipped_scaler [OF r] by blast
  obtain c where c: "sigmoid m (Fin q) = Inr (Fin c)" "0 \<le> c" "c \<le> 1" "f64 (Fin c)" using sigmoid_unit [OF m q(2-4)] by blast
  define al where "al = renormalise (softmax m (stepped eta (logit_from_simplex m (alpha w)) (gradient_from_features RATIONAL_ENGINES fs ''quality'')))"
  define be where "be = renormalise (if ph = PHASE_1_INFANCY then beta w
           else softmax m (stepped eta (logit_from_simplex m (beta w)) (gradient_from_features SENTIENT_ENGINES fs ''quality'')))"
  define ws where "ws = renormalise (if ph = PHASE_1_INFANCY then [w_r w, w_s w]
           else softmax m (stepped eta (logit_from_simplex m [w_r w, w_s w])
             [dget_default fs ''rational_stream_quality'' fzero, dget_default fs ''sentient_stream_quality'' fzero]))"
  have len: "length (alpha w) = 3 \<or> length (alpha w) = 2" "length (beta w) = 3 \<or> length (beta w) = 2"
    "length [w_r w, w_s w] = 3 \<or> length [w_r w, w_s w] = 2"
    using sp(2,4) by simp_all
  have gl: "length (gradient_from_features RATIONAL_ENGINES fs ''quality'') = length (alpha w)"
    "length (gradient_from_features SENTIENT_ENGINES fs ''quality'') = length (beta w)"
    unfolding g(2) sp(2,4) by (simp_all add: RATIONAL_ENGINES_def SENTIENT_ENGINES_def)
  have al: "simplex al" "length al = 3"
    unfolding al_def using channel_renormalised [OF m e sp(1) len(1) g(1) gl(1)] unfolding sp(2) by blast+
  have be: "simplex be" "length be = 2"
  proof -
    obtain x y where xy: "beta w = [x, y]" using sp(4) by (auto simp: numeral_2_eq_2 length_Suc_conv)
    have "fsum [x, y] = fadd x y" using np_sum_fsum [of x "[y]"] sp(3) unfolding xy by (auto simp: np_sum_def parts_def)
    then have "simplex (renormalise (beta w))" using frozen_pair [of x y] sp(3,7) unfolding xy by simp
    moreover have "length (renormalise (beta w)) = 2" by (simp add: renormalise_def sp(4))
    ultimately show "simplex be" "length be = 2"
      unfolding be_def using channel_renormalised [OF m e sp(3) len(2) g(1) gl(2)] unfolding sp(4) by presburger+
  qed
  have ws: "simplex ws" "length ws = 2"
  proof -
    have "length (renormalise [w_r w, w_s w]) = 2" by (simp add: renormalise_def)
    then show "simplex ws" "length ws = 2"
      unfolding ws_def using channel_renormalised [OF m e sp(5) len(3) gw] frozen_pair [OF sp(5,8)] by (auto simp only: list.size split: if_splits)
  qed
  then obtain x y where xy: "ws = [x, y]" by (auto simp: numeral_2_eq_2 length_Suc_conv)
  let ?w = "\<lparr>w_r = ws ! 0, w_s = ws ! 1, alpha = al, beta = be, rho = Fin c\<rparr>"
  have step: "gradient_step m w ph fs eta = Inr ?w"
    by (simp only: gradient_step_def a(1) u(1) rbind_Inr Let_def q(1) c(1) al_def be_def ws_def)
  have "sound_weights nv ?w"
    by (rule simplices_sound) (use al be ws(1) xy c in simp_all)
  then show ?thesis using step by blast
qed

definition updater_ok :: "weight_updater \<Rightarrow> bool" where
  "updater_ok u = (eta_ok (effective_rate u True) \<and> eta_ok (effective_rate u False) \<and> tau_ok (wu_tau u) \<and> ema_ok (wu_tau u) (wu_ema u))"

lemma fresh_updater_ok:
  assumes "mk_weight_updater lr tau = Inr u" "num lr" "f64 tau" "fle lr (Fin (2 ^ 50))"
  shows "updater_ok u"
proof -
  have v: "\<not> fle lr fzero" "flt fzero tau" "fle tau fone" and u: "u = \<lparr>wu_lr = lr, wu_tau = tau, wu_ema = []\<rparr>"
    using assms(1) by (auto simp: mk_weight_updater_def split: if_splits)
  obtain q where q: "lr = Fin q" "f64 (Fin q)" "0 < q" "q \<le> 2 ^ 50" using assms(2,4) v(1) by (auto elim!: numE)
  have "q \<le> rr (q * 2)" using rr_mono [of q "q * 2"] q f64_dyadic_Fin [of q] by (simp add: rr_dyadic)
  moreover have "rnd (q * 2) = Fin (rr (q * 2))" using rr_moderate [of "q * 2"] q by (simp add: rnd_in_range)
  moreover have "f64 (rnd (q * 2))" by simp
  ultimately have "eta_ok (rnd (q * 2))" "eta_ok (Fin q)" using q(2,3) by (auto simp: eta_ok_def num_def)
  then show ?thesis
    using v assms(3) q(2) rnd_f64 [OF q(2)]
    by (simp add: updater_ok_def u q(1) effective_rate_def DESPERATE_LR_MULTIPLIER_def tau_ok_def ema_ok_def)
qed

lemma update_sound:
  assumes m: "libm_ok m" and u: "updater_ok u" and w: "sound_weights nv w"
    and fs: "list_all (\<lambda>(k, v). num v) fs" "\<not> list_ex lookahead_key (map fst fs)"
  shows "\<exists>w' r u'. update_with_delta m nv w ph fs desperate u = (Inr (w', r), u') \<and> sound_weights nv w' \<and> updater_ok u'"
proof (cases "frozen_phase ph desperate")
  case True
  then show ?thesis using u w fs(2) by (simp add: update_with_delta_def Let_def)
next
  case False
  define u' where "u' = u\<lparr>wu_ema := foldl (smooth (wu_tau u)) (wu_ema u) fs\<rparr>"
  have e: "eta_ok (effective_rate u desperate)" using u by (cases desperate) (simp_all add: updater_ok_def)
  have ema: "ema_ok (wu_tau u) (wu_ema u')"
    using u smooth_all_ok [of "wu_tau u" "wu_ema u" fs] fs(1) by (simp add: updater_ok_def u'_def)
  obtain w' where w': "gradient_step m w ph (wu_ema u') (effective_rate u desperate) = Inr w'" "sound_weights nv w'"
    using gradient_step_sound [OF m w e ema] by blast
  have "mk_weights nv w' = Inr w'" using w'(2) by (simp add: sound_weights_def live_weights_def)
  then have "update_with_delta m nv w ph fs desperate u = (Inr (w', step_record desperate (effective_rate u desperate) ph w w'), u')"
    unfolding update_with_delta_def Let_def u'_def [symmetric] w'(1) using False fs(2) by simp
  moreover have "updater_ok u'" using u ema by (simp add: updater_ok_def u'_def effective_rate_def)
  ultimately show ?thesis using w'(2) by blast
qed

text \<open>Signals of a settled bet as the poller flattens them: finite numbers, a direction of one or minus one, and
  the scores of known engines in the unit range.\<close>

definition engine_slots :: "string list" where
  "engine_slots = RATIONAL_ENGINES @ SENTIENT_ENGINES"

definition settled_signals :: "(string, pyfloat) dict \<Rightarrow> bool" where
  "settled_signals sig =
     ((dget sig ''bet_direction'' = Some fone \<or> dget sig ''bet_direction'' = Some (Fin (- 1))) \<and>
      list_all (\<lambda>(k, v). num v) sig \<and>
      list_all (\<lambda>(e, v). e \<in> set engine_slots \<and> fle (fabs v) fone) (unflatten_scores sig))"

lemma fold_dict_entries: "set (fold_dict kvs) \<subseteq> set kvs"
proof
  fix x assume x: "x \<in> set (fold_dict kvs)"
  then have "dget (fold_dict kvs) (fst x) = Some (snd x)"
    using map_of_is_SomeI [OF distinct_fold_dict, of "fst x" "snd x" kvs] by simp
  then have "dget (rev kvs) (fst x) = Some (snd x)" by (simp only: dget_fold_dict)
  then have "(fst x, snd x) \<in> set (rev kvs)" by (rule map_of_SomeD)
  then show "x \<in> set kvs" by simp
qed

lemma dset_entries: "set (dset k v d) \<subseteq> insert (k, v) (set d)"
  by (induction k v d rule: dset.induct) auto

text \<open>A credit is the score, its opposite or zero.\<close>

lemma credit_unit:
  assumes "num pnl" "d = fone \<or> d = Fin (- 1)" "num x" "fle (fabs x) fone"
  shows "\<exists>q. fmul (fmul (pnl_sign m pnl) d) x = Fin q \<and> \<bar>q\<bar> \<le> of_nat 1 \<and> f64 (Fin q)"
proof -
  obtain q where q: "x = Fin q" "f64 (Fin q)" "\<bar>q\<bar> \<le> 1" using assms(3,4) by (auto elim!: numE)
  obtain p where p: "pnl = Fin p" using assms(1) by (auto elim!: numE)
  have n: "f64 (Fin (- q))" "rnd (- q) = Fin (- q)" "rnd q = Fin q" using q(2) rnd_f64 f64_minus by simp_all
  have one: "rnd (- 1) = Fin (- 1)" by (rule rnd_f64) (simp add: f64_minus)
  have "pnl_sign m pnl \<in> {fzero, fone, Fin (- 1)}" by (simp add: pnl_sign_def p isnan_def)
  then show ?thesis using assms(2) q n one by (auto simp: f64_minus)
qed

lemma settlement_features_ok:
  assumes m: "libm_ok m" and pnl: "num pnl" and size: "num size_usd" and dir: "dir = fone \<or> dir = Fin (- 1)"
    and sc: "list_all (\<lambda>(e, v). e \<in> set engine_slots \<and> num v \<and> fle (fabs v) fone) scores"
  shows "\<exists>fs. settlement_features m pnl size_usd scores dir = Inr fs \<and> list_all (\<lambda>(k, v). num v) fs \<and>
    \<not> list_ex lookahead_key (map fst fs)"
proof -
  define fs where "fs = engine_credit m pnl dir scores"
  have entry: "(\<exists>e \<in> set engine_slots. k = e @ ''_quality'') \<and> (\<exists>q. v = Fin q \<and> \<bar>q\<bar> \<le> of_nat 1 \<and> f64 (Fin q))"
    if "(k, v) \<in> set fs" for k v
    using that fold_dict_entries sc credit_unit [OF pnl dir, of _ m] unfolding fs_def engine_credit_def list_all_iff by fastforce
  have get: "\<exists>q. dget_default fs k fzero = Fin q \<and> \<bar>q\<bar> \<le> of_nat 1 \<and> f64 (Fin q)" for k
  proof (cases "dget fs k")
    case (Some v)
    then show ?thesis using entry map_of_SomeD [OF Some] by (simp add: dget_default_def)
  qed (simp add: dget_default_def)
  have total: "num (fsum (map (\<lambda>e. dget_default fs (e @ ''_quality'') fzero) es))" if "length es \<le> 3" for es
  proof -
    have "\<exists>q. foldl fadd (Fin a) (map (\<lambda>e. dget_default fs (e @ ''_quality'') fzero) es) = Fin q \<and> f64 (Fin q)"
      if "\<bar>a\<bar> \<le> of_nat n" "f64 (Fin a)" "n + length es \<le> 2 ^ 40" for a n
      using that
    proof (induction es arbitrary: a n)
      case (Cons e es)
      obtain q where q: "dget_default fs (e @ ''_quality'') fzero = Fin q" "\<bar>q\<bar> \<le> of_nat 1" using get by blast
      have "\<bar>a + q\<bar> \<le> of_nat (n + 1)" using q(2) Cons.prems(1) abs_triangle_ineq [of a q] by simp
      then have r: "rnd (a + q) = Fin (rr (a + q))" "\<bar>rr (a + q)\<bar> \<le> of_nat (n + 1)" "f64 (Fin (rr (a + q)))"
        using rnd_small [of "a + q" "n + 1"] Cons.prems(3) by simp_all
      show ?case using Cons.IH [OF r(2,3)] Cons.prems(3) q(1) r(1) by simp
    qed simp
    from this [of 0 0] show ?thesis using that by (auto simp: fsum_def num_def)
  qed
  obtain q where q: "py_div pnl (fmax size_usd (rnd (1 / 10 ^ 6))) = Inr q" "f64 q" "q \<noteq> NaN"
  proof -
    have lo: "rnd (1 / 10 ^ 6) = Fin (rr (1 / 10 ^ 6))" "0 < rr (1 / 10 ^ 6)" by code_simp+
    obtain z where z: "size_usd = Fin z" using size by (auto elim!: numE)
    define s where "s = (if z < rr (1 / 10 ^ 6) then rr (1 / 10 ^ 6) else z)"
    have s: "fmax size_usd (rnd (1 / 10 ^ 6)) = Fin s" "0 < s" unfolding lo(1) z s_def using lo(2) by (auto simp: fmax_def)
    obtain a where "pnl = Fin a" using pnl by (auto elim!: numE)
    then show ?thesis using that [of "rnd (a / s)"] s by (simp add: py_div_def)
  qed
  define fs' where "fs' = dset ''rho_quality'' (m_tanh m q) (dset ''sentient_stream_quality''
    (fsum (map (\<lambda>e. dget_default fs (e @ ''_quality'') fzero) SENTIENT_ENGINES)) (dset ''rational_stream_quality''
    (fsum (map (\<lambda>e. dget_default fs (e @ ''_quality'') fzero) RATIONAL_ENGINES)) fs))"
  have eq: "settlement_features m pnl size_usd scores dir = Inr fs'"
    unfolding settlement_features_def Let_def fs_def [symmetric] q(1) rbind_Inr fs'_def ..
  have sub: "set fs' \<subseteq> insert (''rho_quality'', m_tanh m q) (insert (''sentient_stream_quality'',
      fsum (map (\<lambda>e. dget_default fs (e @ ''_quality'') fzero) SENTIENT_ENGINES)) (insert (''rational_stream_quality'',
      fsum (map (\<lambda>e. dget_default fs (e @ ''_quality'') fzero) RATIONAL_ENGINES)) (set fs)))"
    unfolding fs'_def using dset_entries by (meson insert_mono order.trans)
  have "num (m_tanh m q)" using m q(2,3) unfolding libm_ok_def by blast
  moreover have "num (fsum (map (\<lambda>e. dget_default fs (e @ ''_quality'') fzero) SENTIENT_ENGINES))"
    "num (fsum (map (\<lambda>e. dget_default fs (e @ ''_quality'') fzero) RATIONAL_ENGINES))"
    by (rule total, simp add: SENTIENT_ENGINES_def RATIONAL_ENGINES_def)+
  moreover have "num v" if "(k, v) \<in> set fs" for k v using entry [OF that] by (auto simp: num_def)
  ultimately have "list_all (\<lambda>(k, v). num v) fs'" using sub unfolding list_all_iff by blast
  moreover have "\<not> lookahead_key k" if "k \<in> fst ` set fs'" for k
  proof -
    have "list_all (\<lambda>e. \<not> lookahead_key (e @ ''_quality'')) engine_slots" by code_simp
    moreover have "\<not> lookahead_key ''rho_quality''" "\<not> lookahead_key ''sentient_stream_quality''"
      "\<not> lookahead_key ''rational_stream_quality''" by code_simp+
    ultimately show ?thesis using that sub entry unfolding list_all_iff by fastforce
  qed
  ultimately show ?thesis using eq by (intro exI [of _ fs']) (simp add: list_ex_iff)
qed

definition learner_ok :: "bool \<Rightarrow> learner \<Rightarrow> bool" where
  "learner_ok nv s = (updater_ok (lr_updater s) \<and> sound_weights nv (lr_weights s))"

lemma unflattened_num:
  assumes "list_all (\<lambda>(k, v). num v) sig" shows "list_all (\<lambda>(e, v). num v) (unflatten_scores sig)"
  using assms fold_dict_entries unfolding unflatten_scores_def list_all_iff
  by (fastforce simp: List.map_filter_def split: if_splits)

lemma learn_sound:
  assumes m: "libm_ok m" and s: "learner_ok nv s" and label: "label \<in> fst ` set PHASE_MAP" and sig: "settled_signals sig"
  shows "\<exists>s'. learn m nv label sig s = (Inr (), s') \<and> learner_ok nv s'"
proof -
  obtain ph where ph: "dget PHASE_MAP label = Some ph" using label by (metis map_of_eq_None_iff not_None_eq)
  obtain dir where dir: "dget sig ''bet_direction'' = Some dir" "dir = fone \<or> dir = Fin (- 1)"
    using sig by (auto simp: settled_signals_def)
  have n: "list_all (\<lambda>(k, v). num v) sig" using sig by (simp add: settled_signals_def)
  have num: "num (dget_default sig k fzero)" for k
    using n map_of_SomeD [of sig k] by (fastforce simp: dget_default_def list_all_iff num_def split: option.split)
  have sc: "list_all (\<lambda>(e, v). e \<in> set engine_slots \<and> num v \<and> fle (fabs v) fone) (unflatten_scores sig)"
    using sig unflattened_num [OF n] by (auto simp: settled_signals_def list_all_iff)
  obtain fs where fs: "settlement_features m (dget_default sig ''pnl_usd'' fzero) (dget_default sig ''size_usd'' fzero)
      (unflatten_scores sig) dir = Inr fs" "list_all (\<lambda>(k, v). num v) fs" "\<not> list_ex lookahead_key (map fst fs)"
    using settlement_features_ok [OF m num num dir(2) sc] by blast
  obtain w' r u' where w': "update_with_delta m nv (lr_weights s) ph fs (lr_desperate s) (lr_updater s) = (Inr (w', r), u')"
    "sound_weights nv w'" "updater_ok u'"
    using update_sound [OF m _ _ fs(2,3)] s unfolding learner_ok_def by blast
  have "update_from_settlement m nv (lr_weights s) ph (dget_default sig ''pnl_usd'' fzero) (dget_default sig ''size_usd'' fzero)
      (unflatten_scores sig) dir (lr_desperate s) (lr_updater s) = (Inr w', u')"
    by (simp add: update_from_settlement_def fs(1) lift_res_def sbind_def update_weights_def w'(1) ret_def)
  then have "learn m nv label sig s = (Inr (), s\<lparr>lr_updater := u', lr_weights := w'\<rparr>)"
    by (simp add: learn_def dir(1) ph)
  then show ?thesis using w'(2,3) by (simp add: learner_ok_def)
qed

text \<open>The poller's calls, one settled bet after the other, up to the first exception.\<close>

primrec learn_run :: "libm \<Rightarrow> bool \<Rightarrow> (string \<times> (string, pyfloat) dict) list \<Rightarrow> (learner, unit) prog" where
  "learn_run m nv [] = ret ()"
| "learn_run m nv (x # xs) = sbind (learn m nv (fst x) (snd x)) (\<lambda>_. learn_run m nv xs)"

text \<open>C24. Whatever settled bets are credited, in whatever phases and desperate or not, the learner never
  raises, and the parameters stay what the model validator demands: streams and engine weights that sum to one
  up to the tolerance, nothing negative, a risk scaler in its range.  The smoothed features may even overflow.\<close>

theorem learning_keeps_the_simplex:
  assumes "libm_ok m" "learner_ok nv s" "list_all (\<lambda>(label, sig). label \<in> fst ` set PHASE_MAP \<and> settled_signals sig) xs"
  shows "\<exists>s'. learn_run m nv xs s = (Inr (), s') \<and> learner_ok nv s' \<and> mk_weights nv (lr_weights s') = Inr (lr_weights s')"
  using assms(2,3)
proof (induction xs arbitrary: s)
  case Nil
  then show ?case by (simp add: ret_def learner_ok_def sound_weights_def live_weights_def)
next
  case (Cons x xs)
  obtain s1 where "learn m nv (fst x) (snd x) s = (Inr (), s1)" "learner_ok nv s1"
    using learn_sound [OF assms(1) Cons.prems(1), of "fst x" "snd x"] Cons.prems(2) by (auto split: prod.splits)
  then show ?case using Cons.IH [of s1] Cons.prems(2) by (simp add: sbind_def)
qed

definition demo_libm :: libm where
  "demo_libm = \<lparr>m_exp = (\<lambda>x. case x of Fin q \<Rightarrow> if q < 0 then Fin (1 / 2) else fone | NInf \<Rightarrow> fzero | _ \<Rightarrow> x),
     m_log = (\<lambda>x. fzero), m_tanh = (\<lambda>x. case x of Fin q \<Rightarrow> Fin (sgn q) | PInf \<Rightarrow> fone | NInf \<Rightarrow> Fin (- 1) | NaN \<Rightarrow> NaN),
     m_nan_sign = fone\<rparr>"

lemma demo_libm_ok: "libm_ok demo_libm"
proof -
  have "f64 (Fin (1 / 2))" "f64 (Fin (- 1))" by code_simp+
  then have "num (Fin (1 / 2))" "num fone" "num fzero" "num (Fin (- 1))" by (simp_all add: num_def)
  then show ?thesis unfolding libm_ok_def
    by (auto simp: demo_libm_def sgn_if f64_def split: pyfloat.splits)
qed

definition demo_learner :: learner where
  "demo_learner = \<lparr>lr_updater = \<lparr>wu_lr = DEFAULT_LEARNING_RATE, wu_tau = DEFAULT_EMA_TAU, wu_ema = []\<rparr>,
     lr_weights = demo_weights, lr_desperate = False\<rparr>"

definition demo_signals :: "(string, pyfloat) dict" where
  "demo_signals = [(''pnl_usd'', Fin (- 2)), (''size_usd'', Fin 2), (''score_tennis_technical'', Fin (- 1)),
     (''score_smart_money'', Fin (1 / 2)), (''bet_direction'', Fin (- 1))]"

lemma demo_learner_ok: "learner_ok False demo_learner"
proof -
  have "sound_weights False demo_weights" by code_simp
  moreover have "eta_ok (effective_rate (lr_updater demo_learner) True)" "eta_ok (effective_rate (lr_updater demo_learner) False)"
    unfolding eta_ok_def num_def by code_simp+
  moreover have "tau_ok DEFAULT_EMA_TAU" by code_simp
  ultimately show ?thesis by (simp add: learner_ok_def updater_ok_def ema_ok_def) (simp add: demo_learner_def ema_ok_def)
qed

lemma demo_settled: "settled_signals demo_signals"
proof -
  have f: "f64 (Fin (1 / 2))" "f64 (Fin (- 1))" "f64 (Fin (- 2))" "f64 (Fin 2)" by code_simp+
  have "unflatten_scores demo_signals = [(TENNIS_TECHNICAL, Fin (- 1)), (SURFACE_ADVANTAGE, Fin (1 / 2))]" by code_simp
  then show ?thesis using f by (simp add: settled_signals_def demo_signals_def num_def engine_slots_def RATIONAL_ENGINES_def)
qed

theorem learning_keeps_the_simplex_witness:
  "\<exists>s'. learn_run demo_libm False [(''PHASE_2_EXTENDED'', demo_signals), (''PHASE_1_INFANCY'', demo_signals)] demo_learner =
     (Inr (), s') \<and> mk_weights False (lr_weights s') = Inr (lr_weights s')"
proof -
  have "''PHASE_2_EXTENDED'' \<in> fst ` set PHASE_MAP" "''PHASE_1_INFANCY'' \<in> fst ` set PHASE_MAP" by code_simp+
  then show ?thesis
    using learning_keeps_the_simplex [OF demo_libm_ok demo_learner_ok,
      of "[(''PHASE_2_EXTENDED'', demo_signals), (''PHASE_1_INFANCY'', demo_signals)]"] demo_settled by auto
qed

text \<open>What happens before the step: a feature under a post-settlement key is refused before anything is touched; a
  frozen phase returns the parameters and the smoothed features as they were; otherwise the smoothing has happened
  by the time the step can fail.\<close>

lemma training_is_guarded:
  "update_with_delta m nv w ph fs desperate u =
     (if \<exists>k \<in> fst ` set fs. lookahead_key k then (Inl ValueError, u)
      else if ph = PHASE_4_TERMINAL \<or> ph = PHASE_3_MASTER \<and> \<not> desperate
      then (Inr (w, empty_record desperate (effective_rate u desperate) ph), u)
      else (fst (update_with_delta m nv w ph fs desperate u), u\<lparr>wu_ema := foldl (smooth (wu_tau u)) (wu_ema u) fs\<rparr>))"
  by (auto simp: update_with_delta_def Let_def frozen_phase_def list_ex_iff)

lemma frozen_learn:
  assumes "dget PHASE_MAP label = Some ph" "frozen_phase ph (lr_desperate s)" "learn m nv label sig s = (Inr (), s')"
  shows "s' = s"
proof (cases "dget sig ''bet_direction''")
  case None
  then show ?thesis using assms(3) by (simp add: learn_def)
next
  case (Some dir)
  have "u' = lr_updater s \<and> w' = lr_weights s"
    if "update_from_settlement m nv (lr_weights s) ph p z sc dir (lr_desperate s) (lr_updater s) = (Inr w', u')" for p z sc w' u'
    using that assms(2) by (auto simp: update_from_settlement_def sbind_def lift_res_def update_weights_def ret_def
      update_with_delta_def Let_def split: sum.splits if_splits)
  then show ?thesis using assms(1,3) Some by (auto simp: learn_def split: prod.splits sum.splits)
qed

text \<open>C25. Settled bets teach nothing in the terminal phase, nor in the master phase without the desperate flag:
  after any number of them the learner is the same, its smoothed features included.\<close>

theorem frozen_phases_learn_nothing:
  assumes "libm_ok m" "learner_ok nv s"
    and "list_all (\<lambda>(label, sig). settled_signals sig \<and> (dget PHASE_MAP label = Some PHASE_4_TERMINAL \<or>
           dget PHASE_MAP label = Some PHASE_3_MASTER \<and> \<not> lr_desperate s)) xs"
  shows "learn_run m nv xs s = (Inr (), s)"
  using assms(3)
proof (induction xs)
  case Nil
  then show ?case by (simp add: ret_def)
next
  case (Cons x xs)
  obtain label sig ph where x: "x = (label, sig)" "dget PHASE_MAP label = Some ph" "frozen_phase ph (lr_desperate s)" "settled_signals sig"
    using Cons.prems by (cases x) (auto simp: frozen_phase_def)
  then have "label \<in> fst ` set PHASE_MAP" by (metis fst_conv image_eqI map_of_SomeD)
  then obtain s' where s': "learn m nv label sig s = (Inr (), s')" using learn_sound [OF assms(1,2) _ x(4)] by blast
  then have "s' = s" by (rule frozen_learn [OF x(2,3)])
  then show ?case using Cons x(1) s' by (simp add: sbind_def)
qed

lemma fneg_zero_one [simp]: "fneg fzero = fzero" "fneg (fneg x) = x"
  by (cases x; simp)+

lemma dset_map: "dset k (f v) (map (\<lambda>(k, x). (k, f x)) d) = map (\<lambda>(k, x). (k, f x)) (dset k v d)"
  by (induction k v d rule: dset.induct) auto

lemma fold_dict_map: "fold_dict (map (\<lambda>(k, x). (k, f x)) kvs) = map (\<lambda>(k, x). (k, f x)) (fold_dict kvs)"
  by (induction kvs rule: rev_induct) (auto simp: fold_dict_snoc dset_map split: prod.splits)

lemma fmul_fneg_left: "fmul (fneg x) y = fneg (fmul x y)"
  by (cases x; cases y) (auto simp: inf_of_sign_def rnd_minus)

lemma fmul_fneg_right: "fmul x (fneg y) = fneg (fmul x y)"
  by (cases x; cases y) (auto simp: inf_of_sign_def rnd_minus)

text \<open>C26. Credit follows agreement with the bet: taking the other side with every score negated assigns the same
  features, so a won NO bet rewards the engines that scored against the outcome exactly as a won YES bet rewards
  those that scored for it; and negating the profit instead negates every engine's credit.\<close>

theorem credit_is_direction_aware:
  "settlement_features m pnl size_usd (map (\<lambda>(e, x). (e, fneg x)) scores) (fneg dir) = settlement_features m pnl size_usd scores dir \<and>
   (pnl \<noteq> NaN \<longrightarrow> engine_credit m (fneg pnl) dir scores = map (\<lambda>(k, x). (k, fneg x)) (engine_credit m pnl dir scores))"
proof
  have "fmul (fmul p (fneg dir)) (fneg x) = fmul (fmul p dir) x" for p x
    by (simp add: fmul_fneg_right fmul_fneg_left)
  then have "engine_credit m pnl (fneg dir) (map (\<lambda>(e, x). (e, fneg x)) scores) = engine_credit m pnl dir scores"
    by (simp add: engine_credit_def comp_def case_prod_unfold)
  then show "settlement_features m pnl size_usd (map (\<lambda>(e, x). (e, fneg x)) scores) (fneg dir) = settlement_features m pnl size_usd scores dir"
    by (simp add: settlement_features_def Let_def)
  show "pnl \<noteq> NaN \<longrightarrow> engine_credit m (fneg pnl) dir scores = map (\<lambda>(k, x). (k, fneg x)) (engine_credit m pnl dir scores)"
  proof
    assume "pnl \<noteq> NaN"
    then have "pnl_sign m (fneg pnl) = fneg (pnl_sign m pnl)" by (cases pnl) (auto simp: pnl_sign_def isnan_def)
    then show "engine_credit m (fneg pnl) dir scores = map (\<lambda>(k, x). (k, fneg x)) (engine_credit m pnl dir scores)"
      unfolding engine_credit_def fold_dict_map [symmetric] by (simp add: fmul_fneg_left comp_def case_prod_unfold)
  qed
qed

lemma infancy_step:
  assumes "sound_weights nv w" "update_with_delta m nv w PHASE_1_INFANCY fs desperate u = (Inr (w', r), u')"
  shows "beta w' = map (\<lambda>b. np_div b (np_sum (beta w))) (beta w)"
    and "[w_r w', w_s w'] = map (\<lambda>x. np_div x (fadd (w_r w) (w_s w))) [w_r w, w_s w]"
    and "np_sum (beta w) = fone \<Longrightarrow> beta w' = beta w"
    and "fadd (w_r w) (w_s w) = fone \<Longrightarrow> w_r w' = w_r w \<and> w_s w' = w_s w"
proof -
  have "(\<exists>k \<in> fst ` set fs. lookahead_key k) = False" using assms(2) by (auto simp: update_with_delta_def Let_def list_ex_iff split: if_splits)
  then have "beta w' = renormalise (beta w)" "[w_r w', w_s w'] = renormalise [w_r w, w_s w]"
    using assms(2) by (auto simp: update_with_delta_def Let_def frozen_phase_def gradient_step_def mk_weights_Inr renormalise_def split: if_splits)
  then show b: "beta w' = map (\<lambda>b. np_div b (np_sum (beta w))) (beta w)"
    and s: "[w_r w', w_s w'] = map (\<lambda>x. np_div x (fadd (w_r w) (w_s w))) [w_r w, w_s w]"
    by (simp_all add: renormalise_def np_sum_def)
  have one: "np_div x fone = x" if "\<exists>q. x = Fin q \<and> 0 \<le> q \<and> q \<le> 2 \<and> f64 (Fin q)" for x
    using that by (auto simp: np_div_def rnd_f64)
  then show "np_sum (beta w) = fone \<Longrightarrow> beta w' = beta w"
    using b sound_parts(3) [OF assms(1)] by (simp add: parts_def list_all_iff map_idI)
  show "fadd (w_r w) (w_s w) = fone \<Longrightarrow> w_r w' = w_r w \<and> w_s w' = w_s w"
    using s one sound_parts(5) [OF assms(1)] by (simp add: parts_def)
qed

text \<open>The Phase 1 freeze is a division by the sum: the sentient weights and the stream weights come back
  divided by their float sums, so they are kept bit for bit when these are exactly one, and moved otherwise even
  though the step is documented to leave them byte-identical.\<close>

theorem infancy_rescales_frozen_weights:
  assumes "sound_weights nv w" "update_with_delta m nv w PHASE_1_INFANCY fs desperate u = (Inr (w', r), u')"
  shows "beta w' = map (\<lambda>b. np_div b (np_sum (beta w))) (beta w) \<and>
    [w_r w', w_s w'] = map (\<lambda>x. np_div x (fadd (w_r w) (w_s w))) [w_r w, w_s w] \<and>
    (np_sum (beta w) = fone \<longrightarrow> beta w' = beta w) \<and>
    (fadd (w_r w) (w_s w) = fone \<longrightarrow> w_r w' = w_r w \<and> w_s w' = w_s w)"
  using infancy_step [OF assms] by blast

definition lopsided :: weights where
  "lopsided = demo_weights\<lparr>beta := [Fin (1 / 2 + 1 / 2 ^ 25), Fin (1 / 2)]\<rparr>"

theorem infancy_rescales_frozen_weights_witness:
  "sound_weights False lopsided \<and>
   (\<exists>w' r u'. update_with_delta demo_libm False lopsided PHASE_1_INFANCY [] False (lr_updater demo_learner) = (Inr (w', r), u') \<and>
      beta w' \<noteq> beta lopsided \<and> w_r w' = w_r lopsided)"
proof -
  have w: "sound_weights False lopsided" by code_simp
  have u: "updater_ok (lr_updater demo_learner)" using demo_learner_ok by (simp add: learner_ok_def)
  obtain w' r u' where step: "update_with_delta demo_libm False lopsided PHASE_1_INFANCY [] False (lr_updater demo_learner) = (Inr (w', r), u')"
    using update_sound [OF demo_libm_ok u w, where fs = "[]" and ph = PHASE_1_INFANCY and desperate = False] by fastforce
  have "map (\<lambda>b. np_div b (np_sum (beta lopsided))) (beta lopsided) \<noteq> beta lopsided" by code_simp
  moreover have "fadd (w_r lopsided) (w_s lopsided) = fone" by code_simp
  ultimately show ?thesis
    using infancy_rescales_frozen_weights [OF w step] w step by (metis (no_types, lifting))
qed

theorem frozen_phases_learn_nothing_witness:
  "learn_run demo_libm False [(''PHASE_3_MASTER'', demo_signals), (''PHASE_4_TERMINAL'', demo_signals)] demo_learner = (Inr (), demo_learner)"
proof -
  have "dget PHASE_MAP ''PHASE_3_MASTER'' = Some PHASE_3_MASTER" "dget PHASE_MAP ''PHASE_4_TERMINAL'' = Some PHASE_4_TERMINAL"
    by code_simp+
  then show ?thesis
    using demo_settled by (intro frozen_phases_learn_nothing [OF demo_libm_ok demo_learner_ok]) (simp add: demo_learner_def)
qed

theorem credit_is_direction_aware_witness:
  "engine_credit demo_libm (fneg (Fin 2)) fone [(TENNIS_TECHNICAL, Fin (1 / 2))] =
     map (\<lambda>(k, x). (k, fneg x)) (engine_credit demo_libm (Fin 2) fone [(TENNIS_TECHNICAL, Fin (1 / 2))]) \<and>
   engine_credit demo_libm (Fin 2) fone [(TENNIS_TECHNICAL, Fin (1 / 2))] = [(''tennis_technical_quality'', Fin (1 / 2))]"
proof -
  have "engine_credit demo_libm (Fin 2) fone [(TENNIS_TECHNICAL, Fin (1 / 2))] = [(''tennis_technical_quality'', Fin (1 / 2))]"
    by code_simp
  then show ?thesis
    using credit_is_direction_aware [of demo_libm "Fin 2" fone "[(TENNIS_TECHNICAL, Fin (1 / 2))]" fone] by simp
qed

end
