(* ===== verification/ErrorText.thy ===== *)
theory ErrorText
  imports Prelude
begin

text \<open>
  The texts the runner persists about a crash (\<open>server/runner.py\<close>): UTF-8 with replacement, the tail
  truncation of a traceback, and the error envelope.  A Python string is the list of its code points.
\<close>

section \<open>UTF-8\<close>

type_synonym pytext = "nat list"

definition surrogate :: "nat \<Rightarrow> bool" where
  "surrogate c = (0xD800 \<le> c \<and> c < 0xE000)"

text \<open>\<open>str.encode("utf-8", errors="replace")\<close>: a lone surrogate becomes a question mark.\<close>

definition utf8_char :: "nat \<Rightarrow> nat list" where
  "utf8_char c =
     (if c < 0x80 then [c]
      else if c < 0x800 then [0xC0 + c div 64, 0x80 + c mod 64]
      else if surrogate c then [0x3F]
      else if c < 0x10000 then [0xE0 + c div 4096, 0x80 + c div 64 mod 64, 0x80 + c mod 64]
      else [0xF0 + c div 262144, 0x80 + c div 4096 mod 64, 0x80 + c div 64 mod 64, 0x80 + c mod 64])"

definition utf8_encode :: "pytext \<Rightarrow> nat list" where
  "utf8_encode t = concat (map utf8_char t)"

definition is_cont :: "nat \<Rightarrow> bool" where
  "is_cont b = (0x80 \<le> b \<and> b < 0xC0)"

text \<open>The number of continuation bytes a lead byte announces, and the range of the first of them.\<close>

definition utf8_len :: "nat \<Rightarrow> nat option" where
  "utf8_len b =
     (if b < 0x80 then Some 0 else if b < 0xC2 then None else if b < 0xE0 then Some 1
      else if b < 0xF0 then Some 2 else if b < 0xF5 then Some 3 else None)"

definition second_ok :: "nat \<Rightarrow> nat \<Rightarrow> bool" where
  "second_ok b c = (is_cont c \<and> (b = 0xE0 \<longrightarrow> 0xA0 \<le> c) \<and> (b = 0xED \<longrightarrow> c < 0xA0) \<and> (b = 0xF0 \<longrightarrow> 0x90 \<le> c) \<and> (b = 0xF4 \<longrightarrow> c < 0x90))"

definition matched :: "nat \<Rightarrow> nat \<Rightarrow> nat list \<Rightarrow> nat" where
  "matched k b bs = (case take k bs of [] \<Rightarrow> 0 | c # cs \<Rightarrow> if second_ok b c then Suc (length (takeWhile is_cont cs)) else 0)"

definition utf8_value :: "nat \<Rightarrow> nat \<Rightarrow> nat list \<Rightarrow> nat" where
  "utf8_value k b bs = foldl (\<lambda>a c. a * 64 + c mod 64) (if k = 0 then b else b mod 2 ^ (6 - k)) (take k bs)"

definition REPLACEMENT :: nat where "REPLACEMENT = 0xFFFD"

text \<open>\<open>bytes.decode("utf-8", errors="replace")\<close>: the longest prefix of a sequence that cannot be completed
  becomes one replacement character.\<close>

fun utf8_decode :: "nat list \<Rightarrow> pytext" where
  "utf8_decode [] = []"
| "utf8_decode (b # bs) =
     (case utf8_len b of
        None \<Rightarrow> REPLACEMENT # utf8_decode bs
      | Some k \<Rightarrow>
          if matched k b bs = k then utf8_value k b bs # utf8_decode (drop k bs)
          else REPLACEMENT # utf8_decode (drop (matched k b bs) bs))"

definition unicode :: "nat \<Rightarrow> bool" where
  "unicode c = (c < 0x110000)"

definition scrub :: "nat \<Rightarrow> nat" where
  "scrub c = (if surrogate c then 0x3F else c)"

section \<open>The traceback\<close>

definition MAX_TRACEBACK_BYTES :: nat where "MAX_TRACEBACK_BYTES = 2048"

definition TRACEBACK_TRUNC_MARKER :: pytext where
  "TRACEBACK_TRUNC_MARKER = map of_char ''[...truncated...]\<newline>''"

text \<open>\<open>encoded[-keep:]\<close> and \<open>encoded[:n]\<close> with a positive count.\<close>

definition last_bytes :: "nat \<Rightarrow> 'a list \<Rightarrow> 'a list" where
  "last_bytes n bs = drop (length bs - n) bs"

definition truncate_traceback :: "pytext \<Rightarrow> pytext" where
  "truncate_traceback text =
     (let encoded = utf8_encode text; marker_bytes = utf8_encode TRACEBACK_TRUNC_MARKER in
      if length encoded \<le> MAX_TRACEBACK_BYTES then text
      else if MAX_TRACEBACK_BYTES \<le> length marker_bytes then utf8_decode (take MAX_TRACEBACK_BYTES encoded)
      else TRACEBACK_TRUNC_MARKER @ utf8_decode (last_bytes (MAX_TRACEBACK_BYTES - length marker_bytes) encoded))"

section \<open>Decoding what was encoded\<close>

lemma utf8_encode_simps [simp]:
  "utf8_encode [] = []" "utf8_encode (c # t) = utf8_char c @ utf8_encode t" "utf8_encode (s @ t) = utf8_encode s @ utf8_encode t"
  by (simp_all add: utf8_encode_def)

lemma utf8_char_scrub: "utf8_char (scrub c) = utf8_char c"
  by (simp add: scrub_def utf8_char_def surrogate_def)

declare utf8_decode.simps(2) [simp del]

lemma decode_whole:
  assumes "utf8_len b = Some k" "matched k b bs = k" "utf8_value k b bs = c" "drop k bs = bs'"
  shows "utf8_decode (b # bs) = c # utf8_decode bs'"
  using assms by (simp add: utf8_decode.simps)

lemma cont_mod: "(0x80 + x mod 64) mod 64 = x mod (64::nat)"
proof -
  have "(128 + x mod 64) mod 64 = (2 * 64 + x mod 64) mod 64" by simp
  also have "\<dots> = x mod 64" by (simp only: mod_mult_self3 mod_mod_trivial)
  finally show ?thesis .
qed

lemma cont_byte [simp]: "is_cont (128 + x mod 64)"
  by (simp add: is_cont_def)

lemma lead_mod: "x < m \<Longrightarrow> (k * m + x) mod m = (x::nat)"
  by simp

lemma split64: "c div 64 * 64 + c mod 64 = (c::nat)"
  by simp

lemma div_4096: "c div 4096 = c div 64 div (64::nat)"
  by (simp add: div_mult2_eq [symmetric])

lemma div_262144: "c div 262144 = c div 64 div 64 div (64::nat)"
  by (simp add: div_mult2_eq [symmetric])

text \<open>The two- to four-byte forms, with \<open>y\<close>, \<open>z\<close> and \<open>v\<close> the quotients by 64, 4096 and 262144.\<close>

lemma decode_two:
  assumes "0xC2 \<le> 0xC0 + y" "y < 32"
  shows "utf8_decode ((0xC0 + y) # (0x80 + c mod 64) # bs) = (y * 64 + c mod 64) # utf8_decode bs"
proof (rule decode_whole)
  have "(6 * 32 + y) mod 32 = y" using assms(2) by (rule lead_mod)
  then have "(192 + y) mod 32 = y" by simp
  then show "utf8_value 1 (0xC0 + y) ((0x80 + c mod 64) # bs) = y * 64 + c mod 64" by (simp add: utf8_value_def cont_mod)
  show "utf8_len (0xC0 + y) = Some 1" using assms by (simp add: utf8_len_def)
  show "matched 1 (0xC0 + y) ((0x80 + c mod 64) # bs) = 1" using assms(2) by (simp add: matched_def second_ok_def)
qed simp

lemma decode_three:
  assumes "z < 16" "second_ok (0xE0 + z) (0x80 + y mod 64)"
  shows "utf8_decode ((0xE0 + z) # (0x80 + y mod 64) # (0x80 + c mod 64) # bs) = ((z * 64 + y mod 64) * 64 + c mod 64) # utf8_decode bs"
proof (rule decode_whole)
  have "(14 * 16 + z) mod 16 = z" using assms(1) by (rule lead_mod)
  then have "(224 + z) mod 16 = z" by simp
  then show "utf8_value 2 (0xE0 + z) ((0x80 + y mod 64) # (0x80 + c mod 64) # bs) = (z * 64 + y mod 64) * 64 + c mod 64"
    by (simp add: utf8_value_def cont_mod)
  show "utf8_len (0xE0 + z) = Some 2" using assms(1) by (simp add: utf8_len_def)
  show "matched 2 (0xE0 + z) ((0x80 + y mod 64) # (0x80 + c mod 64) # bs) = 2" using assms(2) by (simp add: matched_def)
qed simp

lemma decode_four:
  assumes "v < 5" "second_ok (0xF0 + v) (0x80 + z mod 64)"
  shows "utf8_decode ((0xF0 + v) # (0x80 + z mod 64) # (0x80 + y mod 64) # (0x80 + c mod 64) # bs) =
     (((v * 64 + z mod 64) * 64 + y mod 64) * 64 + c mod 64) # utf8_decode bs"
proof (rule decode_whole)
  have "v < 8" using assms(1) by simp
  then have "(30 * 8 + v) mod 8 = v" by (rule lead_mod)
  then have "(240 + v) mod 8 = v" by simp
  then show "utf8_value 3 (0xF0 + v) ((0x80 + z mod 64) # (0x80 + y mod 64) # (0x80 + c mod 64) # bs) =
      ((v * 64 + z mod 64) * 64 + y mod 64) * 64 + c mod 64"
    by (simp add: utf8_value_def cont_mod)
  show "utf8_len (0xF0 + v) = Some 3" using assms(1) by (simp add: utf8_len_def)
  show "matched 3 (0xF0 + v) ((0x80 + z mod 64) # (0x80 + y mod 64) # (0x80 + c mod 64) # bs) = 3"
    using assms(2) by (simp add: matched_def)
qed simp

lemma decode_ascii: "c < 0x80 \<Longrightarrow> utf8_decode (c # bs) = c # utf8_decode bs"
  by (rule decode_whole [of _ 0]) (simp_all add: utf8_len_def matched_def utf8_value_def)

lemma decode_char:
  assumes "unicode c" shows "utf8_decode (utf8_char c @ bs) = scrub c # utf8_decode bs"
proof -
  define y z v where "y = c div 64" and "z = y div 64" and "v = z div 64"
  have c: "c = y * 64 + c mod 64" "y = z * 64 + y mod 64" "z = v * 64 + z mod 64"
    unfolding z_def v_def unfolding y_def by (simp_all only: split64)
  have m: "c mod 64 < 64" "y mod 64 < 64" "z mod 64 < 64" by simp_all
  have q: "c div 64 = y" "c div 4096 = z" "c div 262144 = v"
    by (simp_all add: y_def z_def v_def div_4096 div_262144)
  consider (one) "c < 0x80" | (two) "0x80 \<le> c" "c < 0x800" | (sur) "0x800 \<le> c" "surrogate c"
    | (three) "0x800 \<le> c" "c < 0x10000" "\<not> surrogate c" | (four) "0x10000 \<le> c" "c < 0x110000"
    using assms unfolding unicode_def surrogate_def by linarith
  then show ?thesis
  proof cases
    case one
    then show ?thesis by (simp add: utf8_char_def decode_ascii scrub_def surrogate_def)
  next
    case two
    then have "2 \<le> y" "y < 32" using c(1) m(1) by linarith+
    then show ?thesis using two decode_two [of y c bs] c(1) by (simp add: utf8_char_def scrub_def surrogate_def q)
  next
    case sur
    then show ?thesis by (simp add: utf8_char_def decode_ascii scrub_def)
  next
    case three
    have y: "32 \<le> y" "y < 1024" using three c(1) m(1) by linarith+
    then have z: "z < 16" using c(2) by linarith
    have "z = 0 \<Longrightarrow> 32 \<le> y mod 64" using y(1) c(2) by linarith
    moreover have "y mod 64 < 32" if "z = 13"
    proof -
      have "832 \<le> y" "y < 896" using that c(2) m(2) by linarith+
      then show ?thesis using that c(1,2) m(1) three(3) unfolding surrogate_def by linarith
    qed
    ultimately have "second_ok (0xE0 + z) (0x80 + y mod 64)" using z by (simp add: second_ok_def)
    then show ?thesis using three decode_three [OF z, of y c bs] c(1,2) by (simp add: utf8_char_def scrub_def q)
  next
    case four
    have "1024 \<le> y" "y < 17408" using four c(1) m(1) by linarith+
    then have z: "16 \<le> z" "z < 272" using c(2) m(2) by linarith+
    then have v: "v < 5" "v = 0 \<Longrightarrow> 16 \<le> z mod 64" "v = 4 \<Longrightarrow> z mod 64 < 16" using c(3) m(3) by linarith+
    then have "second_ok (0xF0 + v) (0x80 + z mod 64)" by (simp add: second_ok_def)
    then show ?thesis using four decode_four [OF v(1), of z y c bs] c by (simp add: utf8_char_def scrub_def surrogate_def q)
  qed
qed

lemma decode_encode: "list_all unicode t \<Longrightarrow> utf8_decode (utf8_encode t @ bs) = map scrub t @ utf8_decode bs"
  by (induction t) (simp_all add: decode_char)

lemma encode_scrub: "utf8_encode (map scrub t) = utf8_encode t"
  by (induction t) (simp_all add: utf8_char_scrub)

lemma decode_conts: "list_all is_cont os \<Longrightarrow> utf8_decode (os @ bs) = replicate (length os) REPLACEMENT @ utf8_decode bs"
  by (induction os) (simp_all add: utf8_decode.simps is_cont_def utf8_len_def)

section \<open>The cut\<close>

text \<open>A character is a lead byte and at most three continuation bytes.\<close>

lemma char_bytes:
  obtains b os where "utf8_char c = b # os" "list_all is_cont os" "length os \<le> 3" "unicode c \<Longrightarrow> \<not> is_cont b"
  by (cases "c < 0x80"; cases "c < 0x800"; cases "surrogate c"; cases "c < 0x10000")
    (auto simp: utf8_char_def is_cont_def unicode_def)

lemma list_all_drop: "list_all P xs \<Longrightarrow> list_all P (drop n xs)"
  by (auto simp: list_all_iff dest: in_set_dropD)

lemma encode_starts: "list_all unicode t \<Longrightarrow> takeWhile is_cont (utf8_encode t) = []"
proof (cases t)
  case (Cons c t')
  obtain b os where "utf8_char c = b # os" "unicode c \<Longrightarrow> \<not> is_cont b" using char_bytes [of c] by metis
  moreover assume "list_all unicode t"
  ultimately show ?thesis using Cons by simp
qed simp

lemma cut:
  assumes "list_all unicode t"
  shows "\<exists>os t'. drop n (utf8_encode t) = os @ utf8_encode t' \<and> list_all is_cont os \<and> length os \<le> 3 \<and> list_all unicode t'"
  using assms
proof (induction t arbitrary: n)
  case Nil
  then show ?case by (intro exI [of _ "[]"]) simp
next
  case (Cons c t)
  obtain b os where b: "utf8_char c = b # os" "list_all is_cont os" "length os \<le> 3" using char_bytes [of c] by metis
  show ?case
  proof (cases n)
    case 0
    then show ?thesis using Cons.prems by (intro exI [of _ "[]"] exI [of _ "c # t"]) simp
  next
    case (Suc m)
    show ?thesis
    proof (cases "m \<le> length os")
      case True
      then have "drop n (utf8_encode (c # t)) = drop m os @ utf8_encode t" using Suc b(1) by simp
      moreover have "list_all is_cont (drop m os)" "length (drop m os) \<le> 3" using b(2,3) by (simp_all add: list_all_drop)
      ultimately show ?thesis using Cons.prems by (intro exI [of _ "drop m os"] exI [of _ t]) simp
    next
      case False
      then have "drop n (utf8_encode (c # t)) = drop (m - length os) (utf8_encode t)" using Suc b(1) by simp
      then show ?thesis using Cons.IH [of "m - length os"] Cons.prems by simp
    qed
  qed
qed

text \<open>Bytes of a split character at the head of the kept tail.\<close>

definition orphans :: "nat list \<Rightarrow> nat" where
  "orphans bs = length (takeWhile is_cont bs)"

lemma decoded_tail:
  assumes "list_all unicode t"
  shows "length (utf8_encode (utf8_decode (drop n (utf8_encode t)))) = length (drop n (utf8_encode t)) + 2 * orphans (drop n (utf8_encode t))"
    and "orphans (drop n (utf8_encode t)) \<le> 3"
proof -
  obtain os t' where c: "drop n (utf8_encode t) = os @ utf8_encode t'" "list_all is_cont os" "length os \<le> 3" "list_all unicode t'"
    using cut [OF assms] by blast
  have o: "orphans (drop n (utf8_encode t)) = length os"
    unfolding c(1) orphans_def using c(2) encode_starts [OF c(4)] by (simp add: takeWhile_append2 list_all_iff)
  then show "orphans (drop n (utf8_encode t)) \<le> 3" using c(3) by simp
  have "utf8_decode (drop n (utf8_encode t)) = replicate (length os) REPLACEMENT @ map scrub t'"
    unfolding c(1) decode_conts [OF c(2)] using decode_encode [OF c(4), of "[]"] by simp
  moreover have "length (utf8_encode (replicate k REPLACEMENT)) = 3 * k" for k
    by (induction k) (simp_all add: utf8_char_def REPLACEMENT_def surrogate_def)
  ultimately show "length (utf8_encode (utf8_decode (drop n (utf8_encode t)))) = length (drop n (utf8_encode t)) + 2 * orphans (drop n (utf8_encode t))"
    unfolding o by (simp add: encode_scrub c(1))
qed

text \<open>How long a stored traceback is: it is kept as it is when it fits the cap, and otherwise is the marker and a
  tail that overshoots the cap by two bytes for each byte of a character the cut went through, at most six in
  all.  The documented hard cap of 2048 bytes is the case of a cut between two characters.\<close>

theorem stored_traceback_length:
  assumes "list_all unicode text"
  shows "if length (utf8_encode text) \<le> MAX_TRACEBACK_BYTES then truncate_traceback text = text
    else length (utf8_encode (truncate_traceback text)) = MAX_TRACEBACK_BYTES + 2 * orphans (last_bytes 2030 (utf8_encode text)) \<and>
      orphans (last_bytes 2030 (utf8_encode text)) \<le> 3"
proof -
  have m: "length (utf8_encode TRACEBACK_TRUNC_MARKER) = 18" by code_simp
  show ?thesis
    using decoded_tail [OF assms, of "length (utf8_encode text) - 2030"]
    by (auto simp: truncate_traceback_def Let_def m MAX_TRACEBACK_BYTES_def last_bytes_def)
qed

text \<open>A long run of four-byte characters and three ASCII characters behind them.\<close>

definition emoji_trace :: pytext where
  "emoji_trace = replicate 600 0x1F600 @ [0x21, 0x21, 0x21]"

lemma encode_replicate: "utf8_encode (replicate n 0x1F600) = concat (replicate n [0xF0, 0x9F, 0x98, 0x80])"
  by (induction n) (simp_all add: utf8_char_def surrogate_def)

lemma length_smileys: "length (concat (replicate n [0xF0, 0x9F, 0x98, 0x80::nat])) = 4 * n"
  by (induction n) simp_all

lemma drop_smileys: "drop (4 * k) (concat (replicate (k + n) x)) = concat (replicate n x)" if "length x = 4"
  using that by (induction k) simp_all

lemma emoji_tail: "orphans (last_bytes 2030 (utf8_encode emoji_trace)) = 3"
proof -
  have "drop (4 * 93) (concat (replicate (93 + 507) [0xF0, 0x9F, 0x98, 0x80::nat])) = concat (replicate 507 [0xF0, 0x9F, 0x98, 0x80])"
    by (rule drop_smileys) simp
  moreover have "concat (replicate 507 [0xF0, 0x9F, 0x98, 0x80::nat]) = [0xF0, 0x9F, 0x98, 0x80] @ concat (replicate 506 [0xF0, 0x9F, 0x98, 0x80])"
    using replicate_Suc [of 506 "[0xF0, 0x9F, 0x98, 0x80::nat]"] by simp
  ultimately have "drop 1 (drop 372 (utf8_encode emoji_trace)) = [0x9F, 0x98, 0x80] @ concat (replicate 506 [0xF0, 0x9F, 0x98, 0x80]) @ [0x21, 0x21, 0x21]"
    by (simp add: emoji_trace_def encode_replicate length_smileys utf8_char_def surrogate_def)
  moreover have "takeWhile is_cont (concat (replicate 506 [0xF0, 0x9F, 0x98, 0x80]) @ [0x21, 0x21, 0x21]) = []"
    using replicate_Suc [of 505 "[0xF0, 0x9F, 0x98, 0x80::nat]"] by (simp add: is_cont_def)
  moreover have "length (utf8_encode emoji_trace) = 2403"
    by (simp add: emoji_trace_def encode_replicate length_smileys utf8_char_def surrogate_def)
  ultimately show ?thesis by (simp add: orphans_def last_bytes_def is_cont_def)
qed

theorem stored_traceback_length_witness: "length (utf8_encode (truncate_traceback emoji_trace)) = 2054"
proof -
  have "list_all unicode emoji_trace" by (simp add: emoji_trace_def unicode_def list_all_iff)
  moreover have "length (utf8_encode emoji_trace) = 2403"
    by (simp add: emoji_trace_def encode_replicate length_smileys utf8_char_def surrogate_def)
  ultimately show ?thesis
    using stored_traceback_length [of emoji_trace] emoji_tail by (simp add: MAX_TRACEBACK_BYTES_def)
qed

end
