(* ===== verification/Runner.thy ===== *)
theory Runner
  imports ErrorText
begin

text \<open>
  The task lifecycles of \<open>server/runner.py\<close>: the wrapper that persists how a background coroutine ended, the
  single-tenant runner of the sandbox loop with its start/stop handlers, and the registry of sweep jobs.
  The event loop is a step relation over the runner's slot, its lock, the tasks ever created and the error
  file the runs share.
\<close>

section \<open>How a coroutine ends\<close>

text \<open>An exception as \<open>traceback.format_exception\<close> shows it.\<close>

record exn =
  ex_type :: pytext
  ex_message :: pytext
  ex_formatted :: pytext

datatype ending = Returned | Cancelled | Raised exn | Fatal

record registry_error =
  er_type :: pytext
  er_message :: pytext
  er_traceback :: pytext

datatype envelope_status = FAILED | CANCELLED

record error_envelope =
  ev_status :: envelope_status
  ev_error :: "registry_error option"
  ev_completed_at :: string

definition build_registry_error :: "exn \<Rightarrow> registry_error" where
  "build_registry_error e =
     \<lparr>er_type = ex_type e, er_message = ex_message e, er_traceback = truncate_traceback (ex_formatted e)\<rparr>"

text \<open>The temporary file replaces the target in one operation, so a failed write leaves the old file.\<close>

definition write_error_envelope ::
  "bool \<Rightarrow> string \<Rightarrow> envelope_status \<Rightarrow> registry_error option \<Rightarrow> error_envelope option \<Rightarrow> error_envelope option" where
  "write_error_envelope writes now status err file =
     (if writes then Some \<lparr>ev_status = status, ev_error = err, ev_completed_at = now\<rparr> else file)"

text \<open>What the task of \<open>_safe_run\<close> is left with: it ends normally, is cancelled, or dies of a \<open>BaseException\<close>.\<close>

datatype task_end = CLEAN | CANCELLED_TASK | CRASHED

definition safe_run :: "bool \<Rightarrow> string \<Rightarrow> ending \<Rightarrow> error_envelope option \<Rightarrow> task_end \<times> error_envelope option" where
  "safe_run writes now e file =
     (case e of
        Returned \<Rightarrow> (CLEAN, file)
      | Cancelled \<Rightarrow> (CANCELLED_TASK, write_error_envelope writes now CANCELLED None file)
      | Raised x \<Rightarrow> (CLEAN, write_error_envelope writes now FAILED (Some (build_registry_error x)) file)
      | Fatal \<Rightarrow> (CRASHED, file))"

section \<open>The runner\<close>

datatype task_state = SCHEDULED | RUNNING | DONE task_end

record task =
  tk_state :: task_state
  tk_cancel :: bool

definition task_done :: "task \<Rightarrow> bool" where
  "task_done t = (case tk_state t of DONE _ \<Rightarrow> True | _ \<Rightarrow> False)"

text \<open>
  The tasks by run id, in the order of their creation; the slot is \<open>_state\<close>; the lock is held by a \<open>stop\<close> that
  waits for the task of its run.
\<close>

record loop_runner =
  ru_slot :: "string option"
  ru_tasks :: "(string, task) dict"
  ru_lock :: "string option"
  ru_error :: "error_envelope option"
  ru_snapshot :: bool

datatype runner_error = AgentAlreadyRunning string | FactoryRaised

definition boot_runner :: "error_envelope option \<Rightarrow> bool \<Rightarrow> loop_runner" where
  "boot_runner err snap = \<lparr>ru_slot = None, ru_tasks = [], ru_lock = None, ru_error = err, ru_snapshot = snap\<rparr>"

definition alive :: "loop_runner \<Rightarrow> string \<Rightarrow> bool" where
  "alive r i = (case dget (ru_tasks r) i of None \<Rightarrow> False | Some t \<Rightarrow> \<not> task_done t)"

definition is_running :: "loop_runner \<Rightarrow> bool" where
  "is_running r = (case ru_slot r of None \<Rightarrow> False | Some i \<Rightarrow> alive r i)"

definition current_run_id :: "loop_runner \<Rightarrow> string option" where
  "current_run_id r = ru_slot r"

definition final_state_path :: "loop_runner \<Rightarrow> bool" where
  "final_state_path r = ru_snapshot r"

text \<open>\<open>start\<close>, once it has the lock: it has no await, so it is one step.\<close>

definition start :: "string \<Rightarrow> bool \<Rightarrow> bool \<Rightarrow> loop_runner \<Rightarrow> (runner_error + string) \<times> loop_runner" where
  "start run_id builds unlinks r =
     (if is_running r then (Inl (AgentAlreadyRunning (case ru_slot r of None \<Rightarrow> [] | Some i \<Rightarrow> i)), r)
      else if \<not> builds then (Inl FactoryRaised, r)
      else (Inr run_id, r\<lparr>ru_error := (if unlinks then None else ru_error r),
             ru_tasks := dset run_id \<lparr>tk_state = SCHEDULED, tk_cancel = False\<rparr> (ru_tasks r),
             ru_slot := Some run_id\<rparr>))"

text \<open>\<open>stop\<close> up to its wait: with nothing to stop it clears the slot and returns at once, otherwise it cancels
  the task and holds the lock.\<close>

definition set_task :: "string \<Rightarrow> (task \<Rightarrow> task) \<Rightarrow> loop_runner \<Rightarrow> loop_runner" where
  "set_task i f r = (case dget (ru_tasks r) i of None \<Rightarrow> r | Some t \<Rightarrow> r\<lparr>ru_tasks := dset i (f t) (ru_tasks r)\<rparr>)"

definition stop_begin :: "loop_runner \<Rightarrow> bool option \<times> loop_runner" where
  "stop_begin r =
     (case ru_slot r of
        None \<Rightarrow> (Some (final_state_path r), r)
      | Some i \<Rightarrow>
          if \<not> alive r i then (Some (final_state_path r), r\<lparr>ru_slot := None\<rparr>)
          else (None, set_task i (\<lambda>t. t\<lparr>tk_cancel := True\<rparr>) r\<lparr>ru_lock := Some i\<rparr>))"

text \<open>The end of the wait, the task being done or the timeout over: the same code either way.\<close>

definition stop_end :: "loop_runner \<Rightarrow> bool \<times> loop_runner" where
  "stop_end r = (final_state_path r, r\<lparr>ru_slot := None, ru_lock := None\<rparr>)"

text \<open>The end of a task.\<close>

definition finish :: "string \<Rightarrow> bool \<Rightarrow> string \<Rightarrow> ending \<Rightarrow> loop_runner \<Rightarrow> loop_runner" where
  "finish i writes now e r =
     (case safe_run writes now e (ru_error r) of
        (d, file) \<Rightarrow> set_task i (\<lambda>t. t\<lparr>tk_state := DONE d\<rparr>) r\<lparr>ru_error := file\<rparr>)"

section \<open>The event loop\<close>

datatype event =
    Start string bool bool
  | StopBegin
  | StopJoined
  | StopTimedOut
  | StopAborted
  | Begin string
  | DroppedUnstarted string
  | Finish string bool string ending
  | WriteSnapshot

text \<open>
  Run ids are fresh (\<open>uuid4\<close>).  The lock excludes \<open>start\<close> and a second \<open>stop\<close> while a stop waits.  A task that
  is cancelled before its first step never enters \<open>_safe_run\<close>.  A stop whose own request is cancelled leaves
  the lock and keeps the slot.
\<close>

inductive step :: "loop_runner \<Rightarrow> event \<Rightarrow> loop_runner \<Rightarrow> bool" where
  start: "ru_lock r = None \<Longrightarrow> i \<notin> fst ` set (ru_tasks r) \<Longrightarrow> step r (Start i b u) (snd (start i b u r))"
| stop_begin: "ru_lock r = None \<Longrightarrow> step r StopBegin (snd (stop_begin r))"
| stop_joined: "ru_lock r = Some i \<Longrightarrow> \<not> alive r i \<Longrightarrow> step r StopJoined (snd (stop_end r))"
| stop_timed_out: "ru_lock r = Some i \<Longrightarrow> alive r i \<Longrightarrow> step r StopTimedOut (snd (stop_end r))"
| stop_aborted: "ru_lock r = Some i \<Longrightarrow> step r StopAborted (r\<lparr>ru_lock := None\<rparr>)"
| begin_task: "dget (ru_tasks r) i = Some t \<Longrightarrow> tk_state t = SCHEDULED \<Longrightarrow> \<not> tk_cancel t \<Longrightarrow>
    step r (Begin i) (set_task i (\<lambda>t. t\<lparr>tk_state := RUNNING\<rparr>) r)"
| dropped: "dget (ru_tasks r) i = Some t \<Longrightarrow> tk_state t = SCHEDULED \<Longrightarrow> tk_cancel t \<Longrightarrow>
    step r (DroppedUnstarted i) (set_task i (\<lambda>t. t\<lparr>tk_state := DONE CANCELLED_TASK\<rparr>) r)"
| finish: "dget (ru_tasks r) i = Some t \<Longrightarrow> tk_state t = RUNNING \<Longrightarrow> step r (Finish i w n e) (finish i w n e r)"
| write_snapshot: "step r WriteSnapshot (r\<lparr>ru_snapshot := True\<rparr>)"

inductive steps :: "loop_runner \<Rightarrow> event list \<Rightarrow> loop_runner \<Rightarrow> bool" where
  steps_Nil: "steps r [] r"
| steps_snoc: "steps r es r' \<Longrightarrow> step r' e r'' \<Longrightarrow> steps r (es @ [e]) r''"

inductive_cases step_cases [elim]: "step r e r'"

definition timeouts :: "event list \<Rightarrow> nat" where
  "timeouts es = length (filter (\<lambda>e. e = StopTimedOut) es)"

section \<open>At most one loop\<close>

text \<open>Loops that are alive without being the run of the slot.\<close>

definition ghosts :: "loop_runner \<Rightarrow> string set" where
  "ghosts r = {i. alive r i \<and> ru_slot r \<noteq> Some i}"

lemma alive_known: "alive r i \<Longrightarrow> i \<in> fst ` set (ru_tasks r)"
  by (auto simp: alive_def dest: map_of_SomeD split: option.splits) (metis fst_conv image_eqI map_of_SomeD)

lemma finite_alive: "finite {i. alive r i}"
  by (rule finite_subset [of _ "fst ` set (ru_tasks r)"]) (auto intro: alive_known)

lemma finite_ghosts: "finite (ghosts r)"
  by (rule finite_subset [OF _ finite_alive [of r]]) (auto simp: ghosts_def)

lemma set_task_fields [simp]:
  "ru_slot (set_task i f r) = ru_slot r" "ru_lock (set_task i f r) = ru_lock r" "ru_error (set_task i f r) = ru_error r"
  "ru_snapshot (set_task i f r) = ru_snapshot r"
  by (simp_all add: set_task_def split: option.split)

lemma alive_set_task:
  "alive (set_task i f r) j = (if j = i then (case dget (ru_tasks r) i of None \<Rightarrow> False | Some t \<Rightarrow> \<not> task_done (f t)) else alive r j)"
  by (auto simp: alive_def set_task_def dget_dset split: option.splits)

lemma alive_update [simp]:
  "alive (r\<lparr>ru_slot := a\<rparr>) i = alive r i" "alive (r\<lparr>ru_lock := l\<rparr>) i = alive r i" "alive (r\<lparr>ru_error := e\<rparr>) i = alive r i"
  "alive (r\<lparr>ru_snapshot := b\<rparr>) i = alive r i"
  by (simp_all add: alive_def)

lemma task_done_simps [simp]:
  "task_done (t\<lparr>tk_cancel := c\<rparr>) = task_done t" "task_done (t\<lparr>tk_state := DONE d\<rparr>)" "\<not> task_done (t\<lparr>tk_state := RUNNING\<rparr>)"
  by (simp_all add: task_done_def)

text \<open>What every step does to the loops, the slot and the lock.\<close>

lemma start_effect:
  assumes "i \<notin> fst ` set (ru_tasks r)"
  shows "\<not> is_running r \<and> b \<Longrightarrow> alive (snd (start i b u r)) j = (j = i \<or> alive r j)"
    and "\<not> is_running r \<and> b \<Longrightarrow> ru_slot (snd (start i b u r)) = Some i"
    and "\<not> (\<not> is_running r \<and> b) \<Longrightarrow> snd (start i b u r) = r"
    and "ru_lock (snd (start i b u r)) = ru_lock r"
  by (auto simp: start_def alive_def dget_dset task_done_def)

lemma finish_effect:
  "alive (finish i w n e r) j = (j \<noteq> i \<and> alive r j)" "ru_slot (finish i w n e r) = ru_slot r" "ru_lock (finish i w n e r) = ru_lock r"
  by (auto simp: finish_def alive_set_task split: prod.splits option.splits)

lemma stop_begin_effect:
  "alive (snd (stop_begin r)) j = alive r j"
  "ru_slot (snd (stop_begin r)) = (if is_running r then ru_slot r else None)"
  "ru_lock (snd (stop_begin r)) = (if is_running r then ru_slot r else ru_lock r)"
proof -
  have "alive (set_task i (\<lambda>t. t\<lparr>tk_cancel := True\<rparr>) r) j = alive r j" for i
    unfolding alive_set_task by (simp add: alive_def split: option.split)
  then show "alive (snd (stop_begin r)) j = alive r j" by (simp add: stop_begin_def split: option.split)
  show "ru_slot (snd (stop_begin r)) = (if is_running r then ru_slot r else None)"
    "ru_lock (snd (stop_begin r)) = (if is_running r then ru_slot r else ru_lock r)"
    by (simp_all add: stop_begin_def is_running_def split: option.split)
qed

definition runner_inv :: "loop_runner \<Rightarrow> nat \<Rightarrow> bool" where
  "runner_inv r n = (card (ghosts r) \<le> n \<and> (\<forall>i. ru_lock r = Some i \<longrightarrow> ru_slot r = Some i))"

lemma fewer_ghosts: "ghosts r' \<subseteq> ghosts r \<Longrightarrow> card (ghosts r) \<le> n \<Longrightarrow> card (ghosts r') \<le> n"
  using card_mono [OF finite_ghosts] order.trans by blast

lemma step_inv:
  assumes "step r e r'" "runner_inv r n" shows "runner_inv r' (n + (if e = StopTimedOut then 1 else 0))"
  using assms(1)
proof cases
  case (start i b u)
  show ?thesis
  proof (cases "\<not> is_running r \<and> b")
    case True
    have "j \<in> ghosts r" if "j \<in> ghosts r'" for j
      using that True start_effect [OF start(4), of b u] start(2) by (auto simp: ghosts_def is_running_def)
    then show ?thesis using start assms(2) start_effect(4) [OF start(4)] fewer_ghosts [of r' r n] by (auto simp: runner_inv_def)
  qed (use start assms(2) start_effect(3) [OF start(4), of b u] in auto)
next
  case stop_begin
  have "ghosts r' \<subseteq> ghosts r"
    unfolding stop_begin(2) by (auto simp: ghosts_def stop_begin_effect is_running_def split: option.splits if_splits)
  moreover have "ru_lock r' = Some i \<Longrightarrow> ru_slot r' = Some i" for i
    unfolding stop_begin(2) using stop_begin(3) by (auto simp: stop_begin_effect split: if_splits)
  ultimately show ?thesis using assms(2) fewer_ghosts [of r' r n] stop_begin(1) by (auto simp: runner_inv_def)
next
  case (stop_joined i)
  have "ghosts r' \<subseteq> ghosts r"
    unfolding stop_joined(2) using stop_joined(3,4) assms(2) by (auto simp: ghosts_def stop_end_def runner_inv_def)
  then show ?thesis using assms(2) fewer_ghosts [of r' r n] stop_joined by (auto simp: runner_inv_def stop_end_def)
next
  case (stop_timed_out i)
  have "ghosts r' \<subseteq> insert i (ghosts r)"
    unfolding stop_timed_out(2) using stop_timed_out(3) assms(2) by (auto simp: ghosts_def stop_end_def runner_inv_def)
  then have "card (ghosts r') \<le> Suc (card (ghosts r))"
    using card_mono [of "insert i (ghosts r)" "ghosts r'"] card_insert_le_m1 finite_ghosts by (metis card_insert_if finite.insertI le_SucI order.trans)
  then show ?thesis using assms(2) stop_timed_out by (auto simp: runner_inv_def stop_end_def)
next
  case (stop_aborted i)
  have "ghosts r' = ghosts r" unfolding stop_aborted(2) by (simp add: ghosts_def)
  then show ?thesis using assms(2) stop_aborted by (simp add: runner_inv_def)
next
  case (begin_task i t)
  have "alive r i" using begin_task(3,4) by (simp add: alive_def task_done_def)
  then have "ghosts r' \<subseteq> ghosts r"
    unfolding begin_task(2) by (auto simp: ghosts_def alive_set_task split: if_splits)
  then show ?thesis using assms(2) fewer_ghosts [of r' r n] begin_task by (auto simp: runner_inv_def)
next
  case (dropped i t)
  have "ghosts r' \<subseteq> ghosts r"
    unfolding dropped(2) by (auto simp: ghosts_def alive_set_task split: option.splits if_splits)
  then show ?thesis using assms(2) fewer_ghosts [of r' r n] dropped by (auto simp: runner_inv_def)
next
  case (finish i t w m x)
  have "ghosts r' \<subseteq> ghosts r" unfolding finish(2) by (auto simp: ghosts_def finish_effect)
  then show ?thesis using assms(2) fewer_ghosts [of r' r n] finish by (auto simp: runner_inv_def finish_effect)
next
  case write_snapshot
  then show ?thesis using assms(2) by (simp add: runner_inv_def ghosts_def)
qed

lemma timeouts_simps [simp]: "timeouts [] = 0" "timeouts (es @ [e]) = timeouts es + (if e = StopTimedOut then 1 else 0)"
  by (simp_all add: timeouts_def)

lemma steps_inv: "steps r es r' \<Longrightarrow> runner_inv r 0 \<Longrightarrow> runner_inv r' (timeouts es)"
  by (induction rule: steps.induct) (auto dest: step_inv)

lemma boot_inv: "runner_inv (boot_runner err snap) 0"
  by (simp add: runner_inv_def boot_runner_def ghosts_def alive_def)

text \<open>C14. The number of loops alive at any moment is at most one more than the number of stops that timed out, and
  at most that number when the runner reports none: with every stop joined there is a single loop.\<close>

theorem live_loops_bounded:
  assumes "steps (boot_runner err snap) es r"
  shows "card {i. alive r i} \<le> timeouts es + (if is_running r then 1 else 0)"
proof -
  have g: "card (ghosts r) \<le> timeouts es" using steps_inv [OF assms boot_inv] by (simp add: runner_inv_def)
  show ?thesis
  proof (cases "is_running r")
    case True
    then obtain i where "ru_slot r = Some i" by (auto simp: is_running_def split: option.splits)
    then have "{i. alive r i} \<subseteq> insert i (ghosts r)" by (auto simp: ghosts_def)
    then have "card {i. alive r i} \<le> Suc (card (ghosts r))"
      using card_mono [of "insert i (ghosts r)"] finite_ghosts by (metis card_insert_if finite.insertI le_SucI order.trans)
    then show ?thesis using g True by simp
  next
    case False
    then have "{i. alive r i} = ghosts r" by (auto simp: ghosts_def is_running_def)
    then show ?thesis using g False by simp
  qed
qed

text \<open>The relation as a function of the event, to run it.\<close>

fun react :: "event \<Rightarrow> loop_runner \<Rightarrow> loop_runner option" where
  "react (Start i b u) r = (if ru_lock r = None \<and> i \<notin> fst ` set (ru_tasks r) then Some (snd (start i b u r)) else None)"
| "react StopBegin r = (if ru_lock r = None then Some (snd (stop_begin r)) else None)"
| "react StopJoined r = (case ru_lock r of Some i \<Rightarrow> if alive r i then None else Some (snd (stop_end r)) | None \<Rightarrow> None)"
| "react StopTimedOut r = (case ru_lock r of Some i \<Rightarrow> if alive r i then Some (snd (stop_end r)) else None | None \<Rightarrow> None)"
| "react StopAborted r = (if ru_lock r = None then None else Some (r\<lparr>ru_lock := None\<rparr>))"
| "react (Begin i) r = (case dget (ru_tasks r) i of
     Some t \<Rightarrow> if tk_state t = SCHEDULED \<and> \<not> tk_cancel t then Some (set_task i (\<lambda>t. t\<lparr>tk_state := RUNNING\<rparr>) r) else None
   | None \<Rightarrow> None)"
| "react (DroppedUnstarted i) r = (case dget (ru_tasks r) i of
     Some t \<Rightarrow> if tk_state t = SCHEDULED \<and> tk_cancel t then Some (set_task i (\<lambda>t. t\<lparr>tk_state := DONE CANCELLED_TASK\<rparr>) r) else None
   | None \<Rightarrow> None)"
| "react (Finish i w n e) r = (case dget (ru_tasks r) i of
     Some t \<Rightarrow> if tk_state t = RUNNING then Some (finish i w n e r) else None | None \<Rightarrow> None)"
| "react WriteSnapshot r = Some (r\<lparr>ru_snapshot := True\<rparr>)"

lemma react_step: "react e r = Some r' \<Longrightarrow> step r e r'"
  by (cases e) (auto intro: step.intros split: option.splits if_splits)

primrec run_events :: "event list \<Rightarrow> loop_runner \<Rightarrow> loop_runner option" where
  "run_events [] r = Some r"
| "run_events (e # es) r = (case react e r of None \<Rightarrow> None | Some r' \<Rightarrow> run_events es r')"

lemma run_events_snoc: "run_events (es @ [e]) r = (case run_events es r of None \<Rightarrow> None | Some r' \<Rightarrow> react e r')"
  by (induction es arbitrary: r) (auto split: option.split)

lemma run_events_steps: "run_events es r = Some r' \<Longrightarrow> steps r es r'"
  by (induction es arbitrary: r' rule: rev_induct)
    (auto simp: run_events_snoc intro: steps.intros react_step split: option.splits)

text \<open>A loop that outlives its stop, and the run started over it.\<close>

definition two_loops :: "event list" where
  "two_loops = [Start ''a'' True True, Begin ''a'', StopBegin, StopTimedOut, Start ''b'' True True, Begin ''b'']"

lemma two_loops_run:
  "\<exists>r. run_events two_loops (boot_runner None False) = Some r \<and> alive r ''a'' \<and> alive r ''b'' \<and> is_running r"
proof -
  have "(case run_events two_loops (boot_runner None False) of None \<Rightarrow> False | Some r \<Rightarrow> alive r ''a'' \<and> alive r ''b'' \<and> is_running r)"
    by code_simp
  then show ?thesis by (auto split: option.splits)
qed

theorem live_loops_bounded_witness:
  "\<exists>r. steps (boot_runner None False) two_loops r \<and> timeouts two_loops = 1 \<and> card {i. alive r i} = 2"
proof -
  obtain r where r: "run_events two_loops (boot_runner None False) = Some r" "alive r ''a''" "alive r ''b''" "is_running r"
    using two_loops_run by blast
  have s: "steps (boot_runner None False) two_loops r" using r(1) by (rule run_events_steps)
  have t: "timeouts two_loops = 1" by (simp add: two_loops_def timeouts_def)
  have "{''a'', ''b''} \<subseteq> {i. alive r i}" using r by simp
  then have "card {''a'', ''b''} \<le> card {i. alive r i}" by (rule card_mono [OF finite_alive])
  then show ?thesis using live_loops_bounded [OF s] t s r(4) by auto
qed

section \<open>The error file\<close>

definition unlinks_fail :: "event list \<Rightarrow> bool" where
  "unlinks_fail es = list_ex (\<lambda>e. case e of Start i b u \<Rightarrow> \<not> u | _ \<Rightarrow> False) es"

lemma unlinks_fail_snoc [simp]: "unlinks_fail (es @ [e]) = (unlinks_fail es \<or> (case e of Start i b u \<Rightarrow> \<not> u | _ \<Rightarrow> False))"
  by (simp add: unlinks_fail_def)

lemma error_field [simp]:
  "ru_error (snd (stop_begin r)) = ru_error r" "ru_error (snd (stop_end r)) = ru_error r"
  by (simp_all add: stop_begin_def stop_end_def split: option.split)

lemma no_ghosts:
  assumes "runner_inv r 0" "alive r i" shows "ru_slot r = Some i"
  using assms finite_ghosts [of r] by (auto simp: runner_inv_def ghosts_def)

lemma step_keeps_file_clear:
  assumes "step r e r'" "runner_inv r 0" "e \<noteq> StopTimedOut" "\<not> (case e of Start i b u \<Rightarrow> \<not> u | _ \<Rightarrow> False)"
    and clear: "is_running r \<longrightarrow> ru_error r = None"
  shows "is_running r' \<longrightarrow> ru_error r' = None"
  using assms(1)
proof cases
  case (start i b u)
  then show ?thesis using assms(4) clear by (auto simp: start_def)
next
  case (begin_task i t)
  then have "alive r i" by (simp add: alive_def task_done_def)
  then have "ru_slot r = Some i" using no_ghosts [OF assms(2)] by blast
  then show ?thesis using begin_task clear \<open>alive r i\<close> by (simp add: is_running_def)
next
  case (finish i t w n x)
  then have "alive r i" by (simp add: alive_def task_done_def)
  then have "ru_slot r = Some i" using no_ghosts [OF assms(2)] by blast
  then show ?thesis unfolding finish(2) by (simp add: is_running_def finish_effect)
next
  case stop_begin
  then show ?thesis using clear by (auto simp: is_running_def stop_begin_effect split: option.splits if_splits)
next
  case (dropped i t)
  then show ?thesis using clear by (auto simp: is_running_def alive_set_task split: option.splits if_splits)
qed (use assms(3) clear in \<open>auto simp: is_running_def stop_end_def split: option.splits\<close>)

text \<open>C27. While a run is alive the error file reports nothing, provided every stop was joined and every stale file
  could be unlinked: whatever disposition the status route then shows is of a run that is over.\<close>

theorem running_loop_reports_no_error:
  assumes "steps (boot_runner err snap) es r" "timeouts es = 0" "\<not> unlinks_fail es"
  shows "is_running r \<longrightarrow> ru_error r = None"
proof -
  have "timeouts es = 0 \<longrightarrow> \<not> unlinks_fail es \<longrightarrow> (is_running r \<longrightarrow> ru_error r = None)" if "steps r0 es r" "r0 = boot_runner err snap" for r0
    using that
  proof (induction rule: steps.induct)
    case (steps_Nil r)
    then show ?case by (simp add: is_running_def boot_runner_def)
  next
    case (steps_snoc r es r' e r'')
    then show ?case using steps_inv [OF steps_snoc.hyps(1)] boot_inv step_keeps_file_clear [OF steps_snoc.hyps(2)]
      by (auto split: if_splits)
  qed
  then show ?thesis using assms by blast
qed

definition crash :: exn where
  "crash = \<lparr>ex_type = map of_char ''ValueError'', ex_message = [], ex_formatted = map of_char ''Traceback''\<rparr>"

text \<open>A crash, the next run, and the next run again: its file is clear.\<close>

definition crash_and_restart :: "event list" where
  "crash_and_restart = [Start ''a'' True True, Begin ''a'', Finish ''a'' True ''t0'' (Raised crash), Start ''b'' True True, Begin ''b'']"

theorem running_loop_reports_no_error_witness:
  "(\<exists>r. run_events (take 3 crash_and_restart) (boot_runner None False) = Some r \<and> ru_error r \<noteq> None) \<and>
   (\<exists>r. steps (boot_runner None False) crash_and_restart r \<and> is_running r \<and> ru_error r = None)"
proof
  have "(case run_events (take 3 crash_and_restart) (boot_runner None False) of None \<Rightarrow> False | Some r \<Rightarrow> \<not> Option.is_none (ru_error r))"
    by code_simp
  then show "\<exists>r. run_events (take 3 crash_and_restart) (boot_runner None False) = Some r \<and> ru_error r \<noteq> None"
    by (auto split: option.splits simp: Option.is_none_def)
  have "(case run_events crash_and_restart (boot_runner None False) of None \<Rightarrow> False | Some r \<Rightarrow> is_running r)" by code_simp
  then obtain r where r: "run_events crash_and_restart (boot_runner None False) = Some r" "is_running r" by (auto split: option.splits)
  have "timeouts crash_and_restart = 0" "\<not> unlinks_fail crash_and_restart"
    by (simp_all add: crash_and_restart_def timeouts_def unlinks_fail_def)
  then show "\<exists>r. steps (boot_runner None False) crash_and_restart r \<and> is_running r \<and> ru_error r = None"
    using running_loop_reports_no_error [OF run_events_steps [OF r(1)]] r by (auto intro: run_events_steps)
qed

text \<open>Without those provisos it can: the ghost's cancellation is reported beside the healthy run.\<close>

lemma ghost_overwrites_status:
  "\<exists>r. steps (boot_runner None False) (two_loops @ [Finish ''a'' True ''t1'' Cancelled]) r \<and> is_running r \<and>
     ru_error r = Some \<lparr>ev_status = CANCELLED, ev_error = None, ev_completed_at = ''t1''\<rparr>"
proof -
  have "(case run_events (two_loops @ [Finish ''a'' True ''t1'' Cancelled]) (boot_runner None False) of None \<Rightarrow> False
     | Some r \<Rightarrow> is_running r \<and> (case ru_error r of None \<Rightarrow> False | Some v \<Rightarrow> ev_status v = CANCELLED \<and> Option.is_none (ev_error v) \<and> ev_completed_at v = ''t1''))"
    by code_simp
  then show ?thesis by (auto intro!: run_events_steps split: option.splits simp: Option.is_none_def)
qed

section \<open>The registry of sweeps\<close>

record backtest_record =
  br_run_id :: string
  br_output_dir :: string
  br_cancelled :: bool

record backtest_registry =
  rg_output_root :: string
  rg_max_records :: int
  rg_records :: "(string, backtest_record) dict"

definition DEFAULT_MAX_RECORDS :: int where "DEFAULT_MAX_RECORDS = 1024"

definition BACKTEST_RESULT_FILENAME :: string where "BACKTEST_RESULT_FILENAME = ''results.json''"

text \<open>\<open>max_records or DEFAULT\<close>: zero means the default.\<close>

definition mk_registry :: "string \<Rightarrow> int option \<Rightarrow> backtest_registry" where
  "mk_registry out maxr = \<lparr>rg_output_root = out,
     rg_max_records = (case maxr of None \<Rightarrow> DEFAULT_MAX_RECORDS | Some n \<Rightarrow> if n = 0 then DEFAULT_MAX_RECORDS else n),
     rg_records = []\<rparr>"

definition join_path :: "string \<Rightarrow> string \<Rightarrow> string" where
  "join_path d f = d @ ''/'' @ f"

text \<open>\<open>popitem(last=False)\<close> while there are too many; on an empty dictionary it raises \<open>KeyError\<close>.\<close>

fun evict :: "int \<Rightarrow> (string, backtest_record) dict \<Rightarrow> unit res \<times> (string, backtest_record) dict" where
  "evict n [] = (if 0 > n then (Inl KeyError, []) else (Inr (), []))"
| "evict n (x # d) = (if int (length (x # d)) > n then evict n d else (Inr (), x # d))"

definition submit :: "string \<Rightarrow> backtest_registry \<Rightarrow> string res \<times> backtest_registry" where
  "submit run_id g =
     (let rec = \<lparr>br_run_id = run_id, br_output_dir = join_path (rg_output_root g) run_id, br_cancelled = False\<rparr> in
      case evict (rg_max_records g) (dset run_id rec (rg_records g)) of
        (Inl e, d) \<Rightarrow> (Inl e, g\<lparr>rg_records := d\<rparr>)
      | (Inr _, d) \<Rightarrow> (Inr run_id, g\<lparr>rg_records := d\<rparr>))"

definition cancel :: "string \<Rightarrow> backtest_registry \<Rightarrow> bool \<times> backtest_registry" where
  "cancel run_id g =
     (case dget (rg_records g) run_id of
        None \<Rightarrow> (False, g)
      | Some rec \<Rightarrow> (True, g\<lparr>rg_records := dset run_id (rec\<lparr>br_cancelled := True\<rparr>) (rg_records g)\<rparr>))"

text \<open>The file system is the set of its paths.\<close>

definition result_path :: "string set \<Rightarrow> string \<Rightarrow> backtest_registry \<Rightarrow> string option" where
  "result_path files run_id g =
     (let dir = (case dget (rg_records g) run_id of Some rec \<Rightarrow> br_output_dir rec | None \<Rightarrow> join_path (rg_output_root g) run_id);
          candidate = join_path dir BACKTEST_RESULT_FILENAME
      in if candidate \<in> files then Some candidate else None)"

definition is_known :: "string \<Rightarrow> backtest_registry \<Rightarrow> bool" where
  "is_known run_id g = (run_id \<in> fst ` set (rg_records g))"

text \<open>The requests the server makes of the registry.\<close>

datatype registry_op = Submit string | Cancel string

primrec request :: "registry_op \<Rightarrow> backtest_registry \<Rightarrow> backtest_registry" where
  "request (Submit i) g = snd (submit i g)"
| "request (Cancel i) g = snd (cancel i g)"

definition submitted :: "registry_op list \<Rightarrow> string list" where
  "submitted ops = List.map_filter (\<lambda>op. case op of Submit i \<Rightarrow> Some i | Cancel _ \<Rightarrow> None) ops"

definition last_n :: "nat \<Rightarrow> 'a list \<Rightarrow> 'a list" where
  "last_n n xs = drop (length xs - n) xs"

lemma last_n_snoc: "0 < n \<Longrightarrow> last_n n (xs @ [x]) = (if n \<le> length (last_n n xs) then tl (last_n n xs) else last_n n xs) @ [x]"
  by (auto simp: last_n_def drop_Suc [symmetric] Suc_diff_le tl_drop)

lemma submitted_snoc [simp]:
  "submitted [] = []" "submitted (ops @ [Submit i]) = submitted ops @ [i]" "submitted (ops @ [Cancel i]) = submitted ops"
  by (simp_all add: submitted_def List.map_filter_def)

text \<open>With a positive bound at most one record has to go, the oldest.\<close>

lemma evict_oldest:
  assumes "length d \<le> Suc n" "0 < n"
  shows "evict (int n) d = (Inr (), if length d = Suc n then tl d else d)"
  using assms by (cases d; cases "tl d") auto

definition registry_inv :: "string \<Rightarrow> nat \<Rightarrow> string list \<Rightarrow> backtest_registry \<Rightarrow> bool" where
  "registry_inv out n ids g =
     (rg_output_root g = out \<and> rg_max_records g = int n \<and> map fst (rg_records g) = last_n n ids \<and>
      list_all (\<lambda>(i, rec). br_output_dir rec = join_path out i) (rg_records g))"

lemma dset_fresh: "k \<notin> fst ` set d \<Longrightarrow> dset k v d = d @ [(k, v)]"
  by (induction k v d rule: dset.induct) auto

lemma dset_subset: "set (dset k v d) \<subseteq> insert (k, v) (set d)"
  by (induction k v d rule: dset.induct) auto

lemma submit_inv:
  assumes "registry_inv out n ids g" "0 < n" "i \<notin> set ids"
  shows "fst (submit i g) = Inr i" "registry_inv out n (ids @ [i]) (snd (submit i g))"
proof -
  define rec where "rec = \<lparr>br_run_id = i, br_output_dir = join_path out i, br_cancelled = False\<rparr>"
  have keys: "map fst (rg_records g) = last_n n ids" using assms(1) by (simp add: registry_inv_def)
  then have "i \<notin> fst ` set (rg_records g)" using assms(3) by (metis in_set_dropD last_n_def list.set_map)
  then have d: "dset i rec (rg_records g) = rg_records g @ [(i, rec)]" by (rule dset_fresh)
  have len: "length (rg_records g) \<le> n" using keys by (metis diff_diff_cancel diff_le_self last_n_def length_drop length_map nat_le_linear order.trans diff_is_0_eq diff_zero)
  have e: "evict (int n) (rg_records g @ [(i, rec)]) =
      (Inr (), (if n \<le> length (rg_records g) then tl (rg_records g) else rg_records g) @ [(i, rec)])"
    using evict_oldest [of "rg_records g @ [(i, rec)]" n] len assms(2) by (cases "rg_records g") auto
  have sub: "submit i g = (Inr i, g\<lparr>rg_records := (if n \<le> length (rg_records g) then tl (rg_records g) else rg_records g) @ [(i, rec)]\<rparr>)"
    using assms(1) unfolding submit_def Let_def registry_inv_def rec_def [symmetric] by (simp add: rec_def [symmetric] d e)
  then show "fst (submit i g) = Inr i" by simp
  have "list_all (\<lambda>(i, rec). br_output_dir rec = join_path out i) (tl (rg_records g))"
    using assms(1) by (cases "rg_records g") (simp_all add: registry_inv_def)
  moreover have "length (last_n n ids) = length (rg_records g)" using keys by (metis length_map)
  ultimately show "registry_inv out n (ids @ [i]) (snd (submit i g))"
    using assms(1) unfolding sub by (simp add: registry_inv_def last_n_snoc [OF assms(2)] map_tl rec_def)
qed

lemma cancel_inv:
  assumes "registry_inv out n ids g" shows "registry_inv out n ids (snd (cancel i g))"
proof (cases "dget (rg_records g) i")
  case (Some rec)
  then have m: "(i, rec) \<in> set (rg_records g)" by (rule map_of_SomeD)
  then have k: "map fst (dset i (rec\<lparr>br_cancelled := True\<rparr>) (rg_records g)) = map fst (rg_records g)"
    by (force simp: dset_keys_eq)
  have "list_all (\<lambda>(i, rec). br_output_dir rec = join_path out i) (dset i (rec\<lparr>br_cancelled := True\<rparr>) (rg_records g))"
    using assms m dset_subset [of i "rec\<lparr>br_cancelled := True\<rparr>" "rg_records g"] by (fastforce simp: registry_inv_def list_all_iff)
  then show ?thesis using assms Some k by (simp add: cancel_def registry_inv_def)
qed (use assms in \<open>simp add: cancel_def\<close>)

lemma registry_after:
  fixes out :: string
  assumes "0 < n" "distinct (submitted ops)"
  defines "g \<equiv> fold request ops (mk_registry out (Some (int n)))"
  shows "map fst (rg_records g) = last_n n (submitted ops)"
    and "fst (cancel i g) = (i \<in> set (last_n n (submitted ops)))"
    and "result_path files i g = (let p = join_path (join_path out i) BACKTEST_RESULT_FILENAME in if p \<in> files then Some p else None)"
proof -
  have inv: "registry_inv out n (submitted ops) g"
    using assms(2) unfolding g_def
  proof (induction ops rule: rev_induct)
    case Nil
    then show ?case using assms(1) by (simp add: registry_inv_def mk_registry_def last_n_def)
  next
    case (snoc x xs)
    then show ?case using submit_inv(2) [OF _ assms(1)] cancel_inv by (cases x) (auto simp: distinct_append)
  qed
  then show keys: "map fst (rg_records g) = last_n n (submitted ops)" by (simp add: registry_inv_def)
  then have dom: "dget (rg_records g) i = None \<longleftrightarrow> i \<notin> set (last_n n (submitted ops))"
    by (metis list.set_map map_of_eq_None_iff)
  then show "fst (cancel i g) = (i \<in> set (last_n n (submitted ops)))" by (auto simp: cancel_def split: option.split)
  have "br_output_dir rec = join_path out i" if "dget (rg_records g) i = Some rec" for rec
    using inv map_of_SomeD [OF that] by (auto simp: registry_inv_def list_all_iff)
  then show "result_path files i g = (let p = join_path (join_path out i) BACKTEST_RESULT_FILENAME in if p \<in> files then Some p else None)"
    using inv by (auto simp: result_path_def Let_def registry_inv_def split: option.split)
qed

text \<open>The registry of a positive bound holds the latest submissions and no others, in their order; the answer of
  the result route depends on the file system only, so eviction never hides a result; but an evicted run, even one
  still sweeping, can no longer be cancelled.\<close>

theorem registry_keeps_latest:
  assumes "0 < n" "distinct (submitted ops)"
  shows "let g = fold request ops (mk_registry out (Some (int n)));
             p = join_path (join_path out i) BACKTEST_RESULT_FILENAME in
         map fst (rg_records g) = last_n n (submitted ops) \<and>
         fst (cancel i g) = (i \<in> set (last_n n (submitted ops))) \<and>
         result_path files i g = (if p \<in> files then Some p else None)"
  using registry_after [OF assms] by (simp add: Let_def)

theorem registry_keeps_latest_witness:
  "let g = fold request [Submit ''a'', Submit ''b'', Cancel ''a'', Submit ''c''] (mk_registry ''out'' (Some (int 2))) in
     map fst (rg_records g) = [''b'', ''c''] \<and> \<not> fst (cancel ''a'' g) \<and>
     result_path {''out/a/results.json''} ''a'' g = Some ''out/a/results.json''"
proof -
  have s: "submitted [Submit ''a'', Submit ''b'', Cancel ''a'', Submit ''c''] = [''a'', ''b'', ''c'']"
    by (simp add: submitted_def List.map_filter_def)
  show ?thesis
    using registry_keeps_latest [where n = 2 and ops = "[Submit ''a'', Submit ''b'', Cancel ''a'', Submit ''c'']" and out = "''out''"] s
    by (simp add: Let_def last_n_def join_path_def BACKTEST_RESULT_FILENAME_def)
qed

end
