(* ===== verification/Schedule.thy ===== *)
theory Schedule
  imports LoopState "HOL-Library.Product_Lexorder" "HOL-Library.Multiset"
begin

text \<open>
  The schedule of a survival season (\<open>backtest/survival_season.py\<close>): the rows joined from cached signals and market
  snapshots, the entry-ordered stops with settle-only checkpoints, the tick source over them and the two clocks.
  Instants are microseconds; \<open>datetime.fromisoformat\<close> is the parser of the executor's environment.
\<close>

section \<open>Cached signals and snapshots\<close>

record price_point =
  pp_ts :: string
  pp_mid_price :: pyfloat

record market_snapshot =
  ms_market_id :: string
  ms_slug :: string
  ms_end_date_iso :: string
  ms_resolution_ts_iso :: "string option"
  ms_outcome :: "string option"
  ms_winning_price :: "pyfloat option"
  ms_liquidity_cap_usd :: pyfloat
  ms_price_ledger :: "price_point list"

record signal_row =
  sg_market_id :: string
  sg_slug :: string
  sg_scores :: "(string, pyfloat) dict"
  sg_confidences :: "(string, pyfloat) dict"
  sg_entry_price :: pyfloat
  sg_outcome :: string
  sg_winning_price :: pyfloat
  sg_liquidity_cap_usd :: pyfloat
  sg_cross_market_signal :: pyfloat
  sg_cluster_key :: string

definition row_to_signals :: "signal_row \<Rightarrow> (string, signal) dict res" where
  "row_to_signals row = rmap (\<lambda>(k, x). case dget (sg_confidences row) k of
      None \<Rightarrow> Inl KeyError
    | Some c \<Rightarrow> Inr (k, \<lparr>score = x, confidence = c, available_at = [], rationale = [], raw_features = []\<rparr>)) (sg_scores row)"

text \<open>A parsed timestamp keeps its offset; comparing a naive with an aware one raises.\<close>

type_synonym stamp = "int \<times> int option"

definition from_iso :: "iso_parser \<Rightarrow> string \<Rightarrow> stamp res" where
  "from_iso isop s = (case isop s of None \<Rightarrow> Inl ValueError | Some st \<Rightarrow> Inr st)"

definition stamp_diff :: "stamp \<Rightarrow> stamp \<Rightarrow> int res" where
  "stamp_diff a b =
     (case (snd a, snd b) of
        (None, None) \<Rightarrow> Inr (fst a - fst b)
      | (Some o1, Some o2) \<Rightarrow> Inr ((fst a - o1) - (fst b - o2))
      | _ \<Rightarrow> Inl TypeError)"

definition stamp_eq :: "stamp \<Rightarrow> stamp \<Rightarrow> bool" where
  "stamp_eq a b = (stamp_diff a b = Inr 0)"

text \<open>\<open>entry_fraction * (last_ts - first_ts)\<close> rounds the exact product to microseconds, halves to even.\<close>

definition scale_delta :: "pyfloat \<Rightarrow> int \<Rightarrow> int res" where
  "scale_delta f d = (case f of
      Fin q \<Rightarrow> Inr (rhe (q * of_int d))
    | NaN \<Rightarrow> Inl ValueError
    | _ \<Rightarrow> Inl OverflowError)"

definition shift_stamp :: "stamp \<Rightarrow> int \<Rightarrow> stamp res" where
  "shift_stamp s d = (if in_datetime_range (fst s + d) then Inr (fst s + d, snd s) else Inl OverflowError)"

fun last_at_or_before :: "stamp \<Rightarrow> nat \<Rightarrow> nat \<Rightarrow> (stamp \<times> pyfloat) list \<Rightarrow> nat res" where
  "last_at_or_before target chosen i [] = Inr chosen"
| "last_at_or_before target chosen i (p # ps) =
     rbind (stamp_diff (fst p) target) (\<lambda>d. if d \<le> 0 then last_at_or_before target i (Suc i) ps else Inr chosen)"

text \<open>The position of the chosen point in the ledger, its timestamp and price.\<close>

definition entry_asof :: "(stamp \<times> pyfloat) list \<Rightarrow> pyfloat \<Rightarrow> nat res" where
  "entry_asof ps fraction =
     (if ps = [] then Inl ValueError
      else rbind (stamp_diff (fst (last ps)) (fst (hd ps))) (\<lambda>d.
           rbind (scale_delta fraction d) (\<lambda>x.
           rbind (shift_stamp (fst (hd ps)) x) (\<lambda>target. last_at_or_before target 0 0 ps))))"

text \<open>\<open>ledger.index\<close> finds the first equal point; the chosen one is equal to itself.\<close>

definition first_equal :: "(stamp \<times> pyfloat) list \<Rightarrow> nat \<Rightarrow> nat" where
  "first_equal ps i = length (takeWhile (\<lambda>j. \<not> (j = i \<or> stamp_eq (fst (ps ! j)) (fst (ps ! i)) \<and> feq (snd (ps ! j)) (snd (ps ! i)))) [0..<i])"

definition recompute_entry_asof :: "iso_parser \<Rightarrow> market_snapshot \<Rightarrow> pyfloat \<Rightarrow> (string \<times> pyfloat) res" where
  "recompute_entry_asof isop shot fraction =
     (if ms_price_ledger shot = [] then Inl ValueError
      else rbind (rmap (\<lambda>pp. rbind (from_iso isop (pp_ts pp)) (\<lambda>s. Inr (s, pp_mid_price pp))) (ms_price_ledger shot)) (\<lambda>ps.
           rbind (entry_asof ps fraction) (\<lambda>i. Inr (pp_ts (ms_price_ledger shot ! first_equal ps i), snd (ps ! i)))))"

section \<open>Survival rows\<close>

record survival_row =
  sv_market_id :: string
  sv_slug :: string
  sv_signal :: signal_row
  sv_entry_asof_ts_iso :: string
  sv_resolution_ts_iso :: "string option"
  sv_end_date_iso :: string
  sv_outcome :: string
  sv_winning_price :: pyfloat
  sv_liquidity_cap :: pyfloat
  sv_players :: "(string \<times> string) option"
  sv_surface :: "string option"

definition ENTRY_PRICE_EPS :: pyfloat where "ENTRY_PRICE_EPS = rnd (1 / 10 ^ 9)"

text \<open>The slug parser and the player resolver are outside: what they return for a slug.\<close>

record row_env =
  re_isop :: iso_parser
  re_players :: "string \<Rightarrow> (string \<times> string) option"
  re_surface :: "string \<Rightarrow> string option"

definition join_row :: "row_env \<Rightarrow> (string, market_snapshot) dict \<Rightarrow> pyfloat \<Rightarrow> signal_row \<Rightarrow> survival_row res" where
  "join_row env by_id fraction row =
     (case dget by_id (sg_market_id row) of
        None \<Rightarrow> Inl KeyError
      | Some shot \<Rightarrow>
          rbind (recompute_entry_asof (re_isop env) shot fraction) (\<lambda>(asof, price).
          if flt ENTRY_PRICE_EPS (fabs (fsub price (sg_entry_price row))) then Inl ValueError
          else Inr \<lparr>sv_market_id = sg_market_id row, sv_slug = ms_slug shot, sv_signal = row, sv_entry_asof_ts_iso = asof,
                 sv_resolution_ts_iso = ms_resolution_ts_iso shot, sv_end_date_iso = ms_end_date_iso shot,
                 sv_outcome = (case ms_outcome shot of Some (c # s) \<Rightarrow> c # s | _ \<Rightarrow> sg_outcome row),
                 sv_winning_price = (case ms_winning_price shot of Some p \<Rightarrow> p | None \<Rightarrow> sg_winning_price row),
                 sv_liquidity_cap = ms_liquidity_cap_usd shot, sv_players = re_players env (ms_slug shot),
                 sv_surface = re_surface env (ms_slug shot)\<rparr>))"

definition below_floor :: "pyfloat option \<Rightarrow> signal_row \<Rightarrow> bool" where
  "below_floor price_floor row = (case price_floor of None \<Rightarrow> False | Some f \<Rightarrow> flt (sg_entry_price row) f)"

definition build_survival_rows ::
  "row_env \<Rightarrow> signal_row list \<Rightarrow> market_snapshot list \<Rightarrow> pyfloat \<Rightarrow> pyfloat option \<Rightarrow> survival_row list res" where
  "build_survival_rows env rows snaps fraction price_floor =
     (let by_id = fold_dict (map (\<lambda>s. (ms_market_id s, s)) snaps)
      in rmap (join_row env by_id fraction) (filter (\<lambda>r. \<not> below_floor price_floor r) rows))"

section \<open>The schedule\<close>

definition SECOND :: int where "SECOND = 1000000"
definition SETTLE_CHECKPOINT_MARGIN :: int where "SETTLE_CHECKPOINT_MARGIN = SECOND"
definition TIED_DECISION_NUDGE :: int where "TIED_DECISION_NUDGE = SECOND"
definition DEFAULT_WITHIN_TICK_ADVANCE :: int where "DEFAULT_WITHIN_TICK_ADVANCE = SECOND"

definition parse_ts :: "iso_parser \<Rightarrow> string \<Rightarrow> int res" where
  "parse_ts isop s =
     rbind (from_iso isop s) (\<lambda>(t, off).
       case off of None \<Rightarrow> Inr t | Some d \<Rightarrow> if in_datetime_range (t - d) then Inr (t - d) else Inl OverflowError)"

definition due_settle_ts :: "exec_env \<Rightarrow> survival_row \<Rightarrow> int res" where
  "due_settle_ts env row =
     rbind (derive_expected_settle_ts env (sv_end_date_iso row)) (\<lambda>txt.
     rbind (parse_ts (x_parse_iso env) txt) (\<lambda>expected.
     case sv_resolution_ts_iso row of
       None \<Rightarrow> Inr expected
     | Some r \<Rightarrow> rbind (parse_ts (x_parse_iso env) r) (\<lambda>resolution. Inr (max expected resolution))))"

record schedule_stop =
  st_asof :: int
  st_market :: "string option"

record schedule =
  sch_stops :: "schedule_stop list"
  sch_rows :: "(string, survival_row) dict"

definition later :: "int \<Rightarrow> int \<Rightarrow> int res" where
  "later t d = (if in_datetime_range (t + d) then Inr (t + d) else Inl OverflowError)"

text \<open>The rows by entry time and market id.\<close>

definition ordered_rows :: "exec_env \<Rightarrow> survival_row list \<Rightarrow> (int \<times> survival_row) list res" where
  "ordered_rows env rows =
     rbind (rmap (\<lambda>r. rbind (parse_ts (x_parse_iso env) (sv_entry_asof_ts_iso r)) (\<lambda>e. Inr (e, r))) rows)
       (\<lambda>ers. Inr (sort_key (\<lambda>(e, r). (e, sv_market_id r)) ers))"

text \<open>Pass 1: a decision stop per row with its due time, nudged past the one before it.\<close>

fun decisions :: "exec_env \<Rightarrow> int option \<Rightarrow> (int \<times> survival_row) list \<Rightarrow> (int \<times> string \<times> int) list res" where
  "decisions env last_ts [] = Inr []"
| "decisions env last_ts ((e, r) # xs) =
     rbind (case last_ts of None \<Rightarrow> Inr e | Some l \<Rightarrow> if e \<le> l then later l TIED_DECISION_NUDGE else Inr e) (\<lambda>actual.
     rbind (due_settle_ts env r) (\<lambda>due.
     rbind (decisions env (Some actual) xs) (\<lambda>ds. Inr ((actual, sv_market_id r, due) # ds))))"

text \<open>Pass 2: a checkpoint between two decisions, past the latest due time that falls between them.\<close>

definition checkpoint :: "int list \<Rightarrow> int \<Rightarrow> int \<Rightarrow> schedule_stop list res" where
  "checkpoint dues cursor next_ts =
     (case filter (\<lambda>d. cursor < d \<and> d < next_ts) dues of
        [] \<Rightarrow> Inr []
      | d # ds \<Rightarrow> rbind (later (fold max ds d) SETTLE_CHECKPOINT_MARGIN) (\<lambda>c.
          Inr (if next_ts \<le> c then [] else [\<lparr>st_asof = c, st_market = None\<rparr>])))"

fun interleave :: "int list \<Rightarrow> (int \<times> string \<times> int) list \<Rightarrow> schedule_stop list res" where
  "interleave dues [] = Inr []"
| "interleave dues [(a, m, d)] = Inr [\<lparr>st_asof = a, st_market = Some m\<rparr>]"
| "interleave dues ((a, m, d) # (a', m', d') # xs) =
     rbind (checkpoint (dues @ [d]) a a') (\<lambda>c.
     rbind (interleave (dues @ [d]) ((a', m', d') # xs)) (\<lambda>ss. Inr (\<lparr>st_asof = a, st_market = Some m\<rparr> # c @ ss)))"

definition final_drain :: "(int \<times> string \<times> int) list \<Rightarrow> schedule_stop list res" where
  "final_drain ds =
     (case ds of
        [] \<Rightarrow> Inr []
      | (a, m, d) # xs \<Rightarrow>
          rbind (later (fold max (map (snd \<circ> snd) xs) d) SETTLE_CHECKPOINT_MARGIN) (\<lambda>c.
            Inr (if fst (last ds) < c then [\<lparr>st_asof = c, st_market = None\<rparr>] else [])))"

definition build_survival_schedule :: "exec_env \<Rightarrow> int \<Rightarrow> survival_row list \<Rightarrow> schedule res" where
  "build_survival_schedule env settle_lag rows =
     rbind (ordered_rows env rows) (\<lambda>ers.
     rbind (decisions (env\<lparr>x_settle_lag := settle_lag\<rparr>) None ers) (\<lambda>ds.
     rbind (interleave [] ds) (\<lambda>ss.
     rbind (final_drain ds) (\<lambda>f.
       Inr \<lparr>sch_stops = ss @ f, sch_rows = fold_dict (map (\<lambda>r. (sv_market_id r, r)) rows)\<rparr>))))"

text \<open>The tick source: the schedule decides, by the loop's tick counter.\<close>

definition inputs_for :: "schedule \<Rightarrow> int \<Rightarrow> tick_inputs option res" where
  "inputs_for sch tick =
     (if tick < 0 \<or> int (length (sch_stops sch)) \<le> tick then Inr None
      else case st_market (sch_stops sch ! nat tick) of
        None \<Rightarrow> Inr None
      | Some m \<Rightarrow>
          (case dget (sch_rows sch) m of
             None \<Rightarrow> Inl KeyError
           | Some row \<Rightarrow> rbind (row_to_signals (sv_signal row)) (\<lambda>sigs.
               Inr (Some \<lparr>ti_market_id = sv_market_id row, ti_signals = sigs, ti_price = sg_entry_price (sv_signal row),
                 ti_liquidity_cap_usd = sv_liquidity_cap row, ti_cross_market_signal = sg_cross_market_signal (sv_signal row),
                 ti_fill_price = None, ti_fee_bps = None, ti_half_spread_frac = None\<rparr>))))"

section \<open>The clocks\<close>

record controllable_clock =
  cc_base :: int
  cc_within_tick_advance :: int
  cc_scratch :: int

definition cc_now :: "controllable_clock \<Rightarrow> int \<times> controllable_clock" where
  "cc_now c = (cc_base c + cc_scratch c,
     if 0 < cc_within_tick_advance c then c\<lparr>cc_scratch := cc_scratch c + cc_within_tick_advance c\<rparr> else c)"

definition cc_set_to :: "int \<Rightarrow> controllable_clock \<Rightarrow> unit res \<times> controllable_clock" where
  "cc_set_to ts c = (if ts < cc_base c then (Inl ValueError, c) else (Inr (), c\<lparr>cc_base := ts, cc_scratch := 0\<rparr>))"

definition cc_advance :: "int \<Rightarrow> controllable_clock \<Rightarrow> unit res \<times> controllable_clock" where
  "cc_advance d c = (if d < 0 then (Inl ValueError, c) else (Inr (), c\<lparr>cc_base := cc_base c + d, cc_scratch := 0\<rparr>))"

text \<open>The clock of a life is read at the loop's tick counter; \<open>None\<close> is a read before the loop is bound, which
  falls back to the wall clock \<open>w\<close> when there is no stop.\<close>

record driving_clock =
  dc_stops :: "int list"
  dc_within_tick_advance :: int
  dc_scratch :: int
  dc_last_tick :: int

definition mk_driving_clock :: "schedule \<Rightarrow> driving_clock" where
  "mk_driving_clock sch = \<lparr>dc_stops = map st_asof (sch_stops sch), dc_within_tick_advance = DEFAULT_WITHIN_TICK_ADVANCE,
     dc_scratch = 0, dc_last_tick = - 1\<rparr>"

definition dc_now :: "int \<Rightarrow> nat option \<Rightarrow> driving_clock \<Rightarrow> int option \<times> driving_clock" where
  "dc_now w bound c =
     (case bound of
        None \<Rightarrow> (Some (case dc_stops c of [] \<Rightarrow> w | s # _ \<Rightarrow> s), c)
      | Some tick \<Rightarrow>
          let c1 = (if int tick \<noteq> dc_last_tick c then c\<lparr>dc_scratch := 0, dc_last_tick := int tick\<rparr> else c) in
          if dc_stops c = [] then (None, c1)
          else (Some (dc_stops c ! min tick (length (dc_stops c) - 1) + dc_scratch c1),
                if 0 < dc_within_tick_advance c then c1\<lparr>dc_scratch := dc_scratch c1 + dc_within_tick_advance c\<rparr> else c1))"

section \<open>What the passes keep\<close>

text \<open>The decision stops of a list of stops, with their times.\<close>

definition decision_stops :: "schedule_stop list \<Rightarrow> (int \<times> string) list" where
  "decision_stops ss = List.map_filter (\<lambda>s. case st_market s of None \<Rightarrow> None | Some m \<Rightarrow> Some (st_asof s, m)) ss"

lemma decision_stops_simps [simp]:
  "decision_stops [] = []" "decision_stops (\<lparr>st_asof = t, st_market = Some m\<rparr> # ss) = (t, m) # decision_stops ss"
  "decision_stops (\<lparr>st_asof = t, st_market = None\<rparr> # ss) = decision_stops ss" "decision_stops (ss @ ss') = decision_stops ss @ decision_stops ss'"
  by (simp_all add: decision_stops_def List.map_filter_def)

lemma later_Inr: "later t d = Inr u \<Longrightarrow> u = t + d"
  by (simp add: later_def split: if_splits)

lemma nudge_pos: "0 < TIED_DECISION_NUDGE" "0 < SETTLE_CHECKPOINT_MARGIN" "0 < DEFAULT_WITHIN_TICK_ADVANCE"
  by (simp_all add: TIED_DECISION_NUDGE_def SETTLE_CHECKPOINT_MARGIN_def DEFAULT_WITHIN_TICK_ADVANCE_def SECOND_def)

lemma decisions_ok:
  "decisions env l ers = Inr ds \<Longrightarrow>
     sorted_wrt (<) (map fst ds) \<and> (\<forall>t. l = Some t \<longrightarrow> (\<forall>a \<in> set ds. t < fst a)) \<and>
     list_all2 (\<lambda>(e, r) (a, m, d). e \<le> a \<and> m = sv_market_id r \<and> due_settle_ts env r = Inr d) ers ds"
proof (induction env l ers arbitrary: ds rule: decisions.induct)
  case (2 env l e r xs)
  from 2(2) obtain a d ds' where step: "(case l of None \<Rightarrow> Inr e | Some t \<Rightarrow> if e \<le> t then later t TIED_DECISION_NUDGE else Inr e) = Inr a"
    "due_settle_ts env r = Inr d" "decisions env (Some a) xs = Inr ds'" "ds = (a, sv_market_id r, d) # ds'"
    by (auto simp: rbind_eq_Inr)
  have a: "e \<le> a" "\<And>t. l = Some t \<Longrightarrow> t < a"
    using step(1) nudge_pos by (auto simp: later_def split: option.splits if_splits)
  have IH: "sorted_wrt (<) (map fst ds')" "\<forall>b \<in> set ds'. a < fst b"
    "list_all2 (\<lambda>(e, r) (a, m, d). e \<le> a \<and> m = sv_market_id r \<and> due_settle_ts env r = Inr d) xs ds'"
    using 2(1) [OF step(3)] by auto
  then show ?case using a step(2,4) by (fastforce simp: less_trans)
qed simp

lemma fold_max_upper: "(x::int) = d \<or> x \<in> set ds \<Longrightarrow> x \<le> fold max ds d"
proof (induction ds arbitrary: x d)
  case (Cons y ys)
  have "max y d \<le> fold max ys (max y d)" by (rule Cons.IH) simp
  moreover have "x \<le> fold max ys (max y d)" if "x \<in> set ys" by (rule Cons.IH) (use that in simp)
  ultimately show ?case using Cons.prems by auto
qed simp

lemma checkpoint_ok: "checkpoint dues c n = Inr ss \<Longrightarrow> ss = [] \<or> (\<exists>t. ss = [\<lparr>st_asof = t, st_market = None\<rparr>] \<and> c < t \<and> t < n)"
proof -
  assume ck: "checkpoint dues c n = Inr ss"
  show ?thesis
  proof (cases "filter (\<lambda>d. c < d \<and> d < n) dues")
    case (Cons d ds)
    then have "d \<in> set (filter (\<lambda>d. c < d \<and> d < n) dues)" by simp
    then have "c < d" by simp
    moreover have "d \<le> fold max ds d" by (rule fold_max_upper) simp
    ultimately show ?thesis using ck Cons nudge_pos by (auto simp: checkpoint_def rbind_eq_Inr dest!: later_Inr split: if_splits)
  qed (use ck in \<open>simp add: checkpoint_def\<close>)
qed

lemma interleave_ok:
  assumes "interleave dues ds = Inr ss" "sorted_wrt (<) (map fst ds)"
  shows "sorted_wrt (<) (map st_asof ss)" "decision_stops ss = map (\<lambda>(a, m, d). (a, m)) ds"
    "ds \<noteq> [] \<Longrightarrow> ss \<noteq> [] \<and> st_asof (hd ss) = fst (hd ds) \<and> st_asof (last ss) = fst (last ds)"
proof -
  have "sorted_wrt (<) (map st_asof ss) \<and> decision_stops ss = map (\<lambda>(a, m, d). (a, m)) ds \<and>
    (ds \<noteq> [] \<longrightarrow> ss \<noteq> [] \<and> st_asof (hd ss) = fst (hd ds) \<and> st_asof (last ss) = fst (last ds))"
    using assms
  proof (induction dues ds arbitrary: ss rule: interleave.induct)
    case (3 dues a m d a' m' d' xs)
    from 3(2) obtain c ss' where c: "checkpoint (dues @ [d]) a a' = Inr c" "interleave (dues @ [d]) ((a', m', d') # xs) = Inr ss'"
      "ss = \<lparr>st_asof = a, st_market = Some m\<rparr> # c @ ss'" by (auto simp: rbind_eq_Inr)
    have IH: "sorted_wrt (<) (map st_asof ss')" "decision_stops ss' = map (\<lambda>(a, m, d). (a, m)) ((a', m', d') # xs)"
      "ss' \<noteq> []" "st_asof (hd ss') = a'" "st_asof (last ss') = fst (last ((a', m', d') # xs))"
      using 3(1) [OF c(2)] 3(3) by auto
    have low: "a' \<le> st_asof s" if "s \<in> set ss'" for s
      using that IH(1,3,4) by (cases ss') auto
    have aa: "a < a'" using 3(3) by simp
    show ?case using checkpoint_ok [OF c(1)]
    proof
      assume "c = []"
      then show ?thesis using c(3) IH aa low by (fastforce)
    next
      assume "\<exists>t. c = [\<lparr>st_asof = t, st_market = None\<rparr>] \<and> a < t \<and> t < a'"
      then show ?thesis using c(3) IH aa low by fastforce
    qed
  qed auto
  then show "sorted_wrt (<) (map st_asof ss)" "decision_stops ss = map (\<lambda>(a, m, d). (a, m)) ds"
    "ds \<noteq> [] \<Longrightarrow> ss \<noteq> [] \<and> st_asof (hd ss) = fst (hd ds) \<and> st_asof (last ss) = fst (last ds)" by blast+
qed

lemma final_drain_ok:
  assumes "final_drain ds = Inr f" "ds \<noteq> []"
  shows "f = [] \<or> (\<exists>t. f = [\<lparr>st_asof = t, st_market = None\<rparr>] \<and> fst (last ds) < t)"
    "a \<in> set ds \<Longrightarrow> snd (snd a) < (if f = [] then fst (last ds) else st_asof (last f))"
proof -
  obtain t m d xs where ds: "ds = (t, m, d) # xs" using assms(2) by (cases ds) auto
  from assms(1) obtain c where c: "later (fold max (map (snd \<circ> snd) xs) d) SETTLE_CHECKPOINT_MARGIN = Inr c"
    "f = (if fst (last ds) < c then [\<lparr>st_asof = c, st_market = None\<rparr>] else [])"
    by (auto simp: final_drain_def ds rbind_eq_Inr)
  then show "f = [] \<or> (\<exists>t. f = [\<lparr>st_asof = t, st_market = None\<rparr>] \<and> fst (last ds) < t)" by simp
  assume "a \<in> set ds"
  then have "snd (snd a) \<le> fold max (map (snd \<circ> snd) xs) d" by (intro fold_max_upper) (auto simp: ds)
  then show "snd (snd a) < (if f = [] then fst (last ds) else st_asof (last f))"
    using later_Inr [OF c(1)] nudge_pos(2) c(2) by (auto split: if_splits)
qed

lemma list_all2_mono_strong':
  "list_all2 P xs ys \<Longrightarrow> (\<And>x y. x \<in> set xs \<Longrightarrow> P x y \<Longrightarrow> Q x y) \<Longrightarrow> list_all2 Q xs ys"
  by (auto simp: list_all2_conv_all_nth)

lemma list_all2_member: "list_all2 P xs ys \<Longrightarrow> x \<in> set xs \<Longrightarrow> \<exists>y \<in> set ys. P x y"
  by (induction xs ys rule: list_all2_induct) auto

lemma rmap_Inr_length: "rmap f xs = Inr ys \<Longrightarrow> list_all2 (\<lambda>x y. f x = Inr y) xs ys"
  by (induction xs arbitrary: ys) (auto simp: rbind_eq_Inr)

lemma ordered_rows_ok:
  assumes "ordered_rows env rows = Inr ers"
  shows "sorted (map (\<lambda>(e, r). (e, sv_market_id r)) ers)" "mset (map snd ers) = mset rows"
    "(e, r) \<in> set ers \<Longrightarrow> parse_ts (x_parse_iso env) (sv_entry_asof_ts_iso r) = Inr e"
proof -
  from assms obtain xs where xs: "rmap (\<lambda>r. rbind (parse_ts (x_parse_iso env) (sv_entry_asof_ts_iso r)) (\<lambda>e. Inr (e, r))) rows = Inr xs"
    "ers = sort_key (\<lambda>(e, r). (e, sv_market_id r)) xs" by (auto simp: ordered_rows_def rbind_eq_Inr)
  have l: "list_all2 (\<lambda>r y. rbind (parse_ts (x_parse_iso env) (sv_entry_asof_ts_iso r)) (\<lambda>e. Inr (e, r)) = Inr y) rows xs"
    using rmap_Inr_length [OF xs(1)] .
  then have "list_all2 (\<lambda>r y. snd y = r \<and> parse_ts (x_parse_iso env) (sv_entry_asof_ts_iso r) = Inr (fst y)) rows xs"
    by (rule list_all2_mono) (auto simp: rbind_eq_Inr)
  then have m: "map snd xs = rows" "\<forall>y \<in> set xs. parse_ts (x_parse_iso env) (sv_entry_asof_ts_iso (snd y)) = Inr (fst y)"
    by (induction rows xs rule: list_all2_induct) auto
  show "sorted (map (\<lambda>(e, r). (e, sv_market_id r)) ers)" unfolding xs(2) by (rule sorted_sort_key)
  show "mset (map snd ers) = mset rows" using m(1) by (metis mset_map mset_sort xs(2))
  show "(e, r) \<in> set ers \<Longrightarrow> parse_ts (x_parse_iso env) (sv_entry_asof_ts_iso r) = Inr e" using m(2) by (auto simp: xs(2))
qed

lemma sorted_upto_last: "sorted_wrt (<) (map f xs) \<Longrightarrow> x \<in> set xs \<Longrightarrow> f x \<le> (f (last xs) :: int)"
  by (induction xs) (auto intro: less_imp_le)

lemma schedule_facts:
  assumes "build_survival_schedule env lag rows = Inr sch"
  shows "sorted_wrt (<) (map st_asof (sch_stops sch))"
    and "\<exists>ers. mset (map snd ers) = mset rows \<and> sorted (map (\<lambda>(e, r). (e, sv_market_id r)) ers) \<and>
      list_all2 (\<lambda>(e, r) (t, m). parse_ts (x_parse_iso env) (sv_entry_asof_ts_iso r) = Inr e \<and> e \<le> t \<and> m = sv_market_id r)
        ers (decision_stops (sch_stops sch))"
    and "r \<in> set rows \<Longrightarrow> \<exists>d. due_settle_ts (env\<lparr>x_settle_lag := lag\<rparr>) r = Inr d \<and> d < st_asof (last (sch_stops sch))"
proof -
  obtain ers ds ss f where b: "ordered_rows env rows = Inr ers" "decisions (env\<lparr>x_settle_lag := lag\<rparr>) None ers = Inr ds"
    "interleave [] ds = Inr ss" "final_drain ds = Inr f" "sch_stops sch = ss @ f"
    using assms by (auto simp: build_survival_schedule_def rbind_eq_Inr)
  note d = decisions_ok [OF b(2)]
  then have sd: "sorted_wrt (<) (map fst ds)" by blast
  note i = interleave_ok [OF b(3) sd]
  note o = ordered_rows_ok [OF b(1)]
  have la: "list_all2 (\<lambda>(e, r) (a, m, du). e \<le> a \<and> m = sv_market_id r \<and> due_settle_ts (env\<lparr>x_settle_lag := lag\<rparr>) r = Inr du) ers ds"
    using d by blast
  have dec: "decision_stops f = []" using final_drain_ok(1) [OF b(4)] by (cases "ds = []") (use b(4) in \<open>auto simp: final_drain_def\<close>)
  show "sorted_wrt (<) (map st_asof (sch_stops sch))"
  proof (cases "ds = []")
    case False
    have last: "st_asof s \<le> fst (last ds)" if "s \<in> set ss" for s
      using sorted_upto_last [OF i(1) that] i(3) [OF False] by simp
    from final_drain_ok(1) [OF b(4) False] show ?thesis
    proof
      assume "f = []"
      then show ?thesis using i(1) b(5) by simp
    next
      assume "\<exists>t. f = [\<lparr>st_asof = t, st_market = None\<rparr>] \<and> fst (last ds) < t"
      then obtain t where t: "f = [\<lparr>st_asof = t, st_market = None\<rparr>]" "fst (last ds) < t" by blast
      have "st_asof s < t" if "s \<in> set ss" for s using last [OF that] t(2) by simp
      then show ?thesis unfolding b(5) t(1) using i(1) by (simp add: sorted_wrt_append)
    qed
  qed (use b(3,4,5) in \<open>simp add: final_drain_def\<close>)
  have "list_all2 (\<lambda>(e, r) (t, m). parse_ts (x_parse_iso env) (sv_entry_asof_ts_iso r) = Inr e \<and> e \<le> t \<and> m = sv_market_id r) ers (map (\<lambda>(a, m, d). (a, m)) ds)"
    unfolding list_all2_map2 using la by (rule list_all2_mono_strong') (use o(3) in auto)
  then show "\<exists>ers. mset (map snd ers) = mset rows \<and> sorted (map (\<lambda>(e, r). (e, sv_market_id r)) ers) \<and>
      list_all2 (\<lambda>(e, r) (t, m). parse_ts (x_parse_iso env) (sv_entry_asof_ts_iso r) = Inr e \<and> e \<le> t \<and> m = sv_market_id r)
        ers (decision_stops (sch_stops sch))"
    using o(1,2) i(2) dec b(5) by (intro exI [of _ ers]) simp
  assume r: "r \<in> set rows"
  then obtain e where er: "(e, r) \<in> set ers" using mset_eq_setD [OF o(2)] by force
  then obtain a where a: "a \<in> set ds" "due_settle_ts (env\<lparr>x_settle_lag := lag\<rparr>) r = Inr (snd (snd a))"
    using list_all2_member [OF la er] by (auto split: prod.splits)
  then have ne: "ds \<noteq> []" by auto
  have "snd (snd a) < st_asof (last (sch_stops sch))"
    using final_drain_ok(2) [OF b(4) ne a(1)] i(3) [OF ne] b(5) by (auto split: if_splits)
  then show "\<exists>d. due_settle_ts (env\<lparr>x_settle_lag := lag\<rparr>) r = Inr d \<and> d < st_asof (last (sch_stops sch))" using a(2) by blast
qed

text \<open>C30. A schedule that is built has strictly increasing stops, decides every row exactly once in the order of entry
  time and market id and never before its entry, and ends after every due settlement, so the last stop drains
  what is still open.\<close>

theorem schedule_sound:
  assumes "build_survival_schedule env lag rows = Inr sch"
  shows "sorted_wrt (<) (map st_asof (sch_stops sch)) \<and>
    (\<exists>ers. mset (map snd ers) = mset rows \<and> sorted (map (\<lambda>(e, r). (e, sv_market_id r)) ers) \<and>
      list_all2 (\<lambda>(e, r) (t, m). parse_ts (x_parse_iso env) (sv_entry_asof_ts_iso r) = Inr e \<and> e \<le> t \<and> m = sv_market_id r)
        ers (decision_stops (sch_stops sch))) \<and>
    (\<forall>r \<in> set rows. \<exists>d. due_settle_ts (env\<lparr>x_settle_lag := lag\<rparr>) r = Inr d \<and> d < st_asof (last (sch_stops sch)))"
  using schedule_facts [OF assms] by blast

section \<open>Reading the clock of a life\<close>

text \<open>The values of a list of reads, each at the tick the loop is on.\<close>

primrec reads_at :: "int \<Rightarrow> nat list \<Rightarrow> driving_clock \<Rightarrow> int option list" where
  "reads_at w [] c = []"
| "reads_at w (t # ts) c = (case dc_now w (Some t) c of (x, c') \<Rightarrow> x # reads_at w ts c')"

definition fresh_clock :: "int list \<Rightarrow> int \<Rightarrow> driving_clock" where
  "fresh_clock stops adv = \<lparr>dc_stops = stops, dc_within_tick_advance = adv, dc_scratch = 0, dc_last_tick = - 1\<rparr>"

lemma reads_after:
  assumes "0 < adv" "sorted (ps @ ts)" "\<forall>t \<in> set ts. t < length stops"
    and "dc_stops c = stops" "dc_within_tick_advance c = adv"
    and "dc_last_tick c = (if ps = [] then - 1 else int (last ps))"
    and "ps \<noteq> [] \<Longrightarrow> dc_scratch c = adv * int (count_list ps (last ps))" "i < length ts"
  shows "reads_at w ts c ! i = Some (stops ! (ts ! i) + adv * int (count_list (ps @ take i ts) (ts ! i)))"
  using assms(2-8)
proof (induction ts arbitrary: ps c i)
  case (Cons t ts)
  define c1 where "c1 = (if int t \<noteq> dc_last_tick c then c\<lparr>dc_scratch := 0, dc_last_tick := int t\<rparr> else c)"
  have s: "dc_scratch c1 = adv * int (count_list ps t)"
  proof (cases "ps \<noteq> [] \<and> last ps = t")
    case True
    then show ?thesis using Cons.prems(5,6) by (simp add: c1_def)
  next
    case False
    have "t \<notin> set ps"
    proof
      assume t: "t \<in> set ps"
      then have "t \<le> last ps" using Cons.prems(1) by (induction ps) auto
      moreover have "last ps \<in> set ps" using t by (cases ps) simp_all
      then have "last ps \<le> t" using Cons.prems(1) by (simp add: sorted_append)
      ultimately show False using False t by auto
    qed
    then have "count_list ps t = 0" by simp
    moreover have "int t \<noteq> dc_last_tick c" using False Cons.prems(5) by auto
    ultimately show ?thesis by (simp add: c1_def)
  qed
  have c1: "dc_stops c1 = stops" "dc_within_tick_advance c1 = adv" "dc_last_tick c1 = int t"
    using Cons.prems(3,4) by (simp_all add: c1_def)
  have t: "t < length stops" using Cons.prems(2) by simp
  then have now: "dc_now w (Some t) c = (Some (stops ! t + dc_scratch c1), c1\<lparr>dc_scratch := dc_scratch c1 + adv\<rparr>)"
    unfolding dc_now_def Let_def c1_def [symmetric] option.case using assms(1) Cons.prems(3,4) by (auto simp: min_def)
  show ?case
  proof (cases i)
    case 0
    then show ?thesis using now s by simp
  next
    case (Suc j)
    have "reads_at w ts (c1\<lparr>dc_scratch := dc_scratch c1 + adv\<rparr>) ! j =
        Some (stops ! (ts ! j) + adv * int (count_list ((ps @ [t]) @ take j ts) (ts ! j)))"
      by (rule Cons.IH) (use Cons.prems c1 s Suc in \<open>simp_all add: distrib_left\<close>)
    then show ?thesis using now Suc by simp
  qed
qed simp

lemma reads_length: "length (reads_at w ts c) = length ts"
  by (induction ts arbitrary: c) (simp_all split: prod.split)

lemma count_take_less:
  assumes "i < j" "j \<le> length ts" shows "count_list (take i ts) (ts ! i) < count_list (take j ts) (ts ! i)"
proof -
  have "take j ts = take i ts @ ts ! i # take (j - Suc i) (drop (Suc i) ts)"
    using assms by (metis Cons_nth_drop_Suc Suc_diff_Suc append_take_drop_id less_imp_le_nat order.strict_trans2 take_Suc_Cons take_add le_add_diff_inverse)
  then show ?thesis by simp
qed

lemma clock_reads:
  assumes "0 < adv" "sorted ts" "\<forall>t \<in> set ts. t < length stops"
  shows "i < length ts \<Longrightarrow> reads_at w ts (fresh_clock stops adv) ! i = Some (stops ! (ts ! i) + adv * int (count_list (take i ts) (ts ! i)))"
    and "(\<forall>t. Suc t < length stops \<longrightarrow> stops ! t + adv * (int (count_list ts t) - 1) < stops ! Suc t) \<Longrightarrow> sorted_wrt (<) stops \<Longrightarrow>
      sorted_wrt (<) (map the (reads_at w ts (fresh_clock stops adv)))"
proof -
  have r: "reads_at w ts (fresh_clock stops adv) ! i = Some (stops ! (ts ! i) + adv * int (count_list (take i ts) (ts ! i)))" if "i < length ts" for i
    using reads_after [of adv "[]" ts stops "fresh_clock stops adv" i w] assms that by (simp add: fresh_clock_def)
  then show "i < length ts \<Longrightarrow> reads_at w ts (fresh_clock stops adv) ! i = Some (stops ! (ts ! i) + adv * int (count_list (take i ts) (ts ! i)))" .
  assume gap: "\<forall>t. Suc t < length stops \<longrightarrow> stops ! t + adv * (int (count_list ts t) - 1) < stops ! Suc t" and inc: "sorted_wrt (<) stops"
  show "sorted_wrt (<) (map the (reads_at w ts (fresh_clock stops adv)))"
    unfolding sorted_wrt_iff_nth_less
  proof (intro allI impI)
    fix i j assume ij: "i < j" "j < length (map the (reads_at w ts (fresh_clock stops adv)))"
    then have l: "i < length ts" "j < length ts" by (simp_all add: reads_length)
    have le: "ts ! i \<le> ts ! j" using assms(2) ij(1) l(2) by (simp add: sorted_nth_mono)
    have "stops ! (ts ! i) + adv * int (count_list (take i ts) (ts ! i)) < stops ! (ts ! j) + adv * int (count_list (take j ts) (ts ! j))"
    proof (cases "ts ! i = ts ! j")
      case True
      then show ?thesis using count_take_less [OF ij(1), of ts] l assms(1) by simp
    next
      case False
      then have lt: "ts ! i < ts ! j" using le by simp
      have tj: "ts ! j < length stops" using assms(3) l(2) by simp
      have "count_list (take i ts) (ts ! i) < count_list ts (ts ! i)" using count_take_less [of i "length ts" ts] l(1) by simp
      then have "adv * int (count_list (take i ts) (ts ! i)) \<le> adv * (int (count_list ts (ts ! i)) - 1)" using assms(1) by simp
      moreover have "stops ! (ts ! i) + adv * (int (count_list ts (ts ! i)) - 1) < stops ! Suc (ts ! i)" using gap lt tj by simp
      moreover have "stops ! Suc (ts ! i) \<le> stops ! (ts ! j)"
        using inc lt tj by (cases "Suc (ts ! i) = ts ! j") (auto simp: sorted_wrt_iff_nth_less intro: less_imp_le)
      moreover have "0 \<le> adv * int (count_list (take j ts) (ts ! j))" using assms(1) by simp
      ultimately show ?thesis by linarith
    qed
    then show "map the (reads_at w ts (fresh_clock stops adv)) ! i < map the (reads_at w ts (fresh_clock stops adv)) ! j"
      using r l by (simp add: reads_length)
  qed
qed

text \<open>What the clock of a life shows: the stop of the current tick plus one advance for every earlier read in
  that tick.  So the time only moves forward as long as the reads of a tick fit below the next stop; the tied
  decisions, a nudge of one second apart, leave no room for a second read of the default advance.\<close>

theorem life_clock_reads:
  assumes "0 < adv" "sorted ts" "\<forall>t \<in> set ts. t < length stops"
  shows "(\<forall>i < length ts. reads_at w ts (fresh_clock stops adv) ! i = Some (stops ! (ts ! i) + adv * int (count_list (take i ts) (ts ! i)))) \<and>
    ((\<forall>t. Suc t < length stops \<longrightarrow> stops ! t + adv * (int (count_list ts t) - 1) < stops ! Suc t) \<longrightarrow> sorted_wrt (<) stops \<longrightarrow>
      sorted_wrt (<) (map the (reads_at w ts (fresh_clock stops adv))))"
  using clock_reads [OF assms] by blast

text \<open>A tick of three reads before the stop of a tied decision: the next tick starts in the past.\<close>

theorem life_clock_reads_witness:
  "reads_at 0 [0, 0, 0, 1] (fresh_clock [0, TIED_DECISION_NUDGE] DEFAULT_WITHIN_TICK_ADVANCE) ! 2 = Some (2 * SECOND) \<and>
   reads_at 0 [0, 0, 0, 1] (fresh_clock [0, TIED_DECISION_NUDGE] DEFAULT_WITHIN_TICK_ADVANCE) ! 3 = Some SECOND \<and>
   sorted_wrt (<) (map the (reads_at 0 [0, 0, 1] (fresh_clock [0, 60 * SECOND] DEFAULT_WITHIN_TICK_ADVANCE)))"
proof -
  have "sorted [0, 0, 0, 1 :: nat]" "sorted [0, 0, 1 :: nat]" by simp_all
  then show ?thesis
    using life_clock_reads [of DEFAULT_WITHIN_TICK_ADVANCE "[0, 0, 0, 1]" "[0, TIED_DECISION_NUDGE]" 0, THEN conjunct1, rule_format, of 2]
      life_clock_reads [of DEFAULT_WITHIN_TICK_ADVANCE "[0, 0, 0, 1]" "[0, TIED_DECISION_NUDGE]" 0, THEN conjunct1, rule_format, of 3]
      life_clock_reads [of DEFAULT_WITHIN_TICK_ADVANCE "[0, 0, 1]" "[0, 60 * SECOND]" 0, THEN conjunct2]
    by (simp add: TIED_DECISION_NUDGE_def DEFAULT_WITHIN_TICK_ADVANCE_def SECOND_def less_Suc_eq)
qed

section \<open>A small season\<close>

text \<open>Times are written in tally marks of seconds: two markets entered at the same instant and a later one.\<close>

definition tally_env :: exec_env where
  "tally_env = demo_exec_env\<lparr>x_parse_iso := (\<lambda>s. Some (int (length s) * SECOND, None)),
     x_to_iso := (\<lambda>t. replicate (nat (t div SECOND)) CHR ''t'')\<rparr>"

definition demo_row :: "string \<Rightarrow> nat \<Rightarrow> nat \<Rightarrow> survival_row" where
  "demo_row m entry ends = \<lparr>sv_market_id = m, sv_slug = [], sv_signal = \<lparr>sg_market_id = m, sg_slug = [], sg_scores = map (\<lambda>n. (n, Fin (3 / 4))) (RATIONAL_ENGINES @ SENTIENT_ENGINES),
     sg_confidences = map (\<lambda>n. (n, fone)) (RATIONAL_ENGINES @ SENTIENT_ENGINES),
     sg_entry_price = Fin (1 / 2), sg_outcome = ''yes'', sg_winning_price = fone, sg_liquidity_cap_usd = Fin 5,
     sg_cross_market_signal = fzero, sg_cluster_key = []\<rparr>, sv_entry_asof_ts_iso = replicate entry CHR ''t'', sv_resolution_ts_iso = None,
     sv_end_date_iso = replicate ends CHR ''t'', sv_outcome = ''yes'', sv_winning_price = fone, sv_liquidity_cap = Fin 5,
     sv_players = None, sv_surface = None\<rparr>"

definition demo_rows :: "survival_row list" where
  "demo_rows = [demo_row ''c'' 40 45, demo_row ''b'' 3 6, demo_row ''a'' 3 9]"

lemma demo_schedule:
  "case build_survival_schedule tally_env (2 * SECOND) demo_rows of
     Inl e \<Rightarrow> False
   | Inr sch \<Rightarrow> map (\<lambda>s. (st_asof s, st_market s)) (sch_stops sch) =
       [(3 * SECOND, Some ''a''), (4 * SECOND, Some ''b''), (12 * SECOND, None), (40 * SECOND, Some ''c''), (48 * SECOND, None)]"
  by code_simp

theorem schedule_sound_witness:
  "\<exists>sch. build_survival_schedule tally_env (2 * SECOND) demo_rows = Inr sch \<and> sorted_wrt (<) (map st_asof (sch_stops sch)) \<and>
     length (decision_stops (sch_stops sch)) = 3 \<and>
     (\<exists>d. due_settle_ts (tally_env\<lparr>x_settle_lag := 2 * SECOND\<rparr>) (demo_row ''c'' 40 45) = Inr d \<and> d < st_asof (last (sch_stops sch)))"
proof -
  obtain sch where sch: "build_survival_schedule tally_env (2 * SECOND) demo_rows = Inr sch"
    using demo_schedule by (cases "build_survival_schedule tally_env (2 * SECOND) demo_rows") auto
  note sound = schedule_sound [OF sch]
  then obtain ers where ers: "mset (map snd ers) = mset demo_rows"
    "list_all2 (\<lambda>(e, r) (t, m). parse_ts (x_parse_iso tally_env) (sv_entry_asof_ts_iso r) = Inr e \<and> e \<le> t \<and> m = sv_market_id r)
        ers (decision_stops (sch_stops sch))" by blast
  have "length ers = length demo_rows" using mset_eq_length [OF ers(1)] by simp
  then have "length (decision_stops (sch_stops sch)) = 3" using list_all2_lengthD [OF ers(2)] by (simp add: demo_rows_def)
  moreover have "demo_row ''c'' 40 45 \<in> set demo_rows" by (simp add: demo_rows_def)
  ultimately show ?thesis using sound sch by blast
qed

end
