(* ===== verification/Season.thy ===== *)
theory Season
  imports Schedule LoopRun
begin

text \<open>
  A survival season (\<open>run_survival_season\<close>): lives of fresh loops over the remaining markets until a life survives
  its schedule, no market is left or the lives are used up.  A life is an interface (\<open>life_player\<close>), which the
  loop of the development implements.
\<close>

section \<open>What a season records\<close>

record death_facts =
  df_life_idx :: nat
  df_last_tick :: int
  df_final_breath :: pyfloat
  df_final_bankroll_usd :: pyfloat
  df_receipt :: death_receipt

record life_outcome =
  lo_idx :: nat
  lo_start_ts :: int
  lo_initial_weights :: weights
  lo_terminal_weights :: weights
  lo_consumed :: "string list"
  lo_bets_placed :: nat
  lo_no_bets_emitted :: nat
  lo_settlements_processed :: nat
  lo_final_breath :: pyfloat
  lo_final_bankroll_usd :: pyfloat
  lo_died :: bool
  lo_death :: "death_facts option"

record season_result =
  se_lives :: "life_outcome list"
  se_deaths :: nat

definition DEFAULT_MAX_LIVES :: int where "DEFAULT_MAX_LIVES = 50"

text \<open>The markets of the decision stops among the ticks the life completed.\<close>

definition consumed_by :: "schedule \<Rightarrow> nat \<Rightarrow> string list" where
  "consumed_by sch n = List.map_filter st_market (take n (sch_stops sch))"

definition death_of :: "nat \<Rightarrow> run_summary \<Rightarrow> death_facts option" where
  "death_of idx sm =
     (if rs_died sm
      then (case rs_receipt sm of
              None \<Rightarrow> None
            | Some r \<Rightarrow> Some \<lparr>df_life_idx = idx, df_last_tick = int (ticks_completed sm) - 1, df_final_breath = final_breath sm,
                df_final_bankroll_usd = final_bankroll_usd sm, df_receipt = r\<rparr>)
      else None)"

definition outcome_of :: "nat \<Rightarrow> schedule \<Rightarrow> weights \<Rightarrow> weights \<Rightarrow> run_summary \<Rightarrow> life_outcome" where
  "outcome_of idx sch w0 w1 sm =
     \<lparr>lo_idx = idx, lo_start_ts = st_asof (hd (sch_stops sch)), lo_initial_weights = w0, lo_terminal_weights = w1,
      lo_consumed = consumed_by sch (ticks_completed sm), lo_bets_placed = bets_placed sm,
      lo_no_bets_emitted = no_bets_emitted sm, lo_settlements_processed = settlements_processed sm,
      lo_final_breath = final_breath sm, lo_final_bankroll_usd = final_bankroll_usd sm, lo_died = rs_died sm,
      lo_death = death_of idx sm\<rparr>"

section \<open>The season\<close>

text \<open>A life is played over a schedule from some weights; \<open>'k\<close> is what the season shares between its lives.\<close>

type_synonym 'k player = "nat \<Rightarrow> schedule \<Rightarrow> weights \<Rightarrow> 'k \<Rightarrow> (run_summary \<times> weights) res \<times> 'k"

function live_season ::
  "exec_env \<Rightarrow> int \<Rightarrow> (string, market_snapshot) dict \<Rightarrow> int \<Rightarrow> 'k player \<Rightarrow> survival_row list \<Rightarrow> life_outcome list \<Rightarrow>
   weights \<Rightarrow> 'k \<Rightarrow> life_outcome list res \<times> 'k" where
  "live_season env lag snaps max_lives play remaining lives w k =
     (if remaining = [] \<or> max_lives \<le> int (length lives) then (Inr lives, k)
      else case build_survival_schedule env lag remaining of
        Inl e \<Rightarrow> (Inl e, k)
      | Inr sch \<Rightarrow>
          if list_ex (\<lambda>r. dget snaps (sv_market_id r) = None) remaining then (Inl KeyError, k)
          else case play (length lives) sch w k of
            (Inl e, k1) \<Rightarrow> (Inl e, k1)
          | (Inr (sm, w1), k1) \<Rightarrow>
              let lives1 = lives @ [outcome_of (length lives) sch w w1 sm];
                  remaining1 = filter (\<lambda>r. sv_market_id r \<notin> set (consumed_by sch (ticks_completed sm))) remaining
              in if rs_died sm then live_season env lag snaps max_lives play remaining1 lives1 w1 k1
                 else (Inr lives1, k1))"
  by pat_completeness auto
termination
  by (relation "measure (\<lambda>(env, lag, snaps, m, play, rem, lives, w, k). nat (m - int (length lives)))") auto

declare live_season.simps [simp del]

definition run_survival_season ::
  "exec_env \<Rightarrow> int \<Rightarrow> market_snapshot list \<Rightarrow> int \<Rightarrow> 'k player \<Rightarrow> survival_row list \<Rightarrow> weights \<Rightarrow> 'k \<Rightarrow> season_result res \<times> 'k" where
  "run_survival_season env lag snapshots max_lives play rows seed_weights k =
     (case live_season env lag (fold_dict (map (\<lambda>s. (ms_market_id s, s)) snapshots)) max_lives play rows [] seed_weights k of
        (Inl e, k1) \<Rightarrow> (Inl e, k1)
      | (Inr lives, k1) \<Rightarrow> (Inr \<lparr>se_lives = lives, se_deaths = length (filter lo_died lives)\<rparr>, k1))"

section \<open>The interface of a life\<close>

fun chained :: "weights \<Rightarrow> life_outcome list \<Rightarrow> bool" where
  "chained w [] = True"
| "chained w (l # ls) = (lo_initial_weights l = w \<and> chained (lo_terminal_weights l) ls)"

lemma consumed_decisions: "consumed_by sch n = map snd (decision_stops (take n (sch_stops sch)))"
  unfolding consumed_by_def decision_stops_def List.map_filter_def
  by (induction "take n (sch_stops sch)") (auto split: option.splits simp: comp_def)

lemma schedule_markets:
  assumes "build_survival_schedule env lag rows = Inr sch"
  shows "mset (map snd (decision_stops (sch_stops sch))) = mset (map sv_market_id rows)"
proof -
  obtain ers where ers: "mset (map snd ers) = mset rows"
    "list_all2 (\<lambda>(e, r) (t, m). parse_ts (x_parse_iso env) (sv_entry_asof_ts_iso r) = Inr e \<and> e \<le> t \<and> m = sv_market_id r)
      ers (decision_stops (sch_stops sch))"
    using schedule_facts(2) [OF assms] by blast
  from ers(2) have "map snd (decision_stops (sch_stops sch)) = map sv_market_id (map snd ers)"
    by (induction rule: list_all2_induct) auto
  then show ?thesis using ers(1) by (metis mset_map)
qed

lemma consumed_ok:
  assumes "build_survival_schedule env lag rows = Inr sch" "distinct (map sv_market_id rows)"
  shows "distinct (consumed_by sch n)" "set (consumed_by sch n) \<subseteq> sv_market_id ` set rows"
    "length (sch_stops sch) \<le> n \<Longrightarrow> set (consumed_by sch n) = sv_market_id ` set rows"
proof -
  let ?ds = "map snd (decision_stops (sch_stops sch))"
  have m: "mset ?ds = mset (map sv_market_id rows)" by (rule schedule_markets [OF assms(1)])
  have d: "distinct ?ds" using mset_eq_imp_distinct_iff [OF m] assms(2) by simp
  have s: "set ?ds = sv_market_id ` set rows" using mset_eq_setD [OF m] by simp
  have split: "?ds = consumed_by sch n @ map snd (decision_stops (drop n (sch_stops sch)))"
    unfolding consumed_decisions by (metis append_take_drop_id decision_stops_simps(4) map_append)
  show "distinct (consumed_by sch n)" using d unfolding split by simp
  show "set (consumed_by sch n) \<subseteq> sv_market_id ` set rows" using s unfolding split by auto
  show "length (sch_stops sch) \<le> n \<Longrightarrow> set (consumed_by sch n) = sv_market_id ` set rows"
    using s unfolding consumed_decisions by simp
qed

locale life_player =
  fixes play :: "'k player"
  assumes bounded: "play i sch w k = (Inr (sm, w1), k1) \<Longrightarrow> ticks_completed sm \<le> length (sch_stops sch)"
    and survives_all: "play i sch w k = (Inr (sm, w1), k1) \<Longrightarrow> \<not> rs_died sm \<Longrightarrow> ticks_completed sm = length (sch_stops sch)"
begin

lemma season_from:
  assumes "live_season env lag snaps m play rows lives w k = (Inr lives', k')" "distinct (map sv_market_id rows)"
  shows "\<exists>new. lives' = lives @ new \<and> distinct (concat (map lo_consumed new)) \<and>
    set (concat (map lo_consumed new)) \<subseteq> sv_market_id ` set rows \<and> chained w new \<and> (\<forall>l \<in> set (butlast new). lo_died l) \<and>
    (new \<noteq> [] \<longrightarrow> int (length lives') \<le> m) \<and>
    (set (concat (map lo_consumed new)) = sv_market_id ` set rows \<or> m \<le> int (length lives') \<and> (\<forall>l \<in> set new. lo_died l))"
  using assms
proof (induction "nat (m - int (length lives))" arbitrary: rows lives w k lives' k' rule: less_induct)
  case less
  show ?case
  proof (cases "rows = [] \<or> m \<le> int (length lives)")
    case True
    then have "lives' = lives" using less.prems(1) by (simp add: live_season.simps)
    then show ?thesis using True by (intro exI [of _ "[]"]) auto
  next
    case False': False
    then obtain sch sm w1 k1 where life: "build_survival_schedule env lag rows = Inr sch" "play (length lives) sch w k = (Inr (sm, w1), k1)"
      "\<not> list_ex (\<lambda>r. dget snaps (sv_market_id r) = None) rows"
      using less.prems(1) by (auto simp: live_season.simps [of _ _ _ _ _ rows] split: sum.splits if_splits prod.splits)
    define lo where "lo = outcome_of (length lives) sch w w1 sm"
    define rest where "rest = filter (\<lambda>r. sv_market_id r \<notin> set (lo_consumed lo)) rows"
    have lo: "lo_initial_weights lo = w" "lo_terminal_weights lo = w1" "lo_died lo = rs_died sm" "lo_consumed lo = consumed_by sch (ticks_completed sm)"
      by (simp_all add: lo_def outcome_of_def)
    note c = consumed_ok [OF life(1) less.prems(2), of "ticks_completed sm", folded lo(4)]
    have rec: "(if rs_died sm then live_season env lag snaps m play rest (lives @ [lo]) w1 k1 else (Inr (lives @ [lo]), k1)) = (Inr lives', k')"
      using less.prems(1) False' life unfolding rest_def lo(4) unfolding lo_def by (simp add: live_season.simps [of _ _ _ _ _ rows] Let_def)
    show ?thesis
    proof (cases "rs_died sm")
      case False
      then have "lives' = lives @ [lo]" using rec by simp
      moreover have "set (lo_consumed lo) = sv_market_id ` set rows" using c(3) survives_all [OF life(2) False] by simp
      ultimately show ?thesis using c lo False' by (intro exI [of _ "[lo]"]) auto
    next
      case True
      have dr: "distinct (map sv_market_id rest)" using less.prems(2) by (simp add: rest_def distinct_map_filter)
      have sr: "sv_market_id ` set rest = sv_market_id ` set rows - set (lo_consumed lo)" by (auto simp: rest_def)
      obtain new where new: "lives' = (lives @ [lo]) @ new" "distinct (concat (map lo_consumed new))"
        "set (concat (map lo_consumed new)) \<subseteq> sv_market_id ` set rest" "chained w1 new" "\<forall>l \<in> set (butlast new). lo_died l"
        "new \<noteq> [] \<longrightarrow> int (length lives') \<le> m"
        "set (concat (map lo_consumed new)) = sv_market_id ` set rest \<or> m \<le> int (length lives') \<and> (\<forall>l \<in> set new. lo_died l)"
        using less.hyps [OF _ _ dr, of "lives @ [lo]" w1 k1 lives' k'] rec True False' by auto
      have "set (concat (map lo_consumed (lo # new))) = sv_market_id ` set rows \<or> m \<le> int (length lives') \<and> (\<forall>l \<in> set (lo # new). lo_died l)"
        using new(7) sr c(2) lo(3) True by auto
      moreover have "distinct (concat (map lo_consumed (lo # new)))" using new(2,3) c(1) sr by auto
      moreover have "int (length lives') \<le> m" using new(1,6) False' by (cases "new = []") auto
      ultimately show ?thesis using new(1,3,4,5) c(2) sr lo True by (intro exI [of _ "lo # new"]) auto
    qed
  qed
qed

end

section \<open>A life of the loop\<close>

text \<open>
  What \<open>_build_life_loop\<close> injects besides the schedule and the weights.  Every life has fresh files, a fresh ledger
  and a fresh chain; the kit of a life may depend on what the season shares, and a life leaves something to share.
  A cached row has a confidence for every score, so its tick source does not raise.
\<close>

record 'c life_kit =
  kit_env :: "'c loop_env"
  kit_config :: loop_config
  kit_guard :: cost_guard
  kit_engine :: engine_state
  kit_queue :: agent_runner
  kit_chain :: 'c

definition life_env :: "'c life_kit \<Rightarrow> schedule \<Rightarrow> 'c loop_env" where
  "life_env kit sch = (kit_env kit)\<lparr>le_inputs := (\<lambda>asof tick. case inputs_for sch tick of Inr x \<Rightarrow> x | Inl _ \<Rightarrow> None)\<rparr>"

definition life_config :: "'c life_kit \<Rightarrow> weights \<Rightarrow> loop_config" where
  "life_config kit w = (kit_config kit)\<lparr>lc_initial_weights := w, lc_initial_phase := PHASE_2_APPRENTICE\<rparr>"

definition build_life_loop :: "'c life_kit \<Rightarrow> weights \<Rightarrow> 'c loop" where
  "build_life_loop kit w = mk_loop (life_config kit w) (kit_guard kit) (kit_engine kit) (kit_queue kit)
     \<lparr>dk_snapshot = None, dk_decisions = [], dk_proposals = [], dk_reflections = []\<rparr>
     \<lparr>pw_ledger = \<lparr>open_bets = [], settled_bets = []\<rparr>, pw_hooks = [], pw_sleeps = [], pw_queries = 0, pw_weight_calls = [],
       pw_chain_calls = [], pw_chain = kit_chain kit\<rparr>"

definition loop_play :: "('k \<Rightarrow> 'c life_kit) \<Rightarrow> ('k \<Rightarrow> 'c loop \<Rightarrow> 'k) \<Rightarrow> 'k player" where
  "loop_play kit after i sch w k =
     (case run (life_env (kit k) sch) (life_config (kit k) w) None (Some (length (sch_stops sch))) (build_life_loop (kit k) w) of
        Some (Inr sm, s) \<Rightarrow> (Inr (sm, lp_weights s), after k s)
      | Some (Inl e, s) \<Rightarrow> (Inl e, after k s)
      | None \<Rightarrow> (Inl RuntimeError, k))"

lemma life_ends:
  assumes "loop_play kit after i sch w k = (Inr (sm, w1), k1)"
  shows "ticks_completed sm \<le> length (sch_stops sch)" "\<not> rs_died sm \<Longrightarrow> ticks_completed sm = length (sch_stops sch)"
proof -
  have "lp_alive (build_life_loop (kit k) w)" by (simp add: build_life_loop_def mk_loop_def)
  from bounded_run [OF this, of "life_env (kit k) sch" "life_config (kit k) w" None "length (sch_stops sch)"] assms
  show "ticks_completed sm \<le> length (sch_stops sch)" "\<not> rs_died sm \<Longrightarrow> ticks_completed sm = length (sch_stops sch)"
    by (auto simp: loop_play_def split: sum.splits)
qed

interpretation loops: life_player "loop_play kit after" for kit :: "'k \<Rightarrow> 'c life_kit" and after
  by unfold_locales (fact life_ends)+

lemma season_accounts:
  assumes "run_survival_season env lag snapshots m (loop_play kit after) rows seed k = (Inr res, k')"
    and "distinct (map sv_market_id rows)"
  shows "distinct (concat (map lo_consumed (se_lives res)))"
    and "set (concat (map lo_consumed (se_lives res))) \<subseteq> sv_market_id ` set rows"
    and "chained seed (se_lives res) \<and> (\<forall>l \<in> set (butlast (se_lives res)). lo_died l)"
    and "set (concat (map lo_consumed (se_lives res))) = sv_market_id ` set rows \<or>
      m \<le> int (length (se_lives res)) \<and> (\<forall>l \<in> set (se_lives res). lo_died l)"
    and "se_lives res \<noteq> [] \<Longrightarrow> int (length (se_lives res)) \<le> m"
    and "se_deaths res = length (filter lo_died (se_lives res)) \<and> length (se_lives res) \<le> Suc (se_deaths res)"
proof -
  obtain lives where l: "live_season env lag (fold_dict (map (\<lambda>s. (ms_market_id s, s)) snapshots)) m (loop_play kit after) rows [] seed k = (Inr lives, k')"
    "se_lives res = lives" "se_deaths res = length (filter lo_died lives)"
    using assms(1) by (auto simp: run_survival_season_def split: prod.splits sum.splits)
  note o = loops.season_from [OF l(1) assms(2), simplified, folded l(2)]
  show "distinct (concat (map lo_consumed (se_lives res)))" "set (concat (map lo_consumed (se_lives res))) \<subseteq> sv_market_id ` set rows"
    "chained seed (se_lives res) \<and> (\<forall>l \<in> set (butlast (se_lives res)). lo_died l)"
    "set (concat (map lo_consumed (se_lives res))) = sv_market_id ` set rows \<or> m \<le> int (length (se_lives res)) \<and> (\<forall>l \<in> set (se_lives res). lo_died l)"
    "se_lives res \<noteq> [] \<Longrightarrow> int (length (se_lives res)) \<le> m"
    using o by auto
  have "length xs \<le> Suc (length (filter P xs))" if "\<forall>x \<in> set (butlast xs). P x" for P and xs :: "life_outcome list"
    using that by (induction xs) (auto split: if_splits)
  then show "se_deaths res = length (filter lo_died (se_lives res)) \<and> length (se_lives res) \<le> Suc (se_deaths res)"
    using l(2,3) o by auto
qed

text \<open>C29. A season of loops over distinct markets that returns has decided no market twice, in one life or across two;
  every life but the last died and handed its weights to the next, the first one having the seed's; and either every
  market was decided or the lives are used up and all of them died.\<close>

theorem season_consumes_once:
  assumes "run_survival_season env lag snapshots m (loop_play kit after) rows seed k = (Inr res, k')"
    and "distinct (map sv_market_id rows)"
  shows "distinct (concat (map lo_consumed (se_lives res))) \<and>
    set (concat (map lo_consumed (se_lives res))) \<subseteq> sv_market_id ` set rows \<and>
    chained seed (se_lives res) \<and> (\<forall>l \<in> set (butlast (se_lives res)). lo_died l) \<and>
    (set (concat (map lo_consumed (se_lives res))) = sv_market_id ` set rows \<or>
      m \<le> int (length (se_lives res)) \<and> (\<forall>l \<in> set (se_lives res). lo_died l)) \<and>
    (se_lives res \<noteq> [] \<longrightarrow> int (length (se_lives res)) \<le> m) \<and>
    se_deaths res = length (filter lo_died (se_lives res)) \<and> length (se_lives res) \<le> Suc (se_deaths res)"
  using season_accounts [OF assms] by blast

text \<open>Two lives that the terminal switch ends after their first tick.\<close>

definition forced_kit :: "scalar_chain life_kit" where
  "forced_kit = \<lparr>kit_env = demo_loop_env, kit_config = forced_config, kit_guard = demo_guard,
     kit_engine = \<lparr>rng_pos = 0, last_gate_diagnostics = None\<rparr>, kit_queue = \<lparr>rn_pending = []\<rparr>,
     kit_chain = \<lparr>current_breath = Fin 100\<rparr>\<rparr>"

definition demo_snapshots :: "market_snapshot list" where
  "demo_snapshots = map (\<lambda>m. \<lparr>ms_market_id = m, ms_slug = [], ms_end_date_iso = [], ms_resolution_ts_iso = None, ms_outcome = None,
     ms_winning_price = None, ms_liquidity_cap_usd = Fin 5, ms_price_ledger = []\<rparr>) [''a'', ''b'', ''c'']"

definition forced_season :: "season_result res \<times> nat" where
  "forced_season = run_survival_season tally_env (2 * SECOND) demo_snapshots 2 (loop_play (\<lambda>_. forced_kit) (\<lambda>n _. Suc n)) demo_rows demo_weights 0"

lemma forced_season_value:
  "case forced_season of (Inl e, k) \<Rightarrow> False | (Inr r, k) \<Rightarrow> map lo_consumed (se_lives r) = [[''a''], [''b'']]"
  by code_simp

lemma demo_row_ids:
  "map sv_market_id demo_rows = [''c'', ''b'', ''a'']"
  by (simp only: demo_rows_def demo_row_def list.map survival_row.simps)

theorem season_consumes_once_witness:
  "\<exists>r k. forced_season = (Inr r, k) \<and> map lo_consumed (se_lives r) = [[''a''], [''b'']] \<and> se_deaths r = 2 \<and> chained demo_weights (se_lives r)"
proof -
  obtain r k where r: "forced_season = (Inr r, k)" "map lo_consumed (se_lives r) = [[''a''], [''b'']]"
    using forced_season_value by (auto split: prod.splits sum.splits)
  have d: "distinct (map sv_market_id demo_rows)" by (simp add: demo_row_ids)
  have rows: "sv_market_id ` set demo_rows = {''c'', ''b'', ''a''}" using arg_cong [OF demo_row_ids, of set] by simp
  note s = season_consumes_once [OF r(1) [unfolded forced_season_def] d]
  then have s1: "chained demo_weights (se_lives r)" and s3: "se_deaths r = length (filter lo_died (se_lives r))"
    and s2: "set (concat (map lo_consumed (se_lives r))) = sv_market_id ` set demo_rows \<or> (\<forall>l \<in> set (se_lives r). lo_died l)"
    by blast+
  have "set (concat (map lo_consumed (se_lives r))) = {''a'', ''b''}" by (simp add: r(2))
  then have "set (concat (map lo_consumed (se_lives r))) \<noteq> sv_market_id ` set demo_rows" unfolding rows by (auto dest: equalityD2)
  with s2 have all: "\<forall>l \<in> set (se_lives r). lo_died l" by blast
  have n: "length (se_lives r) = 2" using arg_cong [OF r(2), of length] by simp
  have "se_deaths r = 2" using s3 n filter_True [of "se_lives r" lo_died] all by simp
  with r s1 show ?thesis by (intro exI conjI) auto
qed

end
