(* ===== verification/Genome.thy ===== *)
theory Genome
  imports WeightDelta "HOL-Library.Multiset"
begin

text \<open>
  What an agent carries over a rebirth (\<open>backtest/reincarnation.py\<close>): the proposals of the advisor are classified
  into changes of the fusion weights and of the genome, the advisable knobs of the strategy, and applied with a
  capped step and clamped results.
\<close>

section \<open>The vocabulary\<close>

definition DELTA_CAP :: pyfloat where "DELTA_CAP = rnd (1 / 10)"
definition DELTA_KEYS :: "string list" where
  "DELTA_KEYS = [''w_r'', ''alpha_0'', ''alpha_1'', ''alpha_2'', ''beta_0'', ''rho'']"

definition GENOME_MIN_BREATH_RISK_PCT :: pyfloat where "GENOME_MIN_BREATH_RISK_PCT = rnd (1 / 20)"

definition GENOME_KEYS :: "(string, pyfloat \<times> pyfloat) dict" where
  "GENOME_KEYS =
     [(''min_edge'', (fzero, Fin (1 / 2))), (''max_breath_risk_pct'', (GENOME_MIN_BREATH_RISK_PCT, fone)),
      (''min_confidence'', (fzero, fone)), (''kappa'', (rnd (1 / 100), fone)),
      (''gate_storm_sensitivity'', (Fin (- 1), fone)), (''risk_storm_sensitivity'', (Fin (- 1), fone)),
      (''kappa_xm'', (fzero, fone))]"

definition EXTENDED_REBIRTH_KEYS :: "string list" where
  "EXTENDED_REBIRTH_KEYS = DELTA_KEYS @ map fst GENOME_KEYS"

record strategy_config =
  cfg_weights :: weights
  cfg_max_breath_risk_pct :: pyfloat
  cfg_min_confidence :: pyfloat
  cfg_min_bet_size_usd :: pyfloat
  cfg_min_edge :: pyfloat
  cfg_kappa :: pyfloat
  cfg_gate_storm_sensitivity :: pyfloat
  cfg_risk_storm_sensitivity :: pyfloat
  cfg_kappa_xm :: pyfloat
  cfg_exploration_epsilon :: pyfloat

text \<open>\<open>getattr\<close> and \<open>dataclasses.replace\<close> at an advisable knob.\<close>

definition knob :: "strategy_config \<Rightarrow> string \<Rightarrow> pyfloat" where
  "knob s k =
     (if k = ''min_edge'' then cfg_min_edge s
      else if k = ''max_breath_risk_pct'' then cfg_max_breath_risk_pct s
      else if k = ''min_confidence'' then cfg_min_confidence s
      else if k = ''kappa'' then cfg_kappa s
      else if k = ''gate_storm_sensitivity'' then cfg_gate_storm_sensitivity s
      else if k = ''risk_storm_sensitivity'' then cfg_risk_storm_sensitivity s
      else cfg_kappa_xm s)"

definition set_knob :: "string \<Rightarrow> pyfloat \<Rightarrow> strategy_config \<Rightarrow> strategy_config" where
  "set_knob k v s =
     (if k = ''min_edge'' then s\<lparr>cfg_min_edge := v\<rparr>
      else if k = ''max_breath_risk_pct'' then s\<lparr>cfg_max_breath_risk_pct := v\<rparr>
      else if k = ''min_confidence'' then s\<lparr>cfg_min_confidence := v\<rparr>
      else if k = ''kappa'' then s\<lparr>cfg_kappa := v\<rparr>
      else if k = ''gate_storm_sensitivity'' then s\<lparr>cfg_gate_storm_sensitivity := v\<rparr>
      else if k = ''risk_storm_sensitivity'' then s\<lparr>cfg_risk_storm_sensitivity := v\<rparr>
      else s\<lparr>cfg_kappa_xm := v\<rparr>)"

definition genome_dict :: "strategy_config \<Rightarrow> (string, pyfloat) dict" where
  "genome_dict s = map (\<lambda>(k, b). (k, knob s k)) GENOME_KEYS"

section \<open>Classifying proposals\<close>

text \<open>The number of a proposal, which \<open>float\<close> may still refuse; Booleans do not count as numbers.\<close>

definition delta_number :: "weight_delta \<Rightarrow> pyfloat res option" where
  "delta_number d = (case jget d ''delta'' of JInt n \<Rightarrow> Some (float_of_int n) | JFloat x \<Rightarrow> Some (Inr x) | _ \<Rightarrow> None)"







section \<open>Applying proposals\<close>

definition capped :: "pyfloat \<Rightarrow> pyfloat" where
  "capped x = clampf (fneg DELTA_CAP) DELTA_CAP x"

text \<open>The bounds of the knob a proposal names, with its number; \<open>None\<close> is skipped.\<close>

definition genome_move :: "weight_delta \<Rightarrow> (string \<times> (pyfloat \<times> pyfloat) \<times> pyfloat res) option" where
  "genome_move d =
     (case jget d ''key'' of
        JStr k \<Rightarrow>
          (case (dget GENOME_KEYS k, delta_number d) of (Some b, Some r) \<Rightarrow> Some (k, b, r) | _ \<Rightarrow> None)
      | _ \<Rightarrow> None)"

fun genome_updates :: "strategy_config \<Rightarrow> weight_delta list \<Rightarrow> (string, pyfloat) dict \<Rightarrow> (string, pyfloat) dict res" where
  "genome_updates seed [] upd = Inr upd"
| "genome_updates seed (d # ds) upd =
     (case genome_move d of
        None \<Rightarrow> genome_updates seed ds upd
      | Some (k, (lo, hi), r) \<Rightarrow> rbind r (\<lambda>x.
          genome_updates seed ds (dset k (clampf lo hi (fadd (dget_default upd k (knob seed k)) (capped x))) upd)))"

definition apply_genome_deltas :: "strategy_config \<Rightarrow> weight_delta list \<Rightarrow> strategy_config res" where
  "apply_genome_deltas seed ds =
     rbind (genome_updates seed ds []) (\<lambda>upd. Inr (if upd = [] then seed else foldl (\<lambda>s (k, v). set_knob k v s) seed upd))"

definition shift_weight :: "weights \<Rightarrow> string \<Rightarrow> pyfloat \<Rightarrow> weights" where
  "shift_weight w key dv =
     (if key = ''w_r'' then w\<lparr>w_r := clampf fzero fone (fadd (w_r w) dv)\<rparr>
      else if key = ''rho'' then w\<lparr>rho := clampf (Fin (- 1)) fone (fadd (rho w) dv)\<rparr>
      else if key = ''beta_0'' then
        let b0 = clampf fzero fone (fadd (beta w ! 0) dv) in w\<lparr>beta := [b0, fsub fone b0]\<rparr>
      else
        let i = (if key = ''alpha_0'' then 0 else if key = ''alpha_1'' then 1 else 2);
            as = (alpha w)[i := fmax fzero (fadd (alpha w ! i) dv)];
            s = fsum as
        in w\<lparr>alpha := if flt fzero s then map (\<lambda>a. fdiv a s) as else replicate 3 (fdiv fone (Fin 3))\<rparr>)"

definition weight_move :: "weight_delta \<Rightarrow> (string \<times> pyfloat res) option" where
  "weight_move d =
     (case jget d ''key'' of
        JStr k \<Rightarrow> if k \<in> set DELTA_KEYS then map_option (Pair k) (delta_number d) else None
      | _ \<Rightarrow> None)"

fun weight_updates :: "weights \<Rightarrow> weight_delta list \<Rightarrow> weights res" where
  "weight_updates w [] = Inr w"
| "weight_updates w (d # ds) =
     (case weight_move d of
        None \<Rightarrow> weight_updates w ds
      | Some (k, r) \<Rightarrow> rbind r (\<lambda>x. weight_updates (shift_weight w k (capped x)) ds))"

text \<open>The weights are rebuilt at the end, with the sentient share as the complement.\<close>

definition apply_weight_deltas :: "bool \<Rightarrow> weights \<Rightarrow> weight_delta list \<Rightarrow> weights res" where
  "apply_weight_deltas nv w ds =
     rbind (weight_updates w ds) (\<lambda>w'. mk_weights nv (w'\<lparr>w_s := fsub fone (w_r w')\<rparr>))"

section \<open>Classified and applied are the same\<close>



lemma updates_append [simp]:
  "genome_updates seed (ds @ es) upd = rbind (genome_updates seed ds upd) (genome_updates seed es)"
  "weight_updates w (ds @ es) = rbind (weight_updates w ds) (\<lambda>w. weight_updates w es)"
proof -
  show "genome_updates seed (ds @ es) upd = rbind (genome_updates seed ds upd) (genome_updates seed es)"
  proof (induction ds arbitrary: upd)
    case (Cons d ds)
    then show ?case by (auto simp: rbind_def split: option.split sum.split)
  qed simp
  show "weight_updates w (ds @ es) = rbind (weight_updates w ds) (\<lambda>w. weight_updates w es)"
  proof (induction ds arbitrary: w)
    case (Cons d ds)
    then show ?case by (auto simp: rbind_def split: option.split sum.split)
  qed simp
qed



section \<open>What proposals leave behind\<close>

lemma delta_cap: "DELTA_CAP = Fin (3602879701896397 / 36028797018963968)"
  by code_simp

lemma capped_num: "num (capped x) \<and> fle (fabs (capped x)) (Fin (2 ^ 1000))" if "f64 x" for x
proof -
  have c: "f64 DELTA_CAP" by (simp add: DELTA_CAP_def)
  have b: "fle (fneg DELTA_CAP) (capped x)" "fle (capped x) DELTA_CAP"
    unfolding capped_def using clampf_bounds [of "fneg DELTA_CAP" DELTA_CAP x] by (simp_all add: delta_cap)
  moreover have "f64 (capped x)" unfolding capped_def using that c by (simp add: clampf_f64)
  ultimately obtain q where q: "capped x = Fin q" "\<bar>q\<bar> \<le> 3602879701896397 / 36028797018963968" "f64 (Fin q)"
    by (cases "capped x") (auto simp: delta_cap abs_le_iff)
  have "(1 :: rat) \<le> 2 ^ 1000" by simp
  then show ?thesis using q by (simp add: num_def)
qed

lemma rmap_total: "rmap (\<lambda>x. Inr (f x)) xs = Inr (map f xs)"
  by (induction xs) simp_all

lemma shift_weight_live:
  assumes "live_weights nv (w\<lparr>w_s := fsub fone (w_r w)\<rparr>)" "k \<in> set DELTA_KEYS" "num a" "fle (fabs a) (Fin (2 ^ 1000))"
  shows "live_weights nv ((shift_weight w k a)\<lparr>w_s := fsub fone (w_r (shift_weight w k a))\<rparr>)"
proof -
  let ?v = "w\<lparr>w_s := fsub fone (w_r w)\<rparr>"
  have "k \<in> set REFLECTION_WEIGHT_KEYS" using assms(2) by (simp add: DELTA_KEYS_def REFLECTION_WEIGHT_KEYS_def)
  from bumped_live [OF assms(1) this assms(3,4)] obtain w' where w': "bumped ?v k a = Inr w'" "live_weights nv w'" by blast
  have "w' = (shift_weight w k a)\<lparr>w_s := fsub fone (w_r (shift_weight w k a))\<rparr>"
  proof (cases "k \<in> {''alpha_0'', ''alpha_1'', ''alpha_2''}")
    case False
    then consider "k = ''w_r''" | "k = ''beta_0''" | "k = ''rho''"
      using assms(2) unfolding DELTA_KEYS_def list.set insert_iff empty_iff by metis
    then show ?thesis using w'(1) [symmetric] by cases (simp_all add: bumped_def shift_weight_def Let_def weights.equality)
  next
    case True
    define i :: nat where "i = (if k = ''alpha_0'' then 0 else if k = ''alpha_1'' then 1 else 2)"
    define as where "as = (alpha w)[i := fmax fzero (fadd (alpha w ! i) a)]"
    have b: "rbind (bump_alpha (alpha w) i a) (\<lambda>as. Inr (?v\<lparr>alpha := as\<rparr>)) = Inr w'"
      using w'(1) True unfolding insert_iff empty_iff by (elim disjE) (simp_all add: bumped_def i_def)
    have s: "shift_weight w k a = w\<lparr>alpha := if flt fzero (fsum as) then map (\<lambda>a. fdiv a (fsum as)) as else replicate 3 (fdiv fone (Fin 3))\<rparr>"
      using True unfolding insert_iff empty_iff by (elim disjE) (simp_all add: shift_weight_def Let_def as_def i_def)
    show ?thesis
    proof (cases "fle (fsum as) fzero")
      case True
      then have "\<not> flt fzero (fsum as)" by (cases "fsum as") auto
      then show ?thesis
        using b [symmetric] s True by (simp add: bump_alpha_def Let_def as_def [symmetric] weights.equality)
    next
      case False
      then have r: "rbind (rmap (\<lambda>a. py_div a (fsum as)) as) (\<lambda>as. Inr (?v\<lparr>alpha := as\<rparr>)) = Inr w'"
        using b by (simp add: bump_alpha_def Let_def as_def [symmetric])
      have nz: "fsum as \<noteq> fzero" using False by auto
      then have "py_div x (fsum as) = Inr (fdiv x (fsum as))" for x by (simp add: py_div_def feq_iff)
      then have d: "w' = ?v\<lparr>alpha := map (\<lambda>a. fdiv a (fsum as)) as\<rparr>" using r by (simp add: rmap_total)
      have "fsum as \<noteq> NaN"
      proof
        assume n: "fsum as = NaN"
        have "fdiv x NaN = NaN" for x by (cases x) simp_all
        moreover have "as \<noteq> []" using n by (auto simp: fsum_def)
        ultimately have "NaN \<in> set (alpha w')" using d n by (cases as) auto
        moreover have "list_all (\<lambda>a. fle a (Fin 2)) (alpha w')" using w'(2) by (simp add: live_weights_def)
        ultimately show False by (auto simp: list_all_iff)
      qed
      then have "flt fzero (fsum as)" using False by (simp add: not_fle)
      then show ?thesis using d s by simp
    qed
  qed
  then show ?thesis using w'(2) by simp
qed

lemma complement_live:
  assumes "live_weights nv w" shows "live_weights nv (w\<lparr>w_s := fsub fone (w_r w)\<rparr>)"
proof -
  have f: "weights_fields_ok nv w" "validate_normalised w" "f64 (w_r w)" using assms by (simp_all add: live_weights_iff)
  have "w_r w \<noteq> NaN"
  proof
    assume "w_r w = NaN"
    then have "\<not> py_isclose (fadd (w_r w) (w_s w)) fone (rnd (1 / 1000000))"
      using py_isclose_NaN by (cases "w_s w") simp_all
    then show False using f(2) by (simp add: validate_normalised_def Let_def)
  qed
  then have "fle fzero (w_r w)" "fle (w_r w) fone"
    using f(1) by (auto simp: weights_fields_ok_def pyd_ge_def pyd_le_def isnan_def split: if_splits)
  note c = complement_ok [OF f(3) this]
  have "pyd_ge nv fzero (fsub fone (w_r w))" "pyd_le nv fone (fsub fone (w_r w))"
    using c(1,2) fle_not_NaN by (auto simp: pyd_ge_def pyd_le_def isnan_def)
  then show ?thesis using assms c(3,4)
    by (simp add: live_weights_iff weights_fields_ok_def validate_normalised_def Let_def split: if_splits)
qed

definition sane_numbers :: "weight_delta list \<Rightarrow> bool" where
  "sane_numbers ds = (\<forall>d \<in> set ds. \<forall>r. delta_number d = Some r \<longrightarrow> (\<exists>x. r = Inr x \<and> f64 x))"

lemma weight_updates_live:
  assumes "live_weights nv (w\<lparr>w_s := fsub fone (w_r w)\<rparr>)" "sane_numbers ds"
  shows "\<exists>w'. weight_updates w ds = Inr w' \<and> live_weights nv (w'\<lparr>w_s := fsub fone (w_r w')\<rparr>)"
  using assms
proof (induction ds arbitrary: w)
  case (Cons d ds)
  have s: "sane_numbers ds" using Cons.prems(2) by (simp add: sane_numbers_def)
  show ?case
  proof (cases "weight_move d")
    case None
    then show ?thesis using Cons.IH [OF Cons.prems(1) s] by simp
  next
    case (Some kr)
    obtain k r where kr: "kr = (k, r)" by (cases kr)
    then have k: "k \<in> set DELTA_KEYS" "delta_number d = Some r"
      using Some by (auto simp: weight_move_def split: json.splits if_splits)
    then obtain x where x: "r = Inr x" "f64 x" using Cons.prems(2) by (auto simp: sane_numbers_def)
    have "live_weights nv ((shift_weight w k (capped x))\<lparr>w_s := fsub fone (w_r (shift_weight w k (capped x)))\<rparr>)"
      using shift_weight_live [OF Cons.prems(1) k(1)] capped_num [OF x(2)] by blast
    then show ?thesis using Cons.IH [OF _ s] Some kr x(1) by simp
  qed
qed simp

definition moved :: "weight_delta list \<Rightarrow> string set" where
  "moved ds = {k. \<exists>d \<in> set ds. \<exists>b r. genome_move d = Some (k, b, r)}"

lemma genome_bounds: "dget GENOME_KEYS k = Some (lo, hi) \<Longrightarrow> fle lo hi"
proof -
  have all: "list_all (\<lambda>(k, lo, hi). fle lo hi) GENOME_KEYS" by code_simp
  assume "dget GENOME_KEYS k = Some (lo, hi)"
  then have "(k, lo, hi) \<in> set GENOME_KEYS" by (rule map_of_SomeD)
  then show ?thesis using all by (auto simp: list_all_iff)
qed

lemma genome_updates_bounded:
  assumes "sane_numbers ds" "distinct (map fst upd)"
    "\<forall>k v. dget upd k = Some v \<longrightarrow> (\<exists>lo hi. dget GENOME_KEYS k = Some (lo, hi) \<and> fle lo v \<and> fle v hi)"
  shows "\<exists>upd'. genome_updates seed ds upd = Inr upd' \<and> distinct (map fst upd') \<and> dom (dget upd') = dom (dget upd) \<union> moved ds \<and>
    (\<forall>k v. dget upd' k = Some v \<longrightarrow> (\<exists>lo hi. dget GENOME_KEYS k = Some (lo, hi) \<and> fle lo v \<and> fle v hi))"
  using assms
proof (induction ds arbitrary: upd)
  case (Cons d ds)
  have s: "sane_numbers ds" using Cons.prems(1) by (simp add: sane_numbers_def)
  show ?case
  proof (cases "genome_move d")
    case None
    then have "moved (d # ds) = moved ds" by (auto simp: moved_def)
    then show ?thesis using Cons.IH [OF s Cons.prems(2,3)] None by simp
  next
    case (Some m)
    obtain k lo hi r where m: "m = (k, (lo, hi), r)" by (cases m) auto
    then have k: "dget GENOME_KEYS k = Some (lo, hi)" "delta_number d = Some r"
      using Some by (auto simp: genome_move_def split: json.splits option.splits)
    then obtain x where x: "r = Inr x" "f64 x" using Cons.prems(1) by (auto simp: sane_numbers_def)
    define v where "v = clampf lo hi (fadd (dget_default upd k (knob seed k)) (capped x))"
    have "fle lo v" "fle v hi" using clampf_bounds [OF genome_bounds [OF k(1)]] by (simp_all add: v_def)
    then have inv: "\<forall>k' v'. dget (dset k v upd) k' = Some v' \<longrightarrow> (\<exists>lo hi. dget GENOME_KEYS k' = Some (lo, hi) \<and> fle lo v' \<and> fle v' hi)"
      using Cons.prems(3) k(1) by (auto simp: dget_dset)
    have mv: "moved (d # ds) = insert k (moved ds)" using Some m by (auto simp: moved_def)
    have dm: "dom (dget (dset k v upd)) = insert k (dom (dget upd))" by (auto simp: dget_dset dom_def)
    show ?thesis
      using Cons.IH [OF s distinct_dset [OF Cons.prems(2)] inv] Some m x(1) mv dm by (auto simp: v_def [symmetric])
  qed
qed (simp add: moved_def)

lemma genome_keyE:
  assumes "dget GENOME_KEYS k \<noteq> None"
  obtains "k = ''min_edge''" | "k = ''max_breath_risk_pct''" | "k = ''min_confidence''" | "k = ''kappa''"
    | "k = ''gate_storm_sensitivity''" | "k = ''risk_storm_sensitivity''" | "k = ''kappa_xm''"
proof -
  have "k \<in> fst ` set GENOME_KEYS" using assms by (metis map_of_eq_None_iff)
  then have "k \<in> {''min_edge'', ''max_breath_risk_pct'', ''min_confidence'', ''kappa'', ''gate_storm_sensitivity'',
      ''risk_storm_sensitivity'', ''kappa_xm''}"
    unfolding GENOME_KEYS_def by (simp only: list.set image_insert image_empty fst_conv)
  then show ?thesis using that unfolding insert_iff empty_iff by metis
qed

lemma knob_set_knob:
  assumes "dget GENOME_KEYS k \<noteq> None" "dget GENOME_KEYS k' \<noteq> None"
  shows "knob (set_knob k v s) k' = (if k' = k then v else knob s k')"
  using assms(1)
proof (cases rule: genome_keyE)
  case 7
  from assms(2) show ?thesis unfolding 7 by (cases rule: genome_keyE) (simp_all add: knob_def set_knob_def)
qed (simp_all add: knob_def set_knob_def)

lemma set_knob_rest [simp]:
  "cfg_weights (set_knob k v s) = cfg_weights s" "cfg_min_bet_size_usd (set_knob k v s) = cfg_min_bet_size_usd s"
  "cfg_exploration_epsilon (set_knob k v s) = cfg_exploration_epsilon s"
  by (simp_all add: set_knob_def)

lemma knob_updates:
  assumes "distinct (map fst upd)" "dom (dget upd) \<subseteq> dom (dget GENOME_KEYS)" "dget GENOME_KEYS k \<noteq> None"
  shows "knob (foldl (\<lambda>s (k, v). set_knob k v s) s upd) k = (case dget upd k of None \<Rightarrow> knob s k | Some v \<Rightarrow> v)"
  using assms
proof (induction upd arbitrary: s)
  case (Cons kv upd)
  obtain k' v where kv: "kv = (k', v)" by (cases kv)
  have "dom (dget (kv # upd)) = insert k' (dom (dget upd))" by (simp add: kv dom_map_of_conv_image_fst)
  then have "k' \<in> dom (dget GENOME_KEYS)" and g2: "dom (dget upd) \<subseteq> dom (dget GENOME_KEYS)"
    using Cons.prems(2) by blast+
  then have g1: "dget GENOME_KEYS k' \<noteq> None" by (metis domIff)
  have "k = k' \<Longrightarrow> dget upd k = None" using Cons.prems(1) kv by (simp add: map_of_eq_None_iff)
  then show ?case using Cons.IH [OF _ g2 Cons.prems(3), of "set_knob k' v s"] Cons.prems(1) kv knob_set_knob [OF g1 Cons.prems(3), of v s]
    by (auto split: option.split)
qed simp

lemma updates_rest:
  "cfg_weights (foldl (\<lambda>s (k, v). set_knob k v s) s upd) = cfg_weights s"
  "cfg_min_bet_size_usd (foldl (\<lambda>s (k, v). set_knob k v s) s upd) = cfg_min_bet_size_usd s"
  "cfg_exploration_epsilon (foldl (\<lambda>s (k, v). set_knob k v s) s upd) = cfg_exploration_epsilon s"
  by (induction upd arbitrary: s) (auto simp: case_prod_beta)

text \<open>C34. Whatever the proposals say, as long as no number is an integer beyond the range of a float, applying them
  succeeds: the weights stay fit for the next life, a knob that is named ends inside its bounds, and every other
  part of the strategy is as it was.\<close>

theorem experience_stays_valid:
  assumes "live_weights nv w" "sane_numbers ds"
  shows "\<exists>w' seed'. apply_weight_deltas nv w ds = Inr w' \<and> live_weights nv w' \<and> apply_genome_deltas seed ds = Inr seed' \<and>
    (\<forall>k lo hi. dget GENOME_KEYS k = Some (lo, hi) \<longrightarrow>
       (if k \<in> moved ds then fle lo (knob seed' k) \<and> fle (knob seed' k) hi else knob seed' k = knob seed k)) \<and>
    cfg_weights seed' = cfg_weights seed \<and> cfg_min_bet_size_usd seed' = cfg_min_bet_size_usd seed \<and>
    cfg_exploration_epsilon seed' = cfg_exploration_epsilon seed"
proof -
  obtain w' where w': "weight_updates w ds = Inr w'" "live_weights nv (w'\<lparr>w_s := fsub fone (w_r w')\<rparr>)"
    using weight_updates_live [OF complement_live [OF assms(1)] assms(2)] by blast
  then have aw: "apply_weight_deltas nv w ds = Inr (w'\<lparr>w_s := fsub fone (w_r w')\<rparr>)"
    by (simp add: apply_weight_deltas_def live_weights_def)
  obtain upd where u: "genome_updates seed ds [] = Inr upd" "distinct (map fst upd)" "dom (dget upd) = moved ds"
    "\<forall>k v. dget upd k = Some v \<longrightarrow> (\<exists>lo hi. dget GENOME_KEYS k = Some (lo, hi) \<and> fle lo v \<and> fle v hi)"
    using genome_updates_bounded [OF assms(2), of "[]" seed] by auto
  define seed' where "seed' = foldl (\<lambda>s (k, v). set_knob k v s) seed upd"
  have ag: "apply_genome_deltas seed ds = Inr seed'" using u(1) by (simp add: apply_genome_deltas_def seed'_def)
  have dm: "dom (dget upd) \<subseteq> dom (dget GENOME_KEYS)" using u(4) by fastforce
  have "if k \<in> moved ds then fle lo (knob seed' k) \<and> fle (knob seed' k) hi else knob seed' k = knob seed k"
    if k: "dget GENOME_KEYS k = Some (lo, hi)" for k lo hi
  proof -
    have v: "knob seed' k = (case dget upd k of None \<Rightarrow> knob seed k | Some v \<Rightarrow> v)"
      using knob_updates [OF u(2) dm, of k seed] k by (simp add: seed'_def)
    show ?thesis
    proof (cases "dget upd k")
      case None
      then have "k \<notin> moved ds" using u(3) by (metis domIff)
      then show ?thesis using v None by simp
    next
      case (Some x)
      then have "k \<in> moved ds" using u(3) by blast
      moreover have "fle lo x" "fle x hi" using u(4) Some k by fastforce+
      ultimately show ?thesis using v Some by simp
    qed
  qed
  moreover have "cfg_weights seed' = cfg_weights seed" "cfg_min_bet_size_usd seed' = cfg_min_bet_size_usd seed"
    "cfg_exploration_epsilon seed' = cfg_exploration_epsilon seed" by (simp_all add: seed'_def updates_rest)
  ultimately show ?thesis using aw ag w'(2) by blast
qed

definition optimum_seed :: strategy_config where
  "optimum_seed = \<lparr>cfg_weights = demo_weights, cfg_max_breath_risk_pct = fone, cfg_min_confidence = Fin (1 / 2),
     cfg_min_bet_size_usd = Fin 4, cfg_min_edge = Fin (1 / 2), cfg_kappa = Fin (1 / 4), cfg_gate_storm_sensitivity = fzero,
     cfg_risk_storm_sensitivity = fzero, cfg_kappa_xm = fzero, cfg_exploration_epsilon = fzero\<rparr>"

definition demo_proposals :: "weight_delta list" where
  "demo_proposals = [demo_delta ''min_edge'' (JFloat (Fin 7)), demo_delta ''w_r'' (JInt (- 3)),
     demo_delta ''alpha_2'' (JFloat NaN), demo_delta ''min_bet_size_usd'' (JInt 1), demo_delta ''rho'' (JBool True)]"


theorem experience_stays_valid_witness:
  "\<exists>w' seed'. apply_weight_deltas False demo_weights demo_proposals = Inr w' \<and> live_weights False w' \<and>
     apply_genome_deltas optimum_seed demo_proposals = Inr seed' \<and> fle (cfg_min_edge seed') (Fin (1 / 2)) \<and>
     cfg_min_bet_size_usd seed' = Fin 4"
proof -
  have l: "live_weights False demo_weights" by code_simp
  have "list_all (\<lambda>d. case delta_number d of Some (Inr x) \<Rightarrow> f64 x | Some (Inl _) \<Rightarrow> False | None \<Rightarrow> True) demo_proposals"
    by code_simp
  then have n: "case delta_number d of Some (Inr x) \<Rightarrow> f64 x | Some (Inl _) \<Rightarrow> False | None \<Rightarrow> True"
    if "d \<in> set demo_proposals" for d using that by (simp add: list_all_iff)
  have s: "sane_numbers demo_proposals"
    unfolding sane_numbers_def
  proof (intro ballI allI impI)
    fix d r assume "d \<in> set demo_proposals" "delta_number d = Some r"
    then show "\<exists>x. r = Inr x \<and> f64 x" using n [of d] by (cases r) simp_all
  qed
  have d: "demo_delta ''min_edge'' (JFloat (Fin 7)) \<in> set demo_proposals" by (simp add: demo_proposals_def)
  have m: "genome_move (demo_delta ''min_edge'' (JFloat (Fin 7))) = Some (''min_edge'', (fzero, Fin (1 / 2)), Inr (Fin 7))" by code_simp
  have k: "dget GENOME_KEYS ''min_edge'' = Some (fzero, Fin (1 / 2))" by code_simp
  have "''min_edge'' \<in> moved demo_proposals" unfolding moved_def using d m by blast
  moreover have "knob s ''min_edge'' = cfg_min_edge s" for s by (simp add: knob_def)
  moreover have "cfg_min_bet_size_usd optimum_seed = Fin 4" by (simp add: optimum_seed_def)
  ultimately show ?thesis using experience_stays_valid [OF l s, of optimum_seed] k by fastforce
qed

end
