(* ===== verification/Holdout.thy ===== *)
theory Holdout
  imports Schedule
begin

text \<open>
  Time in the reincarnation experiment (\<open>backtest/reincarnation.py\<close>): the chronological split into a training season
  and a later holdout, the paired time shift that destroys the order of the markets but not their physics, and
  the participation of a life over the thirds of its span.
\<close>

section \<open>Chronological order\<close>

definition entry_ts :: "iso_parser \<Rightarrow> survival_row \<Rightarrow> stamp res" where
  "entry_ts isop r = from_iso isop (sv_entry_asof_ts_iso r)"

definition instant :: "stamp \<Rightarrow> int" where
  "instant s = fst s - (case snd s of None \<Rightarrow> 0 | Some off \<Rightarrow> off)"

text \<open>Sorting two or more instants compares a naive with an aware one as soon as both occur.\<close>

definition comparable :: "stamp list \<Rightarrow> bool" where
  "comparable ss = (list_all (\<lambda>s. snd s = None) ss \<or> list_all (\<lambda>s. snd s \<noteq> None) ss)"

definition chronological :: "iso_parser \<Rightarrow> survival_row list \<Rightarrow> (stamp \<times> survival_row) list res" where
  "chronological isop rows =
     rbind (rmap (\<lambda>r. rbind (entry_ts isop r) (\<lambda>s. Inr (s, r))) rows) (\<lambda>xs.
       if \<not> comparable (map fst xs) then Inl TypeError
       else Inr (sort_key (\<lambda>(s, r). (instant s, sv_market_id r)) xs))"

section \<open>The split\<close>

function absorb :: "int list \<Rightarrow> nat \<Rightarrow> nat" where
  "absorb ts edge = (if edge < length ts \<and> ts ! edge = ts ! (edge - 1) then absorb ts (Suc edge) else edge)"
  by pat_completeness auto
termination by (relation "measure (\<lambda>(ts, edge). length ts - edge)") auto

declare absorb.simps [simp del]

definition split_rows_by_time :: "iso_parser \<Rightarrow> survival_row list \<Rightarrow> pyfloat \<Rightarrow> (survival_row list \<times> survival_row list) res" where
  "split_rows_by_time isop rows train_fraction =
     (if \<not> (flt fzero train_fraction \<and> flt train_fraction fone) then Inl ValueError
      else if length rows < 2 then Inl ValueError
      else rbind (chronological isop rows) (\<lambda>ordered.
           rbind (float_of_int (int (length ordered))) (\<lambda>n.
           rbind (py_round (fmul n train_fraction)) (\<lambda>c.
             let edge = absorb (map (instant \<circ> fst) ordered) (nat (max 1 (min (int (length ordered) - 1) c)))
             in if length ordered \<le> edge then Inl ValueError
                else Inr (map snd (take edge ordered), map snd (drop edge ordered))))))"

lemma absorb_spec:
  assumes "1 \<le> edge" "edge \<le> length ts"
  shows "edge \<le> absorb ts edge \<and> absorb ts edge \<le> length ts \<and> (\<forall>k. edge \<le> k \<and> k < absorb ts edge \<longrightarrow> ts ! k = ts ! (edge - 1)) \<and>
    (absorb ts edge < length ts \<longrightarrow> ts ! absorb ts edge \<noteq> ts ! (absorb ts edge - 1))"
  using assms
proof (induction ts edge rule: absorb.induct)
  case (1 ts edge)
  show ?case
  proof (cases "edge < length ts \<and> ts ! edge = ts ! (edge - 1)")
    case True
    note IH = "1.IH" [OF True]
    have "ts ! k = ts ! (edge - 1)" if "edge \<le> k" "k < absorb ts (Suc edge)" for k
      using IH True that "1.prems" by (cases "k = edge") auto
    then show ?thesis using IH True "1.prems" by (simp add: absorb.simps [of ts edge])
  next
    case False
    then show ?thesis using "1.prems" by (auto simp: absorb.simps [of ts edge])
  qed
qed

lemma chronological_ok:
  assumes "chronological isop rows = Inr xs"
  shows "mset (map snd xs) = mset rows" "(s, r) \<in> set xs \<Longrightarrow> entry_ts isop r = Inr s" "sorted (map (instant \<circ> fst) xs)"
    "comparable (map fst xs)" "length xs = length rows"
proof -
  obtain ys where ys: "rmap (\<lambda>r. rbind (entry_ts isop r) (\<lambda>s. Inr (s, r))) rows = Inr ys" "comparable (map fst ys)"
    "xs = sort_key (\<lambda>(s, r). (instant s, sv_market_id r)) ys"
    using assms by (auto simp: chronological_def rbind_eq_Inr split: if_splits)
  have "list_all2 (\<lambda>r y. entry_ts isop r = Inr (fst y) \<and> snd y = r) rows ys"
    using rmap_Inr_length [OF ys(1)] by (rule list_all2_mono) auto
  then have m: "map snd ys = rows" "\<forall>y \<in> set ys. entry_ts isop (snd y) = Inr (fst y)"
    by (induction rows ys rule: list_all2_induct) auto
  show 1: "mset (map snd xs) = mset rows" using m(1) by (metis mset_map mset_sort ys(3))
  show "(s, r) \<in> set xs \<Longrightarrow> entry_ts isop r = Inr s" using m(2) by (auto simp: ys(3))
  have "sorted (map (\<lambda>(s, r). (instant s, sv_market_id r)) xs)" unfolding ys(3) by (rule sorted_sort_key)
  then show "sorted (map (instant \<circ> fst) xs)"
    by (induction xs) (auto simp: less_eq_prod_def less_le)
  show "comparable (map fst xs)" using ys(2) by (auto simp: ys(3) comparable_def list_all_iff)
  show "length xs = length rows" using arg_cong [OF 1, of size] by simp
qed

text \<open>C33. A split that succeeds keeps every row, has two non-empty sides, and every training market is entered
  strictly before every held-out one; the training side has at least the rounded share, and what it has beyond
  are markets tied with the last of that share.\<close>

theorem split_has_no_lookahead:
  assumes "split_rows_by_time isop rows f = Inr (train, holdout)"
  shows "mset (train @ holdout) = mset rows \<and> train \<noteq> [] \<and> holdout \<noteq> [] \<and>
    (\<forall>r \<in> set train. \<forall>r' \<in> set holdout. \<exists>s s'. entry_ts isop r = Inr s \<and> entry_ts isop r' = Inr s' \<and> instant s < instant s') \<and>
    (\<exists>n c share. float_of_int (int (length rows)) = Inr n \<and> py_round (fmul n f) = Inr c \<and>
       share = nat (max 1 (min (int (length rows) - 1) c)) \<and> share \<le> length train \<and>
       (\<forall>k. share \<le> k \<and> k < length train \<longrightarrow>
          (\<exists>s s'. entry_ts isop (train ! k) = Inr s \<and> entry_ts isop (train ! (share - 1)) = Inr s' \<and> instant s = instant s')))"
proof -
  obtain xs n c where x: "chronological isop rows = Inr xs" "float_of_int (int (length xs)) = Inr n" "py_round (fmul n f) = Inr c"
    and len: "2 \<le> length rows"
    using assms by (auto simp: split_rows_by_time_def rbind_eq_Inr Let_def split: if_splits)
  define ts where "ts = map (instant \<circ> fst) xs"
  define share where "share = nat (max 1 (min (int (length rows) - 1) c))"
  define edge where "edge = absorb ts share"
  note o = chronological_ok [OF x(1)]
  have sp: "edge < length xs" "train = map snd (take edge xs)" "holdout = map snd (drop edge xs)"
    using assms len x o(5) by (auto simp: split_rows_by_time_def Let_def edge_def share_def ts_def split: if_splits)
  have sh: "1 \<le> share" "share \<le> length ts" "length ts = length xs" using len o(5) by (auto simp: share_def ts_def)
  note a = absorb_spec [OF sh(1,2), folded edge_def]
  have srt: "sorted ts" using o(3) by (simp add: ts_def)
  have tk: "train ! k = snd (xs ! k)" if "k < edge" for k using that sp by simp
  have at: "entry_ts isop (snd (xs ! k)) = Inr (fst (xs ! k))" "ts ! k = instant (fst (xs ! k))" if "k < length xs" for k
    using that o(2) [of "fst (xs ! k)" "snd (xs ! k)"] by (simp_all add: ts_def)
  have "\<exists>s s'. entry_ts isop r = Inr s \<and> entry_ts isop r' = Inr s' \<and> instant s < instant s'"
    if r: "r \<in> set train" "r' \<in> set holdout" for r r'
  proof -
    obtain i j where ij: "i < edge" "r = snd (xs ! i)" "edge \<le> j" "j < length xs" "r' = snd (xs ! j)"
    proof -
      obtain i where "i < edge" "r = snd (xs ! i)" using r(1) sp by (auto simp: in_set_conv_nth)
      moreover obtain j where "j < length xs - edge" "r' = snd (xs ! (edge + j))" using r(2) sp by (auto simp: in_set_conv_nth)
      ultimately show ?thesis using that [of i "edge + j"] by simp
    qed
    have "ts ! (edge - 1) \<noteq> ts ! edge" "ts ! (edge - 1) \<le> ts ! edge" using a sp(1) sh srt by (auto simp: sorted_nth_mono)
    moreover have "ts ! i \<le> ts ! (edge - 1)" "ts ! edge \<le> ts ! j" using srt ij sh(3) by (auto intro!: sorted_nth_mono)
    ultimately have "ts ! i < ts ! j" by linarith
    then show ?thesis using at [of i] at [of j] ij sp(1) by auto
  qed
  moreover have "\<exists>s s'. entry_ts isop (train ! k) = Inr s \<and> entry_ts isop (train ! (share - 1)) = Inr s' \<and> instant s = instant s'"
    if k: "share \<le> k" "k < length train" for k
  proof -
    have "k < edge" using k(2) sp by simp
    then show ?thesis using k(1) a at [of k] at [of "share - 1"] tk [of k] tk [of "share - 1"] sp(1) sh(1) by auto
  qed
  moreover have "mset (train @ holdout) = mset rows"
    using o(1) unfolding sp(2,3) by (metis append_take_drop_id map_append)
  moreover have "train \<noteq> []" "holdout \<noteq> []" "share \<le> length train" using sp a sh by auto
  ultimately show ?thesis using x(2,3) o(5) by (auto simp: share_def [symmetric])
qed

lemma demo_split:
  "case split_rows_by_time (x_parse_iso tally_env) demo_rows (Fin (1 / 4)) of
     Inr (train, holdout) \<Rightarrow> map sv_market_id train = [''a'', ''b''] \<and> map sv_market_id holdout = [''c'']
   | Inl e \<Rightarrow> False"
  by code_simp

theorem split_has_no_lookahead_witness:
  "\<exists>train holdout. split_rows_by_time (x_parse_iso tally_env) demo_rows (Fin (1 / 4)) = Inr (train, holdout) \<and>
     length train = 2 \<and> mset (train @ holdout) = mset demo_rows"
proof -
  obtain train holdout where s: "split_rows_by_time (x_parse_iso tally_env) demo_rows (Fin (1 / 4)) = Inr (train, holdout)"
    "map sv_market_id train = [''a'', ''b'']"
    using demo_split by (auto split: sum.splits)
  have "length train = 2" using arg_cong [OF s(2), of length] by simp
  then show ?thesis using split_has_no_lookahead [OF s(1)] s(1) by blast
qed

section \<open>The paired time shift\<close>

definition SHUFFLE_MIN_SPACING :: int where "SHUFFLE_MIN_SPACING = 60 * SECOND"

text \<open>The ISO reader and printer and the seeded permutation of \<open>random.Random\<close> are outside.\<close>

record shuffle_env =
  sh_isop :: iso_parser
  sh_print :: "stamp \<Rightarrow> string"
  sh_perm :: "nat \<Rightarrow> nat list"

definition shift_iso :: "shuffle_env \<Rightarrow> int \<Rightarrow> string \<Rightarrow> string res" where
  "shift_iso env d s = rbind (from_iso (sh_isop env) s) (\<lambda>t. rbind (shift_stamp t d) (\<lambda>t'. Inr (sh_print env t')))"

definition shift_iso_opt :: "shuffle_env \<Rightarrow> int \<Rightarrow> string option \<Rightarrow> string option res" where
  "shift_iso_opt env d s = (case s of None \<Rightarrow> Inr None | Some x \<Rightarrow> rbind (shift_iso env d x) (\<lambda>y. Inr (Some y)))"

text \<open>The slot timeline: pushed forward to keep the spacing.\<close>

fun slots :: "int \<Rightarrow> stamp option \<Rightarrow> stamp list \<Rightarrow> stamp list res" where
  "slots spacing prev [] = Inr []"
| "slots spacing prev (t # ts) =
     rbind (case prev of
              None \<Rightarrow> Inr t
            | Some l \<Rightarrow> rbind (shift_stamp l spacing) (\<lambda>m. Inr (if instant t < instant m then m else t)))
       (\<lambda>s. rbind (slots spacing (Some s) ts) (\<lambda>ss. Inr (s # ss)))"

definition clone_row :: "shuffle_env \<Rightarrow> int \<Rightarrow> survival_row \<Rightarrow> survival_row res" where
  "clone_row env d row =
     rbind (shift_iso env d (sv_entry_asof_ts_iso row)) (\<lambda>a.
     rbind (shift_iso_opt env d (sv_resolution_ts_iso row)) (\<lambda>r.
     rbind (shift_iso env d (sv_end_date_iso row)) (\<lambda>e.
       Inr (row\<lparr>sv_entry_asof_ts_iso := a, sv_resolution_ts_iso := r, sv_end_date_iso := e\<rparr>))))"

definition clone_snapshot :: "shuffle_env \<Rightarrow> int \<Rightarrow> market_snapshot \<Rightarrow> market_snapshot res" where
  "clone_snapshot env d shot =
     rbind (shift_iso env d (ms_end_date_iso shot)) (\<lambda>e.
     rbind (shift_iso_opt env d (ms_resolution_ts_iso shot)) (\<lambda>r.
     rbind (rmap (\<lambda>pp. rbind (shift_iso env d (pp_ts pp)) (\<lambda>t. Inr (pp\<lparr>pp_ts := t\<rparr>))) (ms_price_ledger shot)) (\<lambda>l.
       Inr (shot\<lparr>ms_end_date_iso := e, ms_resolution_ts_iso := r, ms_price_ledger := l\<rparr>))))"

definition shuffle_timestamps ::
  "shuffle_env \<Rightarrow> int \<Rightarrow> survival_row list \<Rightarrow> market_snapshot list \<Rightarrow> (survival_row list \<times> market_snapshot list) res" where
  "shuffle_timestamps env min_spacing rows snapshots =
     (let by_id = fold_dict (map (\<lambda>s. (ms_market_id s, s)) snapshots) in
      if list_ex (\<lambda>r. dget by_id (sv_market_id r) = None) rows then Inl ValueError
      else rbind (chronological (sh_isop env) rows) (\<lambda>ordered.
           rbind (slots min_spacing None (map fst ordered)) (\<lambda>timeline.
           rbind (rmap (\<lambda>(j, i).
                    case ordered ! i of (t, row) \<Rightarrow>
                      let d = instant (timeline ! j) - instant t in
                      rbind (clone_row env d row) (\<lambda>r.
                      rbind (clone_snapshot env d (the (dget by_id (sv_market_id row)))) (\<lambda>s. Inr (r, s))))
                  (zip [0..<length ordered] (sh_perm env (length ordered)))) (\<lambda>ps.
             Inr (map fst ps, map snd ps @
               filter (\<lambda>s. ms_market_id s \<notin> set (map (sv_market_id \<circ> fst) ps)) snapshots)))))"

text \<open>One text is another's instant moved by \<open>d\<close>, in the same zone.\<close>

definition moved_by :: "iso_parser \<Rightarrow> int \<Rightarrow> string \<Rightarrow> string \<Rightarrow> bool" where
  "moved_by isop d s s' = (\<exists>t. from_iso isop s = Inr t \<and> from_iso isop s' = Inr (fst t + d, snd t))"

definition moved_opt :: "iso_parser \<Rightarrow> int \<Rightarrow> string option \<Rightarrow> string option \<Rightarrow> bool" where
  "moved_opt isop d s s' = rel_option (moved_by isop d) s s'"

definition moved_row :: "iso_parser \<Rightarrow> int \<Rightarrow> survival_row \<Rightarrow> survival_row \<Rightarrow> bool" where
  "moved_row isop d r r' =
     (moved_by isop d (sv_entry_asof_ts_iso r) (sv_entry_asof_ts_iso r') \<and>
      moved_opt isop d (sv_resolution_ts_iso r) (sv_resolution_ts_iso r') \<and>
      moved_by isop d (sv_end_date_iso r) (sv_end_date_iso r') \<and>
      r' = r\<lparr>sv_entry_asof_ts_iso := sv_entry_asof_ts_iso r', sv_resolution_ts_iso := sv_resolution_ts_iso r',
             sv_end_date_iso := sv_end_date_iso r'\<rparr>)"

definition moved_snapshot :: "iso_parser \<Rightarrow> int \<Rightarrow> market_snapshot \<Rightarrow> market_snapshot \<Rightarrow> bool" where
  "moved_snapshot isop d s s' =
     (moved_by isop d (ms_end_date_iso s) (ms_end_date_iso s') \<and>
      moved_opt isop d (ms_resolution_ts_iso s) (ms_resolution_ts_iso s') \<and>
      list_all2 (\<lambda>p p'. moved_by isop d (pp_ts p) (pp_ts p') \<and> pp_mid_price p' = pp_mid_price p) (ms_price_ledger s) (ms_price_ledger s') \<and>
      s' = s\<lparr>ms_end_date_iso := ms_end_date_iso s', ms_resolution_ts_iso := ms_resolution_ts_iso s', ms_price_ledger := ms_price_ledger s'\<rparr>)"

text \<open>What \<open>isoformat\<close> prints, \<open>fromisoformat\<close> reads back; \<open>random.shuffle\<close> permutes.\<close>

definition shuffle_laws :: "shuffle_env \<Rightarrow> bool" where
  "shuffle_laws env = ((\<forall>t. sh_isop env (sh_print env t) = Some t) \<and> (\<forall>n. mset (sh_perm env n) = mset [0..<n]))"

lemma shift_iso_moves: "shuffle_laws env \<Longrightarrow> shift_iso env d s = Inr s' \<Longrightarrow> moved_by (sh_isop env) d s s'"
  by (auto simp: shift_iso_def shuffle_laws_def moved_by_def from_iso_def shift_stamp_def split: option.splits if_splits)

lemma shift_iso_opt_moves: "shuffle_laws env \<Longrightarrow> shift_iso_opt env d s = Inr s' \<Longrightarrow> moved_opt (sh_isop env) d s s'"
  using shift_iso_moves by (cases s) (auto simp: shift_iso_opt_def moved_opt_def)

lemma clone_row_moves: "shuffle_laws env \<Longrightarrow> clone_row env d r = Inr r' \<Longrightarrow> moved_row (sh_isop env) d r r'"
  using shift_iso_moves shift_iso_opt_moves by (auto simp: clone_row_def moved_row_def)

lemma clone_snapshot_moves:
  assumes "shuffle_laws env" "clone_snapshot env d s = Inr s'" shows "moved_snapshot (sh_isop env) d s s'"
proof -
  obtain e r l where c: "shift_iso env d (ms_end_date_iso s) = Inr e" "shift_iso_opt env d (ms_resolution_ts_iso s) = Inr r"
    "rmap (\<lambda>pp. rbind (shift_iso env d (pp_ts pp)) (\<lambda>t. Inr (pp\<lparr>pp_ts := t\<rparr>))) (ms_price_ledger s) = Inr l"
    "s' = s\<lparr>ms_end_date_iso := e, ms_resolution_ts_iso := r, ms_price_ledger := l\<rparr>"
    using assms(2) by (auto simp: clone_snapshot_def)
  have "list_all2 (\<lambda>p p'. moved_by (sh_isop env) d (pp_ts p) (pp_ts p') \<and> pp_mid_price p' = pp_mid_price p) (ms_price_ledger s) l"
    using rmap_Inr_length [OF c(3)] by (rule list_all2_mono) (auto dest: shift_iso_moves [OF assms(1)])
  then show ?thesis using c(4) shift_iso_moves [OF assms(1) c(1)] shift_iso_opt_moves [OF assms(1) c(2)]
    by (simp add: moved_snapshot_def)
qed

lemma slots_spaced:
  assumes "slots spacing prev ts = Inr ss" "0 \<le> spacing"
  shows "length ss = length ts \<and> sorted_wrt (\<lambda>a b. instant a + spacing \<le> instant b) ss \<and>
    (\<forall>l. prev = Some l \<longrightarrow> (\<forall>s \<in> set ss. instant l + spacing \<le> instant s))"
  using assms
proof (induction spacing prev ts arbitrary: ss rule: slots.induct)
  case (2 spacing prev t ts)
  from 2(2) obtain s ss' where s: "(case prev of None \<Rightarrow> Inr t | Some l \<Rightarrow> rbind (shift_stamp l spacing) (\<lambda>m. Inr (if instant t < instant m then m else t))) = Inr s"
    "slots spacing (Some s) ts = Inr ss'" "ss = s # ss'" by (auto simp: rbind_eq_Inr)
  have IH: "length ss' = length ts" "sorted_wrt (\<lambda>a b. instant a + spacing \<le> instant b) ss'" "\<forall>u \<in> set ss'. instant s + spacing \<le> instant u"
    using 2(1) [OF s(2) 2(3)] by auto
  have "instant l + spacing \<le> instant s" if "prev = Some l" for l
    using s(1) that by (auto simp: shift_stamp_def instant_def split: if_splits)
  then show ?case using IH s(3) 2(3) by fastforce
qed simp

lemma moved_row_id: "moved_row isop d r r' \<Longrightarrow> sv_market_id r' = sv_market_id r"
proof -
  assume "moved_row isop d r r'"
  then have "r' = r\<lparr>sv_entry_asof_ts_iso := sv_entry_asof_ts_iso r', sv_resolution_ts_iso := sv_resolution_ts_iso r',
      sv_end_date_iso := sv_end_date_iso r'\<rparr>" unfolding moved_row_def by blast
  from arg_cong [OF this, of sv_market_id] show ?thesis by simp
qed

lemma clones_move:
  assumes "shuffle_laws env"
    "rbind (clone_row env d row) (\<lambda>r. rbind (clone_snapshot env d shot) (\<lambda>s. Inr (r, s))) = Inr y"
  shows "moved_row (sh_isop env) d row (fst y)" "moved_snapshot (sh_isop env) d shot (snd y)"
  using assms(2) clone_row_moves [OF assms(1)] clone_snapshot_moves [OF assms(1)] by auto

lemma moved_entry:
  assumes "moved_row isop d row r" "entry_ts isop row = Inr t"
  shows "\<exists>s. entry_ts isop r = Inr s \<and> instant s = instant t + d"
  using assms by (auto simp: moved_row_def moved_by_def entry_ts_def instant_def)

text \<open>C36. The shift places the markets, in the order of the permutation, on a timeline whose entries keep the minimum
  spacing; every market is moved together with its snapshot by one duration, so all its intervals survive; prices,
  outcomes and the snapshots without a row are as they were.\<close>

theorem shuffle_keeps_physics:
  assumes laws: "shuffle_laws env" "0 \<le> spacing" and run: "shuffle_timestamps env spacing rows snaps = Inr (rows', snaps')"
  shows "mset (map sv_market_id rows') = mset (map sv_market_id rows) \<and>
    (\<exists>ts. list_all2 (\<lambda>r t. \<exists>s. entry_ts (sh_isop env) r = Inr s \<and> instant s = t) rows' ts \<and>
       sorted_wrt (\<lambda>a b. a + spacing \<le> b) ts) \<and>
    (\<forall>j < length rows'. \<exists>row \<in> set rows. \<exists>shot d.
       dget (fold_dict (map (\<lambda>s. (ms_market_id s, s)) snaps)) (sv_market_id row) = Some shot \<and>
       moved_row (sh_isop env) d row (rows' ! j) \<and> moved_snapshot (sh_isop env) d shot (snaps' ! j)) \<and>
    drop (length rows) snaps' = filter (\<lambda>s. ms_market_id s \<notin> sv_market_id ` set rows) snaps"
proof -
  define by_id where "by_id = fold_dict (map (\<lambda>s. (ms_market_id s, s)) snaps)"
  obtain xs tl ps where x: "chronological (sh_isop env) rows = Inr xs" "slots spacing None (map fst xs) = Inr tl"
    "rmap (\<lambda>(j, i). case xs ! i of (t, row) \<Rightarrow> let d = instant (tl ! j) - instant t in
        rbind (clone_row env d row) (\<lambda>r. rbind (clone_snapshot env d (the (dget by_id (sv_market_id row)))) (\<lambda>s. Inr (r, s))))
      (zip [0..<length xs] (sh_perm env (length xs))) = Inr ps"
    "rows' = map fst ps" "snaps' = map snd ps @ filter (\<lambda>s. ms_market_id s \<notin> set (map (sv_market_id \<circ> fst) ps)) snaps"
    and known: "\<not> list_ex (\<lambda>r. dget by_id (sv_market_id r) = None) rows"
    using run by (auto simp: shuffle_timestamps_def Let_def by_id_def [symmetric] rbind_eq_Inr split: if_splits)
  note o = chronological_ok [OF x(1)]
  let ?n = "length xs" and ?p = "sh_perm env (length xs)"
  have pm: "mset ?p = mset [0..<?n]" using laws(1) by (simp add: shuffle_laws_def)
  then have lp: "length ?p = ?n" using mset_eq_length [OF pm] by simp
  have pn: "?p ! j < ?n" if "j < ?n" for j using mset_eq_setD [OF pm] that lp nth_mem [of j ?p] by auto
  have la: "list_all2 (\<lambda>(j, i) y. (case xs ! i of (t, row) \<Rightarrow> let d = instant (tl ! j) - instant t in
        rbind (clone_row env d row) (\<lambda>r. rbind (clone_snapshot env d (the (dget by_id (sv_market_id row)))) (\<lambda>s. Inr (r, s)))) = Inr y)
      (zip [0..<?n] ?p) ps"
    using rmap_Inr_length [OF x(3)] by (rule list_all2_mono) auto
  then have lps: "length ps = ?n" using lp by (simp add: list_all2_lengthD [symmetric])
  have pj: "\<exists>t row. xs ! (?p ! j) = (t, row) \<and> row \<in> set rows \<and> entry_ts (sh_isop env) row = Inr t \<and>
      moved_row (sh_isop env) (instant (tl ! j) - instant t) row (fst (ps ! j)) \<and>
      moved_snapshot (sh_isop env) (instant (tl ! j) - instant t) (the (dget by_id (sv_market_id row))) (snd (ps ! j))"
    if j: "j < ?n" for j
  proof -
    obtain t row where tr: "xs ! (?p ! j) = (t, row)" by (cases "xs ! (?p ! j)")
    then have m: "(t, row) \<in> set xs" using pn [OF j] by (metis nth_mem)
    have "rbind (clone_row env (instant (tl ! j) - instant t) row) (\<lambda>r.
        rbind (clone_snapshot env (instant (tl ! j) - instant t) (the (dget by_id (sv_market_id row)))) (\<lambda>s. Inr (r, s))) = Inr (ps ! j)"
      using list_all2_nthD [OF la, of j] j lp tr by (simp add: Let_def)
    note c = clones_move [OF laws(1) this]
    have "row \<in> set (map snd xs)" using m by force
    then have "row \<in> set rows" using mset_eq_setD [OF o(1)] by simp
    then show ?thesis using tr o(2) [OF m] c by blast
  qed
  have ids: "map sv_market_id rows' = map (\<lambda>i. sv_market_id (snd (xs ! i))) ?p"
  proof (rule nth_equalityI)
    fix j assume "j < length (map sv_market_id rows')"
    then have j: "j < ?n" by (simp add: x(4) lps)
    obtain t row where r: "xs ! (?p ! j) = (t, row)" "moved_row (sh_isop env) (instant (tl ! j) - instant t) row (fst (ps ! j))"
      using pj [OF j] by blast
    have "sv_market_id (fst (ps ! j)) = sv_market_id row" by (rule moved_row_id [OF r(2)])
    then show "map sv_market_id rows' ! j = map (\<lambda>i. sv_market_id (snd (xs ! i))) ?p ! j" using j r(1) lp by (simp add: x(4) lps)
  qed (simp add: x(4) lps lp)
  have "mset (map (\<lambda>i. sv_market_id (snd (xs ! i))) ?p) = mset (map (\<lambda>i. sv_market_id (snd (xs ! i))) [0..<?n])" using pm by simp
  also have "map (\<lambda>i. sv_market_id (snd (xs ! i))) [0..<?n] = map sv_market_id (map snd xs)" by (rule nth_equalityI) simp_all
  finally have mids: "mset (map sv_market_id rows') = mset (map sv_market_id rows)" unfolding ids using o(1) by (metis mset_map)
  note sl = slots_spaced [OF x(2) laws(2)]
  have "list_all2 (\<lambda>r t. \<exists>s. entry_ts (sh_isop env) r = Inr s \<and> instant s = t) rows' (map instant tl)"
  proof (rule list_all2_all_nthI)
    fix j assume "j < length rows'"
    then have j: "j < ?n" by (simp add: x(4) lps)
    obtain t row where "entry_ts (sh_isop env) row = Inr t" "moved_row (sh_isop env) (instant (tl ! j) - instant t) row (fst (ps ! j))"
      using pj [OF j] by blast
    from moved_entry [OF this(2,1)] show "\<exists>s. entry_ts (sh_isop env) (rows' ! j) = Inr s \<and> instant s = map instant tl ! j"
      using j sl by (simp add: x(4) lps)
  qed (use sl in \<open>simp add: x(4) lps\<close>)
  moreover have "sorted_wrt (\<lambda>a b. a + spacing \<le> b) (map instant tl)" using sl by (simp add: sorted_wrt_map)
  moreover have "\<exists>row \<in> set rows. \<exists>shot d. dget by_id (sv_market_id row) = Some shot \<and>
      moved_row (sh_isop env) d row (rows' ! j) \<and> moved_snapshot (sh_isop env) d shot (snaps' ! j)" if "j < length rows'" for j
  proof -
    have j: "j < ?n" using that by (simp add: x(4) lps)
    obtain t row where r: "row \<in> set rows" "moved_row (sh_isop env) (instant (tl ! j) - instant t) row (fst (ps ! j))"
      "moved_snapshot (sh_isop env) (instant (tl ! j) - instant t) (the (dget by_id (sv_market_id row))) (snd (ps ! j))"
      using pj [OF j] by blast
    have "dget by_id (sv_market_id row) = Some (the (dget by_id (sv_market_id row)))" using known r(1) by (auto simp: list_ex_iff)
    then show ?thesis using r j by (intro bexI [OF _ r(1)] exI conjI) (simp_all add: x(4,5) lps nth_append)
  qed
  moreover have "drop (length rows) snaps' = filter (\<lambda>s. ms_market_id s \<notin> sv_market_id ` set rows) snaps"
    using mset_eq_setD [OF mids] lps o(5) by (simp add: x(4,5) image_comp)
  ultimately show ?thesis using mids unfolding by_id_def [symmetric] by blast
qed

text \<open>Instants in tally marks of microseconds, a minus sign in front and the offset behind a plus sign.\<close>

definition tally :: "int \<Rightarrow> string" where
  "tally n = (if n < 0 then CHR ''-'' # replicate (nat (- n)) CHR ''t'' else replicate (nat n) CHR ''t'')"

definition untally :: "string \<Rightarrow> int" where
  "untally s = (case s of c # cs \<Rightarrow> if c = CHR ''-'' then - int (length cs) else int (length s) | [] \<Rightarrow> 0)"

lemma untally_tally: "untally (tally n) = n"
  by (cases "nat n") (auto simp: tally_def untally_def)

definition tally_shuffle :: shuffle_env where
  "tally_shuffle = \<lparr>sh_isop = (\<lambda>s. case dropWhile (\<lambda>c. c \<noteq> CHR ''+'') s of
       [] \<Rightarrow> Some (untally s, None) | _ # off \<Rightarrow> Some (untally (takeWhile (\<lambda>c. c \<noteq> CHR ''+'') s), Some (untally off))),
     sh_print = (\<lambda>(t, off). tally t @ (case off of None \<Rightarrow> [] | Some d \<Rightarrow> CHR ''+'' # tally d)),
     sh_perm = (\<lambda>n. rev [0..<n])\<rparr>"

lemma tally_shuffle_laws: "shuffle_laws tally_shuffle"
proof -
  have no_plus: "CHR ''+'' \<notin> set (tally n)" for n by (simp add: tally_def)
  then have "\<forall>c \<in> set (tally n). c \<noteq> CHR ''+''" for n by metis
  then have "takeWhile (\<lambda>c. c \<noteq> CHR ''+'') (tally n @ CHR ''+'' # cs) = tally n" "dropWhile (\<lambda>c. c \<noteq> CHR ''+'') (tally n @ CHR ''+'' # cs) = CHR ''+'' # cs"
    "dropWhile (\<lambda>c. c \<noteq> CHR ''+'') (tally n) = []" for n cs
    by (simp_all add: takeWhile_append2 dropWhile_append2)
  then show ?thesis by (simp add: shuffle_laws_def tally_shuffle_def untally_tally split: option.split)
qed

definition demo_shot :: "string \<Rightarrow> nat \<Rightarrow> market_snapshot" where
  "demo_shot m n = \<lparr>ms_market_id = m, ms_slug = [], ms_end_date_iso = replicate n CHR ''t'', ms_resolution_ts_iso = None,
     ms_outcome = None, ms_winning_price = None, ms_liquidity_cap_usd = Fin 5,
     ms_price_ledger = [\<lparr>pp_ts = replicate n CHR ''t'', pp_mid_price = Fin (1 / 2)\<rparr>]\<rparr>"

definition demo_shots :: "market_snapshot list" where
  "demo_shots = [demo_shot ''a'' 3, demo_shot ''b'' 3, demo_shot ''c'' 40, demo_shot ''d'' 7]"

lemma demo_shuffle:
  "case shuffle_timestamps tally_shuffle 2 demo_rows demo_shots of
     Inr (rows, shots) \<Rightarrow> map (\<lambda>r. (sv_market_id r, length (sv_entry_asof_ts_iso r))) rows = [(''c'', 3), (''b'', 5), (''a'', 40)]
   | Inl e \<Rightarrow> False"
  by code_simp

theorem shuffle_keeps_physics_witness:
  "\<exists>rows shots ts. shuffle_timestamps tally_shuffle 2 demo_rows demo_shots = Inr (rows, shots) \<and>
     mset (map sv_market_id rows) = mset (map sv_market_id demo_rows) \<and>
     list_all2 (\<lambda>r t. \<exists>s. entry_ts (sh_isop tally_shuffle) r = Inr s \<and> instant s = t) rows ts \<and>
     sorted_wrt (\<lambda>a b. a + 2 \<le> b) ts"
proof -
  obtain rows shots where r: "shuffle_timestamps tally_shuffle 2 demo_rows demo_shots = Inr (rows, shots)"
    using demo_shuffle by (auto split: sum.splits)
  have "0 \<le> (2 :: int)" by simp
  from shuffle_keeps_physics [OF tally_shuffle_laws this r] show ?thesis using r by blast
qed

section \<open>Participation by thirds\<close>

text \<open>The poller appends a settled copy of every bet: the first row of an identifier is the placement.\<close>

fun placements :: "string list \<Rightarrow> row list \<Rightarrow> row list" where
  "placements seen [] = []"
| "placements seen (b # bs) =
     (case jget b ''bet_id'' of
        JStr i \<Rightarrow> if i \<in> set seen then placements seen bs else b # placements (i # seen) bs
      | _ \<Rightarrow> placements seen bs)"

record third =
  th_placed :: nat
  th_denominator :: nat

definition total_seconds :: "int \<Rightarrow> pyfloat" where
  "total_seconds d = rnd (of_int d / 1000000)"

definition bucket :: "stamp \<Rightarrow> pyfloat \<Rightarrow> stamp \<Rightarrow> nat res" where
  "bucket start extent t =
     (if fle extent fzero then Inr 0
      else rbind (stamp_diff t start) (\<lambda>d. rbind (py_div (total_seconds d) extent) (\<lambda>x.
        case fmul (clampf fzero fone x) (Fin 3) of
          Fin q \<Rightarrow> Inr (nat (min 2 \<lfloor>q\<rfloor>))
        | NaN \<Rightarrow> Inl ValueError
        | _ \<Rightarrow> Inl OverflowError)))"

definition earliest :: "stamp list \<Rightarrow> stamp" where
  "earliest ts = foldl (\<lambda>a b. if instant b < instant a then b else a) (hd ts) (tl ts)"

definition latest :: "stamp list \<Rightarrow> stamp" where
  "latest ts = foldl (\<lambda>a b. if instant a < instant b then b else a) (hd ts) (tl ts)"

definition count_at :: "(third \<Rightarrow> third) \<Rightarrow> nat list \<Rightarrow> third list \<Rightarrow> third list" where
  "count_at f ks ths = foldl (\<lambda>ths k. ths[k := f (ths ! k)]) ths ks"

definition placed_ts :: "row list \<Rightarrow> string list" where
  "placed_ts rows = List.map_filter (\<lambda>b. case jget b ''ts'' of JStr s \<Rightarrow> Some s | _ \<Rightarrow> None) (placements [] rows)"

definition bets_by_third :: "iso_parser \<Rightarrow> row list \<Rightarrow> stamp list \<Rightarrow> third list res" where
  "bets_by_third isop placed_rows consumed =
     (let thirds = replicate 3 \<lparr>th_placed = 0, th_denominator = 0\<rparr> in
      if consumed = [] then Inr thirds
      else if \<not> comparable consumed then Inl TypeError
      else
        let start = earliest consumed;
            extent = total_seconds (instant (latest consumed) - instant start)
        in rbind (rmap (bucket start extent) consumed) (\<lambda>ds.
           rbind (rmap (\<lambda>s. rbind (from_iso isop s) (bucket start extent)) (placed_ts placed_rows)) (\<lambda>ps.
             Inr (count_at (\<lambda>t. t\<lparr>th_placed := Suc (th_placed t)\<rparr>) ps
               (count_at (\<lambda>t. t\<lparr>th_denominator := Suc (th_denominator t)\<rparr>) ds thirds)))))"

lemma bucket_less: "bucket start extent t = Inr k \<Longrightarrow> k < 3"
proof -
  assume b: "bucket start extent t = Inr k"
  show ?thesis
  proof (cases "fle extent fzero")
    case False
    then obtain x where "(case fmul (clampf fzero fone x) (Fin 3) of
        Fin q \<Rightarrow> Inr (nat (min 2 \<lfloor>q\<rfloor>)) | NaN \<Rightarrow> Inl ValueError | _ \<Rightarrow> Inl OverflowError) = Inr k"
      using b by (auto simp: bucket_def rbind_eq_Inr)
    then show ?thesis by (cases "fmul (clampf fzero fone x) (Fin 3)") (auto simp: nat_less_iff)
  qed (use b in \<open>simp add: bucket_def\<close>)
qed

lemma placements_distinct:
  "distinct (map (\<lambda>b. jget b ''bet_id'') (placements seen bs)) \<and>
   (\<forall>b \<in> set (placements seen bs). \<exists>i. jget b ''bet_id'' = JStr i \<and> i \<notin> set seen)"
proof (induction seen bs rule: placements.induct)
  case (2 seen b bs)
  show ?case
  proof (cases "\<exists>i. jget b ''bet_id'' = JStr i \<and> i \<notin> set seen")
    case True
    then obtain i where i: "jget b ''bet_id'' = JStr i" "i \<notin> set seen" by blast
    have IH: "distinct (map (\<lambda>b. jget b ''bet_id'') (placements (i # seen) bs)) \<and>
        (\<forall>b \<in> set (placements (i # seen) bs). \<exists>j. jget b ''bet_id'' = JStr j \<and> j \<notin> set (i # seen))"
      using "2.IH" i by simp
    then have "JStr i \<notin> (\<lambda>b. jget b ''bet_id'') ` set (placements (i # seen) bs)" by force
    then show ?thesis using i IH by auto
  next
    case False
    then have "placements seen (b # bs) = placements seen bs" by (auto split: json.split)
    moreover have "distinct (map (\<lambda>b. jget b ''bet_id'') (placements seen bs)) \<and>
        (\<forall>b \<in> set (placements seen bs). \<exists>i. jget b ''bet_id'' = JStr i \<and> i \<notin> set seen)"
      using False "2.IH" by (cases "jget b ''bet_id''") auto
    ultimately show ?thesis by simp
  qed
qed simp

lemma count_at_sum:
  assumes "\<forall>k \<in> set ks. k < length ths" "\<And>t. g (f t) = g t + (m :: nat)"
  shows "length (count_at f ks ths) = length ths" "sum_list (map g (count_at f ks ths)) = sum_list (map g ths) + m * length ks"
proof -
  have "length (count_at f ks ths) = length ths \<and> sum_list (map g (count_at f ks ths)) = sum_list (map g ths) + m * length ks"
    using assms(1)
  proof (induction ks arbitrary: ths)
    case (Cons k ks)
    have "sum_list (map g (ths[k := f (ths ! k)])) = sum_list (map g ths) + m"
      using Cons.prems assms(2) elem_le_sum_list [of k "map g ths"] by (simp add: map_update sum_list_update)
    then show ?case using Cons.IH [of "ths[k := f (ths ! k)]"] Cons.prems by (simp add: count_at_def)
  qed (simp add: count_at_def)
  then show "length (count_at f ks ths) = length ths" "sum_list (map g (count_at f ks ths)) = sum_list (map g ths) + m * length ks" by simp_all
qed

text \<open>Every market the life consumed and every dated placement is counted in exactly one of three thirds.\<close>

theorem thirds_account:
  assumes "bets_by_third isop rows consumed = Inr ths" "consumed \<noteq> []"
  shows "length ths = 3 \<and> sum_list (map th_denominator ths) = length consumed \<and> sum_list (map th_placed ths) = length (placed_ts rows)"
proof -
  define extent where "extent = total_seconds (instant (latest consumed) - instant (earliest consumed))"
  obtain ds ps where b: "rmap (bucket (earliest consumed) extent) consumed = Inr ds"
    "rmap (\<lambda>s. rbind (from_iso isop s) (bucket (earliest consumed) extent)) (placed_ts rows) = Inr ps"
    "ths = count_at (\<lambda>t. t\<lparr>th_placed := Suc (th_placed t)\<rparr>) ps
       (count_at (\<lambda>t. t\<lparr>th_denominator := Suc (th_denominator t)\<rparr>) ds (replicate 3 \<lparr>th_placed = 0, th_denominator = 0\<rparr>))"
    using assms by (auto simp: bets_by_third_def Let_def extent_def split: if_splits)
  have "list_all2 (\<lambda>x y. y < 3) consumed ds" "list_all2 (\<lambda>x y. y < 3) (placed_ts rows) ps"
    using rmap_Inr_length [OF b(1)] rmap_Inr_length [OF b(2)] by (auto elim!: list_all2_mono dest: bucket_less)
  then have k: "\<forall>k \<in> set ds. k < 3" "\<forall>k \<in> set ps. k < 3" "length ds = length consumed" "length ps = length (placed_ts rows)"
    by (auto simp: list_all2_conv_all_nth in_set_conv_nth)
  let ?d = "\<lambda>t. t\<lparr>th_denominator := Suc (th_denominator t)\<rparr>" and ?p = "\<lambda>t. t\<lparr>th_placed := Suc (th_placed t)\<rparr>"
    and ?z = "replicate 3 \<lparr>th_placed = 0, th_denominator = 0\<rparr>"
  have l: "length (count_at ?d ds ?z) = 3" using count_at_sum(1) [of ds ?z th_denominator ?d 1] k(1) by simp
  have "sum_list (map th_denominator (count_at ?d ds ?z)) = length ds" "sum_list (map th_placed (count_at ?d ds ?z)) = 0"
    using count_at_sum(2) [of ds ?z th_denominator ?d 1] count_at_sum(2) [of ds ?z th_placed ?d 0] k(1) by (simp_all add: numeral_3_eq_3)
  then show ?thesis
    using count_at_sum [of ps "count_at ?d ds ?z" th_placed ?p 1] count_at_sum(2) [of ps "count_at ?d ds ?z" th_denominator ?p 0] k l b(3)
    by simp
qed

end
