(* ===== verification/Baselines.thy ===== *)
theory Baselines
  imports Schedule Genome Loop
begin

text \<open>
  The comparators of a survival season (\<open>backtest/survival_season.py\<close>): the replay of a bet's profit, the frozen
  twin of the learner, the naive archetypes and the down-sampling of the exported curves.
\<close>

section \<open>The profit of a replayed bet\<close>

definition effective_entry_price :: "string \<Rightarrow> pyfloat \<Rightarrow> pyfloat" where
  "effective_entry_price sd yes_price = (if sd = ''YES'' then yes_price else fsub fone yes_price)"

definition compute_bet_pnl ::
  "string \<Rightarrow> pyfloat \<Rightarrow> pyfloat \<Rightarrow> string \<Rightarrow> pyfloat \<Rightarrow> pyfloat option \<Rightarrow> bool \<Rightarrow> pyfloat" where
  "compute_bet_pnl sd entry_price size_usd outcome winning_price max_pnl side_correct =
     (if outcome = ''void'' then fzero
      else if (sd = ''YES'') \<noteq> (outcome = ''yes'') then fneg size_usd
      else
        let eff = (if side_correct then effective_entry_price sd entry_price else entry_price);
            pnl = (if fle eff fzero then fmul size_usd winning_price
                   else fmul size_usd (fsub (fdiv winning_price eff) fone))
        in case max_pnl of Some m \<Rightarrow> if flt m pnl then m else pnl | None \<Rightarrow> pnl)"

definition side_text :: "side \<Rightarrow> string" where
  "side_text sd = (case sd of YES \<Rightarrow> ''YES'' | NO \<Rightarrow> ''NO'')"

definition outcome_text :: "market_outcome \<Rightarrow> string" where
  "outcome_text x = (case x of Yes \<Rightarrow> ''yes'' | No \<Rightarrow> ''no'' | Void \<Rightarrow> ''void'')"

lemma side_text_simps [simp]: "side_text YES = ''YES''" "side_text NO = ''NO''" "(side_text sd = ''YES'') = (sd = YES)"
  by (cases sd; simp add: side_text_def)+

text \<open>C35. The replay formula is the production one: the settlement poller books, for every bet, outcome, cap and pricing
  mode, exactly the replay's profit at the fill price (or the order price when there is no fill stamp) minus the
  execution cost of the bet, and never raises.\<close>

theorem replay_mirrors_production:
  "compute_pnl b r mx sc =
     Inr (fsub (compute_bet_pnl (side_text (bet_side b)) (case fill_price b of Some f \<Rightarrow> f | None \<Rightarrow> bet_price b)
                 (bet_size_usd b) (outcome_text (sr_outcome r)) (sr_winning_price r) mx sc)
               (execution_cost_usd b))"
proof -
  have div: "\<not> fle e fzero \<Longrightarrow> py_div x e = Inr (fdiv x e)" for x e
    by (cases e) (auto simp: py_div_def)
  have cost: "fsub fzero (execution_cost_usd b) = fneg (execution_cost_usd b)"
    by (simp add: fsub_def execution_cost_usd_def Let_def f64_fadd_any)
  show ?thesis
  proof (cases "sr_outcome r = Void")
    case True
    then show ?thesis by (simp add: compute_pnl_def compute_bet_pnl_def outcome_text_def Let_def cost)
  next
    case False
    then have t: "outcome_text (sr_outcome r) \<noteq> ''void''" "(outcome_text (sr_outcome r) = ''yes'') = (sr_outcome r = Yes)"
      by (cases "sr_outcome r"; simp add: outcome_text_def)+
    show ?thesis
      using False t by (cases "bet_side b"; cases mx)
        (auto simp: compute_pnl_def compute_bet_pnl_def effective_entry_price_def Let_def div)
  qed
qed

section \<open>The frozen twin\<close>

record baseline_point =
  bp_idx :: nat
  bp_market_id :: string
  bp_is_bet :: bool
  bp_side :: "string option"
  bp_size_usd :: pyfloat
  bp_pnl_usd :: pyfloat
  bp_cum_pnl :: pyfloat
  bp_weights :: weights

definition decision_engine_from_seed :: "strategy_config \<Rightarrow> pyfloat option \<Rightarrow> (nat \<Rightarrow> pyfloat) option \<Rightarrow> engine_config" where
  "decision_engine_from_seed seed price_floor rng =
     default_config\<lparr>max_breath_risk_pct := cfg_max_breath_risk_pct seed, min_bet_size_usd := cfg_min_bet_size_usd seed,
       min_confidence := cfg_min_confidence seed, min_edge := cfg_min_edge seed, kappa := cfg_kappa seed,
       kappa_xm := cfg_kappa_xm seed, entry_price_floor := price_floor,
       gate_storm_sensitivity := cfg_gate_storm_sensitivity seed, risk_storm_sensitivity := cfg_risk_storm_sensitivity seed,
       exploration_epsilon := cfg_exploration_epsilon seed, exploration_rng := rng\<rparr>"

record curve_rules =
  cr_bankroll :: pyfloat
  cr_breath :: pyfloat
  cr_max_pnl :: "pyfloat option"
  cr_side_correct :: bool
  cr_value_betting :: bool
  cr_price_floor :: "pyfloat option"

definition row_price :: "survival_row \<Rightarrow> pyfloat" where
  "row_price r = sg_entry_price (sv_signal r)"

definition static_args :: "curve_rules \<Rightarrow> weights \<Rightarrow> survival_row \<Rightarrow> (string, signal) dict \<Rightarrow> decide_args" where
  "static_args cr w r sigs =
     \<lparr>d_signals = sigs, d_alpha = (alpha w ! 0, alpha w ! 1, alpha w ! 2), d_beta = (beta w ! 0, beta w ! 1),
      d_w_r = w_r w, d_w_s = w_s w, d_rho = rho w, d_bankroll_usd = cr_bankroll cr, d_breath = cr_breath cr,
      d_liquidity_cap_usd = sv_liquidity_cap r, d_market_id = sv_market_id r, d_desperate = False,
      d_price = (if cr_value_betting cr then Some (row_price r) else None), d_storm = fzero,
      d_cross_market_signal = (if cr_value_betting cr then sg_cross_market_signal (sv_signal r) else fzero)\<rparr>"

definition floor_gate :: "bool \<Rightarrow> pyfloat option \<Rightarrow> pyfloat \<Rightarrow> action \<Rightarrow> action res" where
  "floor_gate nv price_floor yes_price a =
     (case (a_kind a, price_floor, a_side a) of
        (BET, Some f, Some sd) \<Rightarrow>
          let eff = effective_entry_price (side_text sd) yes_price
          in if flt eff f then mk_action nv (no_bet (EffectivePriceBelowFloor eff)) else Inr a
      | _ \<Rightarrow> Inr a)"

definition static_decision ::
  "bool \<Rightarrow> engine_config \<Rightarrow> curve_rules \<Rightarrow> weights \<Rightarrow> survival_row \<Rightarrow> engine_state \<Rightarrow> action res \<times> engine_state" where
  "static_decision nv en cr w r st =
     (case row_to_signals (sv_signal r) of
        Inl e \<Rightarrow> (Inl e, st)
      | Inr sigs \<Rightarrow>
          (case decide nv en (static_args cr w r sigs) st of
             (res, st') \<Rightarrow> (rbind res (floor_gate nv (cr_price_floor cr) (row_price r)), st')))"

definition static_point :: "curve_rules \<Rightarrow> weights \<Rightarrow> nat \<Rightarrow> pyfloat \<Rightarrow> survival_row \<Rightarrow> action \<Rightarrow> baseline_point res" where
  "static_point cr w i cum r a =
     (if a_kind a = BET
      then case (a_side a, a_size_usd a) of
        (Some sd, Some z) \<Rightarrow>
          let pnl = compute_bet_pnl (side_text sd) (row_price r) z (sv_outcome r) (sv_winning_price r) (cr_max_pnl cr) (cr_side_correct cr)
          in Inr \<lparr>bp_idx = i, bp_market_id = sv_market_id r, bp_is_bet = True, bp_side = Some (side_text sd),
                  bp_size_usd = z, bp_pnl_usd = pnl, bp_cum_pnl = fadd cum pnl, bp_weights = w\<rparr>
      | _ \<Rightarrow> Inl AssertionError
      else Inr \<lparr>bp_idx = i, bp_market_id = sv_market_id r, bp_is_bet = False, bp_side = None, bp_size_usd = fzero,
                bp_pnl_usd = fzero, bp_cum_pnl = cum, bp_weights = w\<rparr>)"

fun static_from ::
  "bool \<Rightarrow> engine_config \<Rightarrow> curve_rules \<Rightarrow> weights \<Rightarrow> nat \<Rightarrow> pyfloat \<Rightarrow> engine_state \<Rightarrow> survival_row list \<Rightarrow> baseline_point list res" where
  "static_from nv en cr w i cum st [] = Inr []"
| "static_from nv en cr w i cum st (r # rows) =
     (case static_decision nv en cr w r st of
        (Inl e, st') \<Rightarrow> Inl e
      | (Inr a, st') \<Rightarrow>
          rbind (static_point cr w i cum r a) (\<lambda>p.
          rbind (static_from nv en cr w (Suc i) (bp_cum_pnl p) st' rows) (\<lambda>ps. Inr (p # ps))))"

definition build_static_baseline_curve :: "bool \<Rightarrow> curve_rules \<Rightarrow> strategy_config \<Rightarrow> survival_row list \<Rightarrow> baseline_point list res" where
  "build_static_baseline_curve nv cr seed rows =
     (let en = decision_engine_from_seed seed (cr_price_floor cr) None in
      rbind (mk_engine en) (\<lambda>st. static_from nv en cr (cfg_weights seed) 0 fzero st rows))"

section \<open>The archetypes\<close>

definition ARCHETYPE_STAKE_USD :: pyfloat where "ARCHETYPE_STAKE_USD = Fin 5"

definition ARCHETYPE_PLACEHOLDER_WEIGHTS :: weights where
  "ARCHETYPE_PLACEHOLDER_WEIGHTS =
     \<lparr>w_r = Fin (1 / 2), w_s = Fin (1 / 2), alpha = replicate 3 (rnd (1 / 3)), beta = [Fin (1 / 2), Fin (1 / 2)], rho = fzero\<rparr>"

datatype archetype = RandomSide | AlwaysFavorite

text \<open>\<open>dice i\<close> is the draw of the seeded generator for row \<open>i\<close>; it is drawn whether or not the bet is skipped.\<close>

definition archetype_side :: "archetype \<Rightarrow> (nat \<Rightarrow> pyfloat) \<Rightarrow> nat \<Rightarrow> survival_row \<Rightarrow> string" where
  "archetype_side t dice i r =
     (case t of
        AlwaysFavorite \<Rightarrow> if fle (Fin (1 / 2)) (row_price r) then ''YES'' else ''NO''
      | RandomSide \<Rightarrow> if flt (dice i) (Fin (1 / 2)) then ''YES'' else ''NO'')"

definition archetype_point ::
  "archetype \<Rightarrow> (nat \<Rightarrow> pyfloat) \<Rightarrow> pyfloat \<Rightarrow> curve_rules \<Rightarrow> nat \<Rightarrow> pyfloat \<Rightarrow> survival_row \<Rightarrow> baseline_point" where
  "archetype_point t dice stake cr i cum r =
     (let sd = archetype_side t dice i r;
          skip = (case cr_price_floor cr of None \<Rightarrow> False | Some f \<Rightarrow> flt (effective_entry_price sd (row_price r)) f);
          pnl = compute_bet_pnl sd (row_price r) stake (sv_outcome r) (sv_winning_price r) (cr_max_pnl cr) (cr_side_correct cr)
      in if skip
         then \<lparr>bp_idx = i, bp_market_id = sv_market_id r, bp_is_bet = False, bp_side = Some sd, bp_size_usd = fzero,
               bp_pnl_usd = fzero, bp_cum_pnl = cum, bp_weights = ARCHETYPE_PLACEHOLDER_WEIGHTS\<rparr>
         else \<lparr>bp_idx = i, bp_market_id = sv_market_id r, bp_is_bet = True, bp_side = Some sd, bp_size_usd = stake,
               bp_pnl_usd = pnl, bp_cum_pnl = fadd cum pnl, bp_weights = ARCHETYPE_PLACEHOLDER_WEIGHTS\<rparr>)"

fun archetype_from ::
  "archetype \<Rightarrow> (nat \<Rightarrow> pyfloat) \<Rightarrow> pyfloat \<Rightarrow> curve_rules \<Rightarrow> nat \<Rightarrow> pyfloat \<Rightarrow> survival_row list \<Rightarrow> baseline_point list" where
  "archetype_from t dice stake cr i cum [] = []"
| "archetype_from t dice stake cr i cum (r # rows) =
     (let p = archetype_point t dice stake cr i cum r
      in p # archetype_from t dice stake cr (Suc i) (bp_cum_pnl p) rows)"

definition build_archetype_curve ::
  "archetype \<Rightarrow> (nat \<Rightarrow> pyfloat) \<Rightarrow> pyfloat \<Rightarrow> curve_rules \<Rightarrow> survival_row list \<Rightarrow> baseline_point list" where
  "build_archetype_curve t dice stake cr rows = archetype_from t dice stake cr 0 fzero rows"

section \<open>The twin decides like the loop\<close>

text \<open>What the season's tick source hands to the loop for a row.\<close>

definition inputs_of_row :: "survival_row \<Rightarrow> (string, signal) dict \<Rightarrow> tick_inputs" where
  "inputs_of_row r sigs =
     \<lparr>ti_market_id = sv_market_id r, ti_signals = sigs, ti_price = row_price r, ti_liquidity_cap_usd = sv_liquidity_cap r,
      ti_cross_market_signal = sg_cross_market_signal (sv_signal r), ti_fill_price = None, ti_fee_bps = None, ti_half_spread_frac = None\<rparr>"

text \<open>C37. The frozen twin runs the decision policy of the learner: a calm loop that holds the twin's weights, money and
  engine decides on the market of a row, price floor included, exactly what the twin decides on that row.\<close>

theorem twin_decides_like_the_loop:
  assumes "row_to_signals (sv_signal r) = Inr sigs" "missing_engines sigs = []"
    and "le_nv env = nv" "le_engine env = en" "lc_value_betting c = cr_value_betting cr" "lc_price_floor c = cr_price_floor cr"
    and "\<not> lc_storm_enabled c \<or> st_storm (lp_storm s) = fzero" "\<not> lp_desperate s"
    and "lp_weights s = w" "lp_bankroll_usd s = cr_bankroll cr" "lp_breath s = cr_breath cr"
  shows "fst (decide_step env c (Some (inputs_of_row r sigs)) s) = fst (static_decision nv en cr w r (lp_engine s)) \<and>
    lp_engine (snd (decide_step env c (Some (inputs_of_row r sigs)) s)) = snd (static_decision nv en cr w r (lp_engine s))"
proof -
  have a: "args_of c (inputs_of_row r sigs) s = static_args cr w r sigs"
    using assms by (auto simp: args_of_def static_args_def inputs_of_row_def)
  have f: "apply_price_floor env c (inputs_of_row r sigs) = floor_gate nv (cr_price_floor cr) (row_price r)"
    using assms by (intro ext) (auto simp: apply_price_floor_def floor_gate_def inputs_of_row_def effective_entry_price_def Let_def
        split: action_kind.split option.split)
  have m: "assert_signal_coverage (ti_signals (inputs_of_row r sigs)) = Inr ()"
    using assms(2) by (simp add: assert_signal_coverage_def inputs_of_row_def guard_res_def)
  obtain res st where d: "decide nv en (static_args cr w r sigs) (lp_engine s) = (res, st)" by (cases "decide nv en (static_args cr w r sigs) (lp_engine s)")
  show ?thesis
    using assms(1) a f m d assms(3,4)
    by (cases res) (simp_all add: decide_step_def static_decision_def sbind_def lift_res_def rbind_def split: sum.split)
qed

section \<open>Curves row by row\<close>

lemma decide_stateless:
  "exploration_rng c = None \<Longrightarrow> fst (decide nv c a st) = fst (decide nv c a st')"
  by (auto simp: decide_def Let_def act_on_def size_and_bet_def explore_or_def split_beta
      split: sum.split option.split direction.split)

lemma static_decision_stateless:
  assumes "exploration_rng en = None"
  shows "fst (static_decision nv en cr w r st) = fst (static_decision nv en cr w r st')"
  using decide_stateless [OF assms, of nv "static_args cr w r _" st st']
  by (auto simp: static_decision_def split_beta split: sum.split)

definition add_cum :: "pyfloat \<Rightarrow> baseline_point \<Rightarrow> pyfloat" where
  "add_cum c p = (if bp_is_bet p then fadd c (bp_pnl_usd p) else c)"

lemma static_point_place:
  assumes "static_point cr w i cum r a = Inr p"
  shows "\<exists>q. static_point cr w 0 fzero r a = Inr q \<and> p = q\<lparr>bp_idx := i, bp_cum_pnl := add_cum cum p\<rparr> \<and> bp_market_id p = sv_market_id r \<and> bp_weights p = w"
  using assms by (cases "a_side a"; cases "a_size_usd a") (auto simp: static_point_def add_cum_def Let_def split: if_splits)

lemma static_from_rows:
  assumes "exploration_rng en = None" "static_from nv en cr w i cum st rows = Inr ps"
  shows "length ps = length rows \<and> (\<forall>k < length rows. \<exists>q. static_from nv en cr w 0 fzero st0 [rows ! k] = Inr [q] \<and>
    ps ! k = q\<lparr>bp_idx := i + k, bp_cum_pnl := foldl add_cum cum (take (Suc k) ps)\<rparr> \<and>
    bp_market_id (ps ! k) = sv_market_id (rows ! k) \<and> bp_weights (ps ! k) = w)"
  using assms(2)
proof (induction rows arbitrary: i cum st ps)
  case (Cons r rows)
  obtain a st' where d: "static_decision nv en cr w r st = (Inr a, st')"
    using Cons.prems by (auto split: prod.splits sum.splits)
  then obtain p ps' where p: "static_point cr w i cum r a = Inr p" "static_from nv en cr w (Suc i) (bp_cum_pnl p) st' rows = Inr ps'" "ps = p # ps'"
    using Cons.prems by (auto simp: rbind_eq_Inr)
  obtain q where q: "static_point cr w 0 fzero r a = Inr q" "p = q\<lparr>bp_idx := i, bp_cum_pnl := add_cum cum p\<rparr>"
    "bp_market_id p = sv_market_id r" "bp_weights p = w"
    using static_point_place [OF p(1)] by blast
  have cum: "bp_cum_pnl p = add_cum cum p" using arg_cong [OF q(2), of bp_cum_pnl] by simp
  have "fst (static_decision nv en cr w r st0) = Inr a" using static_decision_stateless [OF assms(1), of nv cr w r st st0] d by simp
  then have one: "static_from nv en cr w 0 fzero st0 [r] = Inr [q]"
    using q(1) by (cases "static_decision nv en cr w r st0") simp
  note IH = Cons.IH [OF p(2)]
  show ?case
  proof (intro conjI allI impI)
    show "length ps = length (r # rows)" using IH p(3) by simp
    fix k assume k: "k < length (r # rows)"
    show "\<exists>q. static_from nv en cr w 0 fzero st0 [(r # rows) ! k] = Inr [q] \<and>
        ps ! k = q\<lparr>bp_idx := i + k, bp_cum_pnl := foldl add_cum cum (take (Suc k) ps)\<rparr> \<and>
        bp_market_id (ps ! k) = sv_market_id ((r # rows) ! k) \<and> bp_weights (ps ! k) = w"
    proof (cases k)
      case 0
      then show ?thesis using one q p(3) by auto
    next
      case (Suc j)
      then show ?thesis using IH k p(3) cum by auto
    qed
  qed
qed simp

text \<open>The static baseline is frozen: it has one point per row in the order of the rows, every point carries the seed's
  weights, what it stakes and wins on a row is what a curve over that row alone would, and the cumulative column is
  the running float sum of the profits of its bets.\<close>

theorem static_curve_is_rowwise:
  assumes "build_static_baseline_curve nv cr seed rows = Inr ps"
  shows "length ps = length rows \<and> (\<forall>k < length rows. \<exists>q. build_static_baseline_curve nv cr seed [rows ! k] = Inr [q] \<and>
    ps ! k = q\<lparr>bp_idx := k, bp_cum_pnl := foldl add_cum fzero (take (Suc k) ps)\<rparr> \<and>
    bp_market_id (ps ! k) = sv_market_id (rows ! k) \<and> bp_weights (ps ! k) = cfg_weights seed)"
proof -
  define en where "en = decision_engine_from_seed seed (cr_price_floor cr) None"
  have off: "exploration_rng en = None" by (simp add: en_def decision_engine_from_seed_def)
  have b: "build_static_baseline_curve nv cr seed rs = rbind (mk_engine en) (\<lambda>st. static_from nv en cr (cfg_weights seed) 0 fzero st rs)" for rs
    by (simp add: build_static_baseline_curve_def en_def Let_def)
  obtain st where st: "mk_engine en = Inr st" "static_from nv en cr (cfg_weights seed) 0 fzero st rows = Inr ps"
    using assms b by (auto simp: rbind_eq_Inr)
  show ?thesis using static_from_rows [OF off st(2), of st] st(1) by (simp add: b)
qed

lemma archetype_from_rows:
  "length (archetype_from t dice stake cr i cum rows) = length rows \<and>
   (\<forall>k < length rows. \<exists>c. archetype_from t dice stake cr i cum rows ! k = archetype_point t dice stake cr (i + k) c (rows ! k))"
proof (induction rows arbitrary: i cum)
  case (Cons r rows)
  define p where "p = archetype_point t dice stake cr i cum r"
  have f: "archetype_from t dice stake cr i cum (r # rows) = p # archetype_from t dice stake cr (Suc i) (bp_cum_pnl p) rows"
    by (simp add: p_def Let_def)
  have "\<exists>c. archetype_from t dice stake cr i cum (r # rows) ! k = archetype_point t dice stake cr (i + k) c ((r # rows) ! k)"
    if "k < length (r # rows)" for k
    using that Cons.IH [of "Suc i" "bp_cum_pnl p"] unfolding f by (cases k) (auto simp: p_def)
  then show ?case using Cons.IH [of "Suc i" "bp_cum_pnl p"] unfolding f by simp
qed simp

lemma favourite_never_floored:
  assumes "fle f (Fin (1 / 2))"
  shows "\<not> flt (effective_entry_price (archetype_side AlwaysFavorite dice i r) (row_price r)) f"
proof (cases "fle (Fin (1 / 2)) (row_price r)")
  case True
  then have "fle f (row_price r)" using assms fle_trans by blast
  then have "\<not> flt (row_price r) f" by (cases f; cases "row_price r") auto
  then show ?thesis using True by (simp add: archetype_side_def effective_entry_price_def)
next
  case False
  have h: "f64 (Fin (1 / 2))" by code_simp
  have "fsub fone (row_price r) = NaN \<or> fle (Fin (1 / 2)) (fsub fone (row_price r))"
    using False by (cases "row_price r") (auto simp: fsub_def intro!: rnd_ge_f64 [OF h])
  then have "fsub fone (row_price r) = NaN \<or> fle f (fsub fone (row_price r))" using assms fle_trans by blast
  then have "\<not> flt (fsub fone (row_price r)) f" by (cases f; cases "fsub fone (row_price r)") auto
  then show ?thesis using False by (simp add: archetype_side_def effective_entry_price_def)
qed

text \<open>The price floor only takes bets out of an archetype's curve: every point keeps its market and its side, a bet
  that stays has the stake and the profit it had, a bet taken out is below the floor and worth nothing; and the
  favourite loses none to a floor of at most one half.\<close>

theorem floor_only_skips:
  "length (build_archetype_curve t dice stake cr rows) = length rows \<and>
   (\<forall>k < length rows.
      let p = build_archetype_curve t dice stake cr rows ! k;
          q = build_archetype_curve t dice stake (cr\<lparr>cr_price_floor := None\<rparr>) rows ! k
      in bp_market_id p = sv_market_id (rows ! k) \<and> bp_side p = Some (archetype_side t dice k (rows ! k)) \<and> bp_side q = bp_side p \<and> bp_is_bet q \<and>
         (if bp_is_bet p then bp_size_usd p = stake \<and> bp_pnl_usd p = bp_pnl_usd q
          else bp_size_usd p = fzero \<and> bp_pnl_usd p = fzero \<and>
            (\<exists>f. cr_price_floor cr = Some f \<and> flt (effective_entry_price (archetype_side t dice k (rows ! k)) (row_price (rows ! k))) f)) \<and>
         (t = AlwaysFavorite \<and> (\<forall>f. cr_price_floor cr = Some f \<longrightarrow> fle f (Fin (1 / 2))) \<longrightarrow> bp_is_bet p))"
proof (intro conjI allI impI)
  show "length (build_archetype_curve t dice stake cr rows) = length rows"
    by (simp add: build_archetype_curve_def archetype_from_rows)
  fix k assume k: "k < length rows"
  obtain c where p: "build_archetype_curve t dice stake cr rows ! k = archetype_point t dice stake cr k c (rows ! k)"
    using archetype_from_rows [of t dice stake cr 0 fzero rows] k by (auto simp: build_archetype_curve_def)
  obtain d where q: "build_archetype_curve t dice stake (cr\<lparr>cr_price_floor := None\<rparr>) rows ! k =
      archetype_point t dice stake (cr\<lparr>cr_price_floor := None\<rparr>) k d (rows ! k)"
    using archetype_from_rows [of t dice stake "cr\<lparr>cr_price_floor := None\<rparr>" 0 fzero rows] k by (auto simp: build_archetype_curve_def)
  show "let p = build_archetype_curve t dice stake cr rows ! k; q = build_archetype_curve t dice stake (cr\<lparr>cr_price_floor := None\<rparr>) rows ! k
    in bp_market_id p = sv_market_id (rows ! k) \<and> bp_side p = Some (archetype_side t dice k (rows ! k)) \<and> bp_side q = bp_side p \<and> bp_is_bet q \<and>
       (if bp_is_bet p then bp_size_usd p = stake \<and> bp_pnl_usd p = bp_pnl_usd q
        else bp_size_usd p = fzero \<and> bp_pnl_usd p = fzero \<and>
          (\<exists>f. cr_price_floor cr = Some f \<and> flt (effective_entry_price (archetype_side t dice k (rows ! k)) (row_price (rows ! k))) f)) \<and>
       (t = AlwaysFavorite \<and> (\<forall>f. cr_price_floor cr = Some f \<longrightarrow> fle f (Fin (1 / 2))) \<longrightarrow> bp_is_bet p)"
    using favourite_never_floored [of _ dice k "rows ! k"] unfolding p q Let_def
    by (cases "cr_price_floor cr") (auto simp: archetype_point_def Let_def)
qed

end
