(* ===== verification/Recorder.thy ===== *)
theory Recorder
  imports Baselines Season Learner
begin

text \<open>
  What a survival season leaves for the dashboard (\<open>backtest/survival_season.py\<close>): the recorder that listens to
  settlements and to the hooks of the loop, and what it has counted after any season.
\<close>

section \<open>The recorder\<close>

record survival_step =
  ss_life_idx :: nat
  ss_market_id :: string
  ss_row :: "survival_row option"
  ss_entry_price :: pyfloat
  ss_outcome :: string
  ss_winning_price :: pyfloat
  ss_side :: string
  ss_size_usd :: pyfloat
  ss_pnl_usd :: pyfloat
  ss_scores :: "(string, pyfloat) dict"
  ss_weights_before :: weights
  ss_weights_after :: weights
  ss_breath_after :: pyfloat
  ss_bankroll_after :: pyfloat
  ss_cum_pnl :: pyfloat
  ss_win_rate :: pyfloat
  ss_reflection :: "string option"
  ss_stamps :: "(string \<times> pyfloat option) list"

record death_record =
  dr_life_idx :: nat
  dr_last_tick :: int
  dr_receipt :: death_receipt
  dr_bankroll_usd :: pyfloat
  dr_weights_hash :: string
  dr_last_words :: string

record recorder =
  rec_rows :: "(string, survival_row) dict"
  rec_steps :: "survival_step list"
  rec_deaths :: "death_record list"
  rec_placed :: "row list"
  rec_tributes :: "(loop_hook \<times> nat \<times> pyfloat) list"
  rec_tithes :: "(loop_hook \<times> nat) list"
  rec_applied :: nat
  rec_apply_failed :: nat
  rec_life :: nat
  rec_wins :: nat
  rec_cum_pnl :: pyfloat
  rec_pending :: "string option"

definition mk_recorder :: "survival_row list \<Rightarrow> recorder" where
  "mk_recorder rows =
     \<lparr>rec_rows = fold_dict (map (\<lambda>r. (sv_market_id r, r)) rows), rec_steps = [], rec_deaths = [], rec_placed = [], rec_tributes = [],
      rec_tithes = [], rec_applied = 0, rec_apply_failed = 0, rec_life = 0, rec_wins = 0, rec_cum_pnl = fzero, rec_pending = None\<rparr>"

definition begin_life :: "nat \<Rightarrow> recorder \<Rightarrow> recorder" where
  "begin_life i rc = rc\<lparr>rec_life := i\<rparr>"

text \<open>After a life, before its directory goes: every bet it placed, settled or not.\<close>

definition harvest_placed :: "json option list \<Rightarrow> recorder \<Rightarrow> recorder" where
  "harvest_placed ls rc = rc\<lparr>rec_placed := rec_placed rc @ iter_jsonl ls\<rparr>"

definition recorded_scores :: "(string, pyfloat) dict \<Rightarrow> (string, pyfloat) dict" where
  "recorded_scores sig = fold_dict (List.map_filter (\<lambda>(k, v).
     if take (length SCORE_PREFIX) k = SCORE_PREFIX then Some (drop (length SCORE_PREFIX) k, v) else None) sig)"

text \<open>\<open>wins / n\<close> of two integers is one rounding.\<close>

definition on_settlement ::
  "(string, pyfloat) dict \<Rightarrow> settlement_result \<Rightarrow> weights \<Rightarrow> weights \<Rightarrow> pyfloat \<Rightarrow> pyfloat \<Rightarrow> recorder \<Rightarrow> recorder" where
  "on_settlement sig r before after breath bank rc =
     (let row = dget (rec_rows rc) (sr_market_id r);
          pnl = dget_default sig ''pnl_usd'' fzero;
          cum = fadd (rec_cum_pnl rc) pnl;
          wins = (if flt fzero pnl then Suc (rec_wins rc) else rec_wins rc);
          n = length (rec_steps rc) + 1;
          step = \<lparr>ss_life_idx = rec_life rc, ss_market_id = sr_market_id r, ss_row = row,
            ss_entry_price = (case row of Some x \<Rightarrow> row_price x | None \<Rightarrow> fzero),
            ss_outcome = (case row of Some x \<Rightarrow> sv_outcome x | None \<Rightarrow> []),
            ss_winning_price = (case row of Some x \<Rightarrow> sv_winning_price x | None \<Rightarrow> fzero),
            ss_side = (if fle fzero (dget_default sig ''bet_direction'' fone) then ''YES'' else ''NO''),
            ss_size_usd = dget_default sig ''size_usd'' fzero, ss_pnl_usd = pnl, ss_scores = recorded_scores sig,
            ss_weights_before = before, ss_weights_after = after, ss_breath_after = breath, ss_bankroll_after = bank,
            ss_cum_pnl = cum, ss_win_rate = rnd (of_nat wins / of_nat n), ss_reflection = rec_pending rc,
            ss_stamps = map (\<lambda>k. (k, dget sig k)) STORM_STAMP_KEYS\<rparr>
      in rc\<lparr>rec_cum_pnl := cum, rec_wins := wins, rec_pending := None, rec_steps := rec_steps rc @ [step]\<rparr>)"

fun decimal :: "nat \<Rightarrow> string" where
  "decimal n = (if n < 10 then [char_of (48 + n)] else decimal (n div 10) @ [char_of (48 + n mod 10)])"

declare decimal.simps [simp del]

definition trigger_text :: "reflection_trigger \<Rightarrow> string" where
  "trigger_text t = (case t of TickInterval \<Rightarrow> ''tick_interval'' | WeightDeltaTrigger \<Rightarrow> ''weight_delta'')"

definition on_reflection :: "string \<Rightarrow> reflection_trigger \<Rightarrow> recorder \<Rightarrow> recorder" where
  "on_reflection i t rc = rc\<lparr>rec_pending := Some (''reflected ('' @ trigger_text t @ '')'' @ (if i = [] then [] else '' #'' @ i))\<rparr>"

definition on_advisor_fired :: "nat \<Rightarrow> recorder \<Rightarrow> recorder" where
  "on_advisor_fired n rc =
     (if n = 0 then rc
      else rc\<lparr>rec_pending := Some ((case rec_pending rc of None \<Rightarrow> [] | Some p \<Rightarrow> p @ '' -> '') @ ''proposed '' @ decimal n @
             (if n = 1 then '' proposal'' else '' proposals'') @ '' (pending approval)'')\<rparr>)"

definition recorder_emit :: "loop_hook \<Rightarrow> recorder \<Rightarrow> recorder" where
  "recorder_emit h rc =
     (case h of
        AgentDied last_tick receipt bank hsh words \<Rightarrow>
          rc\<lparr>rec_deaths := rec_deaths rc @ [\<lparr>dr_life_idx = rec_life rc, dr_last_tick = last_tick, dr_receipt = receipt,
            dr_bankroll_usd = bank, dr_weights_hash = hsh, dr_last_words = words\<rparr>]\<rparr>
      | ReflectionEmitted i t t1 cost window \<Rightarrow> on_reflection i t rc
      | AdvisorFired t t1 n pending \<Rightarrow> on_advisor_fired n rc
      | DeltaHook (WeightDeltaApplied t1 k x d) \<Rightarrow> rc\<lparr>rec_applied := Suc (rec_applied rc)\<rparr>
      | DeltaHook (WeightDeltaApplyFailed t1 d) \<Rightarrow> rc\<lparr>rec_apply_failed := Suc (rec_apply_failed rc)\<rparr>
      | TributeHook t x g b m y \<Rightarrow> rc\<lparr>rec_tributes := rec_tributes rc @ [(h, rec_life rc, rec_cum_pnl rc)]\<rparr>
      | TitheHook t x b m y \<Rightarrow> rc\<lparr>rec_tithes := rec_tithes rc @ [(h, rec_life rc)]\<rparr>
      | _ \<Rightarrow> rc)"

text \<open>The wrapped settlement channel: the weights before, the learning step, the weights after; an exception of the
  learner leaves no step.\<close>

definition recording_update ::
  "libm \<Rightarrow> bool \<Rightarrow> string \<Rightarrow> (string, pyfloat) dict \<Rightarrow> settlement_result \<Rightarrow> pyfloat \<Rightarrow> pyfloat \<Rightarrow> learner \<times> recorder \<Rightarrow>
   unit res \<times> learner \<times> recorder" where
  "recording_update m nv label sig r breath bank st =
     (case st of (s, rc) \<Rightarrow>
        (case learn m nv label sig s of
           (Inl e, s') \<Rightarrow> (Inl e, s', rc)
         | (Inr u, s') \<Rightarrow> (Inr u, s', on_settlement sig r (lr_weights s) (lr_weights s') breath bank rc)))"

text \<open>The loss multiplier of the wrapped chain.\<close>

definition amplified :: "pyfloat \<Rightarrow> pyfloat \<Rightarrow> pyfloat" where
  "amplified lm pnl = (if flt pnl fzero \<and> \<not> feq lm fone then fmul pnl lm else pnl)"

definition recorded_pay :: "pyfloat \<Rightarrow> (pyfloat \<Rightarrow> 'c \<Rightarrow> exc option \<times> 'c) \<Rightarrow> pyfloat \<Rightarrow> 'c \<Rightarrow> exc option \<times> 'c" where
  "recorded_pay lm pay pnl c = pay (amplified lm pnl) c"

section \<open>What the recorder has after a season\<close>

datatype rec_event =
    Lives nat
  | Harvested "json option list"
  | SettledBet "(string, pyfloat) dict" settlement_result weights weights pyfloat pyfloat
  | Hooked loop_hook

definition rec_step :: "rec_event \<Rightarrow> recorder \<Rightarrow> recorder" where
  "rec_step e rc =
     (case e of
        Lives i \<Rightarrow> begin_life i rc
      | Harvested ls \<Rightarrow> harvest_placed ls rc
      | SettledBet sig r before after breath bank \<Rightarrow> on_settlement sig r before after breath bank rc
      | Hooked h \<Rightarrow> recorder_emit h rc)"

definition rec_run :: "rec_event list \<Rightarrow> recorder \<Rightarrow> recorder" where
  "rec_run es rc = fold rec_step es rc"

definition settled_pnls :: "rec_event list \<Rightarrow> pyfloat list" where
  "settled_pnls es = List.map_filter (\<lambda>e. case e of SettledBet sig r a b c d \<Rightarrow> Some (dget_default sig ''pnl_usd'' fzero) | _ \<Rightarrow> None) es"

definition wins_of :: "pyfloat list \<Rightarrow> nat" where
  "wins_of ps = length (filter (flt fzero) ps)"

definition is_death :: "rec_event \<Rightarrow> bool" where
  "is_death e = (case e of Hooked (AgentDied t r b h w) \<Rightarrow> True | _ \<Rightarrow> False)"

definition deaths_in :: "rec_event list \<Rightarrow> nat" where
  "deaths_in es = length (filter is_death es)"

lemma rec_run_simps [simp]: "rec_run [] rc = rc" "rec_run (es @ [e]) rc = rec_step e (rec_run es rc)" "rec_run (e # es) rc = rec_run es (rec_step e rc)"
  by (simp_all add: rec_run_def)

lemma settled_pnls_snoc [simp]:
  "settled_pnls (es @ [Lives i]) = settled_pnls es" "settled_pnls (es @ [Harvested ls]) = settled_pnls es" "settled_pnls (es @ [Hooked h]) = settled_pnls es"
  "settled_pnls (es @ [SettledBet sig r a b c d]) = settled_pnls es @ [dget_default sig ''pnl_usd'' fzero]"
  by (simp_all add: settled_pnls_def List.map_filter_def)

lemma hook_frame:
  "rec_steps (recorder_emit h rc) = rec_steps rc" "rec_cum_pnl (recorder_emit h rc) = rec_cum_pnl rc"
  "rec_wins (recorder_emit h rc) = rec_wins rc" "rec_life (recorder_emit h rc) = rec_life rc"
  by (auto simp: recorder_emit_def on_reflection_def on_advisor_fired_def split: loop_hook.split delta_hook.split)

lemma deaths_emit:
  "length (rec_deaths (recorder_emit h rc)) = length (rec_deaths rc) + (case h of AgentDied t r b x w \<Rightarrow> 1 | _ \<Rightarrow> 0)"
  by (auto simp: recorder_emit_def on_reflection_def on_advisor_fired_def split: loop_hook.split delta_hook.split)

definition step_ok :: "pyfloat list \<Rightarrow> nat \<Rightarrow> survival_step \<Rightarrow> bool" where
  "step_ok ps i s =
     (ss_pnl_usd s = ps ! i \<and> ss_cum_pnl s = fsum (take (Suc i) ps) \<and>
      ss_win_rate s = rnd (of_nat (wins_of (take (Suc i) ps)) / of_nat (Suc i)))"

definition accounts :: "pyfloat list \<Rightarrow> nat \<Rightarrow> recorder \<Rightarrow> bool" where
  "accounts ps n rc =
     (length (rec_steps rc) = length ps \<and> rec_cum_pnl rc = fsum ps \<and> rec_wins rc = wins_of ps \<and> length (rec_deaths rc) = n \<and>
      (\<forall>i < length ps. step_ok ps i (rec_steps rc ! i)))"

lemma on_settlement_step:
  obtains s where "rec_steps (on_settlement sig r a b c d rc) = rec_steps rc @ [s]"
    "ss_pnl_usd s = dget_default sig ''pnl_usd'' fzero" "ss_cum_pnl s = rec_cum_pnl (on_settlement sig r a b c d rc)"
    "ss_win_rate s = rnd (of_nat (rec_wins (on_settlement sig r a b c d rc)) / of_nat (Suc (length (rec_steps rc))))"
    "ss_reflection s = rec_pending rc"
  by (rule that [of "last (rec_steps (on_settlement sig r a b c d rc))"]) (simp_all add: on_settlement_def Let_def)

lemma on_settlement_frame:
  "rec_cum_pnl (on_settlement sig r a b c d rc) = fadd (rec_cum_pnl rc) (dget_default sig ''pnl_usd'' fzero)"
  "rec_wins (on_settlement sig r a b c d rc) = (if flt fzero (dget_default sig ''pnl_usd'' fzero) then Suc (rec_wins rc) else rec_wins rc)"
  "rec_deaths (on_settlement sig r a b c d rc) = rec_deaths rc" "rec_pending (on_settlement sig r a b c d rc) = None"
  by (simp_all add: on_settlement_def Let_def)

lemma accounts_settle:
  assumes "accounts ps n rc"
  shows "accounts (ps @ [dget_default sig ''pnl_usd'' fzero]) n (on_settlement sig r a b c d rc)"
proof -
  define p where "p = dget_default sig ''pnl_usd'' fzero"
  define rc' where "rc' = on_settlement sig r a b c d rc"
  obtain s where s: "rec_steps rc' = rec_steps rc @ [s]" "ss_pnl_usd s = p" "ss_cum_pnl s = rec_cum_pnl rc'"
    "ss_win_rate s = rnd (of_nat (rec_wins rc') / of_nat (Suc (length (rec_steps rc))))"
    using on_settlement_step [of sig r a b c d rc] unfolding p_def rc'_def by blast
  have l: "length (rec_steps rc) = length ps" using assms by (simp add: accounts_def)
  have c: "rec_cum_pnl rc' = fsum (ps @ [p])" "rec_wins rc' = wins_of (ps @ [p])" "length (rec_deaths rc') = n"
    using assms by (simp_all add: rc'_def p_def on_settlement_frame accounts_def fsum_snoc wins_of_def)
  have "step_ok (ps @ [p]) (length ps) s" using s c l by (simp add: step_ok_def)
  moreover have "step_ok (ps @ [p]) i (rec_steps rc ! i)" if "i < length ps" for i
    using assms that by (simp add: accounts_def step_ok_def nth_append)
  ultimately have "\<forall>i < length (ps @ [p]). step_ok (ps @ [p]) i (rec_steps rc' ! i)"
    using s(1) l by (auto simp: nth_append less_Suc_eq)
  then show ?thesis using s(1) l c by (simp add: accounts_def flip: p_def rc'_def)
qed

lemma accounts_hook: "accounts ps n rc \<Longrightarrow> accounts ps (n + length (filter is_death [Hooked h])) (recorder_emit h rc)"
  by (cases h) (simp_all add: accounts_def hook_frame deaths_emit is_death_def)

lemma rec_run_accounts: "accounts (settled_pnls es) (deaths_in es) (rec_run es (mk_recorder rows))"
proof (induction es rule: rev_induct)
  case Nil
  then show ?case
    by (simp add: accounts_def mk_recorder_def settled_pnls_def List.map_filter_def fsum_def wins_of_def deaths_in_def)
next
  case (snoc e es)
  show ?case
  proof (cases e)
    case (Lives i)
    then show ?thesis using snoc by (simp add: rec_step_def begin_life_def deaths_in_def is_death_def accounts_def)
  next
    case (Harvested ls)
    then show ?thesis using snoc by (simp add: rec_step_def harvest_placed_def deaths_in_def is_death_def accounts_def)
  next
    case (Hooked h)
    then show ?thesis using accounts_hook [OF snoc, of h] by (simp add: rec_step_def deaths_in_def)
  next
    case (SettledBet sig r a b c d)
    then show ?thesis using accounts_settle [OF snoc, of sig r a b c d] by (simp add: rec_step_def deaths_in_def is_death_def)
  qed
qed

text \<open>Between two settlements the pending note depends on the hooks in between only.\<close>

lemma pending_hook: "rec_pending rc = rec_pending rc' \<Longrightarrow> rec_pending (recorder_emit h rc) = rec_pending (recorder_emit h rc')"
  by (cases h) (simp_all add: recorder_emit_def on_reflection_def on_advisor_fired_def split: delta_hook.split)

lemma pending_local:
  "rec_pending rc = rec_pending rc' \<Longrightarrow> settled_pnls es = [] \<Longrightarrow> rec_pending (rec_run es rc) = rec_pending (rec_run es rc')"
proof (induction es rule: rev_induct)
  case (snoc e es)
  have p: "rec_pending (rec_run es rc) = rec_pending (rec_run es rc')" if "settled_pnls es = []"
    using snoc that by blast
  then show ?case using snoc.prems(2) pending_hook [OF p]
    by (cases e) (simp_all add: rec_step_def begin_life_def harvest_placed_def)
qed simp

lemma note_of_next_settlement:
  assumes "settled_pnls es' = []"
  shows "ss_reflection (last (rec_steps (rec_run (es @ SettledBet sig r a b c d # es' @ [SettledBet sig' r' a' b' c' d']) (mk_recorder rows)))) =
    rec_pending (rec_run es' (mk_recorder rows))"
proof -
  define rc where "rc = rec_step (SettledBet sig r a b c d) (rec_run es (mk_recorder rows))"
  have e: "rec_run (es @ SettledBet sig r a b c d # es' @ [SettledBet sig' r' a' b' c' d']) (mk_recorder rows) =
      on_settlement sig' r' a' b' c' d' (rec_run es' rc)"
    by (simp add: rec_run_def rc_def) (simp add: rec_step_def)
  have "rec_pending rc = rec_pending (mk_recorder rows)"
    by (simp add: rc_def rec_step_def on_settlement_frame mk_recorder_def)
  note pending_local [OF this assms]
  moreover obtain s where "rec_steps (on_settlement sig' r' a' b' c' d' (rec_run es' rc)) = rec_steps (rec_run es' rc) @ [s]"
    "ss_reflection s = rec_pending (rec_run es' rc)"
    by (rule on_settlement_step)
  ultimately show ?thesis unfolding e by simp
qed

text \<open>C32. After any interleaving of lives, hooks and settlements the recorder has exactly one step per settlement, in order,
  whose cumulative profit is the float sum of the profits so far and whose win rate is the rounded share of the
  positive ones, over all lives; one death record per death; and a step carries the note of the reflections and
  proposals since the settlement before it, and no others.\<close>

theorem recorder_accounts:
  "let rc = rec_run es (mk_recorder rows); ps = settled_pnls es in
     length (rec_steps rc) = length ps \<and> (\<forall>i < length ps. step_ok ps i (rec_steps rc ! i)) \<and>
     length (rec_deaths rc) = deaths_in es \<and>
     (\<forall>es1 sig r a b c d es2 sig' r' a' b' c' d'.
        es = es1 @ SettledBet sig r a b c d # es2 @ [SettledBet sig' r' a' b' c' d'] \<and> settled_pnls es2 = [] \<longrightarrow>
        ss_reflection (last (rec_steps rc)) = rec_pending (rec_run es2 (mk_recorder rows)))"
proof -
  have "accounts (settled_pnls es) (deaths_in es) (rec_run es (mk_recorder rows))" by (rule rec_run_accounts)
  then show ?thesis using note_of_next_settlement unfolding Let_def accounts_def by blast
qed


text \<open>Two reflections of one life, the second with a proposal: only the note after the first settlement is attached.\<close>

definition demo_season_events :: "rec_event list" where
  "demo_season_events =
     (let s = SettledBet [(''pnl_usd'', Fin 2), (''size_usd'', Fin 5), (''bet_direction'', Fin (- 1))]
        \<lparr>sr_market_id = ''a'', sr_resolved = True, sr_outcome = No, sr_winning_price = fone, sr_resolution_ts = 0, sr_end_date = 0\<rparr>
        demo_weights demo_weights fone fone
      in [Lives 0, Hooked (ReflectionEmitted ''r1'' TickInterval 1 fzero fzero)] @ s #
         [Hooked (ReflectionEmitted [] WeightDeltaTrigger 2 fzero fzero), Hooked (AdvisorFired AdvisorTickInterval 2 12 12)] @ [s])"

theorem recorder_accounts_witness:
  "let rc = rec_run demo_season_events (mk_recorder demo_rows) in
     length (rec_steps rc) = 2 \<and> rec_deaths rc = [] \<and>
     ss_reflection (last (rec_steps rc)) = Some ''reflected (weight_delta) -> proposed 12 proposals (pending approval)''"
proof -
  define s where "s = SettledBet [(''pnl_usd'', Fin 2), (''size_usd'', Fin 5), (''bet_direction'', Fin (- 1))]
    \<lparr>sr_market_id = ''a'', sr_resolved = True, sr_outcome = No, sr_winning_price = fone, sr_resolution_ts = 0, sr_end_date = 0\<rparr>
    demo_weights demo_weights fone fone"
  define hs where "hs = [Hooked (ReflectionEmitted [] WeightDeltaTrigger 2 fzero fzero), Hooked (AdvisorFired AdvisorTickInterval 2 12 12)]"
  have e: "demo_season_events = [Lives 0, Hooked (ReflectionEmitted ''r1'' TickInterval 1 fzero fzero)] @ s # hs @ [s]"
    by (simp add: demo_season_events_def s_def hs_def Let_def)
  have p: "settled_pnls demo_season_events = [Fin 2, Fin 2]" "deaths_in demo_season_events = 0" by code_simp+
  have h: "settled_pnls hs = []" unfolding hs_def by code_simp
  have n: "rec_pending (rec_run hs (mk_recorder [])) = Some ''reflected (weight_delta) -> proposed 12 proposals (pending approval)''"
    unfolding hs_def by code_simp
  have "rec_pending (rec_run hs (mk_recorder demo_rows)) = rec_pending (rec_run hs (mk_recorder []))"
    by (rule pending_local [OF _ h]) (simp add: mk_recorder_def)
  then have n': "rec_pending (rec_run hs (mk_recorder demo_rows)) = Some ''reflected (weight_delta) -> proposed 12 proposals (pending approval)''"
    using n by simp
  note acc = recorder_accounts [of demo_season_events demo_rows, unfolded Let_def]
  have "ss_reflection (last (rec_steps (rec_run demo_season_events (mk_recorder demo_rows)))) = rec_pending (rec_run hs (mk_recorder demo_rows))"
    using acc e h unfolding s_def by blast
  then show ?thesis using acc p n' unfolding Let_def by simp
qed

end
