(* ===== verification/Journey.thy ===== *)
theory Journey
  imports Baselines Season Recorder
begin

text \<open>
  The journey a survival season leaves for the dashboard (\<open>backtest/survival_season.py\<close>): the down-sampled chart
  series, the lives, the three comparators, the summary, and the physics checks it has to pass to be built.
\<close>

section \<open>Down-sampling\<close>

definition item_at :: "'a list \<Rightarrow> int \<Rightarrow> 'a res" where
  "item_at xs i =
     (let j = (if i < 0 then i + int (length xs) else i) in
      if 0 \<le> j \<and> j < int (length xs) then Inr (xs ! nat j) else Inl IndexError)"

definition sample_index :: "pyfloat \<Rightarrow> nat \<Rightarrow> int res" where
  "sample_index stride i = rbind (float_of_int (int i)) (\<lambda>x. py_round (fmul x stride))"

definition downsample :: "'a list \<Rightarrow> int \<Rightarrow> 'a list res" where
  "downsample items max_n =
     (let n = int (length items) in
      if max_n \<le> 0 \<or> n \<le> max_n then Inr items
      else if max_n = 1 then Inr [last items]
      else rbind (rmap (sample_index (rnd (of_int (n - 1) / of_int (max_n - 1)))) [0..<nat max_n]) (\<lambda>idxs.
           rmap (item_at items) (sorted_list_of_set (set idxs))))"

lemma rmap_cong_Inr: "(\<And>x. x \<in> set xs \<Longrightarrow> f x = Inr (g x)) \<Longrightarrow> rmap f xs = Inr (map g xs)"
  by (induction xs) simp_all

text \<open>\<open>k\<close> gaps over \<open>N > k\<close> positions: the exact stride is over one, and every rounded position is close to the exact one.\<close>

lemma stride_bounds:
  fixes k N :: rat
  assumes "1 \<le> k" "k \<le> 2 ^ 24" "k + 1 \<le> N" "N \<le> 2 ^ 24"
  shows "1 + 1 / 2 ^ 24 \<le> N / k" "N / k \<le> 2 ^ 24" "1 \<le> N / k"
proof -
  have "(k + 1) / k \<le> N / k" using assms by (intro divide_right_mono) auto
  then have "1 + 1 / k \<le> N / k" using assms by (simp add: add_divide_distrib)
  moreover have "1 / 2 ^ 24 \<le> 1 / k" using assms by (intro divide_left_mono) auto
  ultimately show l: "1 + 1 / 2 ^ 24 \<le> N / k" by linarith
  have "(1 :: rat) \<le> 1 + 1 / 2 ^ 24" by simp
  then show "1 \<le> N / k" using l by (rule order_trans)
  have "N / k \<le> N / 1" using assms by (intro divide_left_mono) auto
  then show "N / k \<le> 2 ^ 24" using assms by simp
qed

lemma rr_near: "1 \<le> q \<Longrightarrow> \<bar>rr q - q\<bar> \<le> q / 2 ^ 53"
  using rr_relative_error [of q] p2_mono [of "- 1022" 0] by (simp add: p2_powi power_int_minus field_simps)

lemma stride_close:
  fixes k N i :: rat
  assumes "1 \<le> k" "k \<le> 2 ^ 24" "k + 1 \<le> N" "N \<le> 2 ^ 24" "i = 0 \<or> 1 \<le> i" "i \<le> k"
  shows "\<bar>rr (i * rr (N / k)) - i * (N / k)\<bar> \<le> 1 / 2 ^ 27"
proof (cases "i = 0")
  case False
  define s where "s = N / k"
  have s: "1 \<le> s" "s \<le> 2 ^ 24" using stride_bounds [OF assms(1-4)] by (simp_all add: s_def)
  have i: "1 \<le> i" "i * s \<le> N" using False assms s by (auto simp: s_def pos_divide_le_eq mult.commute intro: mult_right_mono)
  define e where "e = i * rr s - i * s"
  have "\<bar>i * rr s - i * s\<bar> = i * \<bar>rr s - s\<bar>" using i by (simp add: abs_mult flip: right_diff_distrib)
  also have "\<dots> \<le> i * (s / 2 ^ 53)" using i rr_near [OF s(1)] by (intro mult_left_mono) auto
  also have "\<dots> \<le> 2 ^ 24 / 2 ^ 53" using i assms(4) by (simp add: divide_right_mono)
  finally have a: "\<bar>e\<bar> \<le> 1 / 2 ^ 29" by (simp add: e_def)
  have "1 \<le> rr s" using rr_mono [OF s(1)] by simp
  then have "1 * 1 \<le> i * rr s" using i by (intro mult_mono) auto
  then have "\<bar>rr (i * rr s) - i * rr s\<bar> \<le> (i * rr s) / 2 ^ 53" using rr_near by simp
  also have "\<dots> \<le> 2 ^ 25 / 2 ^ 53"
  proof (intro divide_right_mono)
    have "e \<le> 1" using order_trans [OF abs_ge_self a] by (rule order_trans) simp
    then show "i * rr s \<le> 2 ^ 25" using i assms(4) by (simp add: e_def)
  qed simp
  finally have "\<bar>rr (i * rr s) - i * rr s\<bar> \<le> 1 / 2 ^ 28" by simp
  moreover have "1 / 2 ^ 28 + 1 / 2 ^ 29 \<le> (1 :: rat) / 2 ^ 27" by simp
  ultimately show ?thesis using a unfolding e_def s_def abs_le_iff by linarith
qed simp

definition sample_position :: "nat \<Rightarrow> nat \<Rightarrow> nat \<Rightarrow> int" where
  "sample_position n m i = rhe (rr (of_nat i * rr (of_nat (n - 1) / of_nat (m - 1))))"

lemma sample_position_spec:
  assumes "1 < m" "m < n" "n \<le> 2 ^ 24"
  shows "i < m \<Longrightarrow> 0 \<le> sample_position n m i \<and> sample_position n m i \<le> int (n - 1)"
    and "Suc i < m \<Longrightarrow> sample_position n m i < sample_position n m (Suc i)"
    and "sample_position n m 0 = 0" and "sample_position n m (m - 1) = int (n - 1)"
proof -
  define k N where "k = (of_nat (m - 1) :: rat)" and "N = (of_nat (n - 1) :: rat)"
  have kN: "1 \<le> k" "k \<le> 2 ^ 24" "k + 1 \<le> N" "N \<le> 2 ^ 24"
    using assms unfolding k_def N_def by (auto simp flip: of_nat_Suc)
  have close: "\<bar>rr (of_nat j * rr (N / k)) - of_nat j * (N / k)\<bar> \<le> 1 / 2 ^ 27" if "j < m" for j
    using that kN by (intro stride_close) (auto simp: k_def)
  have inc: "sample_position n m j < sample_position n m (Suc j)" if j: "Suc j < m" for j
  proof (rule ccontr)
    let ?x = "rr (of_nat j * rr (N / k))" and ?y = "rr (of_nat (Suc j) * rr (N / k))"
    assume "\<not> sample_position n m j < sample_position n m (Suc j)"
    then have "rhe ?y \<le> rhe ?x" by (simp add: sample_position_def k_def N_def del: of_nat_Suc)
    then have "(of_int (rhe ?y) :: rat) \<le> of_int (rhe ?x)" by simp
    then have d: "?y - ?x \<le> 1" using rhe_bounds [of ?y] rhe_bounds [of ?x] by linarith
    define a b c where "a = of_nat (Suc j) * (N / k)" and "b = of_nat j * (N / k)" and "c = (1 / 2 ^ 27 :: rat)"
    have "a - b = N / k" by (simp add: a_def b_def algebra_simps)
    moreover have "c + c < (1 :: rat) / 2 ^ 24" by (simp add: c_def)
    moreover have "\<bar>?y - a\<bar> \<le> c" "\<bar>?x - b\<bar> \<le> c"
      using close [OF j] close [OF Suc_lessD [OF j]] by (simp_all only: a_def b_def c_def)
    ultimately show False using stride_bounds(1) [OF kN] d unfolding abs_le_iff by linarith
  qed
  show "Suc i < m \<Longrightarrow> sample_position n m i < sample_position n m (Suc i)" by (rule inc)
  show z: "sample_position n m 0 = 0" by (simp add: sample_position_def rhe_def)
  have "\<bar>rr (of_nat (m - 1) * rr (N / k)) - of_int (int (n - 1))\<bar> < 1 / 2"
    using close [of "m - 1"] assms kN by (simp add: k_def N_def)
  then show l: "sample_position n m (m - 1) = int (n - 1)" unfolding sample_position_def k_def N_def by (rule rhe_near)
  have mono: "sample_position n m i \<le> sample_position n m j" if "i \<le> j" "j < m" for i j
    using that
  proof (induction j rule: dec_induct)
    case (step j)
    then show ?case using inc [of j] by linarith
  qed simp
  show "i < m \<Longrightarrow> 0 \<le> sample_position n m i \<and> sample_position n m i \<le> int (n - 1)"
    using mono [of 0 i] mono [of i "m - 1"] z l by simp
qed

lemma sample_index_value:
  assumes "1 < m" "m < n" "n \<le> 2 ^ 24" "i < m"
  shows "sample_index (rnd (of_int (int n - 1) / of_int (int m - 1))) i = Inr (sample_position n m i)"
proof -
  define s where "s = (of_nat (n - 1) / of_nat (m - 1) :: rat)"
  have k: "(1 :: rat) \<le> of_nat (m - 1)" "(of_nat (m - 1) :: rat) \<le> 2 ^ 24" "(of_nat (m - 1) :: rat) + 1 \<le> of_nat (n - 1)" "(of_nat (n - 1) :: rat) \<le> 2 ^ 24"
    using assms by (auto simp flip: of_nat_Suc)
  note b = stride_bounds [OF k, folded s_def]
  have fin: "rnd q = Fin (rr q)" if "0 \<le> q" "q \<le> 2 ^ 52" for q
    using that rr_moderate [of q] by (intro rnd_in_range) simp
  have e: "of_int (int n - 1) / of_int (int m - 1) = s" using assms by (simp add: s_def of_nat_diff)
  have i: "(of_nat i :: rat) \<le> 2 ^ 24" "int i \<le> 2 ^ 53" using assms by (auto simp: of_nat_le_numeral_power_cancel_iff)
  have "rr s \<le> rr (2 ^ 24)" using b by (intro rr_mono)
  then have r: "rr s \<le> 2 ^ 24" using rr_of_int [of "2 ^ 24"] by simp
  have "0 \<le> rr s" using b(3) by (intro rr_nonneg) linarith
  moreover have "of_nat i * rr s \<le> 2 ^ 24 * 2 ^ 24" using i r calculation by (intro mult_mono) auto
  ultimately have "fmul (Fin (of_nat i)) (Fin (rr s)) = Fin (rr (of_nat i * rr s))" by (simp add: fin)
  moreover have "rnd (of_nat i) = Fin (of_nat i)" using fin [of "of_nat i"] i rr_of_int [of "int i"] by simp
  ultimately show ?thesis using fin [of s] b
    unfolding e sample_position_def s_def [symmetric] sample_index_def float_of_int_def by simp
qed

lemma downsample_picks:
  assumes "1 < m" "m < length xs" "length xs \<le> 2 ^ 24"
  shows "\<exists>idx. downsample xs (int m) = Inr (map ((!) xs) idx) \<and> length idx = m \<and> sorted_wrt (<) idx \<and>
    hd idx = 0 \<and> last idx = length xs - 1"
proof -
  define n where "n = length xs"
  define ps where "ps = map (sample_position n m) [0..<m]"
  note spec = sample_position_spec [OF assms [folded n_def]]
  have mono: "sample_position n m i < sample_position n m j" if "i < j" "j < m" for i j
    using that
  proof (induction j)
    case (Suc j)
    then show ?case using spec(2) [of j] by (cases "i = j") auto
  qed simp
  have srt: "sorted_wrt (<) ps" using mono by (auto simp: ps_def sorted_wrt_iff_nth_less)
  then have lst: "sorted_list_of_set (set ps) = ps"
    by (intro sorted_list_of_set.idem_if_sorted_distinct) (auto simp: strict_sorted_iff)
  define idx where "idx = map nat ps"
  have b: "0 \<le> p \<and> p < int n" if "p \<in> set ps" for p
  proof -
    obtain i where "i < m" "p = sample_position n m i" using \<open>p \<in> set ps\<close> by (auto simp: ps_def)
    then have "0 \<le> p" "p \<le> int (n - 1)" using spec(1) by simp_all
    then show ?thesis using assms(2) by (simp add: n_def)
  qed
  have "rmap (sample_index (rnd (of_int (int n - 1) / of_int (int m - 1)))) [0..<m] = Inr ps"
    unfolding ps_def using sample_index_value [OF assms [folded n_def]] by (intro rmap_cong_Inr) auto
  moreover have "rmap (item_at xs) ps = Inr (map (\<lambda>p. xs ! nat p) ps)"
    using b by (intro rmap_cong_Inr) (simp add: item_at_def n_def linorder_not_less [symmetric])
  ultimately have "downsample xs (int m) = Inr (map ((!) xs) idx)"
    using assms lst by (simp add: downsample_def n_def idx_def comp_def)
  moreover have "sorted_wrt (<) idx"
    unfolding idx_def sorted_wrt_map by (rule sorted_wrt_mono_rel [OF _ srt]) (use b in \<open>fastforce simp: nat_less_eq_zless\<close>)
  moreover have "hd idx = 0" "last idx = n - 1" "length idx = m"
    using assms spec(3,4) by (simp_all add: idx_def ps_def hd_map last_map)
  ultimately show ?thesis by (auto simp: n_def)
qed


text \<open>C39. Down-sampling a chart series of more than \<open>m\<close> (and at most \<open>2^24\<close>) points to \<open>m > 1\<close> never raises and
  keeps exactly \<open>m\<close> of them, at strictly increasing positions, the first and the last point included: the float
  stride never rounds two positions together nor past the end.\<close>

theorem downsample_keeps_ends:
  assumes "1 < m" "m < length xs" "length xs \<le> 2 ^ 24"
  shows "\<exists>idx. downsample xs (int m) = Inr (map ((!) xs) idx) \<and> length idx = m \<and> sorted_wrt (<) idx \<and>
    hd idx = 0 \<and> last idx = length xs - 1"
  using downsample_picks [OF assms] .

theorem downsample_keeps_ends_witness:
  "\<exists>idx. downsample ''abcdefg'' 3 = Inr (map ((!) ''abcdefg'') idx) \<and> length idx = 3 \<and> last idx = 6"
  using downsample_keeps_ends [of 3 "''abcdefg''"] by auto

section \<open>The physics checks\<close>

definition PHYSICS_TOLERANCE :: pyfloat where "PHYSICS_TOLERANCE = rnd (1 / 10 ^ 6)"

definition check_pnl :: "pyfloat \<Rightarrow> pyfloat \<Rightarrow> unit res" where
  "check_pnl expected got = guard_res (\<not> flt PHYSICS_TOLERANCE (fabs (fsub expected got))) RuntimeError"

definition check_step :: "pyfloat option \<Rightarrow> survival_step \<Rightarrow> unit res" where
  "check_step mx s =
     check_pnl (compute_bet_pnl (ss_side s) (ss_entry_price s) (ss_size_usd s) (ss_outcome s) (ss_winning_price s) mx True) (ss_pnl_usd s)"

definition check_point :: "pyfloat option \<Rightarrow> (string, survival_row) dict \<Rightarrow> baseline_point \<Rightarrow> unit res" where
  "check_point mx byid p =
     (if \<not> bp_is_bet p then guard_res (feq (bp_size_usd p) fzero \<and> feq (bp_pnl_usd p) fzero) RuntimeError
      else case bp_side p of
        None \<Rightarrow> Inl AssertionError
      | Some sd \<Rightarrow>
          (case dget byid (bp_market_id p) of
             None \<Rightarrow> Inl KeyError
           | Some r \<Rightarrow> check_pnl (compute_bet_pnl sd (row_price r) (bp_size_usd p) (sv_outcome r) (sv_winning_price r) mx True) (bp_pnl_usd p)))"

definition check_physics ::
  "bool \<Rightarrow> pyfloat option \<Rightarrow> (string, survival_row) dict \<Rightarrow> survival_step list \<Rightarrow> baseline_point list \<Rightarrow> unit res" where
  "check_physics side_correct mx byid steps points =
     (if \<not> side_correct then Inr ()
      else rbind (rmap (check_step mx) steps) (\<lambda>u. rbind (rmap (check_point mx byid) points) (\<lambda>v. Inr ())))"

text \<open>A placed bet counts when its side is a string and its price a number; a boolean is a number in Python.\<close>

definition placed_price :: "row \<Rightarrow> pyfloat option res" where
  "placed_price b =
     (case jget b ''side'' of
        JStr sd \<Rightarrow>
          (case jget b ''price'' of
             JFloat x \<Rightarrow> Inr (Some (effective_entry_price sd x))
           | JInt n \<Rightarrow> rbind (float_of_int n) (\<lambda>x. Inr (Some (effective_entry_price sd x)))
           | JBool v \<Rightarrow> Inr (Some (effective_entry_price sd (if v then fone else fzero)))
           | _ \<Rightarrow> Inr None)
      | _ \<Rightarrow> Inr None)"

definition point_price :: "(string, survival_row) dict \<Rightarrow> baseline_point \<Rightarrow> pyfloat option res" where
  "point_price byid p =
     (if bp_is_bet p
      then case bp_side p of
        None \<Rightarrow> Inr None
      | Some sd \<Rightarrow> (case dget byid (bp_market_id p) of
          None \<Rightarrow> Inl KeyError | Some r \<Rightarrow> Inr (Some (effective_entry_price sd (row_price r))))
      else Inr None)"

definition fmin_opt :: "pyfloat list \<Rightarrow> pyfloat option" where
  "fmin_opt xs = (case xs of [] \<Rightarrow> None | x # ys \<Rightarrow> Some (fmin_list x ys))"

definition fmax_opt :: "pyfloat list \<Rightarrow> pyfloat option" where
  "fmax_opt xs = (case xs of [] \<Rightarrow> None | x # ys \<Rightarrow> Some (fmax_list x ys))"

definition min_effective :: "row list \<Rightarrow> (string, survival_row) dict \<Rightarrow> baseline_point list \<Rightarrow> pyfloat option res" where
  "min_effective placed byid points =
     rbind (rmap placed_price placed) (\<lambda>xs.
     rbind (rmap (point_price byid) points) (\<lambda>ys. Inr (fmin_opt (List.map_filter id (xs @ ys)))))"

definition check_floor :: "pyfloat option \<Rightarrow> pyfloat option \<Rightarrow> unit res" where
  "check_floor price_floor lowest =
     (case (price_floor, lowest) of (Some f, Some x) \<Rightarrow> guard_res (\<not> flt x f) RuntimeError | _ \<Rightarrow> Inr ())"

section \<open>The journey\<close>

record journey =
  jy_seed :: strategy_config
  jy_lives :: "(life_outcome \<times> pyfloat) list"
  jy_steps :: "survival_step list"
  jy_static :: "baseline_point list"
  jy_random :: "baseline_point list"
  jy_favorite :: "baseline_point list"
  jy_deaths :: nat
  jy_best_life :: "nat option"
  jy_total_steps :: nat
  jy_learner_final_pnl :: pyfloat
  jy_static_final_pnl :: pyfloat
  jy_delta :: pyfloat
  jy_applied :: nat
  jy_apply_failed :: nat
  jy_rows :: nat
  jy_min_entry_price :: "pyfloat option"
  jy_max_step_pnl :: "pyfloat option"
  jy_max_baseline_pnl :: "pyfloat option"
  jy_min_effective :: "pyfloat option"

definition life_pnl :: "recorder \<Rightarrow> nat \<Rightarrow> pyfloat" where
  "life_pnl rc i = fsum (map ss_pnl_usd (filter (\<lambda>s. ss_life_idx s = i) (rec_steps rc)))"

text \<open>\<open>max\<close> over a range by a key keeps the first of equals.\<close>

definition best_life :: "season_result \<Rightarrow> recorder \<Rightarrow> nat option" where
  "best_life se rc =
     (case [0..<length (se_lives se)] of
        [] \<Rightarrow> None
      | i # is \<Rightarrow> Some (foldl (\<lambda>b j. if flt (life_pnl rc b) (life_pnl rc j) then j else b) i is))"

definition last_cum :: "('a \<Rightarrow> pyfloat) \<Rightarrow> 'a list \<Rightarrow> pyfloat" where
  "last_cum f xs = (if xs = [] then fzero else f (last xs))"

definition build_survival_journey ::
  "bool \<Rightarrow> curve_rules \<Rightarrow> (nat \<Rightarrow> pyfloat) \<Rightarrow> int \<Rightarrow> season_result \<Rightarrow> recorder \<Rightarrow> survival_row list \<Rightarrow> strategy_config \<Rightarrow> journey res" where
  "build_survival_journey nv cr dice max_steps se rc rows seed =
     rbind (build_static_baseline_curve nv cr seed rows) (\<lambda>static.
      let rnds = build_archetype_curve RandomSide dice ARCHETYPE_STAKE_USD cr rows;
          favs = build_archetype_curve AlwaysFavorite dice ARCHETYPE_STAKE_USD cr rows;
          points = static @ rnds @ favs;
          byid = fold_dict (map (\<lambda>r. (sv_market_id r, r)) rows);
          learner_final = last_cum ss_cum_pnl (rec_steps rc);
          static_final = last_cum bp_cum_pnl static
      in rbind (downsample (rec_steps rc) max_steps) (\<lambda>sampled.
         rbind (check_physics (cr_side_correct cr) (cr_max_pnl cr) byid (rec_steps rc) points) (\<lambda>u.
         rbind (min_effective (rec_placed rc) byid points) (\<lambda>lowest.
         rbind (check_floor (cr_price_floor cr) lowest) (\<lambda>v.
         Inr \<lparr>jy_seed = seed, jy_lives = map (\<lambda>l. (l, life_pnl rc (lo_idx l))) (se_lives se), jy_steps = sampled,
              jy_static = static, jy_random = rnds, jy_favorite = favs, jy_deaths = se_deaths se, jy_best_life = best_life se rc,
              jy_total_steps = length (rec_steps rc), jy_learner_final_pnl = learner_final, jy_static_final_pnl = static_final,
              jy_delta = fsub learner_final static_final, jy_applied = rec_applied rc, jy_apply_failed = rec_apply_failed rc,
              jy_rows = length rows, jy_min_entry_price = fmin_opt (map row_price rows),
              jy_max_step_pnl = fmax_opt (map ss_pnl_usd (rec_steps rc)), jy_max_baseline_pnl = fmax_opt (map bp_pnl_usd points),
              jy_min_effective = lowest\<rparr>)))))"

section \<open>Who can break the physics\<close>

text \<open>What the checks ask of a comparator's point, with the row it is about.\<close>

definition sound_point :: "curve_rules \<Rightarrow> survival_row list \<Rightarrow> baseline_point \<Rightarrow> bool" where
  "sound_point cr rows p =
     (\<exists>r \<in> set rows. bp_market_id p = sv_market_id r \<and>
        (if bp_is_bet p
         then \<exists>sd. bp_side p = Some sd \<and>
           bp_pnl_usd p = compute_bet_pnl sd (row_price r) (bp_size_usd p) (sv_outcome r) (sv_winning_price r) (cr_max_pnl cr) (cr_side_correct cr) \<and>
           (\<forall>f. cr_price_floor cr = Some f \<longrightarrow> \<not> flt (effective_entry_price sd (row_price r)) f)
         else bp_size_usd p = fzero \<and> bp_pnl_usd p = fzero))"

lemma floor_gate_bet:
  assumes "floor_gate nv fl y a = Inr b" "a_kind b = BET" "a_side b = Some sd" "fl = Some f"
  shows "\<not> flt (effective_entry_price (side_text sd) y) f"
  using assms by (auto simp: floor_gate_def Let_def mk_action_def no_bet_def split: action_kind.splits option.splits if_splits)


lemma static_point_sound:
  assumes "static_decision nv en cr w r st = (Inr a, st')" "static_point cr w i cum r a = Inr p" "r \<in> set rows"
  shows "sound_point cr rows p"
proof -
  obtain b where b: "floor_gate nv (cr_price_floor cr) (row_price r) b = Inr a"
    using assms(1) by (auto simp: static_decision_def rbind_eq_Inr split: sum.splits prod.splits)
  show ?thesis
  proof (cases "a_kind a = BET")
    case True
    then obtain sd z where sz: "a_side a = Some sd" "a_size_usd a = Some z"
      using assms(2) by (cases "a_side a"; cases "a_size_usd a") (auto simp: static_point_def)
    have "\<forall>f. cr_price_floor cr = Some f \<longrightarrow> \<not> flt (effective_entry_price (side_text sd) (row_price r)) f"
      using floor_gate_bet [OF b True sz(1)] by blast
    then show ?thesis using assms(2,3) True sz unfolding sound_point_def by (intro bexI [of _ r]) (auto simp: static_point_def Let_def)
  next
    case False
    then show ?thesis using assms(2,3) unfolding sound_point_def by (intro bexI [of _ r]) (auto simp: static_point_def)
  qed
qed

lemma static_from_sound:
  "static_from nv en cr w i cum st rows = Inr ps \<Longrightarrow> set rows \<subseteq> set all_rows \<Longrightarrow> \<forall>p \<in> set ps. sound_point cr all_rows p"
proof (induction rows arbitrary: i cum st ps)
  case (Cons r rows)
  obtain a st' where d: "static_decision nv en cr w r st = (Inr a, st')"
    using Cons.prems(1) by (auto split: prod.splits sum.splits)
  then obtain p ps' where p: "static_point cr w i cum r a = Inr p" "static_from nv en cr w (Suc i) (bp_cum_pnl p) st' rows = Inr ps'" "ps = p # ps'"
    using Cons.prems(1) by (auto simp: rbind_eq_Inr)
  then show ?case using static_point_sound [OF d p(1)] Cons.IH [OF p(2)] Cons.prems(2) by simp
qed simp

lemma archetype_point_sound: "r \<in> set rows \<Longrightarrow> sound_point cr rows (archetype_point t dice stake cr i cum r)"
  unfolding sound_point_def by (intro bexI [of _ r]) (auto simp: archetype_point_def Let_def split: option.split)

lemma archetype_from_sound:
  "set rows \<subseteq> set all_rows \<Longrightarrow> p \<in> set (archetype_from t dice stake cr i cum rows) \<Longrightarrow> sound_point cr all_rows p"
  by (induction rows arbitrary: i cum) (auto simp: Let_def archetype_point_sound)

lemma byid_row:
  assumes "distinct (map sv_market_id rows)" "r \<in> set rows"
  shows "dget (fold_dict (map (\<lambda>r. (sv_market_id r, r)) rows)) (sv_market_id r) = Some r"
proof -
  have "distinct (map fst (rev (map (\<lambda>r. (sv_market_id r, r)) rows)))" using assms(1) by (simp add: rev_map [symmetric] comp_def)
  then have "map_of (rev (map (\<lambda>r. (sv_market_id r, r)) rows)) (sv_market_id r) = Some r"
    using assms(2) by (intro map_of_is_SomeI) auto
  then show ?thesis unfolding dget_fold_dict .
qed

lemma check_pnl_refl: "check_pnl x x = Inr ()"
proof -
  have "\<not> flt PHYSICS_TOLERANCE fzero" by code_simp
  then show ?thesis by (cases x) (auto simp: check_pnl_def fsub_def guard_res_def)
qed

lemma sound_point_checks:
  assumes "\<And>r. r \<in> set rows \<Longrightarrow> dget byid (sv_market_id r) = Some r" "cr_side_correct cr" "sound_point cr rows p"
  shows "check_point (cr_max_pnl cr) byid p = Inr ()"
  using assms by (auto simp: sound_point_def check_point_def check_pnl_refl guard_res_def feq_iff split: if_splits)

lemma sound_point_price:
  assumes "\<And>r. r \<in> set rows \<Longrightarrow> dget byid (sv_market_id r) = Some r" "sound_point cr rows p"
  shows "\<exists>x. point_price byid p = Inr x \<and> (\<forall>e f. x = Some e \<and> cr_price_floor cr = Some f \<longrightarrow> \<not> flt e f)"
  using assms by (auto simp: sound_point_def point_price_def split: if_splits)

lemma fmin_list_member: "fmin_list x xs \<in> set (x # xs)"
proof (induction xs arbitrary: x)
  case (Cons y xs)
  then show ?case by (auto simp: fmin_list_def fmin_def)
qed (simp add: fmin_list_def)

lemma fmin_list_below: "NaN \<notin> set (x # xs) \<Longrightarrow> e \<in> set (x # xs) \<Longrightarrow> fle (fmin_list x xs) e"
proof (induction xs arbitrary: x e)
  case Nil
  then show ?case by (auto simp: fmin_list_def fle_refl)
next
  case (Cons y xs)
  have n: "x \<noteq> NaN" "y \<noteq> NaN" using Cons.prems(1) by auto
  have m: "fmin x y \<noteq> NaN" "fle (fmin x y) x" "fle (fmin x y) y"
    using n fmin_le_left fmin_le_right by (auto simp: fmin_def)
  have all: "\<forall>e \<in> set (fmin x y # xs). fle (fmin_list (fmin x y) xs) e"
    using Cons.IH [of "fmin x y"] Cons.prems(1) m(1) by simp
  have s: "fmin_list x (y # xs) = fmin_list (fmin x y) xs" by (simp add: fmin_list_def)
  have "fle (fmin_list (fmin x y) xs) (fmin x y)" using all by simp
  then have "fle (fmin_list (fmin x y) xs) x" "fle (fmin_list (fmin x y) xs) y" using m fle_trans by blast+
  then show ?case using all Cons.prems(2) unfolding s by auto
qed

lemma check_floor_ok:
  assumes "\<forall>e \<in> set xs. \<not> flt e f"
  shows "check_floor (Some f) (fmin_opt xs) = Inr ()"
proof (cases xs)
  case (Cons x ys)
  then show ?thesis using assms fmin_list_member [of x ys] by (auto simp: check_floor_def fmin_opt_def guard_res_def)
qed (simp add: check_floor_def fmin_opt_def)

lemma check_floor_sound:
  assumes "check_floor (Some f) (fmin_opt xs) = Inr ()" "NaN \<notin> set xs" "e \<in> set xs"
  shows "\<not> flt e f"
proof
  assume lt: "flt e f"
  obtain x ys where xs: "xs = x # ys" using assms(3) by (cases xs) auto
  have "fle (fmin_list x ys) e" using fmin_list_below assms(2,3) unfolding xs by blast
  then have "flt (fmin_list x ys) f" using lt fle_flt_trans by blast
  then show False using assms(1) by (simp add: xs check_floor_def fmin_opt_def guard_res_def)
qed

lemma rmap_member: "rmap f xs = Inr ys \<Longrightarrow> x \<in> set xs \<Longrightarrow> \<exists>y \<in> set ys. f x = Inr y"
  by (induction xs arbitrary: ys) auto

lemma rmap_Some: "\<forall>x \<in> set xs. \<exists>y. f x = Inr y \<and> P y \<Longrightarrow> \<exists>ys. rmap f xs = Inr ys \<and> (\<forall>y \<in> set ys. P y)"
  by (induction xs) auto

lemma rmap_back: "rmap f xs = Inr ys \<Longrightarrow> y \<in> set ys \<Longrightarrow> \<exists>x \<in> set xs. f x = Inr y"
  by (induction xs arbitrary: ys) auto

text \<open>The comparators of a journey obey the physics they are checked against.\<close>

lemma journey_points_sound:
  assumes "build_static_baseline_curve nv cr seed rows = Inr static"
  shows "\<forall>p \<in> set (static @ build_archetype_curve RandomSide dice stake cr rows @ build_archetype_curve AlwaysFavorite dice stake cr rows).
    sound_point cr rows p"
  using assms static_from_sound [of _ _ cr _ _ _ _ rows static rows] archetype_from_sound [of rows rows]
  by (auto simp: build_static_baseline_curve_def build_archetype_curve_def Let_def rbind_eq_Inr)

lemma effective_not_NaN: "y \<noteq> NaN \<Longrightarrow> effective_entry_price sd y \<noteq> NaN"
  by (cases y) (auto simp: effective_entry_price_def fsub_def)

lemma point_price_not_NaN:
  assumes "\<And>r. r \<in> set rows \<Longrightarrow> dget byid (sv_market_id r) = Some r" "sound_point cr rows p" "\<forall>r \<in> set rows. row_price r \<noteq> NaN"
  shows "point_price byid p \<noteq> Inr (Some NaN)"
  using assms effective_not_NaN by (auto simp: sound_point_def point_price_def split: if_splits)

lemma map_filter_id_set: "e \<in> set (List.map_filter id xs) \<longleftrightarrow> Some e \<in> set xs"
  by (induction xs) (auto simp: List.map_filter_def)

lemma downsample_total: "1 < m \<Longrightarrow> length xs \<le> 2 ^ 24 \<Longrightarrow> \<exists>ys. downsample xs (int m) = Inr ys"
  using downsample_picks [of m xs] by (cases "m < length xs") (auto simp: downsample_def)

text \<open>Without a decision of its own the physics part of the journey is a function of the steps, the points and the bets.\<close>

lemma min_effective_total:
  assumes "\<And>r. r \<in> set rows \<Longrightarrow> dget byid (sv_market_id r) = Some r" "\<forall>p \<in> set ps. sound_point cr rows p"
    and "cr_price_floor cr = Some f"
    and "\<forall>b \<in> set bs. \<exists>x. placed_price b = Inr x \<and> (\<forall>e. x = Some e \<longrightarrow> \<not> flt e f)"
  shows "\<exists>lo. min_effective bs byid ps = Inr lo \<and> check_floor (Some f) lo = Inr ()"
proof -
  obtain xs where xs: "rmap placed_price bs = Inr xs" "\<forall>x \<in> set xs. \<forall>e. x = Some e \<longrightarrow> \<not> flt e f"
    using rmap_Some [OF assms(4)] by blast
  have "\<forall>p \<in> set ps. \<exists>x. point_price byid p = Inr x \<and> (\<forall>e. x = Some e \<longrightarrow> \<not> flt e f)"
    using sound_point_price [OF assms(1)] assms(2,3) by blast
  from rmap_Some [OF this] obtain ys where ys: "rmap (point_price byid) ps = Inr ys" "\<forall>x \<in> set ys. \<forall>e. x = Some e \<longrightarrow> \<not> flt e f"
    by blast
  have "\<forall>e \<in> set (List.map_filter id (xs @ ys)). \<not> flt e f" using xs(2) ys(2) by (auto simp: map_filter_id_set)
  from check_floor_ok [OF this] show ?thesis by (simp add: min_effective_def xs(1) ys(1))
qed

lemma min_effective_sound:
  assumes "\<And>r. r \<in> set rows \<Longrightarrow> dget byid (sv_market_id r) = Some r" "\<forall>p \<in> set ps. sound_point cr rows p"
    and "min_effective bs byid ps = Inr lo" "check_floor (Some f) lo = Inr ()"
    and "\<forall>r \<in> set rows. row_price r \<noteq> NaN" "\<forall>b \<in> set bs. placed_price b \<noteq> Inr (Some NaN)"
    and "b \<in> set bs" "placed_price b = Inr (Some e)"
  shows "\<not> flt e f"
proof -
  obtain xs ys where xy: "rmap placed_price bs = Inr xs" "rmap (point_price byid) ps = Inr ys" "lo = fmin_opt (List.map_filter id (xs @ ys))"
    using assms(3) by (auto simp: min_effective_def rbind_eq_Inr)
  have "Some NaN \<notin> set xs"
    using rmap_back [OF xy(1)] assms(6) by blast
  moreover have "Some NaN \<notin> set ys"
    using rmap_back [OF xy(2)] point_price_not_NaN [OF assms(1) _ assms(5)] assms(2) by blast
  moreover have "Some e \<in> set xs" using rmap_member [OF xy(1) assms(7)] assms(8) by auto
  ultimately show ?thesis
    using check_floor_sound [OF assms(4) [unfolded xy(3)], of e] by (simp add: map_filter_id_set)
qed

lemma rmap_all: "(\<exists>us. rmap f xs = Inr us) \<longleftrightarrow> (\<forall>x \<in> set xs. f x = Inr ())" for f :: "'a \<Rightarrow> unit res"
  by (induction xs) (auto simp: rbind_eq_Inr)

lemma check_physics_iff:
  assumes "\<forall>p \<in> set ps. check_point mx byid p = Inr ()"
  shows "check_physics True mx byid ss ps = Inr () \<longleftrightarrow> (\<forall>s \<in> set ss. check_step mx s = Inr ())"
proof -
  obtain us where "rmap (check_point mx byid) ps = Inr us" using assms rmap_all [of "check_point mx byid" ps] by blast
  then have "check_physics True mx byid ss ps = Inr () \<longleftrightarrow> (\<exists>us. rmap (check_step mx) ss = Inr us)"
    by (simp add: check_physics_def rbind_eq_Inr)
  then show ?thesis unfolding rmap_all .
qed

lemma gates_pass:
  fixes A :: "unit res" and C :: "'a \<Rightarrow> unit res"
  shows "(\<exists>j. rbind A (\<lambda>u. rbind B (\<lambda>lo. rbind (C lo) (\<lambda>v. Inr (F lo)))) = Inr j) \<longleftrightarrow> A = Inr () \<and> (\<exists>lo. B = Inr lo \<and> C lo = Inr ())"
  by (auto simp: rbind_eq_Inr)

text \<open>C31. A journey is only refused for what the learner did.  In the side-correct mode, with a price floor configured,
  over distinct markets, for a sample of more than one point of at most 2^24 recorded steps and a static curve that could
  be built, the three comparators always pass the physics checks and the floor: when every recorded step is within the
  tolerance of its replayed profit and no placed bet is below the floor, the journey is built; and a journey that is built
  has only such steps, and no placed bet below the floor provided that no price is a NaN (a NaN hides the minimum).\<close>

theorem journey_blames_the_learner:
  assumes "distinct (map sv_market_id rows)" "build_static_baseline_curve nv cr seed rows = Inr static" "cr_side_correct cr"
    and "1 < m" "length (rec_steps rc) \<le> 2 ^ 24" "cr_price_floor cr = Some f"
  shows "((\<forall>s \<in> set (rec_steps rc). check_step (cr_max_pnl cr) s = Inr ()) \<and>
      (\<forall>b \<in> set (rec_placed rc). \<exists>x. placed_price b = Inr x \<and> (\<forall>e. x = Some e \<longrightarrow> \<not> flt e f)) \<longrightarrow>
      (\<exists>j. build_survival_journey nv cr dice (int m) se rc rows seed = Inr j)) \<and>
    (\<forall>j. build_survival_journey nv cr dice (int m) se rc rows seed = Inr j \<longrightarrow>
      (\<forall>s \<in> set (rec_steps rc). check_step (cr_max_pnl cr) s = Inr ()) \<and>
      ((\<forall>r \<in> set rows. row_price r \<noteq> NaN) \<and> (\<forall>b \<in> set (rec_placed rc). placed_price b \<noteq> Inr (Some NaN)) \<longrightarrow>
        (\<forall>b \<in> set (rec_placed rc). \<forall>e. placed_price b = Inr (Some e) \<longrightarrow> \<not> flt e f)))"
proof -
  define byid where "byid = fold_dict (map (\<lambda>r. (sv_market_id r, r)) rows)"
  define ps where "ps = static @ build_archetype_curve RandomSide dice ARCHETYPE_STAKE_USD cr rows @
    build_archetype_curve AlwaysFavorite dice ARCHETYPE_STAKE_USD cr rows"
  have look: "dget byid (sv_market_id r) = Some r" if "r \<in> set rows" for r
    using byid_row [OF assms(1) that] by (simp only: byid_def)
  have sound: "\<forall>p \<in> set ps. sound_point cr rows p" unfolding ps_def by (rule journey_points_sound [OF assms(2)])
  obtain sampled where smp: "downsample (rec_steps rc) (int m) = Inr sampled" using downsample_total assms(4,5) by blast
  have phys: "check_physics (cr_side_correct cr) (cr_max_pnl cr) byid (rec_steps rc) ps = Inr () \<longleftrightarrow>
      (\<forall>s \<in> set (rec_steps rc). check_step (cr_max_pnl cr) s = Inr ())"
    using check_physics_iff sound_point_checks [OF look assms(3)] sound assms(3) by simp
  have built: "(\<exists>j. build_survival_journey nv cr dice (int m) se rc rows seed = Inr j) \<longleftrightarrow>
      check_physics (cr_side_correct cr) (cr_max_pnl cr) byid (rec_steps rc) ps = Inr () \<and>
      (\<exists>lo. min_effective (rec_placed rc) byid ps = Inr lo \<and> check_floor (Some f) lo = Inr ())"
    unfolding build_survival_journey_def assms(2,6) smp Let_def byid_def [symmetric] rbind_Inr ps_def [symmetric]
    by (rule gates_pass)
  show ?thesis
  proof (intro conjI allI impI ballI)
    assume "(\<forall>s \<in> set (rec_steps rc). check_step (cr_max_pnl cr) s = Inr ()) \<and>
      (\<forall>b \<in> set (rec_placed rc). \<exists>x. placed_price b = Inr x \<and> (\<forall>e. x = Some e \<longrightarrow> \<not> flt e f))"
    then show "\<exists>j. build_survival_journey nv cr dice (int m) se rc rows seed = Inr j"
      unfolding built phys using min_effective_total [OF look sound assms(6), of "rec_placed rc"] by simp
  next
    fix j s assume "build_survival_journey nv cr dice (int m) se rc rows seed = Inr j" "s \<in> set (rec_steps rc)"
    then show "check_step (cr_max_pnl cr) s = Inr ()" using built phys by simp
  next
    fix j b e
    assume j: "build_survival_journey nv cr dice (int m) se rc rows seed = Inr j"
      and n: "(\<forall>r \<in> set rows. row_price r \<noteq> NaN) \<and> (\<forall>b \<in> set (rec_placed rc). placed_price b \<noteq> Inr (Some NaN))"
      and b: "b \<in> set (rec_placed rc)" "placed_price b = Inr (Some e)"
    obtain lo where "min_effective (rec_placed rc) byid ps = Inr lo" "check_floor (Some f) lo = Inr ()" using j built by auto
    from min_effective_sound [OF look sound this n [THEN conjunct1] n [THEN conjunct2] b] show "\<not> flt e f" .
  qed
qed


section \<open>A small season\<close>

definition demo_rules :: curve_rules where
  "demo_rules = \<lparr>cr_bankroll = lp_bankroll_usd demo_loop, cr_breath = lp_breath demo_loop, cr_max_pnl = None, cr_side_correct = True,
     cr_value_betting = lc_value_betting demo_loop_config, cr_price_floor = lc_price_floor demo_loop_config\<rparr>"

definition floor_rules :: "curve_rules" where
  "floor_rules = demo_rules\<lparr>cr_price_floor := Some (Fin (1 / 4))\<rparr>"

definition plain_seed :: strategy_config where
  "plain_seed = optimum_seed\<lparr>cfg_weights := demo_weights\<lparr>rho := Fin (1 / 2)\<rparr>, cfg_min_edge := fzero, cfg_min_bet_size_usd := fone\<rparr>"

lemma demo_static:
  "case build_static_baseline_curve False floor_rules plain_seed demo_rows of
     Inl e \<Rightarrow> False | Inr ps \<Rightarrow> map bp_is_bet ps = [True, True, True] \<and> map bp_market_id ps = [''c'', ''b'', ''a'']"
  by code_simp

theorem twin_decides_like_the_loop_witness:
  "\<exists>sigs. row_to_signals (sv_signal (demo_row ''a'' 3 9)) = Inr sigs \<and>
     fst (decide_step demo_loop_env demo_loop_config (Some (inputs_of_row (demo_row ''a'' 3 9) sigs)) demo_loop) =
     fst (static_decision False default_config demo_rules (lp_weights demo_loop) (demo_row ''a'' 3 9) (lp_engine demo_loop))"
proof -
  have "case row_to_signals (sv_signal (demo_row ''a'' 3 9)) of Inl e \<Rightarrow> False | Inr sigs \<Rightarrow> missing_engines sigs = []" by code_simp
  then obtain sigs where r: "row_to_signals (sv_signal (demo_row ''a'' 3 9)) = Inr sigs" "missing_engines sigs = []"
    by (auto split: sum.splits)
  have e: "le_nv demo_loop_env = False" "le_engine demo_loop_env = default_config" by (simp_all only: demo_loop_env_def loop_env.simps)
  have c: "lc_value_betting demo_loop_config = cr_value_betting demo_rules" "lc_price_floor demo_loop_config = cr_price_floor demo_rules"
    "lp_bankroll_usd demo_loop = cr_bankroll demo_rules" "lp_breath demo_loop = cr_breath demo_rules"
    by (simp_all only: demo_rules_def curve_rules.simps)
  have l: "\<not> lc_storm_enabled demo_loop_config \<or> st_storm (lp_storm demo_loop) = fzero" by code_simp
  have d: "\<not> lp_desperate demo_loop" by code_simp
  from twin_decides_like_the_loop [OF r e c(1,2) l d refl c(3,4)] r(1) show ?thesis by blast
qed

theorem static_curve_is_rowwise_witness:
  "\<exists>ps. build_static_baseline_curve False floor_rules plain_seed demo_rows = Inr ps \<and> length ps = 3 \<and>
     (\<exists>q. build_static_baseline_curve False floor_rules plain_seed [demo_row ''a'' 3 9] = Inr [q] \<and> bp_pnl_usd (ps ! 2) = bp_pnl_usd q)"
proof -
  obtain ps where ps: "build_static_baseline_curve False floor_rules plain_seed demo_rows = Inr ps"
    using demo_static by (auto split: sum.splits)
  have l: "length demo_rows = 3" "demo_rows ! 2 = demo_row ''a'' 3 9" by (simp_all only: demo_rows_def) simp_all
  note c = static_curve_is_rowwise [OF ps, unfolded l(1)]
  obtain q where "build_static_baseline_curve False floor_rules plain_seed [demo_row ''a'' 3 9] = Inr [q]"
    "ps ! 2 = q\<lparr>bp_idx := 2, bp_cum_pnl := foldl add_cum fzero (take (Suc 2) ps)\<rparr>"
    using c [THEN conjunct2, rule_format, of 2] unfolding l(2) by auto
  moreover from this have "bp_pnl_usd (ps ! 2) = bp_pnl_usd q" by simp
  ultimately show ?thesis using ps c by blast
qed

theorem floor_only_skips_witness:
  "list_all bp_is_bet (build_archetype_curve AlwaysFavorite (\<lambda>_. fzero) ARCHETYPE_STAKE_USD floor_rules demo_rows)"
proof -
  have f: "cr_price_floor floor_rules = Some (Fin (1 / 4))" by (simp add: floor_rules_def)
  have h: "fle (Fin (1 / 4)) (Fin (1 / 2))" by simp
  show ?thesis
    using floor_only_skips [of AlwaysFavorite "\<lambda>_. fzero" ARCHETYPE_STAKE_USD floor_rules demo_rows] f h
    unfolding list_all_length Let_def by auto
qed

text \<open>A season without settlements is exported; one step whose profit is not the replayed one, and nothing is.\<close>

theorem journey_blames_the_learner_witness:
  "(\<exists>j. build_survival_journey False floor_rules (\<lambda>_. fzero) (int 500) \<lparr>se_lives = [], se_deaths = 0\<rparr> (mk_recorder demo_rows) demo_rows plain_seed = Inr j) \<and>
   \<not> (\<exists>j. build_survival_journey False floor_rules (\<lambda>_. fzero) (int 500) \<lparr>se_lives = [], se_deaths = 0\<rparr>
       (rec_run demo_season_events (mk_recorder demo_rows)) demo_rows plain_seed = Inr j)"
proof -
  obtain ps where ps: "build_static_baseline_curve False floor_rules plain_seed demo_rows = Inr ps"
    using demo_static by (auto split: sum.splits)
  have d: "distinct (map sv_market_id demo_rows)" by (simp add: demo_row_ids)
  have f: "cr_side_correct floor_rules" "cr_price_floor floor_rules = Some (Fin (1 / 4))" by (simp_all add: floor_rules_def demo_rules_def)
  have k: "rec_steps (mk_recorder demo_rows) = []" "rec_placed (mk_recorder demo_rows) = []" by (simp_all add: mk_recorder_def)
  have two: "length (rec_steps (rec_run demo_season_events (mk_recorder demo_rows))) = 2" by code_simp
  have bad: "length (rec_steps (rec_run demo_season_events (mk_recorder demo_rows))) \<le> 2 ^ 24"
    unfolding two by simp
  have wrong: "list_ex (\<lambda>s. check_step (cr_max_pnl floor_rules) s \<noteq> Inr ()) (rec_steps (rec_run demo_season_events (mk_recorder demo_rows)))"
    by code_simp
  note J = journey_blames_the_learner [OF d ps f(1) _ _ f(2), where m = 500, simplified]
  have b: "(1 :: nat) < 500" by simp
  note J = journey_blames_the_learner [OF d ps f(1) b _ f(2)]
  show ?thesis
  proof (intro conjI notI)
    show "\<exists>j. build_survival_journey False floor_rules (\<lambda>_. fzero) (int 500) \<lparr>se_lives = [], se_deaths = 0\<rparr> (mk_recorder demo_rows) demo_rows plain_seed = Inr j"
      by (rule J [THEN conjunct1, THEN mp]) (simp_all add: k)
    assume "\<exists>j. build_survival_journey False floor_rules (\<lambda>_. fzero) (int 500) \<lparr>se_lives = [], se_deaths = 0\<rparr>
       (rec_run demo_season_events (mk_recorder demo_rows)) demo_rows plain_seed = Inr j"
    then obtain j where j: "build_survival_journey False floor_rules (\<lambda>_. fzero) (int 500) \<lparr>se_lives = [], se_deaths = 0\<rparr>
       (rec_run demo_season_events (mk_recorder demo_rows)) demo_rows plain_seed = Inr j" by (rule exE)
    note K = J [OF bad, THEN conjunct2, THEN spec, THEN mp, OF j, THEN conjunct1]
    show False using K wrong unfolding list_ex_iff by (elim bexE) (drule (1) bspec, rule notE)
  qed
qed

end
