(* ===== verification/Tennis.thy ===== *)
theory Tennis
  imports Holdout
begin

text \<open>
  The tennis corpus and what is computed from it (\<open>data/sources/tennis_sackmann.py\<close>, \<open>data/etl/pit_correct.py\<close>,
  \<open>engines/tennis_technical.py\<close>, \<open>backtest/tennis_match_resolver.py\<close>): loading and sorting matches and rankings, the
  point-in-time guard, rank gap, surface record, head-to-head, rest, and the resolution of a market slug.
  A CSV file, read by pandas with every cell a string, is the list of its rows.
\<close>

section \<open>The point-in-time guard\<close>

definition require_asof_ts :: "stamp \<Rightarrow> stamp res" where
  "require_asof_ts asof = (if snd asof = None then Inl LookaheadError else Inr asof)"

definition assert_no_lookahead :: "int list \<Rightarrow> stamp \<Rightarrow> unit res" where
  "assert_no_lookahead avail asof =
     rbind (require_asof_ts asof) (\<lambda>edge. guard_res (list_all (\<lambda>t. t \<le> instant edge) avail) LookaheadError)"

lemma require_asof_then: "rbind (require_asof_ts a) f = (if snd a = None then Inl LookaheadError else f a)"
  by (simp add: require_asof_ts_def)

section \<open>The corpus\<close>

record match_row =
  mt_tourney_date :: string
  mt_match_num :: string
  mt_surface :: string
  mt_winner_id :: string
  mt_winner_name :: string
  mt_loser_id :: string
  mt_loser_name :: string

record rank_row =
  rk_date :: string
  rk_rank :: string
  rk_player :: string
  rk_points :: string

datatype tour = ATP | WTA

text \<open>The files of a tour, and the date formats: pandas' parser to midnight UTC, \<open>strptime\<close> to a naive midnight and
  \<open>strftime\<close> of a wall time, all with \<open>%Y%m%d\<close>.\<close>

record corpus =
  co_matches :: "tour \<Rightarrow> int \<Rightarrow> match_row list res"
  co_rankings :: "tour \<Rightarrow> rank_row list res"
  co_to_datetime :: "string \<Rightarrow> int option"
  co_strptime :: "string \<Rightarrow> int option"
  co_strftime :: "int \<Rightarrow> string"

definition load_matches :: "corpus \<Rightarrow> tour \<Rightarrow> int \<times> int \<Rightarrow> match_row list res" where
  "load_matches co t yr =
     (if snd yr < fst yr then Inl ValueError
      else rbind (rmap (co_matches co t) [fst yr..snd yr]) (\<lambda>fs.
        Inr (sort_key (\<lambda>m. (mt_tourney_date m, mt_match_num m)) (concat fs))))"

definition dated :: "corpus \<Rightarrow> rank_row \<Rightarrow> (int \<times> rank_row) res" where
  "dated co r = (case co_to_datetime co (rk_date r) of None \<Rightarrow> Inl ValueError | Some d \<Rightarrow> Inr (d, r))"

definition load_rankings :: "corpus \<Rightarrow> tour \<Rightarrow> stamp \<Rightarrow> rank_row list res" where
  "load_rankings co t asof =
     rbind (require_asof_ts asof) (\<lambda>edge.
     rbind (co_rankings co t) (\<lambda>rows.
     rbind (rmap (dated co) rows) (\<lambda>ds.
       Inr (sort_key (\<lambda>r. (rk_date r, rk_rank r)) (map snd (filter (\<lambda>(d, r). d \<le> instant edge) ds))))))"

definition valid_ids :: "match_row \<Rightarrow> bool" where
  "valid_ids m = (py_strip (mt_winner_id m) \<notin> {[], ''nan''} \<and> py_strip (mt_loser_id m) \<notin> {[], ''nan''})"

definition require_valid_player_ids :: "match_row list \<Rightarrow> match_row list" where
  "require_valid_player_ids ms = filter valid_ids ms"

section \<open>Rank gap\<close>

definition starts_with :: "string \<Rightarrow> string \<Rightarrow> bool" where
  "starts_with p s = (take (length p) s = p)"

definition ATP_ID_PREFIXES :: "string list" where "ATP_ID_PREFIXES = [''1'', ''21'', ''20'']"
definition WTA_ID_PREFIXES :: "string list" where "WTA_ID_PREFIXES = [''22'', ''23'']"

definition tour_for_player :: "string \<Rightarrow> tour" where
  "tour_for_player player_id =
     (let pid = py_strip player_id in
      if list_ex (\<lambda>p. starts_with p pid) ATP_ID_PREFIXES then ATP
      else if list_ex (\<lambda>p. starts_with p pid) WTA_ID_PREFIXES then WTA
      else ATP)"

definition points_of :: "rank_row \<Rightarrow> pyfloat option" where
  "points_of r =
     (let p = py_strip (rk_points r) in
      case py_float (if p = [] then ''0'' else p) of Inl e \<Rightarrow> None | Inr x \<Rightarrow> Some x)"

fun points_in :: "corpus \<Rightarrow> string \<Rightarrow> stamp \<Rightarrow> tour list \<Rightarrow> pyfloat option res" where
  "points_in co player_id asof [] = Inr None"
| "points_in co player_id asof (t # ts) =
     rbind (load_rankings co t asof) (\<lambda>rankings.
       let hits = filter (\<lambda>r. py_strip (rk_player r) = py_strip player_id) rankings in
       if hits = [] then points_in co player_id asof ts
       else Inr (points_of (last (sort_key rk_date hits))))"

definition latest_rank_points :: "corpus \<Rightarrow> string \<Rightarrow> stamp \<Rightarrow> pyfloat option res" where
  "latest_rank_points co player_id asof =
     points_in co player_id asof (if tour_for_player player_id = ATP then [ATP, WTA] else [WTA, ATP])"

definition compute_elo_diff :: "corpus \<Rightarrow> string \<Rightarrow> string \<Rightarrow> stamp \<Rightarrow> pyfloat res" where
  "compute_elo_diff co pa pb asof =
     rbind (require_asof_ts asof) (\<lambda>edge.
     rbind (latest_rank_points co pa edge) (\<lambda>a.
     rbind (latest_rank_points co pb edge) (\<lambda>b.
       Inr (case (a, b) of (Some x, Some y) \<Rightarrow> fsub x y | _ \<Rightarrow> fzero))))"

section \<open>Match history\<close>

definition plays :: "string \<Rightarrow> match_row \<Rightarrow> bool" where
  "plays pid m = (py_strip (mt_winner_id m) = pid \<or> py_strip (mt_loser_id m) = pid)"

definition available_of :: "corpus \<Rightarrow> match_row \<Rightarrow> int res" where
  "available_of co m = (case co_to_datetime co (mt_tourney_date m) of None \<Rightarrow> Inl ValueError | Some d \<Rightarrow> Inr d)"

definition player_match_history :: "corpus \<Rightarrow> string \<Rightarrow> stamp \<Rightarrow> int \<times> int \<Rightarrow> match_row list res" where
  "player_match_history co player_id asof yr =
     rbind (load_matches co ATP yr) (\<lambda>a.
     rbind (load_matches co WTA yr) (\<lambda>w.
       let mine = (\<lambda>ms. filter (plays (py_strip player_id)) (require_valid_player_ids ms));
           combined = filter (\<lambda>m. py_strip (mt_tourney_date m) \<le> co_strftime co (fst asof)) (mine a @ mine w)
       in if combined = [] then Inr []
          else rbind (rmap (available_of co) combined) (\<lambda>avail.
               rbind (assert_no_lookahead avail asof) (\<lambda>u.
                 Inr (sort_key mt_tourney_date combined)))))"

text \<open>\<open>a / b\<close> of two integers is one rounding.\<close>

definition ratio :: "nat \<Rightarrow> nat \<Rightarrow> pyfloat" where
  "ratio a b = rnd (of_nat a / of_nat b)"

definition last_n :: "nat \<Rightarrow> 'a list \<Rightarrow> 'a list" where
  "last_n n xs = drop (length xs - n) xs"

definition surface_rate :: "corpus \<Rightarrow> string \<Rightarrow> string \<Rightarrow> stamp \<Rightarrow> nat \<Rightarrow> int \<times> int \<Rightarrow> pyfloat res" where
  "surface_rate co player_id surface asof window yr =
     rbind (player_match_history co player_id asof yr) (\<lambda>hist.
       let on_surface = filter (\<lambda>m. py_lower (py_strip (mt_surface m)) = py_lower (py_strip surface)) hist;
           recent = last_n window on_surface
       in if on_surface = [] then Inr (Fin (1 / 2))
          else Inr (ratio (length (filter (\<lambda>m. py_strip (mt_winner_id m) = py_strip player_id) recent)) (length recent)))"

definition compute_surface_advantage ::
  "corpus \<Rightarrow> string \<Rightarrow> string \<Rightarrow> string \<Rightarrow> stamp \<Rightarrow> nat \<Rightarrow> int \<times> int \<Rightarrow> pyfloat res" where
  "compute_surface_advantage co pa pb surface asof window yr =
     rbind (require_asof_ts asof) (\<lambda>edge.
       if window < 1 then Inl ValueError
       else rbind (surface_rate co pa surface edge window yr) (\<lambda>a.
            rbind (surface_rate co pb surface edge window yr) (\<lambda>b. Inr (fsub a b))))"

record h2h_record =
  h2h_p1_wins :: nat
  h2h_p2_wins :: nat
  h2h_total :: nat
  h2h_p1_win_rate :: "pyfloat option"

definition beats :: "string \<Rightarrow> string \<Rightarrow> match_row \<Rightarrow> bool" where
  "beats p q m = (py_strip (mt_winner_id m) = p \<and> py_strip (mt_loser_id m) = q)"

definition compute_h2h :: "corpus \<Rightarrow> string \<Rightarrow> string \<Rightarrow> stamp \<Rightarrow> int \<times> int \<Rightarrow> h2h_record res" where
  "compute_h2h co p1_id p2_id asof yr =
     rbind (require_asof_ts asof) (\<lambda>edge.
     rbind (player_match_history co (py_strip p1_id) edge yr) (\<lambda>hist.
       let w = length (filter (beats (py_strip p1_id) (py_strip p2_id)) hist);
           l = length (filter (beats (py_strip p2_id) (py_strip p1_id)) hist)
       in Inr \<lparr>h2h_p1_wins = w, h2h_p2_wins = l, h2h_total = w + l,
               h2h_p1_win_rate = (if 0 < w + l then Some (ratio w (w + l)) else None)\<rparr>))"

definition DAY_US :: int where "DAY_US = 86400 * SECOND"

text \<open>Both instants carry the zone of the cutoff, so their difference is the one of the wall times.\<close>

definition compute_days_since_last_match :: "corpus \<Rightarrow> string \<Rightarrow> stamp \<Rightarrow> int \<times> int \<Rightarrow> int option res" where
  "compute_days_since_last_match co player_id asof yr =
     rbind (require_asof_ts asof) (\<lambda>edge.
     rbind (player_match_history co player_id edge yr) (\<lambda>hist.
       if hist = [] then Inr None
       else let raw = py_strip (mt_tourney_date (last hist)) in
         if length raw \<noteq> 8 then Inr None
         else Inr (map_option (\<lambda>d. max 0 ((fst edge - d) div DAY_US)) (co_strptime co raw))))"

section \<open>Best of five\<close>

definition ATP_GRAND_SLAM_LABELS :: "string list" where
  "ATP_GRAND_SLAM_LABELS = [''atp-g'', ''atp grand slam'', ''grand slam'', ''grand_slam'']"

definition compute_best_of_factor :: "string \<Rightarrow> bool" where
  "compute_best_of_factor tour_level = (py_lower (py_strip tour_level) \<in> set ATP_GRAND_SLAM_LABELS)"

section \<open>Resolving a slug\<close>

fun split_on :: "char \<Rightarrow> string \<Rightarrow> string list" where
  "split_on c [] = [[]]"
| "split_on c (x # xs) =
     (if x = c then [] # split_on c xs
      else case split_on c xs of [] \<Rightarrow> [[x]] | w # ws \<Rightarrow> (x # w) # ws)"

definition is_letter :: "char \<Rightarrow> bool" where
  "is_letter c = (let n = of_char c :: nat in 65 \<le> n \<and> n \<le> 90 \<or> 97 \<le> n \<and> n \<le> 122)"

definition word :: "string \<Rightarrow> bool" where
  "word s = (s \<noteq> [] \<and> list_all is_letter s)"

text \<open>\<open>$\<close> also matches before one trailing newline.\<close>

definition chomp :: "string \<Rightarrow> string" where
  "chomp s = (if s \<noteq> [] \<and> last s = CHR 0x0A then butlast s else s)"

definition vs_suffix :: "string \<Rightarrow> (string \<times> string) option" where
  "vs_suffix slug =
     (case rev (split_on (CHR ''-'') (chomp slug)) of
        b # v # a # rest \<Rightarrow> if rest \<noteq> [] \<and> word a \<and> py_lower v = ''vs'' \<and> word b then Some (a, b) else None
      | _ \<Rightarrow> None)"

fun occurs :: "string \<Rightarrow> string \<Rightarrow> bool" where
  "occurs needle [] = (needle = [])"
| "occurs needle (c # hay) = (starts_with needle (c # hay) \<or> occurs needle hay)"

definition SURFACE_KEYWORDS :: "(string \<times> string) list" where
  "SURFACE_KEYWORDS = [(''french-open'', ''Clay''), (''roland-garros'', ''Clay''), (''monte-carlo'', ''Clay''),
     (''madrid'', ''Clay''), (''rome'', ''Clay''), (''internazionali'', ''Clay''), (''hamburg'', ''Clay''),
     (''wimbledon'', ''Grass''), (''queens'', ''Grass''), (''halle'', ''Grass''), (''eastbourne'', ''Grass'')]"

definition surface_for :: "string \<Rightarrow> string" where
  "surface_for slug =
     (let padded = ''-'' @ py_lower slug @ ''-'' in
      case find (\<lambda>(kw, s). occurs (''-'' @ kw @ ''-'') padded) SURFACE_KEYWORDS of
        Some (kw, s) \<Rightarrow> s | None \<Rightarrow> ''Hard'')"

record parsed_slug =
  ps_p1_surname :: string
  ps_p2_surname :: string
  ps_surface :: string

text \<open>\<open>nf\<close> strips the accents by the Unicode tables and lowers what is left.\<close>

definition parse_slug :: "(string \<Rightarrow> string) \<Rightarrow> string \<Rightarrow> parsed_slug option" where
  "parse_slug nf slug =
     map_option (\<lambda>(a, b). \<lparr>ps_p1_surname = nf a, ps_p2_surname = nf b, ps_surface = surface_for slug\<rparr>) (vs_suffix slug)"

function words :: "string \<Rightarrow> string list" where
  "words s = (case dropWhile is_space s of
     [] \<Rightarrow> [] | c # cs \<Rightarrow> takeWhile (\<lambda>x. \<not> is_space x) (c # cs) # words (dropWhile (\<lambda>x. \<not> is_space x) cs))"
  by pat_completeness auto
termination
proof (relation "measure length")
  fix s c cs assume e: "dropWhile is_space s = c # cs"
  have "length (dropWhile (\<lambda>x. \<not> is_space x) cs) \<le> length cs" by (rule length_dropWhile_le)
  also have "length cs < length (dropWhile is_space s)" by (simp add: e)
  also have "\<dots> \<le> length s" by (rule length_dropWhile_le)
  finally show "(dropWhile (\<lambda>x. \<not> is_space x) cs, s) \<in> measure length" by simp
qed simp

declare words.simps [simp del]

definition last_word :: "string \<Rightarrow> string res" where
  "last_word s = (if words s = [] then Inl IndexError else Inr (last (words s)))"

definition indexed_name :: "(string \<Rightarrow> string) \<Rightarrow> string \<times> string \<Rightarrow> (string \<times> string) option res" where
  "indexed_name nf np =
     (case np of (full_name, pid) \<Rightarrow>
        let p = py_strip pid in
        if full_name = [] \<or> p = [] \<or> py_lower p = ''nan'' then Inr None
        else rbind (last_word full_name) (\<lambda>w. Inr (Some (nf w, p))))"

text \<open>Of a frame first the winners, then the losers; the last id of a surname stays.\<close>

definition build_name_index :: "(string \<Rightarrow> string) \<Rightarrow> match_row list list \<Rightarrow> (string, string) dict res" where
  "build_name_index nf frames =
     rbind (rmap (indexed_name nf)
       (concat (map (\<lambda>ms. map (\<lambda>m. (mt_winner_name m, mt_winner_id m)) ms @ map (\<lambda>m. (mt_loser_name m, mt_loser_id m)) ms) frames)))
       (\<lambda>xs. Inr (fold_dict (List.map_filter id xs)))"

record resolved_match =
  rm_p1_id :: string
  rm_p2_id :: string
  rm_surface :: string

definition resolve_slug :: "(string \<Rightarrow> string) \<Rightarrow> (string, string) dict \<Rightarrow> string \<Rightarrow> resolved_match option" where
  "resolve_slug nf name_index slug =
     (case parse_slug nf slug of
        None \<Rightarrow> None
      | Some p \<Rightarrow>
          (case (dget name_index (ps_p1_surname p), dget name_index (ps_p2_surname p)) of
             (Some a, Some b) \<Rightarrow> Some \<lparr>rm_p1_id = a, rm_p2_id = b, rm_surface = ps_surface p\<rparr>
           | _ \<Rightarrow> None))"

text \<open>A tour whose files cannot be loaded is skipped.\<close>

definition from_sackmann_loader :: "(string \<Rightarrow> string) \<Rightarrow> corpus \<Rightarrow> int \<times> int \<Rightarrow> (string, string) dict res" where
  "from_sackmann_loader nf co yr =
     build_name_index nf (List.map_filter (\<lambda>t. case load_matches co t yr of Inl e \<Rightarrow> None | Inr ms \<Rightarrow> Some ms) [ATP, WTA])"

section \<open>What a slug says\<close>

lemma split_on_append: "split_on c (xs @ c # ys) = split_on c xs @ split_on c ys"
proof (induction xs)
  case (Cons x xs)
  have "split_on c xs \<noteq> []" by (cases xs) (auto split: list.split)
  then show ?case using Cons by (auto split: list.split)
qed simp

lemma split_on_free: "c \<notin> set w \<Longrightarrow> split_on c w = [w]"
  by (induction w) auto

lemma split_on_not_Nil: "split_on c xs \<noteq> []"
  by (cases xs) (auto split: list.split)

lemma word_free:
  assumes "word w" shows "CHR ''-'' \<notin> set w" "w \<noteq> []" "last w \<noteq> CHR 0x0A"
proof -
  have l: "is_letter x" if "x \<in> set w" for x using assms that by (auto simp: word_def list_all_iff)
  show "w \<noteq> []" using assms by (simp add: word_def)
  then have "is_letter (last w)" using l by simp
  then show "last w \<noteq> CHR 0x0A" by (auto simp: is_letter_def Let_def)
  show "CHR ''-'' \<notin> set w" using l [of "CHR ''-''"] by (auto simp: is_letter_def)
qed

lemma slug_parsed:
  assumes "word a" "word b" "py_lower v = ''vs''" "nl \<in> {[], [CHR 0x0A]}"
  shows "vs_suffix (pre @ ''-'' @ a @ ''-'' @ v @ ''-'' @ b @ nl) = Some (a, b)"
proof -
  have v: "CHR ''-'' \<notin> set v"
  proof
    assume "CHR ''-'' \<in> set v"
    then have "lower_char (CHR ''-'') \<in> set (py_lower v)" by (simp add: py_lower_def)
    then show False using assms(3) by (simp add: lower_char_def)
  qed
  note wa = word_free [OF assms(1)] and wb = word_free [OF assms(2)]
  define core where "core = pre @ ''-'' @ a @ ''-'' @ v @ ''-'' @ b"
  have l: "core \<noteq> []" "last core \<noteq> CHR 0x0A" using wb by (simp_all add: core_def)
  have c: "chomp (core @ nl) = core" using assms(4) l by (auto simp: chomp_def)
  have "split_on (CHR ''-'') core = split_on (CHR ''-'') pre @ [a, v, b]"
    using wa v wb by (simp add: core_def split_on_append split_on_free)
  then show ?thesis using c assms split_on_not_Nil [of "CHR ''-''" pre]
    by (simp add: vs_suffix_def core_def)
qed

text \<open>Whatever comes before, a slug that ends in two names around \<open>-vs-\<close> (in any case, with or without a trailing
  newline) is parsed to exactly these names; the resolver gives the two ids of the names in that order, and nothing
  when one is missing.\<close>

theorem slug_roundtrip:
  assumes "word a" "word b" "py_lower v = ''vs''" "nl \<in> {[], [CHR 0x0A]}"
  shows "resolve_slug nf name_index (pre @ ''-'' @ a @ ''-'' @ v @ ''-'' @ b @ nl) =
    (case (dget name_index (nf a), dget name_index (nf b)) of
       (Some x, Some y) \<Rightarrow> Some \<lparr>rm_p1_id = x, rm_p2_id = y, rm_surface = surface_for (pre @ ''-'' @ a @ ''-'' @ v @ ''-'' @ b @ nl)\<rparr>
     | _ \<Rightarrow> None)"
  unfolding resolve_slug_def parse_slug_def slug_parsed [OF assms] option.map prod.case option.case parsed_slug.simps
  by (simp split: option.split)

theorem slug_roundtrip_witness:
  "resolve_slug py_lower [(''sinner'', ''206173''), (''jerome'', ''7'')] ''atp-rome-2024-Sinner-VS-Jerome'' =
     Some \<lparr>rm_p1_id = ''206173'', rm_p2_id = ''7'', rm_surface = ''Clay''\<rparr>"
proof -
  have w: "word ''Sinner''" "word ''Jerome''" "py_lower ''VS'' = ''vs''" by code_simp+
  have d: "dget [(''sinner'', ''206173''), (''jerome'', ''7'')] (py_lower ''Sinner'') = Some ''206173''"
    "dget [(''sinner'', ''206173''), (''jerome'', ''7'')] (py_lower ''Jerome'') = Some ''7''"
    "surface_for ''atp-rome-2024-Sinner-VS-Jerome'' = ''Clay''" by code_simp+
  show ?thesis
    using slug_roundtrip [OF w, of "[]" py_lower "[(''sinner'', ''206173''), (''jerome'', ''7'')]" "''atp-rome-2024''"] d by simp
qed

section \<open>The other way round\<close>

lemma fsub_swap: "fsub x y = fneg (fsub y x)"
proof (cases x; cases y)
  fix a b assume "x = Fin a" "y = Fin b"
  then show ?thesis using rnd_minus [of "b - a"] by (simp add: fsub_def)
qed (simp_all add: fsub_def)

lemma py_strip_idem: "py_strip (py_strip s) = py_strip s"
proof -
  define t where "t = dropWhile is_space s"
  have t: "dropWhile is_space t = t" by (simp add: t_def)
  define u where "u = rev (dropWhile is_space (rev t))"
  have "dropWhile is_space u = u"
  proof (cases u)
    case (Cons c cs)
    obtain xs where "rev t = xs @ dropWhile is_space (rev t)" by (metis takeWhile_dropWhile_id)
    then have "t = u @ rev xs" unfolding u_def by (metis rev_append rev_rev_ident)
    then obtain zs where tc: "t = c # zs" using Cons by simp
    have "\<not> is_space c"
    proof
      assume "is_space c"
      then have "length (dropWhile is_space t) < length t"
        using tc length_dropWhile_le [of is_space zs] by simp
      then show False using t by simp
    qed
    then show ?thesis using Cons by simp
  qed simp
  then show ?thesis by (simp add: py_strip_def t_def [symmetric] u_def)
qed

lemma history_count:
  assumes "player_match_history co pid asof yr = Inr hist" "load_matches co ATP yr = Inr a" "load_matches co WTA yr = Inr w"
    and "\<And>m. P m \<Longrightarrow> plays (py_strip pid) m"
  shows "length (filter P hist) = length (filter P (filter (\<lambda>m. py_strip (mt_tourney_date m) \<le> co_strftime co (fst asof))
    (require_valid_player_ids (a @ w))))"
proof -
  define past where "past = (\<lambda>m :: match_row. py_strip (mt_tourney_date m) \<le> co_strftime co (fst asof))"
  define c where "c = filter past (filter (plays (py_strip pid)) (require_valid_player_ids a) @ filter (plays (py_strip pid)) (require_valid_player_ids w))"
  have "hist = [] \<and> c = [] \<or> hist = sort_key mt_tourney_date c"
    using assms(1-3) by (auto simp: player_match_history_def Let_def c_def past_def rbind_eq_Inr split: if_splits)
  then have "length (filter P hist) = length (filter P c)" by (auto simp: filter_sort)
  also have "filter P c = filter P (filter past (require_valid_player_ids (a @ w)))"
    unfolding c_def require_valid_player_ids_def filter_append filter_filter
    by (intro arg_cong2 [where f = "(@)"] filter_cong) (auto dest: assms(4))
  finally show ?thesis by (simp add: past_def)
qed

lemma elo_swap:
  assumes "compute_elo_diff co pa pb asof = Inr d" shows "compute_elo_diff co pb pa asof = Inr (fneg d)"
proof -
  obtain x y where xy: "snd asof \<noteq> None" "latest_rank_points co pa asof = Inr x" "latest_rank_points co pb asof = Inr y"
    "d = (case (x, y) of (Some a, Some b) \<Rightarrow> fsub a b | _ \<Rightarrow> fzero)"
    using assms by (auto simp: compute_elo_diff_def require_asof_then rbind_eq_Inr split: if_splits)
  have "(case (y, x) of (Some a, Some b) \<Rightarrow> fsub a b | _ \<Rightarrow> fzero) = fneg d"
    unfolding xy(4) by (cases x; cases y) (simp_all, rule fsub_swap)
  then show ?thesis using xy(1-3) by (simp add: compute_elo_diff_def require_asof_then)
qed

lemma surface_swap:
  assumes "compute_surface_advantage co pa pb surface asof window yr = Inr x"
  shows "compute_surface_advantage co pb pa surface asof window yr = Inr (fneg x)"
proof -
  obtain a b where ab: "snd asof \<noteq> None" "\<not> window < 1" "surface_rate co pa surface asof window yr = Inr a"
    "surface_rate co pb surface asof window yr = Inr b" "x = fsub a b"
    using assms by (auto simp: compute_surface_advantage_def require_asof_then rbind_eq_Inr split: if_splits)
  have "fsub b a = fneg x" unfolding ab(5) by (rule fsub_swap)
  then show ?thesis using ab(1-4) by (simp add: compute_surface_advantage_def require_asof_then)
qed

text \<open>Asked the other way round, the facets answer the other way round: the rank gap and the surface advantage are the
  exact negatives, and in the head-to-head record the wins are swapped and the number of matches is the same.\<close>

theorem facets_antisymmetric:
  assumes "compute_h2h co pa pb asof yr = Inr r" "compute_h2h co pb pa asof yr = Inr r'"
    and "compute_elo_diff co pa pb asof = Inr d" "compute_surface_advantage co pa pb surface asof window yr = Inr x"
  shows "compute_elo_diff co pb pa asof = Inr (fneg d) \<and>
    compute_surface_advantage co pb pa surface asof window yr = Inr (fneg x) \<and>
    h2h_p1_wins r' = h2h_p2_wins r \<and> h2h_p2_wins r' = h2h_p1_wins r \<and> h2h_total r' = h2h_total r"
proof -
  define p q where "p = py_strip pa" and "q = py_strip pb"
  note elo_swap [OF assms(3)] surface_swap [OF assms(4)]
  moreover obtain hist where hist: "player_match_history co p asof yr = Inr hist" "h2h_p1_wins r = length (filter (beats p q) hist)"
      "h2h_p2_wins r = length (filter (beats q p) hist)" "h2h_total r = h2h_p1_wins r + h2h_p2_wins r"
    using assms(1) by (auto simp: compute_h2h_def require_asof_then rbind_eq_Inr Let_def p_def q_def split: if_splits)
  moreover obtain hist' where hist': "player_match_history co q asof yr = Inr hist'" "h2h_p1_wins r' = length (filter (beats q p) hist')"
      "h2h_p2_wins r' = length (filter (beats p q) hist')" "h2h_total r' = h2h_p1_wins r' + h2h_p2_wins r'"
    using assms(2) by (auto simp: compute_h2h_def require_asof_then rbind_eq_Inr Let_def p_def q_def split: if_splits)
  moreover obtain a w where aw: "load_matches co ATP yr = Inr a" "load_matches co WTA yr = Inr w"
    using hist(1) by (auto simp: player_match_history_def rbind_eq_Inr)
  moreover have "plays (py_strip p) m" "plays (py_strip q) m" if "beats p q m \<or> beats q p m" for m
    using that by (auto simp: beats_def plays_def p_def q_def py_strip_idem)
  ultimately show ?thesis
    using history_count [OF hist(1) aw, of "beats p q"] history_count [OF hist(1) aw, of "beats q p"]
      history_count [OF hist'(1) aw, of "beats p q"] history_count [OF hist'(1) aw, of "beats q p"] by simp
qed

section \<open>The past\<close>

text \<open>What of the corpus is dated up to an instant: matches by the text of their date, rankings by their instant.  A
  ranking whose date cannot be read is in the past, since it makes every load raise.\<close>

definition past_match :: "corpus \<Rightarrow> stamp \<Rightarrow> match_row \<Rightarrow> bool" where
  "past_match co asof m = (py_strip (mt_tourney_date m) \<le> co_strftime co (fst asof))"

definition past_rank :: "corpus \<Rightarrow> stamp \<Rightarrow> rank_row \<Rightarrow> bool" where
  "past_rank co asof r = (case co_to_datetime co (rk_date r) of None \<Rightarrow> True | Some d \<Rightarrow> d \<le> instant asof)"

definition past_of :: "corpus \<Rightarrow> stamp \<Rightarrow> corpus" where
  "past_of co asof =
     co\<lparr>co_matches := (\<lambda>t y. rbind (co_matches co t y) (\<lambda>ms. Inr (filter (past_match co asof) ms))),
        co_rankings := (\<lambda>t. rbind (co_rankings co t) (\<lambda>rs. Inr (filter (past_rank co asof) rs)))\<rparr>"

lemma past_of_fields [simp]:
  "co_to_datetime (past_of co asof) = co_to_datetime co" "co_strptime (past_of co asof) = co_strptime co"
  "co_strftime (past_of co asof) = co_strftime co"
  by (simp_all add: past_of_def)

lemma past_of_files:
  "co_matches (past_of co asof) t y = rbind (co_matches co t y) (\<lambda>ms. Inr (filter (past_match co asof) ms))"
  "co_rankings (past_of co asof) t = rbind (co_rankings co t) (\<lambda>rs. Inr (filter (past_rank co asof) rs))"
  "dated (past_of co asof) = dated co"
  by (simp_all add: past_of_def dated_def fun_eq_iff)

lemma rmap_filtered:
  "rmap (\<lambda>y. rbind (f y) (\<lambda>ms. Inr (filter P ms))) ys = rbind (rmap f ys) (\<lambda>fs. Inr (map (filter P) fs))"
proof (induction ys)
  case (Cons y ys)
  then show ?case by (cases "f y"; cases "rmap f ys") simp_all
qed simp

lemma load_matches_past:
  "load_matches (past_of co asof) t yr = rbind (load_matches co t yr) (\<lambda>ms. Inr (filter (past_match co asof) ms))"
  by (cases "rmap (co_matches co t) [fst yr..snd yr]")
     (simp_all add: load_matches_def past_of_def rmap_filtered filter_sort filter_concat)

lemma rank_rows_past:
  "rbind (rmap (dated co) (filter (past_rank co asof) rows)) (\<lambda>ds. Inr (map snd (filter (\<lambda>(d, r). d \<le> instant asof) ds))) =
   rbind (rmap (dated co) rows) (\<lambda>ds. Inr (map snd (filter (\<lambda>(d, r). d \<le> instant asof) ds)))"
proof (induction rows)
  case (Cons r rows)
  show ?case
  proof (cases "co_to_datetime co (rk_date r)")
    case None
    then show ?thesis by (simp add: past_rank_def dated_def)
  next
    case (Some d)
    have pr: "past_rank co asof r = (d \<le> instant asof)" "dated co r = Inr (d, r)" using Some by (simp_all add: past_rank_def dated_def)
    show ?thesis using Cons pr by (cases "rmap (dated co) rows"; cases "rmap (dated co) (filter (past_rank co asof) rows)") auto
  qed
qed simp

lemma load_rankings_past: "load_rankings (past_of co asof) t asof = load_rankings co t asof"
proof (cases "snd asof")
  case None
  then show ?thesis by (simp add: load_rankings_def require_asof_ts_def)
next
  case (Some z)
  show ?thesis
  proof (cases "co_rankings co t")
    case (Inr rows)
    have "rbind r (\<lambda>ds. Inr (sort_key k (map snd (filter P ds)))) = rbind (rbind r (\<lambda>ds. Inr (map snd (filter P ds)))) (\<lambda>xs. Inr (sort_key k xs))"
      for r :: "(int \<times> rank_row) list res" and k :: "rank_row \<Rightarrow> string \<times> string" and P
      by (cases r) simp_all
    then show ?thesis using Some Inr rank_rows_past [of co asof rows]
      by (simp add: load_rankings_def require_asof_ts_def past_of_files)
  qed (simp add: load_rankings_def require_asof_ts_def past_of_files Some)
qed

lemma points_in_past: "points_in (past_of co asof) pid asof ts = points_in co pid asof ts"
  by (induction ts) (simp_all add: load_rankings_past cong: if_cong)

lemma history_past: "player_match_history (past_of co asof) pid asof yr = player_match_history co pid asof yr"
proof -
  have avail: "available_of (past_of co asof) = available_of co" by (intro ext) (simp add: available_of_def)
  have f: "filter (\<lambda>m. py_strip (mt_tourney_date m) \<le> co_strftime co (fst asof))
      (filter (plays p) (require_valid_player_ids (filter (past_match co asof) a)) @ filter (plays p) (require_valid_player_ids (filter (past_match co asof) w))) =
    filter (\<lambda>m. py_strip (mt_tourney_date m) \<le> co_strftime co (fst asof))
      (filter (plays p) (require_valid_player_ids a) @ filter (plays p) (require_valid_player_ids w))" for p a w
    unfolding require_valid_player_ids_def filter_filter filter_append
    by (intro arg_cong2 [where f = "(@)"] filter_cong) (auto simp: past_match_def)
  show ?thesis
    by (cases "load_matches co ATP yr"; cases "load_matches co WTA yr")
       (simp_all only: player_match_history_def load_matches_past avail Let_def f past_of_fields rbind_Inl rbind_Inr)
qed

lemma elo_past: "compute_elo_diff (past_of co asof) pa pb asof = compute_elo_diff co pa pb asof"
  by (simp only: compute_elo_diff_def require_asof_then latest_rank_points_def points_in_past)

lemma surface_past:
  "compute_surface_advantage (past_of co asof) pa pb surface asof window yr = compute_surface_advantage co pa pb surface asof window yr"
  by (simp only: compute_surface_advantage_def require_asof_then surface_rate_def history_past)

lemma h2h_past: "compute_h2h (past_of co asof) pa pb asof yr = compute_h2h co pa pb asof yr"
  by (simp only: compute_h2h_def require_asof_then history_past)

lemma days_past: "compute_days_since_last_match (past_of co asof) pa asof yr = compute_days_since_last_match co pa asof yr"
  by (simp only: compute_days_since_last_match_def require_asof_then history_past past_of_fields)

lemmas facets_past = elo_past surface_past h2h_past days_past

end
