(* ===== verification/SignalSource.thy ===== *)
theory SignalSource
  imports Tennis Learner
begin

text \<open>
  The signals the life loop bets on (\<open>backtest/real_signal_source.py\<close>): price momentum from the market's ledger and four
  facets of the tennis corpus, one for each slot of the decision engine.
\<close>

section \<open>Statistics of Python 3.11\<close>

definition qval :: "pyfloat \<Rightarrow> rat" where
  "qval x = (case x of Fin q \<Rightarrow> q | _ \<Rightarrow> 0)"

text \<open>\<open>math.fsum\<close>: the exact sum, rounded once; a partial sum out of range raises.\<close>

definition math_fsum :: "pyfloat list \<Rightarrow> pyfloat res" where
  "math_fsum xs =
     (if list_all isfinite xs
      then if list_ex (\<lambda>n. \<not> isfinite (rnd (sum_list (map qval (take n xs))))) [0..<Suc (length xs)] then Inl OverflowError
           else Inr (rnd (sum_list (map qval xs)))
      else if NaN \<in> set xs then Inr NaN
      else if PInf \<in> set xs \<and> NInf \<in> set xs then Inl ValueError
      else Inr (if PInf \<in> set xs then PInf else NInf))"

definition fmean :: "pyfloat list \<Rightarrow> pyfloat res" where
  "fmean xs = rbind (math_fsum xs) (\<lambda>total. py_div total (rnd (of_nat (length xs))))"

function isqrt :: "int \<Rightarrow> int" where
  "isqrt n = (if n \<le> 0 then 0 else let r = 2 * isqrt (n div 4) in if (r + 1) * (r + 1) \<le> n then r + 1 else r)"
  by pat_completeness auto
termination by (relation "measure nat") auto

declare isqrt.simps [simp del]

text \<open>The square root of a fraction, to odd: the last bit records what was cut off.\<close>

definition isqrt_of_frac_rto :: "int \<Rightarrow> int \<Rightarrow> int" where
  "isqrt_of_frac_rto n m = (let a = isqrt (n div m) in if a * a * m \<noteq> n \<and> even a then a + 1 else a)"

definition float_sqrt_of_frac :: "int \<Rightarrow> int \<Rightarrow> pyfloat res" where
  "float_sqrt_of_frac n m =
     (let q = (blen n - blen m - 109) div 2;
          x = (if 0 \<le> q then rnd (of_int (isqrt_of_frac_rto n (m * 2 ^ nat (2 * q)) * 2 ^ nat q))
               else rnd (of_int (isqrt_of_frac_rto (n * 2 ^ nat (- (2 * q))) m) / of_int (2 ^ nat (- q))))
      in if isfinite x then Inr x else Inl OverflowError)"

text \<open>\<open>statistics.stdev\<close> of at least two numbers: the exact variance; a value that is not finite has no numerator.\<close>

definition mean_square :: "rat list \<Rightarrow> rat" where
  "mean_square qs =
     ((of_nat (length qs) * sum_list (map (\<lambda>q. q * q) qs) - sum_list qs * sum_list qs) / of_nat (length qs)) / of_nat (length qs - 1)"

definition stdev :: "pyfloat list \<Rightarrow> pyfloat res" where
  "stdev xs =
     (if list_all isfinite xs
      then case quotient_of (mean_square (map qval xs)) of (n, m) \<Rightarrow> float_sqrt_of_frac n m
      else Inl AttributeError)"

section \<open>The source\<close>

text \<open>Why a signal has its score; the text of it is the environment's.\<close>

datatype why =
    Unresolved string
  | EmptyHistory
  | Momentum nat pyfloat pyfloat
  | Elo pyfloat
  | Surface string pyfloat
  | HeadToHead "pyfloat option" nat
  | MissingRest
  | Rest int int

record source_env =
  so_libm :: libm
  so_nv :: bool
  so_isop :: iso_parser
  so_isoformat :: "stamp \<Rightarrow> string"
  so_text :: "why \<Rightarrow> string"
  so_norm :: "string \<Rightarrow> string"
  so_name_index :: "(string, string) dict"
  so_corpus :: corpus
  so_years :: "int \<times> int"

definition make_signal :: "source_env \<Rightarrow> stamp \<Rightarrow> pyfloat \<Rightarrow> pyfloat \<Rightarrow> why \<Rightarrow> (string, pyfloat) dict \<Rightarrow> signal res" where
  "make_signal env asof x c w feats =
     mk_signal (so_nv env) \<lparr>score = x, confidence = c, available_at = so_isoformat env asof, rationale = so_text env w, raw_features = feats\<rparr>"

definition neutral :: "source_env \<Rightarrow> stamp \<Rightarrow> why \<Rightarrow> signal res" where
  "neutral env asof w = make_signal env asof fzero fzero w []"

section \<open>Momentum\<close>

definition MIN_ANCHOR :: pyfloat where "MIN_ANCHOR = rnd (1 / 1000)"

definition drift_of :: "pyfloat list \<Rightarrow> pyfloat res" where
  "drift_of prices =
     rbind (if 1 < length prices then fmean (butlast prices) else Inr (last prices)) (\<lambda>anchor.
       py_div (fsub (last prices) anchor) (fmax anchor MIN_ANCHOR))"

definition velocity_of :: "(stamp \<times> pyfloat) list \<Rightarrow> pyfloat res" where
  "velocity_of snaps =
     rbind (stamp_diff (fst (last snaps)) (fst (hd snaps))) (\<lambda>d.
       py_div (fsub (snd (last snaps)) (snd (hd snaps))) (fmax (fdiv (total_seconds d) (Fin 3600)) fone))"

definition tightness_of :: "pyfloat list \<Rightarrow> pyfloat res" where
  "tightness_of prices = rbind (if 1 < length prices then stdev prices else Inr fzero) (\<lambda>sigma. py_div fone (fadd fone sigma))"

definition momentum_signal :: "source_env \<Rightarrow> (stamp \<times> pyfloat) list \<Rightarrow> stamp \<Rightarrow> signal res" where
  "momentum_signal env snaps asof =
     (if snaps = [] then neutral env asof EmptyHistory
      else
        let prices = map snd snaps; n = length prices in
        rbind (drift_of prices) (\<lambda>drift.
        rbind (velocity_of snaps) (\<lambda>velocity.
        rbind (tightness_of prices) (\<lambda>tightness.
          let x = m_tanh (so_libm env) (fadd (fmul (rnd (6 / 10)) drift) (fmul (rnd (4 / 10)) velocity));
              c = fmin fone (fmul (fdiv (rnd (of_nat n)) (Fin 24)) tightness)
          in make_signal env asof x c (Momentum n drift velocity)
               [(''n'', rnd (of_nat n)), (''drift'', drift), (''velocity'', velocity), (''spread_tightness'', tightness)]))))"

section \<open>The facets\<close>

definition elo_signal :: "source_env \<Rightarrow> string \<Rightarrow> string \<Rightarrow> stamp \<Rightarrow> signal res" where
  "elo_signal env pa pb asof =
     rbind (compute_elo_diff (so_corpus env) pa pb asof) (\<lambda>d.
       make_signal env asof (m_tanh (so_libm env) (fdiv d (Fin 3000))) (if feq d fzero then fzero else rnd (7 / 10)) (Elo d)
         [(''elo_diff'', d)])"

definition SURFACE_WINDOW :: nat where "SURFACE_WINDOW = 20"

definition surface_signal :: "source_env \<Rightarrow> string \<Rightarrow> string \<Rightarrow> string \<Rightarrow> stamp \<Rightarrow> signal res" where
  "surface_signal env pa pb surface asof =
     rbind (compute_surface_advantage (so_corpus env) pa pb surface asof SURFACE_WINDOW (so_years env)) (\<lambda>x.
       make_signal env asof x (if feq x fzero then fzero else rnd (6 / 10)) (Surface surface x) [(''surface_advantage'', x)])"

definition h2h_signal :: "source_env \<Rightarrow> string \<Rightarrow> string \<Rightarrow> stamp \<Rightarrow> signal res" where
  "h2h_signal env pa pb asof =
     rbind (compute_h2h (so_corpus env) pa pb asof (so_years env)) (\<lambda>r.
       let x = (case h2h_p1_win_rate r of None \<Rightarrow> fzero | Some w \<Rightarrow> fmul (Fin 2) (fsub w (Fin (1 / 2))));
           total = rnd (of_nat (h2h_total r));
           c = fmin (rnd (9 / 10)) (fmul (fdiv total (Fin 5)) (rnd (6 / 10)))
       in make_signal env asof x c (HeadToHead (h2h_p1_win_rate r) (h2h_total r))
            [(''p1_win_rate'', case h2h_p1_win_rate r of None \<Rightarrow> Fin (- 1) | Some w \<Rightarrow> w), (''total_matches'', total)])"

definition rest_signal :: "source_env \<Rightarrow> string \<Rightarrow> string \<Rightarrow> stamp \<Rightarrow> signal res" where
  "rest_signal env pa pb asof =
     rbind (compute_days_since_last_match (so_corpus env) pa asof (so_years env)) (\<lambda>d1.
     rbind (compute_days_since_last_match (so_corpus env) pb asof (so_years env)) (\<lambda>d2.
       case (d1, d2) of
         (Some a, Some b) \<Rightarrow>
           make_signal env asof (m_tanh (so_libm env) (fdiv (rnd (of_int (b - a))) (Fin 14))) (rnd (4 / 10)) (Rest a b)
             [(''days_p1'', rnd (of_int a)), (''days_p2'', rnd (of_int b))]
       | _ \<Rightarrow> neutral env asof MissingRest))"

section \<open>The five slots\<close>

text \<open>Comparing a naive point with an aware instant raises.\<close>

definition snapshots_until :: "iso_parser \<Rightarrow> price_point list \<Rightarrow> stamp \<Rightarrow> (stamp \<times> pyfloat) list res" where
  "snapshots_until isop ledger asof =
     rbind (rmap (\<lambda>pp. rbind (from_iso isop (pp_ts pp)) (\<lambda>t. rbind (stamp_diff t asof) (\<lambda>d. Inr (d, t, pp_mid_price pp)))) ledger) (\<lambda>xs.
       Inr (map snd (filter (\<lambda>(d, t, p). d \<le> 0) xs)))"

text \<open>The slug and the ledger of the market's snapshot, empty when there is none.\<close>

definition signals_for :: "source_env \<Rightarrow> string \<times> price_point list \<Rightarrow> stamp \<Rightarrow> (string, signal) dict res" where
  "signals_for env shot asof =
     rbind (snapshots_until (so_isop env) (snd shot) asof) (\<lambda>snaps.
     rbind (momentum_signal env snaps asof) (\<lambda>mom.
     rbind (rmap (\<lambda>n. neutral env asof (Unresolved n)) [TENNIS_TECHNICAL, SURFACE_ADVANTAGE, HEAD_TO_HEAD, REST_RECENCY]) (\<lambda>ns.
       case resolve_slug (so_norm env) (so_name_index env) (fst shot) of
         None \<Rightarrow> Inr ((MARKET_MOMENTUM, mom) # zip [TENNIS_TECHNICAL, SURFACE_ADVANTAGE, HEAD_TO_HEAD, REST_RECENCY] ns)
       | Some rm \<Rightarrow>
           rbind (elo_signal env (rm_p1_id rm) (rm_p2_id rm) asof) (\<lambda>e.
           rbind (surface_signal env (rm_p1_id rm) (rm_p2_id rm) (rm_surface rm) asof) (\<lambda>s.
           rbind (h2h_signal env (rm_p1_id rm) (rm_p2_id rm) asof) (\<lambda>h.
           rbind (rest_signal env (rm_p1_id rm) (rm_p2_id rm) asof) (\<lambda>r.
             Inr [(MARKET_MOMENTUM, mom), (TENNIS_TECHNICAL, e), (SURFACE_ADVANTAGE, s), (HEAD_TO_HEAD, h), (REST_RECENCY, r)])))))))"

section \<open>Nothing of the future\<close>

text \<open>A point that cannot be read or compared makes the source raise, so it counts as known.\<close>

definition past_points :: "iso_parser \<Rightarrow> stamp \<Rightarrow> price_point list \<Rightarrow> price_point list" where
  "past_points isop asof ledger =
     filter (\<lambda>pp. case rbind (from_iso isop (pp_ts pp)) (\<lambda>t. stamp_diff t asof) of Inl e \<Rightarrow> True | Inr d \<Rightarrow> d \<le> 0) ledger"

lemma snapshots_past: "snapshots_until isop (past_points isop asof ledger) asof = snapshots_until isop ledger asof"
proof -
  define read where "read = (\<lambda>pp :: price_point. rbind (from_iso isop (pp_ts pp)) (\<lambda>t. rbind (stamp_diff t asof) (\<lambda>d. Inr (d, t, pp_mid_price pp))))"
  define kept where "kept = (\<lambda>r. rbind r (\<lambda>xs. Inr (map snd (filter (\<lambda>(d, t, p). d \<le> (0 :: int)) xs))) :: (stamp \<times> pyfloat) list res)"
  have "kept (rmap read (past_points isop asof ledger)) = kept (rmap read ledger)"
  proof (induction ledger)
    case (Cons pp ledger)
    show ?case
    proof (cases "read pp")
      case (Inl e)
      then have "past_points isop asof (pp # ledger) = pp # past_points isop asof ledger"
        by (auto simp: past_points_def read_def rbind_eq_Inr split: sum.split)
      then show ?thesis by (simp add: Inl kept_def)
    next
      case (Inr y)
      obtain d t p where y: "y = (d, t, p)" by (cases y)
      have "past_points isop asof (pp # ledger) = (if d \<le> 0 then [pp] else []) @ past_points isop asof ledger"
        using Inr by (auto simp: past_points_def read_def rbind_eq_Inr y)
      then show ?thesis using Cons.IH Inr y
        by (cases "rmap read (past_points isop asof ledger)"; cases "rmap read ledger") (auto simp: kept_def)
    qed
  qed (simp add: past_points_def)
  then show ?thesis by (simp add: snapshots_until_def read_def kept_def)
qed

lemma corpus_unread:
  "make_signal (env\<lparr>so_corpus := c\<rparr>) = make_signal env" "neutral (env\<lparr>so_corpus := c\<rparr>) = neutral env"
  "momentum_signal (env\<lparr>so_corpus := c\<rparr>) = momentum_signal env"
  "so_libm (env\<lparr>so_corpus := c\<rparr>) = so_libm env" "so_years (env\<lparr>so_corpus := c\<rparr>) = so_years env"
  "so_corpus (env\<lparr>so_corpus := c\<rparr>) = c" "so_isop (env\<lparr>so_corpus := c\<rparr>) = so_isop env"
  "so_norm (env\<lparr>so_corpus := c\<rparr>) = so_norm env" "so_name_index (env\<lparr>so_corpus := c\<rparr>) = so_name_index env"
  by (simp_all add: fun_eq_iff make_signal_def neutral_def momentum_signal_def Let_def)

lemma facet_signals_past:
  "elo_signal (env\<lparr>so_corpus := past_of co asof\<rparr>) pa pb asof = elo_signal (env\<lparr>so_corpus := co\<rparr>) pa pb asof"
  "surface_signal (env\<lparr>so_corpus := past_of co asof\<rparr>) pa pb surf asof = surface_signal (env\<lparr>so_corpus := co\<rparr>) pa pb surf asof"
  "h2h_signal (env\<lparr>so_corpus := past_of co asof\<rparr>) pa pb asof = h2h_signal (env\<lparr>so_corpus := co\<rparr>) pa pb asof"
  "rest_signal (env\<lparr>so_corpus := past_of co asof\<rparr>) pa pb asof = rest_signal (env\<lparr>so_corpus := co\<rparr>) pa pb asof"
  unfolding elo_signal_def surface_signal_def h2h_signal_def rest_signal_def corpus_unread facets_past by (rule refl)+

lemma signals_past:
  "signals_for (env\<lparr>so_corpus := past_of co asof\<rparr>) (slug, past_points (so_isop env) asof ledger) asof =
   signals_for (env\<lparr>so_corpus := co\<rparr>) (slug, ledger) asof"
  unfolding signals_for_def fst_conv snd_conv snapshots_past corpus_unread facet_signals_past by (rule refl)

text \<open>Two corpora and two price ledgers that agree on what is dated up to the cutoff give the same signals, errors
  included: no match, ranking or price of the future reaches a bet.\<close>

theorem signals_see_the_past_only:
  assumes "past_of co asof = past_of co' asof" "past_points (so_isop env) asof l = past_points (so_isop env) asof l'"
  shows "signals_for (env\<lparr>so_corpus := co\<rparr>) (slug, l) asof = signals_for (env\<lparr>so_corpus := co'\<rparr>) (slug, l') asof"
  by (metis assms signals_past)

end
