(* ===== verification/SignalBounds.thy ===== *)
theory SignalBounds
  imports SignalSource
begin

text \<open>
  The signals are always usable: bounds of the statistics and of the five signals over a corpus and a ledger that are in
  order, with a concrete corpus that is.
\<close>

section \<open>Statistics of prices\<close>

lemma isqrt_square: "0 \<le> n \<Longrightarrow> 0 \<le> isqrt n \<and> isqrt n * isqrt n \<le> n"
proof (induction n rule: isqrt.induct)
  case (1 n)
  show ?case
  proof (cases "n = 0")
    case False
    define r where "r = isqrt (n div 4)"
    have r: "0 \<le> r" "r * r \<le> n div 4" using 1 False by (auto simp: r_def)
    then have "4 * (r * r) \<le> n" by linarith
    then have "(2 * r) * (2 * r) \<le> n" by simp
    then show ?thesis using r(1) 1(2) False by (subst (1 2 3) isqrt.simps) (auto simp: Let_def r_def)
  qed (simp add: isqrt.simps)
qed

lemma isqrt_neg: "n \<le> 0 \<Longrightarrow> isqrt n = 0"
  by (simp add: isqrt.simps)

lemma isqrt_nonneg: "0 \<le> isqrt n"
  using isqrt_square [of n] isqrt_neg [of n] by linarith

lemma isqrt_le:
  assumes "0 \<le> k" "n \<le> k * k" shows "isqrt n \<le> k"
proof (rule ccontr)
  assume "\<not> isqrt n \<le> k"
  then have "k * k < isqrt n * isqrt n" using assms(1) by (intro mult_strict_mono) auto
  moreover have "isqrt n * isqrt n \<le> n \<or> isqrt n = 0" using isqrt_square [of n] isqrt_neg [of n] by linarith
  ultimately show False using assms by auto
qed

lemma blen_le_double:
  assumes "n \<le> 2 * m" "0 < m" shows "blen n \<le> blen m + 1"
proof (cases "0 < n")
  case True
  have "(2 :: int) ^ nat (blen n - 1) \<le> n" "m < 2 ^ nat (blen m)" using blen_bounds True assms(2) by auto
  then have "(2 :: int) ^ nat (blen n - 1) < 2 ^ Suc (nat (blen m))" using assms(1) by simp
  then have "nat (blen n - 1) < Suc (nat (blen m))" by (rule power_less_imp_less_exp [rotated]) simp
  then show ?thesis using blen_bounds [OF assms(2)] by linarith
next
  case False
  then show ?thesis using blen_nonneg [of m] by (simp add: blen.simps)
qed

lemma isqrt_rto_small:
  assumes "n \<le> 2 * m" "0 < m"
  shows "0 \<le> isqrt_of_frac_rto (n * 2 ^ (2 * k)) m" "isqrt_of_frac_rto (n * 2 ^ (2 * k)) m \<le> 2 * 2 ^ k + 1"
proof -
  define u :: int where "u = 2 ^ k"
  have u: "(2 :: int) ^ (2 * k) = u * u" by (simp add: u_def power_add mult_2)
  have "n * (u * u) \<le> 2 * m * (u * u)" using assms(1) by (intro mult_right_mono) auto
  then have "n * (u * u) div m \<le> (2 * (u * u)) * m div m" using assms(2) by (intro zdiv_mono1) (simp_all add: ac_simps)
  also have "\<dots> = 2 * (u * u)" using assms(2) by simp
  also have "\<dots> \<le> (2 * u) * (2 * u)" using zero_le_square [of u] by simp
  finally have "isqrt (n * (u * u) div m) \<le> 2 * u" by (intro isqrt_le) (auto simp: u_def)
  moreover define r where "r = isqrt (n * (u * u) div m)"
  moreover have "0 \<le> r" unfolding r_def by (rule isqrt_nonneg)
  ultimately show "0 \<le> isqrt_of_frac_rto (n * 2 ^ (2 * k)) m" "isqrt_of_frac_rto (n * 2 ^ (2 * k)) m \<le> 2 * 2 ^ k + 1"
    unfolding u isqrt_of_frac_rto_def u_def [symmetric] Let_def by auto
qed

lemma float_sqrt_small:
  assumes "n \<le> 2 * m" "0 < m" shows "\<exists>q. float_sqrt_of_frac n m = Inr (Fin q) \<and> 0 \<le> q"
proof -
  define q where "q = (blen n - blen m - 109) div 2"
  have q: "q < 0" using blen_le_double [OF assms] by (simp add: q_def)
  define k where "k = nat (- q)"
  have k: "nat (- (2 * q)) = 2 * k" using q by (simp add: k_def)
  define a where "a = isqrt_of_frac_rto (n * 2 ^ (2 * k)) m"
  have a: "0 \<le> a" "a \<le> 2 * 2 ^ k + 1" unfolding a_def by (rule isqrt_rto_small [OF assms])+
  define u :: rat where "u = 2 ^ k"
  have u: "1 \<le> u" by (simp add: u_def)
  have "of_int a \<le> (of_int (2 * 2 ^ k + 1) :: rat)" using a(2) by (simp only: of_int_le_iff)
  also have "\<dots> = 2 * u + 1" by (simp add: u_def)
  also have "\<dots> \<le> 3 * u" using u by simp
  finally have "of_int a / u \<le> 3" using u by (simp add: divide_le_eq)
  then have x: "0 \<le> of_int a / u" "\<bar>of_int a / u\<bar> \<le> 2 ^ 52" using a(1) u by auto
  have "of_int (2 ^ k) = u" by (simp add: u_def)
  then have "float_sqrt_of_frac n m = (if isfinite (rnd (of_int a / u)) then Inr (rnd (of_int a / u)) else Inl OverflowError)"
    using q unfolding float_sqrt_of_frac_def q_def [symmetric] Let_def k k_def [symmetric] a_def [symmetric] by simp
  moreover have "rnd (of_int a / u) = Fin (rr (of_int a / u))" by (rule rnd_in_range [OF rr_moderate [OF x(2)]])
  ultimately show ?thesis using rr_nonneg [OF x(1)] by simp
qed

lemma mean_square_le:
  assumes "list_all (\<lambda>q. 0 \<le> q \<and> q \<le> 1) qs" "1 < length qs" shows "mean_square qs \<le> 2"
proof -
  define n :: rat where "n = of_nat (length qs)"
  have n: "2 \<le> n" "of_nat (length qs - 1) = n - 1" using assms(2) by (simp_all add: n_def of_nat_diff)
  have "sum_list (map (\<lambda>q. q * q) qs) \<le> sum_list (map (\<lambda>q. 1) qs)"
    using assms(1) by (intro sum_list_mono) (auto simp: list_all_iff mult_le_one)
  then have "sum_list (map (\<lambda>q. q * q) qs) \<le> n" by (simp add: n_def sum_list_triv)
  then have "n * sum_list (map (\<lambda>q. q * q) qs) - sum_list qs * sum_list qs \<le> n * n" 
    using n(1) mult_left_mono [of "sum_list (map (\<lambda>q. q * q) qs)" n n] zero_le_square [of "sum_list qs"] by linarith
  then have "(n * sum_list (map (\<lambda>q. q * q) qs) - sum_list qs * sum_list qs) / n \<le> n" using n(1) by (simp add: divide_le_eq)
  then have "mean_square qs \<le> n / (n - 1)"
    unfolding mean_square_def n_def [symmetric] n(2) using n(1) by (intro divide_right_mono) auto
  also have "\<dots> \<le> 2" using n(1) by (simp add: divide_le_eq)
  finally show ?thesis .
qed

definition unit_price :: "pyfloat \<Rightarrow> bool" where
  "unit_price x = (f64 x \<and> fle fzero x \<and> fle x fone)"

lemma unit_qval: "unit_price x \<Longrightarrow> x = Fin (qval x) \<and> 0 \<le> qval x \<and> qval x \<le> 1"
  by (cases x) (auto simp: unit_price_def qval_def)

lemma stdev_small:
  assumes "list_all unit_price xs" "1 < length xs" shows "\<exists>q. stdev xs = Inr (Fin q) \<and> 0 \<le> q"
proof -
  obtain n m where nm: "quotient_of (mean_square (map qval xs)) = (n, m)" by fastforce
  have u: "\<forall>x \<in> set xs. x = Fin (qval x) \<and> 0 \<le> qval x \<and> qval x \<le> 1" using assms(1) unit_qval by (auto simp: list_all_iff)
  then have fin: "list_all isfinite xs" by (auto simp: list_all_iff) (metis isfinite.simps(1))
  have "mean_square (map qval xs) \<le> 2" using u assms(2) by (intro mean_square_le) (auto simp: list_all_iff)
  moreover have m: "0 < m" "mean_square (map qval xs) = of_int n / of_int m"
    using nm quotient_of_denom_pos quotient_of_div by auto
  ultimately have "(of_int n :: rat) \<le> of_int (2 * m)" by (simp add: divide_le_eq)
  then have "n \<le> 2 * m" by (simp only: of_int_le_iff)
  then show ?thesis using float_sqrt_small [OF _ m(1)] fin nm by (simp add: stdev_def)
qed

text \<open>The sum of a prefix of prices never leaves the range of a float.\<close>

lemma sum_prices:
  assumes "list_all unit_price xs" "length xs \<le> 2 ^ 40"
  shows "0 \<le> sum_list (map qval xs) \<and> sum_list (map qval xs) \<le> of_nat (length xs) \<and> math_fsum xs = Inr (rnd (sum_list (map qval xs)))"
proof -
  have u: "\<forall>x \<in> set xs. x = Fin (qval x) \<and> 0 \<le> qval x \<and> qval x \<le> 1" using assms(1) unit_qval by (auto simp: list_all_iff)
  have b: "0 \<le> sum_list (map qval (take n xs)) \<and> sum_list (map qval (take n xs)) \<le> of_nat (length (take n xs))" for n
  proof
    show "0 \<le> sum_list (map qval (take n xs))" using u by (intro sum_list_nonneg) (auto dest: in_set_takeD)
    have "sum_list (map qval (take n xs)) \<le> sum_list (map (\<lambda>q. 1) (take n xs))"
      using u by (intro sum_list_mono) (auto dest: in_set_takeD)
    then show "sum_list (map qval (take n xs)) \<le> of_nat (length (take n xs))" by (simp add: sum_list_triv)
  qed
  have fin: "list_all isfinite xs" using u by (auto simp: list_all_iff) (metis isfinite.simps(1))
  have "isfinite (rnd (sum_list (map qval (take n xs))))" for n
  proof -
    have "of_nat (length (take n xs)) \<le> (of_nat (2 ^ 40) :: rat)" using assms(2) by (intro of_nat_mono) simp
    then have "\<bar>sum_list (map qval (take n xs))\<bar> \<le> 2 ^ 52" using b [of n] by simp
    then show ?thesis by (simp add: rnd_in_range rr_moderate)
  qed
  then show ?thesis using b [of "length xs"] fin by (auto simp: math_fsum_def list_ex_iff)
qed

lemma fmean_unit:
  assumes "list_all unit_price xs" "length xs \<le> 2 ^ 40" "xs \<noteq> []"
  shows "\<exists>x. fmean xs = Inr x \<and> unit_price x"
proof -
  define n where "n = length xs"
  have n: "0 < n" "n \<le> 2 ^ 40" using assms by (auto simp: n_def)
  then have "rr (of_int (int n)) = of_int (int n)" by (intro rr_of_int) auto
  then have rn: "rr (of_nat n) = of_nat n" by simp
  have "\<bar>of_nat n :: rat\<bar> \<le> 2 ^ 52" using of_nat_mono [OF n(2), where ?'a = rat] by simp
  then have fn: "rnd (of_nat n) = Fin (of_nat n)" "f64 (Fin (of_nat n))" using rr_moderate [of "of_nat n"] rn by (auto simp: rnd_in_range f64_def)
  note s = sum_prices [OF assms(1,2), folded n_def]
  have "fle fzero (rnd (sum_list (map qval xs)))" "fle (rnd (sum_list (map qval xs))) (Fin (of_nat n))"
    using s by (auto intro: rnd_nonneg rnd_le_f64 [OF fn(2)])
  then obtain t where t: "rnd (sum_list (map qval xs)) = Fin t" "0 \<le> t" "t \<le> of_nat n"
    by (cases "rnd (sum_list (map qval xs))") auto
  have "fmean xs = Inr (rnd (t / of_nat n))" using s t n(1) by (simp add: fmean_def n_def [symmetric] fn py_div_def)
  moreover have "unit_price (rnd (t / of_nat n))" using t n(1) f64_1
    by (auto simp: unit_price_def intro!: rnd_nonneg rnd_le_f64)
  ultimately show ?thesis by blast
qed

section \<open>Usable signals\<close>

definition usable_signal :: "signal \<Rightarrow> bool" where
  "usable_signal s = (signal_ok s \<and> fle (Fin (- 1)) (score s) \<and> fle (score s) fone)"

definition in_band :: "pyfloat \<Rightarrow> bool" where
  "in_band x = (f64 x \<and> fle (Fin (- 1)) x \<and> fle x fone)"

text \<open>The hyperbolic tangent of a number is between minus one and one, infinities included.\<close>

definition tanh_ok :: "libm \<Rightarrow> bool" where
  "tanh_ok m = (\<forall>x. f64 x \<and> x \<noteq> NaN \<longrightarrow> in_band (m_tanh m x))"

lemma band_not_NaN: "in_band x \<Longrightarrow> x \<noteq> NaN" and unit_not_NaN: "unit_price x \<Longrightarrow> x \<noteq> NaN"
  by (auto simp: in_band_def unit_price_def dest: fle_not_NaN)

lemma make_usable:
  assumes "in_band x" "unit_price c" shows "\<exists>s. make_signal env asof x c w fs = Inr s \<and> usable_signal s"
proof -
  have "x \<noteq> NaN" "c \<noteq> NaN" using assms band_not_NaN unit_not_NaN by auto
  then show ?thesis using assms
    by (simp add: make_signal_def mk_signal_def usable_signal_def signal_ok_def in_band_def unit_price_def)
qed

lemma band_0: "in_band fzero" and unit_0: "unit_price fzero"
  by (simp_all add: in_band_def unit_price_def)

lemma neutral_usable: "\<exists>s. neutral env asof w = Inr s \<and> usable_signal s"
  unfolding neutral_def by (rule make_usable [OF band_0 unit_0])

lemma unit_consts: "unit_price (rnd (7 / 10))" "unit_price (rnd (6 / 10))" "unit_price (rnd (4 / 10))" "unit_price (rnd (9 / 10))"
  by (simp_all add: unit_price_def rnd_nonneg rnd_le_f64 [OF f64_1])

lemma unit_diff: assumes "unit_price x" "unit_price y" shows "in_band (fsub x y)"
proof -
  have "f64 (Fin (- 1))" by code_simp
  then show ?thesis using unit_qval [OF assms(1)] unit_qval [OF assms(2)]
    by (cases x; cases y) (auto simp: in_band_def fsub_def qval_def intro!: rnd_ge_f64 rnd_le_f64)
qed

section \<open>Momentum\<close>

lemma drift_number:
  assumes "list_all unit_price ps" "length ps \<le> 2 ^ 40" "ps \<noteq> []" shows "\<exists>x. drift_of ps = Inr x \<and> f64 x \<and> x \<noteq> NaN"
proof -
  have u: "unit_price (last ps)" using assms(1,3) by (simp add: list_all_iff)
  have "list_all unit_price (butlast ps)" using assms(1) by (auto simp: list_all_iff dest: in_set_butlastD)
  then obtain a where a: "(if 1 < length ps then fmean (butlast ps) else Inr (last ps)) = Inr a" "unit_price a"
    using fmean_unit [of "butlast ps"] u assms(2,3) by (cases ps) (auto split: if_splits)
  have "flt fzero MIN_ANCHOR" "isfinite MIN_ANCHOR" by code_simp+
  moreover have "\<exists>m. y = Fin m \<and> 0 < m" if "flt fzero y" "isfinite y" for y using that by (cases y) auto
  ultimately obtain m where m: "MIN_ANCHOR = Fin m" "0 < m" by blast
  obtain d where d: "fmax a MIN_ANCHOR = Fin d" "0 < d"
  proof
    have "fmax a (Fin m) = Fin (max (qval a) m)" using unit_qval [OF a(2)] by (cases a) (auto simp: fmax_def qval_def)
    then show "fmax a MIN_ANCHOR = Fin (max (qval a) m)" by (simp only: m(1))
    show "0 < max (qval a) m" using m(2) by simp
  qed
  obtain b where b: "fsub (last ps) a = Fin b" using unit_diff [OF u a(2)]
    by (cases "fsub (last ps) a") (auto simp: in_band_def)
  have "drift_of ps = Inr (rnd (b / d))" using d(2) unfolding drift_of_def a(1) rbind_Inr d(1) b py_div_def by simp
  then show ?thesis by simp
qed

lemma velocity_number:
  assumes "list_all (\<lambda>(t, p). snd t \<noteq> None \<and> unit_price p) snaps" "snaps \<noteq> []"
  shows "\<exists>q. velocity_of snaps = Inr (Fin q) \<and> \<bar>q\<bar> \<le> 1 \<and> f64 (Fin q)"
proof -
  obtain d where d: "stamp_diff (fst (last snaps)) (fst (hd snaps)) = Inr d"
  proof -
    have "snd (fst (last snaps)) \<noteq> None" "snd (fst (hd snaps)) \<noteq> None" using assms by (auto simp: list_all_iff case_prod_beta)
    then show thesis using that by (auto simp: stamp_diff_def)
  qed
  have "unit_price (snd (last snaps))" "unit_price (snd (hd snaps))" using assms by (auto simp: list_all_iff case_prod_beta)
  then have "in_band (fsub (snd (last snaps)) (snd (hd snaps)))" by (rule unit_diff)
  then obtain b where b: "fsub (snd (last snaps)) (snd (hd snaps)) = Fin b" "- 1 \<le> b" "b \<le> 1"
    by (cases "fsub (snd (last snaps)) (snd (hd snaps))") (auto simp: in_band_def)
  define y where "y = fmax (fdiv (total_seconds d) (Fin 3600)) fone"
  have "fdiv (total_seconds d) (Fin 3600) \<noteq> NaN" by (cases "total_seconds d") (auto simp: total_seconds_def rnd_def Let_def split: if_splits)
  then have y: "fle fone y" unfolding y_def by (intro fmax_ge_right) auto
  have v: "velocity_of snaps = (if feq y fzero then Inl ZeroDivisionError else Inr (fdiv (Fin b) y))"
    unfolding velocity_of_def d rbind_Inr b(1) y_def [symmetric] py_div_def by (rule refl)
  show ?thesis
  proof (cases y)
    case (Fin c)
    have f: "f64 (Fin 1)" "f64 (Fin (- 1))" by code_simp+
    have "- 1 \<le> b / c" "b / c \<le> 1" using y b(2,3) Fin by (auto simp: divide_le_eq le_divide_eq)
    then have "fle (Fin (- 1)) (rnd (b / c))" "fle (rnd (b / c)) (Fin 1)" using f by (auto intro: rnd_ge_f64 rnd_le_f64)
    then show ?thesis using v y Fin f64_rnd [of "b / c"] by (cases "rnd (b / c)") auto
  qed (use v y in auto)
qed

lemma tightness_unit:
  assumes "list_all unit_price ps" "ps \<noteq> []" shows "\<exists>x. tightness_of ps = Inr x \<and> unit_price x"
proof -
  obtain q where q: "(if 1 < length ps then stdev ps else Inr fzero) = Inr (Fin q)" "0 \<le> q"
    using stdev_small [OF assms(1)] by (cases "1 < length ps") auto
  have "fle fone (rnd (1 + q))" using q(2) by (intro rnd_ge_f64 f64_1) simp
  then have "feq (rnd (1 + q)) fzero = False \<and> unit_price (fdiv fone (rnd (1 + q)))"
    by (cases "rnd (1 + q)") (auto simp: unit_price_def intro!: rnd_nonneg rnd_le_f64)
  then show ?thesis unfolding tightness_of_def q(1) rbind_Inr by (simp add: py_div_def)
qed

lemma mixed_not_NaN:
  assumes "x \<noteq> NaN" "\<bar>v\<bar> \<le> 1" shows "fadd (fmul (rnd (6 / 10)) x) (fmul (rnd (4 / 10)) (Fin v)) \<noteq> NaN"
proof -
  obtain p q where c: "rnd (6 / 10) = Fin p" "0 < p" "rnd (4 / 10) = Fin q" "\<bar>q\<bar> \<le> 1"
  proof -
    have "isfinite (rnd (6 / 10)) \<and> flt fzero (rnd (6 / 10)) \<and> isfinite (rnd (4 / 10)) \<and> fle (fabs (rnd (4 / 10))) fone" by code_simp
    then show thesis using that by (cases "rnd (6 / 10)"; cases "rnd (4 / 10)") auto
  qed
  have "\<bar>q * v\<bar> \<le> 1" using c(4) assms(2) by (simp add: abs_mult mult_le_one)
  then obtain w where w: "rnd (q * v) = Fin w" using rnd_in_range [OF rr_moderate, of "q * v"] by auto
  have "fmul (Fin p) x \<noteq> NaN" using assms(1) c(2) by (cases x) (auto simp: inf_of_sign_def)
  then show ?thesis unfolding c(1,3) by (cases "fmul (Fin p) x") (simp_all add: w)
qed

lemma capped_unit:
  assumes "unit_price cap" "unit_price t" "0 < k" "f64 (Fin k)"
  shows "unit_price (fmin cap (fmul (fdiv (rnd (of_nat n)) (Fin k)) t))"
proof -
  define y where "y = fdiv (rnd (of_nat n)) (Fin k)"
  have "fle fzero (rnd (of_nat n))" by (rule rnd_nonneg) simp
  then have "y = NaN \<or> fle fzero y" unfolding y_def using assms(3) by (intro fdiv_nonneg) auto
  moreover obtain q where q: "t = Fin q" "0 \<le> q" using unit_qval [OF assms(2)] by metis
  ultimately have "fmul y t = NaN \<or> fle fzero (fmul y t)" by (cases y) (auto simp: inf_of_sign_def intro: rnd_nonneg)
  moreover have "f64 (fmul y t)" using assms(2,4) unfolding unit_price_def y_def by (intro f64_fmul f64_fdiv f64_rnd) simp_all
  ultimately show ?thesis using assms(1) unfolding y_def [symmetric]
    by (cases "flt (fmul y t) cap") (auto simp: unit_price_def fmin_def intro: fle_trans flt_imp_fle)
qed

lemma momentum_usable:
  assumes "tanh_ok (so_libm env)" "list_all (\<lambda>(t, p). snd t \<noteq> None \<and> unit_price p) snaps" "length snaps \<le> 2 ^ 40"
  shows "\<exists>s. momentum_signal env snaps asof = Inr s \<and> usable_signal s"
proof (cases "snaps = []")
  case True
  then show ?thesis using neutral_usable by (simp add: momentum_signal_def)
next
  case False
  have ps: "list_all unit_price (map snd snaps)" using assms(2) by (auto simp: list_all_iff)
  obtain dr where dr: "drift_of (map snd snaps) = Inr dr" "f64 dr" "dr \<noteq> NaN" using drift_number [OF ps] assms(3) False by auto
  obtain v where v: "velocity_of snaps = Inr (Fin v)" "\<bar>v\<bar> \<le> 1" "f64 (Fin v)" using velocity_number [OF assms(2) False] by auto
  obtain ti where ti: "tightness_of (map snd snaps) = Inr ti" "unit_price ti" using tightness_unit [OF ps] False by auto
  let ?x = "fadd (fmul (rnd (6 / 10)) dr) (fmul (rnd (4 / 10)) (Fin v))"
  let ?c = "fmin fone (fmul (fdiv (rnd (of_nat (length snaps))) (Fin 24)) ti)"
  have "f64 ?x" using dr(2) v(3) by (intro f64_fadd f64_fmul f64_rnd)
  then have "in_band (m_tanh (so_libm env) ?x)" using assms(1) mixed_not_NaN [OF dr(3) v(2)] by (simp add: tanh_ok_def)
  moreover have "unit_price ?c" by (rule capped_unit [OF _ ti(2)]) (simp add: unit_price_def, simp, code_simp)
  ultimately have "\<exists>s. make_signal env asof (m_tanh (so_libm env) ?x) ?c w fs = Inr s \<and> usable_signal s" for w fs by (rule make_usable)
  then show ?thesis using False by (simp add: momentum_signal_def Let_def dr v ti)
qed

section \<open>The corpus\<close>

text \<open>Files that load, dates that parse, matches of the past whose day had begun at the cutoff, points that are numbers.\<close>

definition match_known :: "corpus \<Rightarrow> stamp \<Rightarrow> match_row \<Rightarrow> bool" where
  "match_known co asof m =
     (past_match co asof m \<longrightarrow> (case co_to_datetime co (mt_tourney_date m) of None \<Rightarrow> False | Some d \<Rightarrow> d \<le> instant asof))"

definition rank_known :: "corpus \<Rightarrow> rank_row \<Rightarrow> bool" where
  "rank_known co r = (co_to_datetime co (rk_date r) \<noteq> None \<and> (case points_of r of None \<Rightarrow> True | Some x \<Rightarrow> num x))"

definition corpus_ok :: "corpus \<Rightarrow> int \<times> int \<Rightarrow> stamp \<Rightarrow> bool" where
  "corpus_ok co yr asof =
     (snd asof \<noteq> None \<and> fst yr \<le> snd yr \<and>
      list_all (\<lambda>t. list_all (\<lambda>y. case co_matches co t y of Inl e \<Rightarrow> False | Inr ms \<Rightarrow> list_all (match_known co asof) ms) [fst yr..snd yr] \<and>
                    (case co_rankings co t of Inl e \<Rightarrow> False | Inr rs \<Rightarrow> list_all (rank_known co) rs)) [ATP, WTA])"

lemma rmap_all_ok: "(\<And>x. x \<in> set xs \<Longrightarrow> \<exists>y. f x = Inr y \<and> P y) \<Longrightarrow> \<exists>ys. rmap f xs = Inr ys \<and> list_all P ys"
proof (induction xs)
  case (Cons x xs)
  then obtain y ys where "f x = Inr y" "P y" "rmap f xs = Inr ys" "list_all P ys" by (metis list.set_intros)
  then show ?case by simp
qed simp

lemma corpus_tour:
  assumes "corpus_ok co yr asof"
  shows "\<exists>ms. load_matches co t yr = Inr ms \<and> list_all (match_known co asof) ms"
    and "\<exists>rs. co_rankings co t = Inr rs \<and> list_all (rank_known co) rs"
proof -
  have t: "t \<in> set [ATP, WTA]" by (cases t) simp_all
  have "\<exists>ms. co_matches co t y = Inr ms \<and> list_all (match_known co asof) ms" if "y \<in> set [fst yr..snd yr]" for y
  proof -
    have "case co_matches co t y of Inl e \<Rightarrow> False | Inr ms \<Rightarrow> list_all (match_known co asof) ms"
      using assms t that unfolding corpus_ok_def list_all_iff [of _ "[ATP, WTA]"] list_all_iff [of _ "[fst yr..snd yr]"] by blast
    then show ?thesis by (cases "co_matches co t y") auto
  qed
  then obtain fs where "rmap (co_matches co t) [fst yr..snd yr] = Inr fs" "list_all (list_all (match_known co asof)) fs"
    using rmap_all_ok [of "[fst yr..snd yr]" "co_matches co t" "list_all (match_known co asof)"] by metis
  then show "\<exists>ms. load_matches co t yr = Inr ms \<and> list_all (match_known co asof) ms"
    using assms by (auto simp: load_matches_def corpus_ok_def list_all_iff)
  show "\<exists>rs. co_rankings co t = Inr rs \<and> list_all (rank_known co) rs"
    using assms t unfolding corpus_ok_def list_all_iff [of _ "[ATP, WTA]"] by (auto split: sum.splits)
qed

lemma rankings_ok:
  assumes "corpus_ok co yr asof" shows "\<exists>rs. load_rankings co t asof = Inr rs \<and> list_all (rank_known co) rs"
proof -
  obtain rs where rs: "co_rankings co t = Inr rs" "list_all (rank_known co) rs" using corpus_tour(2) [OF assms] by blast
  have "\<exists>y. dated co r = Inr y \<and> rank_known co (snd y)" if "r \<in> set rs" for r
    using rs(2) that by (auto simp: list_all_iff rank_known_def dated_def)
  then obtain ds where "rmap (dated co) rs = Inr ds" "list_all (\<lambda>y. rank_known co (snd y)) ds"
    using rmap_all_ok [of rs "dated co" "\<lambda>y. rank_known co (snd y)"] by blast
  then show ?thesis using assms rs(1) by (auto simp: load_rankings_def require_asof_then corpus_ok_def list_all_iff)
qed

lemma points_ok:
  assumes "corpus_ok co yr asof" shows "\<exists>a. points_in co pid asof ts = Inr a \<and> (case a of None \<Rightarrow> True | Some x \<Rightarrow> num x)"
proof (induction ts)
  case (Cons t ts)
  obtain rs where rs: "load_rankings co t asof = Inr rs" "list_all (rank_known co) rs" using rankings_ok [OF assms] by blast
  define hits where "hits = filter (\<lambda>r. py_strip (rk_player r) = py_strip pid) rs"
  show ?case
  proof (cases "hits = []")
    case True
    then show ?thesis using Cons.IH rs(1) by (simp add: hits_def)
  next
    case False
    then have "last (sort_key rk_date hits) \<in> set hits" using last_in_set [of "sort_key rk_date hits"] by (metis set_sort set_empty)
    then have "rank_known co (last (sort_key rk_date hits))" using rs(2) by (auto simp: hits_def list_all_iff)
    then show ?thesis using False rs(1) by (auto simp: hits_def rank_known_def Let_def)
  qed
qed simp

lemma elo_usable:
  assumes "corpus_ok (so_corpus env) (so_years env) asof" "tanh_ok (so_libm env)"
  shows "\<exists>s. elo_signal env pa pb asof = Inr s \<and> usable_signal s"
proof -
  obtain a b where ab: "latest_rank_points (so_corpus env) pa asof = Inr a" "latest_rank_points (so_corpus env) pb asof = Inr b"
      "case a of None \<Rightarrow> True | Some x \<Rightarrow> num x" "case b of None \<Rightarrow> True | Some x \<Rightarrow> num x"
    unfolding latest_rank_points_def using points_ok [OF assms(1)] by metis
  define d where "d = (case (a, b) of (Some x, Some y) \<Rightarrow> fsub x y | _ \<Rightarrow> fzero)"
  have d: "f64 d" "d \<noteq> NaN" using ab(3,4) unfolding d_def by (cases a; cases b; auto simp: fsub_def elim!: numE)+
  have "compute_elo_diff (so_corpus env) pa pb asof = Inr d"
    using assms(1) ab by (simp add: compute_elo_diff_def require_asof_then corpus_ok_def d_def)
  moreover have "in_band (m_tanh (so_libm env) (fdiv d (Fin 3000)))"
  proof -
    have "f64 (Fin 3000)" by code_simp
    then have "f64 (fdiv d (Fin 3000))" using d(1) by (rule f64_fdiv [rotated])
    moreover have "fdiv d (Fin 3000) \<noteq> NaN" using d(2) by (cases d) auto
    ultimately show ?thesis using assms(2) by (simp add: tanh_ok_def)
  qed
  moreover have "unit_price (if feq d fzero then fzero else rnd (7 / 10))" using unit_0 unit_consts by simp
  ultimately show ?thesis unfolding elo_signal_def by (simp add: make_usable)
qed

lemma history_ok:
  assumes "corpus_ok co yr asof" shows "\<exists>hist. player_match_history co pid asof yr = Inr hist"
proof -
  obtain a w where aw: "load_matches co ATP yr = Inr a" "load_matches co WTA yr = Inr w"
      "list_all (match_known co asof) a" "list_all (match_known co asof) w" using corpus_tour(1) [OF assms] by metis
  define c where "c = filter (\<lambda>m. py_strip (mt_tourney_date m) \<le> co_strftime co (fst asof))
     (filter (plays (py_strip pid)) (require_valid_player_ids a) @ filter (plays (py_strip pid)) (require_valid_player_ids w))"
  have "\<exists>d. available_of co m = Inr d \<and> d \<le> instant asof" if "m \<in> set c" for m
    using that aw(3,4) by (auto simp: c_def require_valid_player_ids_def list_all_iff match_known_def past_match_def available_of_def split: option.splits)
  then obtain ds where "rmap (available_of co) c = Inr ds" "list_all (\<lambda>d. d \<le> instant asof) ds"
    using rmap_all_ok [of c "available_of co" "\<lambda>d. d \<le> instant asof"] by blast
  moreover have "player_match_history co pid asof yr = (if c = [] then Inr [] else rbind (rmap (available_of co) c) (\<lambda>avail.
      rbind (assert_no_lookahead avail asof) (\<lambda>u. Inr (sort_key mt_tourney_date c))))"
    unfolding player_match_history_def aw(1,2) rbind_Inr Let_def c_def by (rule refl)
  moreover obtain z where "snd asof = Some z" using assms by (auto simp: corpus_ok_def)
  ultimately show ?thesis by (simp add: assert_no_lookahead_def require_asof_then guard_res_def)
qed

lemma ratio_unit: "a \<le> b \<Longrightarrow> 0 < b \<Longrightarrow> unit_price (ratio a b)"
  by (auto simp: unit_price_def ratio_def intro!: rnd_nonneg rnd_le_f64)

lemma half_unit: "unit_price (Fin (1 / 2))"
  by code_simp

lemma surface_rate_unit:
  assumes "corpus_ok co yr asof" "0 < window" shows "\<exists>x. surface_rate co pid surface asof window yr = Inr x \<and> unit_price x"
proof -
  obtain hist where h: "player_match_history co pid asof yr = Inr hist" using history_ok [OF assms(1)] by blast
  define s where "s = filter (\<lambda>m. py_lower (py_strip (mt_surface m)) = py_lower (py_strip surface)) hist"
  have r: "surface_rate co pid surface asof window yr =
      (if s = [] then Inr (Fin (1 / 2))
       else Inr (ratio (length (filter (\<lambda>m. py_strip (mt_winner_id m) = py_strip pid) (last_n window s))) (length (last_n window s))))"
    unfolding surface_rate_def h rbind_Inr Let_def s_def by (rule refl)
  have "s \<noteq> [] \<Longrightarrow> 0 < length (last_n window s)" using assms(2) by (cases s) (auto simp: last_n_def)
  then show ?thesis using ratio_unit [OF length_filter_le] half_unit by (cases "s = []") (simp_all add: r)
qed

lemma surface_usable:
  assumes "corpus_ok (so_corpus env) (so_years env) asof"
  shows "\<exists>s. surface_signal env pa pb surf asof = Inr s \<and> usable_signal s"
proof -
  have w: "0 < SURFACE_WINDOW" by (simp add: SURFACE_WINDOW_def)
  obtain x y where xy: "surface_rate (so_corpus env) pa surf asof SURFACE_WINDOW (so_years env) = Inr x" "unit_price x"
    "surface_rate (so_corpus env) pb surf asof SURFACE_WINDOW (so_years env) = Inr y" "unit_price y"
    using surface_rate_unit [OF assms w] by metis
  have "compute_surface_advantage (so_corpus env) pa pb surf asof SURFACE_WINDOW (so_years env) = Inr (fsub x y)"
    using assms w xy by (simp add: compute_surface_advantage_def require_asof_then corpus_ok_def)
  moreover have "in_band (fsub x y)" using xy(2,4) by (rule unit_diff)
  moreover have "unit_price (if feq (fsub x y) fzero then fzero else rnd (6 / 10))" using unit_0 unit_consts by simp
  ultimately show ?thesis unfolding surface_signal_def by (simp add: make_usable)
qed

lemma win_rate_band: assumes "unit_price w" shows "in_band (fmul (Fin 2) (fsub w (Fin (1 / 2))))"
proof -
  obtain q where q: "w = Fin q" "0 \<le> q" "q \<le> 1" using unit_qval [OF assms] by metis
  have f: "f64 (Fin (1 / 2))" "f64 (Fin (- (1 / 2)))" "f64 (Fin (- 1))" by code_simp+
  have "fle (Fin (- (1 / 2))) (rnd (q - 1 / 2))" using q(2) by (intro rnd_ge_f64 [OF f(2)]) simp
  moreover have "fle (rnd (q - 1 / 2)) (Fin (1 / 2))" using q(3) by (intro rnd_le_f64 [OF f(1)]) simp
  ultimately obtain d where d: "fsub w (Fin (1 / 2)) = Fin d" "- (1 / 2) \<le> d" "d \<le> 1 / 2"
    by (cases "rnd (q - 1 / 2)") (auto simp: q fsub_def)
  then show ?thesis using f(3) f64_1 by (auto simp: in_band_def d(1) intro!: rnd_ge_f64 rnd_le_f64)
qed

lemma h2h_usable:
  assumes "corpus_ok (so_corpus env) (so_years env) asof"
  shows "\<exists>s. h2h_signal env pa pb asof = Inr s \<and> usable_signal s"
proof -
  obtain r where r: "compute_h2h (so_corpus env) pa pb asof (so_years env) = Inr r"
    "case h2h_p1_win_rate r of None \<Rightarrow> True | Some w \<Rightarrow> unit_price w"
  proof -
    obtain hist where h: "player_match_history (so_corpus env) (py_strip pa) asof (so_years env) = Inr hist" using history_ok [OF assms] by blast
    show thesis
      by (rule that) (use assms h in \<open>auto simp: compute_h2h_def require_asof_then corpus_ok_def Let_def intro!: ratio_unit\<close>)
  qed
  define x where "x = (case h2h_p1_win_rate r of None \<Rightarrow> fzero | Some w \<Rightarrow> fmul (Fin 2) (fsub w (Fin (1 / 2))))"
  define c where "c = fmin (rnd (9 / 10)) (fmul (fdiv (rnd (of_nat (h2h_total r))) (Fin 5)) (rnd (6 / 10)))"
  have "in_band x" using r(2) band_0 win_rate_band by (auto simp: x_def split: option.splits)
  moreover have "unit_price c" unfolding c_def by (rule capped_unit [OF unit_consts(4,2)]) (simp, code_simp)
  ultimately show ?thesis unfolding h2h_signal_def r(1) rbind_Inr Let_def x_def [symmetric] c_def [symmetric] by (rule make_usable)
qed

lemma rest_usable:
  assumes "corpus_ok (so_corpus env) (so_years env) asof" "tanh_ok (so_libm env)"
  shows "\<exists>s. rest_signal env pa pb asof = Inr s \<and> usable_signal s"
proof -
  have "\<exists>d. compute_days_since_last_match (so_corpus env) p asof (so_years env) = Inr d" for p
    using history_ok [OF assms(1), of p] assms(1)
    by (auto simp: compute_days_since_last_match_def require_asof_then corpus_ok_def Let_def cong: if_cong)
  then obtain d1 d2 where d: "compute_days_since_last_match (so_corpus env) pa asof (so_years env) = Inr d1"
    "compute_days_since_last_match (so_corpus env) pb asof (so_years env) = Inr d2" by metis
  have "in_band (m_tanh (so_libm env) (fdiv (rnd q) (Fin 14)))" for q
  proof -
    have "f64 (Fin 14)" by code_simp
    then have "f64 (fdiv (rnd q) (Fin 14))" by (intro f64_fdiv f64_rnd)
    moreover have "fdiv (rnd q) (Fin 14) \<noteq> NaN" using rnd_not_NaN [of q] by (cases "rnd q") auto
    ultimately show ?thesis using assms(2) by (simp add: tanh_ok_def)
  qed
  then show ?thesis using neutral_usable make_usable unit_consts(3)
    by (cases d1; cases d2) (simp_all add: rest_signal_def d)
qed

section \<open>Every slot\<close>

definition point_ok :: "iso_parser \<Rightarrow> price_point \<Rightarrow> bool" where
  "point_ok isop pp = ((case isop (pp_ts pp) of None \<Rightarrow> False | Some t \<Rightarrow> snd t \<noteq> None) \<and> unit_price (pp_mid_price pp))"

lemma snapshots_ok:
  assumes "list_all (point_ok isop) ledger" "snd asof \<noteq> None"
  shows "\<exists>snaps. snapshots_until isop ledger asof = Inr snaps \<and> length snaps \<le> length ledger \<and>
    list_all (\<lambda>(t, p). snd t \<noteq> None \<and> unit_price p) snaps"
proof -
  define read where "read = (\<lambda>pp :: price_point. rbind (from_iso isop (pp_ts pp)) (\<lambda>t. rbind (stamp_diff t asof) (\<lambda>d. Inr (d, t, pp_mid_price pp))))"
  have "\<exists>y. read pp = Inr y \<and> snd (fst (snd y)) \<noteq> None \<and> unit_price (snd (snd y))" if "pp \<in> set ledger" for pp
    using assms that by (fastforce simp: read_def list_all_iff point_ok_def from_iso_def stamp_diff_def split: option.splits)
  then have "\<exists>ys. rmap read ledger = Inr ys \<and> list_all (\<lambda>y. snd (fst (snd y)) \<noteq> None \<and> unit_price (snd (snd y))) ys"
    by (rule rmap_all_ok)
  then obtain ys where ys: "rmap read ledger = Inr ys" "list_all (\<lambda>y. snd (fst (snd y)) \<noteq> None \<and> unit_price (snd (snd y))) ys"
    by blast
  then have run: "snapshots_until isop ledger asof = Inr (map snd (filter (\<lambda>(d, t, p). d \<le> 0) ys))"
    by (simp add: snapshots_until_def read_def)
  have "length ys = length ledger" using ys(1) list_all2_lengthD by (fastforce simp: rmap_eq_Inr)
  then have "length (filter P ys) \<le> length ledger" for P using length_filter_le [of P ys] by simp
  then show ?thesis using ys(2) by (auto simp: run list_all_iff)
qed

text \<open>Over a corpus and a ledger that are in order the source never raises: at an aware instant it fills all five slots,
  each with a score between minus one and one and a confidence in the unit interval.\<close>

theorem signals_always_usable:
  assumes "tanh_ok (so_libm env)" "corpus_ok (so_corpus env) (so_years env) asof"
    and "list_all (point_ok (so_isop env)) ledger" "length ledger \<le> 2 ^ 40"
  shows "\<exists>sigs. signals_for env (slug, ledger) asof = Inr sigs \<and> missing_engines sigs = [] \<and> list_all (\<lambda>(n, s). usable_signal s) sigs"
proof -
  have aware: "snd asof \<noteq> None" using assms(2) by (simp add: corpus_ok_def)
  obtain snaps where snaps: "snapshots_until (so_isop env) ledger asof = Inr snaps" "length snaps \<le> 2 ^ 40"
      "list_all (\<lambda>(t, p). snd t \<noteq> None \<and> unit_price p) snaps"
    using snapshots_ok [OF assms(3) aware] assms(4) le_trans by blast
  obtain mom where mom: "momentum_signal env snaps asof = Inr mom" "usable_signal mom" using momentum_usable [OF assms(1) snaps(3,2)] by blast
  obtain n1 n2 n3 n4 where n: "neutral env asof (Unresolved TENNIS_TECHNICAL) = Inr n1" "neutral env asof (Unresolved SURFACE_ADVANTAGE) = Inr n2"
      "neutral env asof (Unresolved HEAD_TO_HEAD) = Inr n3" "neutral env asof (Unresolved REST_RECENCY) = Inr n4"
      "usable_signal n1" "usable_signal n2" "usable_signal n3" "usable_signal n4" using neutral_usable by metis
  have head: "signals_for env (slug, ledger) asof =
      (case resolve_slug (so_norm env) (so_name_index env) slug of
         None \<Rightarrow> Inr ((MARKET_MOMENTUM, mom) # zip [TENNIS_TECHNICAL, SURFACE_ADVANTAGE, HEAD_TO_HEAD, REST_RECENCY] [n1, n2, n3, n4])
       | Some rm \<Rightarrow>
           rbind (elo_signal env (rm_p1_id rm) (rm_p2_id rm) asof) (\<lambda>e.
           rbind (surface_signal env (rm_p1_id rm) (rm_p2_id rm) (rm_surface rm) asof) (\<lambda>s.
           rbind (h2h_signal env (rm_p1_id rm) (rm_p2_id rm) asof) (\<lambda>h.
           rbind (rest_signal env (rm_p1_id rm) (rm_p2_id rm) asof) (\<lambda>r.
             Inr [(MARKET_MOMENTUM, mom), (TENNIS_TECHNICAL, e), (SURFACE_ADVANTAGE, s), (HEAD_TO_HEAD, h), (REST_RECENCY, r)])))))"
    unfolding signals_for_def fst_conv snd_conv snaps(1) mom(1) rbind_Inr rmap.simps n(1-4) by (rule refl)
  have full: "missing_engines [(MARKET_MOMENTUM, a), (TENNIS_TECHNICAL, b), (SURFACE_ADVANTAGE, c), (HEAD_TO_HEAD, d), (REST_RECENCY, e)] = []" for a b c d e
    by (simp add: missing_engines_def RATIONAL_ENGINES_def SENTIENT_ENGINES_def)
  show ?thesis
  proof (cases "resolve_slug (so_norm env) (so_name_index env) slug")
    case None
    then show ?thesis using full mom(2) n(5-8) by (simp add: head)
  next
    case (Some rm)
    obtain e s h r where f: "elo_signal env (rm_p1_id rm) (rm_p2_id rm) asof = Inr e" "usable_signal e"
        "surface_signal env (rm_p1_id rm) (rm_p2_id rm) (rm_surface rm) asof = Inr s" "usable_signal s"
        "h2h_signal env (rm_p1_id rm) (rm_p2_id rm) asof = Inr h" "usable_signal h" "rest_signal env (rm_p1_id rm) (rm_p2_id rm) asof = Inr r" "usable_signal r"
      using elo_usable [OF assms(2,1)] surface_usable [OF assms(2)] h2h_usable [OF assms(2)] rest_usable [OF assms(2,1)] by metis
    then show ?thesis using Some full mom(2) by (simp add: head)
  qed
qed

section \<open>A corpus in order\<close>

definition demo_match :: "string \<Rightarrow> string \<Rightarrow> string \<Rightarrow> match_row" where
  "demo_match date w l = \<lparr>mt_tourney_date = date, mt_match_num = ''1'', mt_surface = ''Clay'', mt_winner_id = w, mt_winner_name = w,
     mt_loser_id = l, mt_loser_name = l\<rparr>"

text \<open>Two matches of the past and one of the future between the players 7 and 9, and a ranking of each.\<close>

definition demo_corpus :: corpus where
  "demo_corpus =
     \<lparr>co_matches = (\<lambda>t y. Inr (if t = ATP then [demo_match ''20240501'' ''7'' ''9'', demo_match ''20240508'' ''9'' ''7'', demo_match ''20240701'' ''7'' ''9''] else [])),
      co_rankings = (\<lambda>t. Inr (if t = ATP then [\<lparr>rk_date = ''20240501'', rk_rank = ''1'', rk_player = ''7'', rk_points = ''1500''\<rparr>,
        \<lparr>rk_date = ''20240501'', rk_rank = ''2'', rk_player = ''9'', rk_points = ''900''\<rparr>] else [])),
      co_to_datetime = (\<lambda>s. if s = ''20240501'' then Some 0 else if s = ''20240508'' then Some (7 * DAY_US) else if s = ''20240701'' then Some (61 * DAY_US) else None),
      co_strptime = (\<lambda>s. if s = ''20240501'' then Some 0 else if s = ''20240508'' then Some (7 * DAY_US) else None),
      co_strftime = (\<lambda>t. ''20240601'')\<rparr>"

definition demo_now :: stamp where "demo_now = (31 * DAY_US, Some 0)"

definition demo_env :: source_env where
  "demo_env = \<lparr>so_libm = demo_libm, so_nv = False, so_isop = (\<lambda>s. Some (30 * DAY_US, Some 0)), so_isoformat = (\<lambda>s. ''now''), so_text = (\<lambda>w. ''why''),
     so_norm = py_lower, so_name_index = [(''sinner'', ''7''), (''nadal'', ''9'')], so_corpus = demo_corpus, so_years = (2024, 2024)\<rparr>"

lemma demo_in_order: "corpus_ok demo_corpus (2024, 2024) demo_now" "list_all (point_ok (so_isop demo_env)) [\<lparr>pp_ts = ''t'', pp_mid_price = Fin (1 / 2)\<rparr>]"
  by code_simp+

lemma demo_tanh_ok: "tanh_ok demo_libm"
proof -
  have "in_band (Fin (- 1))" "in_band fzero" "in_band fone" by code_simp+
  then show ?thesis by (auto simp: tanh_ok_def demo_libm_def sgn_if split: pyfloat.split)
qed

lemma demo_usable:
  "\<exists>sigs. signals_for demo_env (''atp-rome-Sinner-vs-Nadal'', [\<lparr>pp_ts = ''t'', pp_mid_price = Fin (1 / 2)\<rparr>]) demo_now = Inr sigs \<and> missing_engines sigs = []"
proof -
  have e: "so_libm demo_env = demo_libm" "so_corpus demo_env = demo_corpus" "so_years demo_env = (2024, 2024)" by (simp_all add: demo_env_def)
  show ?thesis
    using signals_always_usable [of demo_env demo_now "[\<lparr>pp_ts = ''t'', pp_mid_price = Fin (1 / 2)\<rparr>]" "''atp-rome-Sinner-vs-Nadal''"]
      demo_in_order demo_tanh_ok unfolding e by auto
qed

text \<open>The rank gap is 600 points, each has beaten the other once, the last match on clay went to the second, 24 days ago.\<close>

lemma demo_facets:
  "compute_elo_diff demo_corpus ''7'' ''9'' demo_now = Inr (Fin 600)"
  "compute_surface_advantage demo_corpus ''7'' ''9'' ''clay'' demo_now 1 (2024, 2024) = Inr (Fin (- 1))"
  "compute_h2h demo_corpus ''7'' ''9'' demo_now (2024, 2024) =
     Inr \<lparr>h2h_p1_wins = 1, h2h_p2_wins = 1, h2h_total = 2, h2h_p1_win_rate = Some (Fin (1 / 2))\<rparr>"
  "compute_days_since_last_match demo_corpus ''7'' demo_now (2024, 2024) = Inr (Some 24)"
  by code_simp+

end
