(* ===== verification/LiveInput.thy ===== *)
theory LiveInput
  imports SignalBounds
begin

text \<open>
  The live tick source (\<open>runtime/live_tick_input_source.py\<close>): discovery of open markets, the order book quote, the
  rolling price ledger, the orientation of a market's players to its YES token, and the inputs of a tick.
\<close>

section \<open>Discovery\<close>

record live_market =
  lm_market_id :: string
  lm_condition_id :: string
  lm_slug :: string
  lm_yes_token_id :: string
  lm_no_token_id :: string
  lm_yes_label :: string
  lm_no_label :: string
  lm_end_date_iso :: "string option"

text \<open>\<open>json.loads\<close>, \<open>str\<close> of a value and the HTTP fetchers are outside.\<close>

record live_env =
  li_source :: source_env
  li_loads :: "string \<Rightarrow> json option"
  li_str :: "json \<Rightarrow> string"
  li_fetch :: "string \<Rightarrow> json res"
  li_limit :: int
  li_tag_slug :: string
  li_head_to_head_only :: bool
  li_fee_bps :: pyfloat

definition parse_json_list :: "live_env \<Rightarrow> json \<Rightarrow> string list" where
  "parse_json_list env raw =
     (case raw of
        JList xs \<Rightarrow> map (li_str env) xs
      | JStr s \<Rightarrow> (case li_loads env s of Some (JList xs) \<Rightarrow> map (li_str env) xs | _ \<Rightarrow> [])
      | _ \<Rightarrow> [])"

text \<open>A boolean is an integer in Python, so it passes as an identifier.\<close>

definition market_key :: "live_env \<Rightarrow> json \<Rightarrow> string option" where
  "market_key env v = (case v of JStr s \<Rightarrow> Some (li_str env v) | JInt n \<Rightarrow> Some (li_str env v) | JBool b \<Rightarrow> Some (li_str env v) | _ \<Rightarrow> None)"

definition parse_market :: "live_env \<Rightarrow> row \<Rightarrow> live_market option" where
  "parse_market env m =
     (if jget m ''closed'' = JBool True then None
      else
        let tokens = parse_json_list env (jget m ''clobTokenIds'');
            outcomes = parse_json_list env (jget m ''outcomes'')
        in case (market_key env (jget m ''id''), jget m ''conditionId'', jget m ''slug'') of
             (Some k, JStr condition, JStr slug) \<Rightarrow>
               if length tokens < 2 \<or> length outcomes < 2 then None
               else Some \<lparr>lm_market_id = k, lm_condition_id = condition, lm_slug = slug,
                 lm_yes_token_id = tokens ! 0, lm_no_token_id = tokens ! 1,
                 lm_yes_label = outcomes ! 0, lm_no_label = outcomes ! 1,
                 lm_end_date_iso = (case jget m ''endDate'' of JStr e \<Rightarrow> Some e | _ \<Rightarrow> None)\<rparr>
           | _ \<Rightarrow> None)"

definition dicts_in :: "json \<Rightarrow> row list" where
  "dicts_in j = (case j of JList xs \<Rightarrow> List.map_filter (\<lambda>x. case x of JDict d \<Rightarrow> Some d | _ \<Rightarrow> None) xs | _ \<Rightarrow> [])"

definition parse_open_tennis_markets :: "live_env \<Rightarrow> json \<Rightarrow> live_market list" where
  "parse_open_tennis_markets env payload =
     (let events = (case payload of JDict d \<Rightarrow> dicts_in (jget d ''data'') | _ \<Rightarrow> dicts_in payload)
      in List.map_filter (parse_market env) (concat (map (\<lambda>ev. dicts_in (jget ev ''markets'')) events)))"

definition events_url :: "live_env \<Rightarrow> string" where
  "events_url env =
     ''https://gamma-api.polymarket.com/events?tag_slug='' @ li_tag_slug env @ ''&limit='' @ li_str env (JInt (li_limit env)) @
     ''&active=true&closed=false''"

definition discover :: "live_env \<Rightarrow> live_market list" where
  "discover env =
     (case li_fetch env (events_url env) of
        Inl e \<Rightarrow> []
      | Inr payload \<Rightarrow>
          filter (\<lambda>m. li_head_to_head_only env \<longrightarrow> parse_slug (so_norm (li_source env)) (lm_slug m) \<noteq> None)
            (parse_open_tennis_markets env payload))"

section \<open>The order book\<close>

record price_quote =
  pq_mid :: pyfloat
  pq_half_spread_frac :: pyfloat
  pq_liquidity_usd :: pyfloat

text \<open>A malformed level is skipped; an integer beyond the range of a float is not caught.\<close>

definition book_level :: "json \<Rightarrow> (pyfloat \<times> pyfloat) option res" where
  "book_level lv =
     (case lv of
        JDict d \<Rightarrow>
          (case rbind (json_float (jget d ''price'')) (\<lambda>p. rbind (json_float (jget d ''size'')) (\<lambda>z. Inr (p, z))) of
             Inr x \<Rightarrow> Inr (Some x)
           | Inl e \<Rightarrow> if caught e then Inr None else Inl e)
      | _ \<Rightarrow> Inr None)"

definition best_level :: "json \<Rightarrow> bool \<Rightarrow> (pyfloat \<times> pyfloat) option res" where
  "best_level levels want_max =
     (case levels of
        JList ls \<Rightarrow>
          rbind (rmap book_level ls) (\<lambda>xs.
            Inr (case List.map_filter id xs of
                   [] \<Rightarrow> None
                 | l # ls \<Rightarrow> Some (foldl (\<lambda>a b. if want_max then if flt (fst a) (fst b) then b else a
                                         else if flt (fst b) (fst a) then b else a) l ls)))
      | _ \<Rightarrow> Inr None)"

definition book_url :: "string \<Rightarrow> string" where
  "book_url token = ''https://clob.polymarket.com/book?token_id='' @ token"

definition quote_token :: "live_env \<Rightarrow> string \<Rightarrow> price_quote option res" where
  "quote_token env token =
     (case li_fetch env (book_url token) of
        Inr (JDict d) \<Rightarrow>
          rbind (best_level (jget d ''bids'') True) (\<lambda>b.
          rbind (best_level (jget d ''asks'') False) (\<lambda>a.
            case (b, a) of
              (Some (bp, bz), Some (ap, az)) \<Rightarrow>
                let mid = fdiv (fadd bp ap) (Fin 2) in
                if fle mid fzero then Inr None
                else Inr (Some \<lparr>pq_mid = mid,
                       pq_half_spread_frac = fdiv (fmax fzero (fdiv (fsub ap bp) (Fin 2))) mid,
                       pq_liquidity_usd = fadd (fmul bp bz) (fmul ap az)\<rparr>)
            | _ \<Rightarrow> Inr None))
      | _ \<Rightarrow> Inr None)"

section \<open>Ledger and orientation\<close>

record live_state =
  lt_known :: "(string, live_market) dict"
  lt_snaps :: "(string, string \<times> price_point list) dict"

definition mk_price_point :: "bool \<Rightarrow> string \<Rightarrow> pyfloat \<Rightarrow> price_point res" where
  "mk_price_point nv ts mid =
     (if pyd_ge nv fzero mid \<and> pyd_le nv fone mid then Inr \<lparr>pp_ts = ts, pp_mid_price = mid\<rparr> else Inl ValidationError)"

text \<open>The snapshot is created before the point is validated.\<close>

definition append_mid :: "live_env \<Rightarrow> live_market \<Rightarrow> stamp \<Rightarrow> pyfloat \<Rightarrow> live_state \<Rightarrow> unit res \<times> live_state" where
  "append_mid env m asof mid st =
     (let k = lm_market_id m;
          shot = (case dget (lt_snaps st) k of None \<Rightarrow> (lm_slug m, []) | Some s \<Rightarrow> s);
          st1 = st\<lparr>lt_snaps := dset k shot (lt_snaps st)\<rparr>
      in case mk_price_point (so_nv (li_source env)) (so_isoformat (li_source env) asof) mid of
           Inl e \<Rightarrow> (Inl e, st1)
         | Inr p \<Rightarrow> (Inr (), st\<lparr>lt_snaps := dset k (fst shot, snd shot @ [p]) (lt_snaps st)\<rparr>))"

definition orient :: "live_env \<Rightarrow> live_market \<Rightarrow> bool option res" where
  "orient env m =
     (let nf = so_norm (li_source env) in
      case parse_slug nf (lm_slug m) of
        None \<Rightarrow> Inr (Some True)
      | Some parsed \<Rightarrow>
          if resolve_slug nf (so_name_index (li_source env)) (lm_slug m) = None then Inr (Some True)
          else if lm_yes_label m = [] then Inr None
          else rbind (last_word (lm_yes_label m)) (\<lambda>w.
            Inr (if nf w = ps_p1_surname parsed then Some True
                 else if nf w = ps_p2_surname parsed then Some False else None)))"

fun scan :: "live_env \<Rightarrow> live_market list \<Rightarrow> (live_market \<times> bool) list \<Rightarrow> live_state \<Rightarrow>
    (live_market \<times> bool) list res \<times> live_state" where
  "scan env [] usable st = (Inr usable, st)"
| "scan env (m # ms) usable st =
     (let st1 = st\<lparr>lt_known := dset (lm_market_id m) m (lt_known st)\<rparr> in
      case orient env m of
        Inl e \<Rightarrow> (Inl e, st1)
      | Inr None \<Rightarrow> scan env ms usable st1
      | Inr (Some yes) \<Rightarrow> scan env ms (usable @ [(m, yes)]) st1)"

section \<open>The inputs of a tick\<close>

definition flipped :: "(string, signal) dict \<Rightarrow> (string, signal) dict" where
  "flipped sigs = map (\<lambda>(k, s). (k, s\<lparr>score := fneg (score s)\<rparr>)) sigs"

definition live_inputs :: "live_env \<Rightarrow> live_market \<Rightarrow> bool \<Rightarrow> price_quote \<Rightarrow> stamp \<Rightarrow> live_state \<Rightarrow> tick_inputs res \<times> live_state" where
  "live_inputs env m yes q asof st =
     (case append_mid env m asof (if yes then pq_mid q else fsub fone (pq_mid q)) st of
        (Inl e, st1) \<Rightarrow> (Inl e, st1)
      | (Inr u, st1) \<Rightarrow>
          (rbind (signals_for (li_source env) (the (dget (lt_snaps st1) (lm_market_id m))) asof) (\<lambda>sigs.
             Inr \<lparr>ti_market_id = lm_market_id m, ti_signals = (if yes then sigs else flipped sigs), ti_price = pq_mid q,
                  ti_liquidity_cap_usd = pq_liquidity_usd q, ti_cross_market_signal = fzero, ti_fill_price = Some (pq_mid q),
                  ti_fee_bps = Some (li_fee_bps env), ti_half_spread_frac = Some (pq_half_spread_frac q)\<rparr>), st1))"

definition inputs_for_live :: "live_env \<Rightarrow> stamp \<Rightarrow> nat \<Rightarrow> live_state \<Rightarrow> tick_inputs option res \<times> live_state" where
  "inputs_for_live env asof tick_no st =
     (case scan env (discover env) [] st of
        (Inl e, st1) \<Rightarrow> (Inl e, st1)
      | (Inr usable, st1) \<Rightarrow>
          if usable = [] then (Inr None, st1)
          else case usable ! (tick_no mod length usable) of (m, yes) \<Rightarrow>
            (case quote_token env (lm_yes_token_id m) of
               Inl e \<Rightarrow> (Inl e, st1)
             | Inr None \<Rightarrow> (Inr None, st1)
             | Inr (Some q) \<Rightarrow>
                 (case live_inputs env m yes q asof st1 of (r, st2) \<Rightarrow> (rbind r (\<lambda>i. Inr (Some i)), st2))))"

definition market_resolver_live :: "live_state \<Rightarrow> string \<Rightarrow> market_info option" where
  "market_resolver_live st k = map_option (\<lambda>m. \<lparr>end_date_iso = lm_end_date_iso m\<rparr>) (dget (lt_known st) k)"

section \<open>What a tick is given\<close>

lemma dget_dset_keeps: "dget d k \<noteq> None \<Longrightarrow> dget (dset j v d) k \<noteq> None"
  by (cases "j = k") (simp_all add: dget_dset)

lemma scan_known:
  assumes "scan env ms us st = (Inr usable, st')"
  shows "lt_snaps st' = lt_snaps st \<and> (\<forall>k. dget (lt_known st) k \<noteq> None \<longrightarrow> dget (lt_known st') k \<noteq> None) \<and>
    (\<forall>x \<in> set usable. x \<in> set us \<or>
       fst x \<in> set ms \<and> orient env (fst x) = Inr (Some (snd x)) \<and> dget (lt_known st') (lm_market_id (fst x)) \<noteq> None)"
  using assms
proof (induction ms arbitrary: us st)
  case (Cons m ms)
  define st1 where "st1 = st\<lparr>lt_known := dset (lm_market_id m) m (lt_known st)\<rparr>"
  have st1: "lt_snaps st1 = lt_snaps st" "dget (lt_known st1) (lm_market_id m) \<noteq> None"
    "dget (lt_known st) k \<noteq> None \<Longrightarrow> dget (lt_known st1) k \<noteq> None" for k
    by (simp_all add: st1_def dget_dset_keeps dget_dset)
  obtain o' where o: "orient env m = Inr o'" using Cons.prems by (cases "orient env m") (simp_all add: Let_def)
  have run: "scan env ms (case o' of None \<Rightarrow> us | Some yes \<Rightarrow> us @ [(m, yes)]) st1 = (Inr usable, st')"
    using Cons.prems o by (cases o') (simp_all add: Let_def st1_def)
  note ih = Cons.IH [OF run]
  have "dget (lt_known st') (lm_market_id m) \<noteq> None" using ih st1(2) by blast
  moreover have "x \<in> set us \<or> x = (m, yes) \<and> o' = Some yes"
    if "x \<in> set (case o' of None \<Rightarrow> us | Some yes \<Rightarrow> us @ [(m, yes)])" "yes = snd x" for x yes
    using that by (cases o') auto
  ultimately have "\<forall>x \<in> set usable. x \<in> set us \<or> fst x \<in> set (m # ms) \<and> orient env (fst x) = Inr (Some (snd x)) \<and>
      dget (lt_known st') (lm_market_id (fst x)) \<noteq> None"
    using ih o by fastforce
  moreover have "lt_snaps st' = lt_snaps st" using ih st1(1) by simp
  moreover have "\<forall>k. dget (lt_known st) k \<noteq> None \<longrightarrow> dget (lt_known st') k \<noteq> None" using ih st1(3) by blast
  ultimately show ?case by blast
qed auto

text \<open>A tick bets on a market that the discovery named and the orientation accepted; the market is known afterwards, so the
  executor can date it; the price and the fill are the middle of the YES book; and the scores are those of the source over
  the market's own slug and points, turned exactly when the slug's first player is the NO side.\<close>

theorem live_inputs_sound:
  assumes "inputs_for_live env asof n st = (Inr (Some i), st')"
  shows "\<exists>m yes q sigs. m \<in> set (discover env) \<and> orient env m = Inr (Some yes) \<and>
    quote_token env (lm_yes_token_id m) = Inr (Some q) \<and> ti_market_id i = lm_market_id m \<and>
    market_resolver_live st' (ti_market_id i) \<noteq> None \<and> ti_price i = pq_mid q \<and> ti_fill_price i = Some (pq_mid q) \<and>
    signals_for (li_source env) (the (dget (lt_snaps st') (lm_market_id m))) asof = Inr sigs \<and>
    ti_signals i = (if yes then sigs else flipped sigs)"
proof -
  obtain usable st1 where sc: "scan env (discover env) [] st = (Inr usable, st1)" "usable \<noteq> []"
    using assms by (auto simp: inputs_for_live_def split: prod.splits sum.splits if_splits)
  define m yes where "m = fst (usable ! (n mod length usable))" and "yes = snd (usable ! (n mod length usable))"
  have my: "usable ! (n mod length usable) = (m, yes)" by (simp add: m_def yes_def)
  then have "(m, yes) \<in> set usable" using sc(2) nth_mem [of "n mod length usable" usable] by simp
  then have m: "m \<in> set (discover env)" "orient env m = Inr (Some yes)" "dget (lt_known st1) (lm_market_id m) \<noteq> None"
    using scan_known [OF sc(1)] by auto
  obtain q where q: "quote_token env (lm_yes_token_id m) = Inr (Some q)"
    using assms sc by (auto simp: inputs_for_live_def my split: sum.splits option.splits)
  have run: "live_inputs env m yes q asof st1 = (Inr i, st')"
    using assms sc q by (auto simp: inputs_for_live_def my rbind_eq_Inr split: prod.splits)
  obtain st2 where st2: "append_mid env m asof (if yes then pq_mid q else fsub fone (pq_mid q)) st1 = (Inr (), st2)" "st' = st2"
    using run by (auto simp: live_inputs_def split: prod.splits sum.splits)
  have known: "lt_known st' = lt_known st1" using st2 by (auto simp: append_mid_def Let_def split: sum.splits)
  obtain sigs where "signals_for (li_source env) (the (dget (lt_snaps st') (lm_market_id m))) asof = Inr sigs"
      "i = \<lparr>ti_market_id = lm_market_id m, ti_signals = (if yes then sigs else flipped sigs), ti_price = pq_mid q,
        ti_liquidity_cap_usd = pq_liquidity_usd q, ti_cross_market_signal = fzero, ti_fill_price = Some (pq_mid q),
        ti_fee_bps = Some (li_fee_bps env), ti_half_spread_frac = Some (pq_half_spread_frac q)\<rparr>"
    using run st2 by (auto simp: live_inputs_def rbind_eq_Inr)
  then show ?thesis using m q known
    by (intro exI [of _ m] exI [of _ yes] exI [of _ q] exI [of _ sigs]) (simp add: market_resolver_live_def)
qed

lemma flipped_usable: "list_all (\<lambda>(n, s). usable_signal s) sigs \<Longrightarrow> list_all (\<lambda>(n, s). usable_signal s) (flipped sigs)"
proof -
  have "usable_signal s \<Longrightarrow> usable_signal (s\<lparr>score := fneg (score s)\<rparr>)" for s
    by (cases "score s") (auto simp: usable_signal_def signal_ok_def f64_minus)
  then show "list_all (\<lambda>(n, s). usable_signal s) sigs \<Longrightarrow> list_all (\<lambda>(n, s). usable_signal s) (flipped sigs)"
    by (auto simp: flipped_def list_all_iff)
qed

end
