(* ===== verification/Spec2Isabelle.thy ===== *)
theory Spec2Isabelle
  imports Decision CostGuard Pressure Tribute Poller Chain Executor WeightDelta LoopAltar Supervisor Reconciler Learner Runner Schedule Season Genome Holdout Baselines Recorder Journey LiveInput
begin

text \<open>
  A verification development for Autopoiesis (\<open>agent/\<close>), an agent that bets on prediction markets, learns from
  what its bets pay, pays for its own existence and dies when its breath runs out.

  \<^bold>\<open>The program.\<close>  A life is a loop (\<open>runtime/sandbox_phase2_loop.py\<close>).  A tick drains the approved weight
  changes, asks the tick source for a market, fuses five engine signals into a decision
  (\<open>engines/decision.py\<close>), hands a bet to a records-only executor (\<open>data/polymarket_sandbox_executor.py\<close>), polls
  for settlements (\<open>runtime/sandbox_settlement_poller.py\<close>), which feeds the gradient learner
  (\<open>engines/weight_updater.py\<close>) and the chain (\<open>runtime/rh_chain_adapter.py\<close>), reads the breath back, logs the
  decision, saves a snapshot (\<open>data/sandbox_state.py\<close>), pays rent, and dies, bargains
  (\<open>runtime/tribute.py\<close>) or reflects.  Around it the server (\<open>server/runner.py\<close>,
  \<open>runtime/incarnation_supervisor.py\<close>) starts, stops and reincarnates lives, the reconciler
  (\<open>ops/settlement_reconciler.py\<close>) checks the chain against the settlements, and the survival season
  (\<open>backtest/survival_season.py\<close>) replays cached markets through a sequence of lives.

  \<^bold>\<open>The library.\<close>

  \<^item> \<open>Prelude\<close>: exceptions and results, insertion-ordered dictionaries, state-passing programs, the collections.
    \<open>PyFloat\<close>: binary64 over the rationals, with the rounding lemmas every bound below rests on.
    \<open>PyText\<close>: stripping and the decimal grammar of \<open>float(text)\<close>.
  \<^item> \<open>CoreState\<close> (\<open>core/state.py\<close>, \<open>engines/base.py\<close>): phases, actions, weights and signals with their validators.
  \<^item> \<open>Decision\<close> (\<open>engines/decision.py\<close>): fusion, direction, the storm-conditional edge gate, Kelly sizing, the
    four caps, exploration.  A decision is total, respects every cap, and without exploration it equals the
    plain engine and storms only tighten it.
  \<^item> \<open>CostGuard\<close>, \<open>Pressure\<close>, \<open>Tribute\<close> (\<open>llm/cost_guard.py\<close>, \<open>core/pressure_monitor.py\<close>,
    \<open>runtime/tribute.py\<close>): the budget, the desperate-mode latch, the price of a bargain.
  \<^item> \<open>Ledger\<close>, \<open>Settlement\<close>, \<open>Executor\<close>, \<open>Poller\<close>, \<open>Books\<close>: the rows of the append-only files and their reader,
    the projection of a market payload, orders, settlements; a sound ledger settles nothing twice.
  \<^item> \<open>Chain\<close>: the adapter with nonces and unit conversion over an abstract contract, its in-memory contract, and
    the scalar adapter; the locale of a monotone breath is interpreted on both.
  \<^item> \<open>StateErr\<close>, \<open>WeightDelta\<close>: the state-and-exception programs of the loop and the queue of approved changes
    (\<open>runtime/agent_runner.py\<close>) with the renormalisation of every axis.
  \<^item> \<open>LoopState\<close>, \<open>Loop\<close>: the loop object with its files and collaborators, and every step of it.  \<open>LoopFrames\<close> says
    what each step can touch; \<open>LoopLife\<close> follows the decision log through ticks that return, raise, and restarts;
    \<open>LoopBooks\<close> the open set and \<open>LoopMoney\<close> the bankroll against the ledger; \<open>LoopBreath\<close> the breath against
    the chain; \<open>LoopRun\<close> the driver; \<open>LoopRestart\<close> what a new process finds; \<open>LoopSession\<close> and \<open>LoopAltar\<close> a whole
    run and a whole bargain.  \<open>LoopDemo\<close> is a small concrete world for the witnesses.
  \<^item> \<open>Supervisor\<close> (\<open>runtime/incarnation_supervisor.py\<close>, the builder of a life in \<open>server/main.py\<close>): lineages of lives.
  \<^item> \<open>Reconciler\<close> (\<open>ops/settlement_reconciler.py\<close>): attestations against settlements.
  \<^item> \<open>Learner\<close> (\<open>engines/weight_updater.py\<close>, \<open>backtest/settlement_learner.py\<close>): six parameters moved in logit space.
  \<^item> \<open>ErrorText\<close>, \<open>Runner\<close> (\<open>server/runner.py\<close>): the error file, and the start, stop and sweep handlers as a step
    relation of the event loop.
  \<^item> \<open>Schedule\<close>, \<open>Season\<close> (\<open>backtest/survival_season.py\<close> with the rows of \<open>cached_sweep.py\<close> and the snapshots of
    \<open>historical_fetcher.py\<close>): the schedule of decisions and settlement checkpoints, its clocks, and the lives of a
    season, over the interface \<open>life_player\<close> that the loop implements.
  \<^item> \<open>Baselines\<close> (\<open>backtest/cached_sweep.py\<close>, \<open>survival_season.py\<close>): the replay profit, proved to be the production
    one without execution costs; the frozen twin, proved to decide like the loop; the archetypes.  \<open>Recorder\<close>: what the
    season records of settlements, deaths and hooks.  \<open>Journey\<close>: down-sampling, and the journey with the physics
    checks that only a learner can fail.
  \<^item> \<open>Genome\<close>, \<open>Holdout\<close> (\<open>backtest/reincarnation.py\<close>): the changes a life hands to the next one, their classifier
    and both appliers; the chronological split, the paired time shift, participation by thirds.
  \<^item> \<open>Tennis\<close> (\<open>data/sources/tennis_sackmann.py\<close>, \<open>data/etl/pit_correct.py\<close>, \<open>engines/tennis_technical.py\<close>,
    \<open>backtest/tennis_match_resolver.py\<close>), \<open>SignalSource\<close>, \<open>SignalBounds\<close> (\<open>backtest/real_signal_source.py\<close>) and \<open>LiveInput\<close>
    (\<open>runtime/live_tick_input_source.py\<close>): the corpus and its point-in-time facets, the resolution of a slug, the five
    signals, and the inputs of a live tick.  The signals depend only on what is dated up to the cutoff
    (\<open>signals_see_the_past_only\<close>), over a corpus in order they never raise and stay in range
    (\<open>signals_always_usable\<close>), and a live tick bets on a discovered market the executor can date
    (\<open>live_inputs_sound\<close>).

  \<^bold>\<open>How code becomes definitions.\<close>  A method that can raise returns \<open>'a res\<close>; a method that writes an object before
  it raises also returns the object, so an exception leaves exactly the assignments made before it.  Floats are binary64
  throughout, NaN and infinities included; \<open>nv\<close> says whether a NaN passes a Pydantic bound and every result
  holds for both answers.  A file is the list of its lines, a torn line is \<open>None\<close>.  What lies outside the
  repository (gamma and web3 transports, hashing, JSON and ISO parsing, the C mathematical library, clocks, dice,
  language models) is an argument; what is needed of it is a hypothesis of the theorem, and the witness instantiates it.

  \<^bold>\<open>Termination.\<close>  Recursion is structural or has its measure.  \<open>run_loop\<close>, the driver of a life, may run for ever and is
  a \<open>partial_function (option)\<close>: \<open>bounded_run\<close> shows that \<open>max_ticks\<close> ends it, \<open>forced_run_dies_at_once\<close> that the
  terminal switch does.  The supervisor is a recursion over the incarnations left, the season over the lives left.

  \<^bold>\<open>Not modelled.\<close>  File locking and fsync, sockets, HTTP routes and the web dashboard, prompts and answers of the language
  models and what is parsed from them, the feeds and the training and calibration scripts, logging.  The Solidity contracts are
  in another language; their surface is the parameter of \<open>Chain\<close>.  Of the survival season and of the
  reincarnation experiment the command lines, the artifacts and the AI orchestration are left out.  The manifest lists every part with its reason.
\<close>

end
